(* ===== verification/Net_Prelude.thy ===== *)
theory Net_Prelude
  imports Main "HOL-Library.Word" "HOL-Library.Multiset"
begin

text \<open>
  Shared vocabulary of the development: the machine types of the C++ sources, the failures a C++
  call can end in, \<open>std::vector\<close> access with its range made explicit, decimal rendering of
  numbers (\<open>std::to_string\<close>, \<open>fmt\<close>'s \<open>{}\<close>), and the interfaces (locales) several
  components implement: a first-in first-out queue and a table indexed by file descriptors.
\<close>

unbundle bit_operations_syntax

section \<open>Machine types\<close>

type_synonym u8 = "8 word"
type_synonym u16 = "16 word"
type_synonym u32 = "32 word"
type_synonym u64 = "64 word"

text \<open>
  A C++ \<open>int\<close> used as a file descriptor or a priority is an \<open>int\<close>; where a conversion or
  an addition can leave the 32 bits the conversion is written out as a word operation.
\<close>

type_synonym fd = int


lemma unat_u64_less: "unat (w :: u64) < 2 ^ 64"
  using unsigned_less [of w, where ?'a = nat] by simp

lemma unat_of_nat_u64: "n < 2 ^ 64 \<Longrightarrow> unat (word_of_nat n :: u64) = n"
  by (simp only: unat_of_nat len_num1 len_num0 len_bit0) simp

lemma unat_uminus_u64:
  assumes "0 < n" and "n < 2 ^ 64"
  shows "unat (- word_of_nat n :: u64) = 2 ^ 64 - n"
proof -
  have n: "unat (word_of_nat n :: u64) = n" using assms(2) by (rule unat_of_nat_u64)
  have "unat (0 - word_of_nat n :: u64) = 2 ^ 64 - n"
    using assms n by (simp only: unat_sub_if_size) (simp add: word_size)
  then show ?thesis by simp
qed


section \<open>Failures as values\<close>

text \<open>
  The exceptions the sources throw, a failed \<open>assert\<close>, and the undefined behaviours the code
  can run into (each with its own constructor, so that a theorem can say which one is excluded).
  \<open>NoReturn\<close> stands for a call that never comes back, \<open>Terminated\<close> for \<open>std::terminate\<close> and
  \<open>abort\<close>, \<open>LibraryError\<close> for an exception of a third-party library that the sources do not catch.
\<close>

datatype lon_error =
    InvalidArgument
  | ExecFailed
  | KeyNotFound
  | ConvertFailed
  | BadAnyCast
  | AssertFailed
  | OutOfBounds
  | NullDeref
  | EraseEnd
  | DeadContext
  | UseAfterFree
  | NoReturn
  | DivByZero
  | BadWeakPtr
  | Terminated
  | LibraryError
  | DataRace

type_synonym 'a res = "lon_error + 'a"

abbreviation Ok :: "'a \<Rightarrow> 'a res" where
  "Ok x \<equiv> Inr x"

abbreviation Err :: "lon_error \<Rightarrow> 'a res" where
  "Err e \<equiv> Inl e"

definition res_bind :: "'a res \<Rightarrow> ('a \<Rightarrow> 'b res) \<Rightarrow> 'b res" where
  "res_bind m f = (case m of Inl e \<Rightarrow> Inl e | Inr x \<Rightarrow> f x)"

named_theorems res_simps \<open>evaluation of fallible calls\<close>
named_theorems vec_simps \<open>vector access\<close>
named_theorems invs \<open>preservation of component invariants\<close>

lemma res_bind_simps [simp, res_simps]:
  "res_bind (Ok x) f = f x"
  "res_bind (Err e) f = Err e"
  by (simp_all add: res_bind_def)

lemma res_bind_Ok_iff: "res_bind m f = Ok y \<longleftrightarrow> (\<exists>x. m = Ok x \<and> f x = Ok y)"
  by (auto simp: res_bind_def split: sum.splits)

lemma res_bind_OkE [elim!]:
  assumes "res_bind m f = Ok y"
  obtains x where "m = Ok x" and "f x = Ok y"
  using assms by (auto simp: res_bind_Ok_iff)

text \<open>A loop over a range whose body may fail.\<close>

fun fold_res :: "('a \<Rightarrow> 's \<Rightarrow> 's res) \<Rightarrow> 'a list \<Rightarrow> 's \<Rightarrow> 's res" where
  "fold_res f [] s = Ok s"
| "fold_res f (x # xs) s = res_bind (f x s) (fold_res f xs)"

lemma fold_res_append: "fold_res f (xs @ ys) s = res_bind (fold_res f xs s) (fold_res f ys)"
proof (induction xs arbitrary: s)
  case (Cons x xs)
  then show ?case by (cases "f x s") simp_all
qed simp

lemma fold_res_keeps:
  assumes "\<And>x s s'. f x s = Ok s' \<Longrightarrow> g s' = g s"
  shows "fold_res f xs s = Ok s' \<Longrightarrow> g s' = g s"
  by (induction xs arbitrary: s) (auto dest: assms)

definition is_ok :: "'a res \<Rightarrow> bool" where
  "is_ok r = (case r of Inl _ \<Rightarrow> False | Inr _ \<Rightarrow> True)"

lemma is_ok_simps [simp, res_simps]: "is_ok (Ok x)" "\<not> is_ok (Err e)"
  by (simp_all add: is_ok_def)


section \<open>Vectors\<close>

text \<open>\<open>v[i]\<close> with a signed index: outside the vector the access is undefined.\<close>

definition vec_get :: "'a list \<Rightarrow> int \<Rightarrow> 'a res" where
  "vec_get v i = (if 0 \<le> i \<and> i < int (length v) then Ok (v ! nat i) else Err OutOfBounds)"

definition vec_set :: "'a list \<Rightarrow> int \<Rightarrow> 'a \<Rightarrow> 'a list res" where
  "vec_set v i x = (if 0 \<le> i \<and> i < int (length v) then Ok (v[nat i := x]) else Err OutOfBounds)"

text \<open>\<open>std::vector::resize(n, d)\<close>.\<close>

definition vec_resize :: "nat \<Rightarrow> 'a \<Rightarrow> 'a list \<Rightarrow> 'a list" where
  "vec_resize n d v = take n v @ replicate (n - length v) d"

text \<open>
  \<open>static_cast<size_t>(fd * 1.5)\<close>: for a descriptor \<open>fd \<ge> 0\<close> the product is exact in
  \<open>double\<close> and the conversion truncates. A negative product is outside the range of
  \<open>size_t\<close> and the conversion undefined.
\<close>

definition grow15 :: "fd \<Rightarrow> nat res" where
  "grow15 i = (if i < 0 then Err OutOfBounds else Ok (nat (3 * i div 2)))"

lemma length_vec_resize [simp, vec_simps]: "length (vec_resize n d v) = n"
  by (simp add: vec_resize_def)

lemma nth_vec_resize [vec_simps]:
  "i < n \<Longrightarrow> vec_resize n d v ! i = (if i < length v then v ! i else d)"
  by (auto simp: vec_resize_def nth_append)

lemma vec_get_Ok_iff [vec_simps]:
  "vec_get v i = Ok x \<longleftrightarrow> 0 \<le> i \<and> i < int (length v) \<and> x = v ! nat i"
  by (auto simp: vec_get_def)

lemma vec_set_Ok_iff [vec_simps]:
  "vec_set v i x = Ok w \<longleftrightarrow> 0 \<le> i \<and> i < int (length v) \<and> w = v[nat i := x]"
  by (auto simp: vec_set_def)

lemma grow15_above: "2 \<le> i \<Longrightarrow> \<exists>n. grow15 i = Ok n \<and> nat i < n"
  by (auto simp: grow15_def)


section \<open>Decimal rendering\<close>

definition digit_char :: "nat \<Rightarrow> char" where
  "digit_char d = ''0123456789'' ! d"

fun dec_str :: "nat \<Rightarrow> string" where
  "dec_str n = (if n < 10 then [digit_char n] else dec_str (n div 10) @ [digit_char (n mod 10)])"

declare dec_str.simps [simp del]

definition is_digit :: "char \<Rightarrow> bool" where
  "is_digit c \<longleftrightarrow> c \<in> set ''0123456789''"

definition digit_val :: "char \<Rightarrow> nat" where
  "digit_val c = of_char c - 48"

definition dec_val :: "string \<Rightarrow> nat" where
  "dec_val s = foldl (\<lambda>n c. 10 * n + digit_val c) 0 s"

lemma less_10_cases: "(d :: nat) < 10 \<Longrightarrow>
  d = 0 \<or> d = 1 \<or> d = 2 \<or> d = 3 \<or> d = 4 \<or> d = 5 \<or> d = 6 \<or> d = 7 \<or> d = 8 \<or> d = 9"
  by arith

lemma digit_char_digit [simp]: "d < 10 \<Longrightarrow> is_digit (digit_char d)"
  by (drule less_10_cases) (auto simp: is_digit_def digit_char_def)

lemma digit_val_char [simp]: "d < 10 \<Longrightarrow> digit_val (digit_char d) = d"
  by (drule less_10_cases) (auto simp: digit_val_def digit_char_def)

lemma dec_val_snoc [simp]: "dec_val (s @ [c]) = 10 * dec_val s + digit_val c"
  by (simp add: dec_val_def)

lemma dec_val_dec_str [simp]: "dec_val (dec_str n) = n"
proof (induction n rule: dec_str.induct)
  case (1 n)
  show ?case
  proof (cases "n < 10")
    case True
    then show ?thesis by (simp add: dec_str.simps [of n] dec_val_def)
  next
    case False
    with "1.IH" show ?thesis by (simp add: dec_str.simps [of n])
  qed
qed

lemma dec_str_inject [simp]: "dec_str m = dec_str n \<longleftrightarrow> m = n"
  by (metis dec_val_dec_str)

lemma dec_str_digits: "c \<in> set (dec_str n) \<Longrightarrow> is_digit c"
proof (induction n rule: dec_str.induct)
  case (1 n)
  then show ?case by (cases "n < 10") (auto simp: dec_str.simps [of n])
qed

lemma dec_str_nonempty [simp]: "dec_str n \<noteq> []"
  by (simp add: dec_str.simps [of n])

lemma length_dec_str: "0 < k \<Longrightarrow> n < 10 ^ k \<Longrightarrow> length (dec_str n) \<le> k"
proof (induction n arbitrary: k rule: dec_str.induct)
  case (1 n)
  show ?case
  proof (cases "n < 10")
    case True
    with "1.prems" show ?thesis by (simp add: dec_str.simps [of n])
  next
    case False
    then obtain j where k: "k = Suc j" and j: "0 < j"
      using "1.prems" by (cases k; cases "k - 1") auto
    then have "n div 10 < 10 ^ j"
      using "1.prems" by (simp add: less_mult_imp_div_less mult.commute)
    with "1.IH" False j have "length (dec_str (n div 10)) \<le> j" by simp
    with False k show ?thesis by (simp add: dec_str.simps [of n])
  qed
qed

text \<open>A signed number as \<open>operator<<\<close> and \<open>std::to_string\<close> write it.\<close>

definition decimal :: "int \<Rightarrow> string" where
  "decimal v = (if v < 0 then CHR ''-'' # dec_str (nat (- v)) else dec_str (nat v))"

lemma decimal_uint: "decimal (uint w) = dec_str (unat w)"
  by (simp add: decimal_def)

lemma decimal_inject [simp]: "decimal i = decimal j \<longleftrightarrow> i = j"
proof
  have "CHR ''-'' \<notin> set (dec_str n)" for n using dec_str_digits [of "CHR ''-''" n] by (auto simp: is_digit_def)
  then have m: "CHR ''-'' # s \<noteq> dec_str n" for s n by (metis list.set_intros(1))
  assume "decimal i = decimal j"
  then show "i = j" using m [symmetric] m by (auto simp: decimal_def split: if_splits)
qed simp

definition num_char :: "char \<Rightarrow> bool" where
  "num_char c \<longleftrightarrow> is_digit c \<or> c = CHR ''-''"

lemma decimal_chars: "c \<in> set (decimal i) \<Longrightarrow> num_char c"
  by (auto simp: decimal_def num_char_def dest: dec_str_digits split: if_splits)

lemma decimal_nonempty [simp]: "decimal i \<noteq> []"
  by (simp add: decimal_def)

text \<open>A number in front of something that does not continue it can be read back.\<close>

lemma decimal_append_inject:
  assumes "r = [] \<or> \<not> num_char (hd r)" and "r' = [] \<or> \<not> num_char (hd r')" and "decimal i @ r = decimal j @ r'"
  shows "i = j \<and> r = r'"
proof -
  have t: "takeWhile num_char (decimal k @ u) = decimal k" if "u = [] \<or> \<not> num_char (hd u)" for k u
    using that decimal_chars [of _ k] by (cases u) (auto simp: takeWhile_append2)
  have "decimal i = decimal j" using t [OF assms(1), of i] t [OF assms(2), of j] assms(3) by simp
  with assms(3) show ?thesis by simp
qed


section \<open>Interfaces\<close>

text \<open>
  A first-in first-out queue: what \<open>Scheduler::ready_executors_\<close> (a \<open>std::list\<close>) and
  \<open>AsyncFlusher::log_pool_\<close> (a \<open>std::queue\<close>) promise their clients. \<open>contents\<close> is the
  abstract view.
\<close>

locale fifo_queue =
  fixes push :: "'a \<Rightarrow> 'q \<Rightarrow> 'q"
    and pop :: "'q \<Rightarrow> ('a \<times> 'q) option"
    and contents :: "'q \<Rightarrow> 'a list"
  assumes push_contents: "contents (push x q) = contents q @ [x]"
    and pop_None: "pop q = None \<longleftrightarrow> contents q = []"
    and pop_Some: "pop q = Some (x, q') \<Longrightarrow> contents q = x # contents q'"
begin

lemma pop_nonempty: "contents q = x # xs \<Longrightarrow> \<exists>q'. pop q = Some (x, q') \<and> contents q' = xs"
proof (cases "pop q")
  case None
  then show "contents q = x # xs \<Longrightarrow> ?thesis" by (simp add: pop_None)
next
  case (Some p)
  then show "contents q = x # xs \<Longrightarrow> ?thesis"
    by (cases p) (auto dest: pop_Some)
qed

lemma push_all_contents: "contents (fold push xs q) = contents q @ xs"
  by (induction xs arbitrary: q) (simp_all add: push_contents)

lemma fifo_order:
  assumes "contents q = []"
  shows "\<exists>q'. pop (fold push (x # xs) q) = Some (x, q') \<and> contents q' = xs"
  by (rule pop_nonempty) (use assms in \<open>simp add: push_all_contents push_contents\<close>)

end

text \<open>
  A table of optional entries indexed by descriptors: what \<open>_FdManager\<close> promises the
  coroutine versions of the system calls. \<open>dom_ok\<close> says which descriptors the provider serves.
\<close>

locale fd_table =
  fixes put :: "fd \<Rightarrow> 'c \<Rightarrow> 't \<Rightarrow> 't res"
    and get :: "fd \<Rightarrow> 't \<Rightarrow> 'c option res"
    and del :: "fd \<Rightarrow> 't \<Rightarrow> 't res"
    and dom_ok :: "fd \<Rightarrow> bool"
    and empty_table :: 't
  assumes get_empty: "dom_ok i \<Longrightarrow> get i empty_table = Ok None"
    and put_total: "dom_ok i \<Longrightarrow> \<exists>t'. put i c t = Ok t'"
    and del_total: "dom_ok i \<Longrightarrow> \<exists>t'. del i t = Ok t'"
    and get_put: "dom_ok i \<Longrightarrow> dom_ok j \<Longrightarrow> put i c t = Ok t' \<Longrightarrow>
      get j t' = (if j = i then Ok (Some c) else get j t)"
    and get_del: "dom_ok i \<Longrightarrow> dom_ok j \<Longrightarrow> del i t = Ok t' \<Longrightarrow>
      get j t' = (if j = i then Ok None else get j t)"
begin

text \<open>The life of a descriptor: opened, looked up, closed.\<close>

lemma open_close:
  assumes "dom_ok i" and "put i c t = Ok t1" and "del i t1 = Ok t2"
  shows "get i t1 = Ok (Some c) \<and> get i t2 = Ok None"
  using assms by (auto dest: get_put [OF assms(1,1)] get_del [OF assms(1,1)])

lemma reopen:
  assumes "dom_ok i" and "put i c t = Ok t1" and "put i d t1 = Ok t2"
  shows "get i t2 = Ok (Some d)"
  using get_put [OF assms(1,1,3)] by simp

lemma others_untouched:
  assumes "dom_ok i" and "dom_ok j" and "j \<noteq> i" and "put i c t = Ok t1" and "del i t1 = Ok t2"
  shows "get j t2 = get j t"
  using get_put [OF assms(1,2,4)] get_del [OF assms(1,2,5)] assms(3) by simp

end

end
