(* ===== verification/Text_Util.thy ===== *)
theory Text_Util
  imports Net_Prelude
begin

text \<open>
  The string helpers every other part uses: \<open>toHex\<close> (include/base/bytes.h),
  \<open>splitStringPiece\<close> (src/base/string_piece.cpp) and \<open>join\<close> (include/base/lstring.h).
\<close>

section \<open>Hexadecimal dump\<close>

definition lut :: string where
  "lut = ''0123456789abcdef''"

text \<open>The loop writes two characters of a preallocated string per input byte.\<close>

function toHex_loop :: "u8 list \<Rightarrow> nat \<Rightarrow> string \<Rightarrow> string" where
  "toHex_loop src i out =
     (if i < length src
      then let c = src ! i;
               out1 = out[i * 2 + 0 := lut ! unat (drop_bit 4 c)];
               out2 = out1[i * 2 + 1 := lut ! unat (c AND 15)]
           in toHex_loop src (i + 1) out2
      else out)"
  by pat_completeness auto
termination by (relation "measure (\<lambda>(src, i, out). length src - i)") auto

declare toHex_loop.simps [simp del]

definition toHex :: "u8 list \<Rightarrow> string" where
  "toHex src = toHex_loop src 0 (replicate (length src * 2) (CHR 0x00))"

text \<open>Reference: each byte is its two nibbles. And the reader of such a dump.\<close>

definition hex_byte :: "u8 \<Rightarrow> string" where
  "hex_byte c = [lut ! unat (drop_bit 4 c), lut ! unat (c AND 15)]"

definition nibble_val :: "char \<Rightarrow> nat" where
  "nibble_val c = (if of_char c < (58::nat) then of_char c - 48 else of_char c - 87)"

fun unhex :: "string \<Rightarrow> u8 list" where
  "unhex (h # l # rest) = word_of_nat (16 * nibble_val h + nibble_val l) # unhex rest"
| "unhex _ = []"

lemma less_16_cases: "(d :: nat) < 16 \<Longrightarrow> d = 0 \<or> d = 1 \<or> d = 2 \<or> d = 3 \<or> d = 4 \<or> d = 5 \<or> d = 6 \<or>
   d = 7 \<or> d = 8 \<or> d = 9 \<or> d = 10 \<or> d = 11 \<or> d = 12 \<or> d = 13 \<or> d = 14 \<or> d = 15"
  by arith

lemma nibble_val_lut [simp]: "d < 16 \<Longrightarrow> nibble_val (lut ! d) = d"
  by (drule less_16_cases) (auto simp: nibble_val_def lut_def)

lemma unat_high_nibble: "unat (drop_bit 4 (c :: u8)) = unat c div 16"
  by (simp add: drop_bit_eq_div unat_div)

lemma unat_low_nibble: "unat (c AND 15 :: u8) = unat c mod 16"
proof -
  have "c AND 15 = take_bit 4 c"
    by (simp add: take_bit_eq_mask mask_eq_exp_minus_1)
  then show ?thesis
    by (simp add: take_bit_eq_mod unat_mod)
qed

lemma nibble_bounds [simp]: "unat (c :: u8) div 16 < 16" "unat (c :: u8) mod 16 < 16"
proof -
  have "unat c < 256" using unsigned_less [of c] by simp
  then show "unat c div 16 < 16" by (simp add: less_mult_imp_div_less)
qed simp

lemma unhex_hex_byte [simp]: "unhex (hex_byte c @ rest) = c # unhex rest"
  by (simp add: hex_byte_def unat_high_nibble unat_low_nibble)

text \<open>
  The loop overwrites positions \<open>2i\<close> and \<open>2i + 1\<close>: what it has already written is kept and
  every remaining pair of the buffer is replaced.
\<close>

lemma toHex_loop_eq:
  assumes "length out = length src * 2" and "i \<le> length src"
  shows "toHex_loop src i out = take (i * 2) out @ concat (map hex_byte (drop i src))"
  using assms
proof (induction src i out rule: toHex_loop.induct)
  case (1 src i out)
  show ?case
  proof (cases "i < length src")
    case False
    with "1.prems" have "i = length src" by simp
    with "1.prems" show ?thesis by (simp add: toHex_loop.simps [of src "length src"])
  next
    case True
    let ?c = "src ! i"
    let ?o1 = "out[i * 2 + 0 := lut ! unat (drop_bit 4 ?c)]"
    let ?o2 = "?o1[i * 2 + 1 := lut ! unat (?c AND 15)]"
    have "toHex_loop src (i + 1) ?o2
        = take ((i + 1) * 2) ?o2 @ concat (map hex_byte (drop (i + 1) src))"
      using "1.IH" True "1.prems" by simp
    moreover have "take ((i + 1) * 2) ?o2 = take (i * 2) out @ hex_byte ?c"
      using True "1.prems" by (simp add: hex_byte_def take_Suc_conv_app_nth nth_list_update)
    moreover have "drop i src = ?c # drop (i + 1) src"
      using True by (simp add: Cons_nth_drop_Suc)
    ultimately show ?thesis using True by (simp add: toHex_loop.simps [of src i out] Let_def)
  qed
qed

lemma toHex_concat: "toHex src = concat (map hex_byte src)"
  by (simp add: toHex_def toHex_loop_eq)

lemma unhex_toHex: "unhex (toHex src) = src"
  unfolding toHex_concat by (induction src) simp_all

lemma length_toHex: "length (toHex src) = 2 * length src"
  unfolding toHex_concat by (induction src) (simp_all add: hex_byte_def)


section \<open>Splitting\<close>

text \<open>
  \<open>std::string_view::find(w, i)\<close> for \<open>i \<le> size\<close>: the first position from \<open>i\<close> on where
  \<open>w\<close> occurs, \<open>None\<close> for \<open>npos\<close>.
\<close>

fun occurs_at :: "string \<Rightarrow> string \<Rightarrow> bool" where
  "occurs_at [] s = True"
| "occurs_at (c # w) [] = False"
| "occurs_at (c # w) (d # s) = (c = d \<and> occurs_at w s)"

function find_from :: "string \<Rightarrow> string \<Rightarrow> nat \<Rightarrow> nat option" where
  "find_from s w i =
     (if length s < i then None
      else if occurs_at w (drop i s) then Some i
      else find_from s w (Suc i))"
  by pat_completeness auto
termination by (relation "measure (\<lambda>(s, w, i). Suc (length s) - i)") auto

declare find_from.simps [simp del]

lemma find_from_ge: "find_from s w i = Some j \<Longrightarrow> i \<le> j"
proof (induction s w i rule: find_from.induct)
  case (1 s w i)
  then show ?case by (subst (asm) find_from.simps) (auto split: if_splits dest: "1.IH")
qed

text \<open>
  A piece is a \<open>string_view\<close>: an offset into \<open>str_v\<close> and a length. The length of every piece
  but the last is \<open>current - index - split_world_size + 1\<close> in \<open>size_t\<close>, which wraps.
\<close>

type_synonym piece = "nat \<times> u64"

definition piece_len :: "nat \<Rightarrow> nat \<Rightarrow> nat \<Rightarrow> u64" where
  "piece_len current index k = word_of_nat current - word_of_nat index - word_of_nat k + 1"

function split_loop :: "string \<Rightarrow> string \<Rightarrow> nat \<Rightarrow> piece list" where
  "split_loop s w index =
     (if index < length s
      then (case find_from s w index of
              Some current \<Rightarrow>
                (index, piece_len current index (length w)) # split_loop s w (current + 1)
            | None \<Rightarrow> [(index, word_of_nat (length s - index))])
      else [])"
  by pat_completeness auto
termination by (relation "measure (\<lambda>(s, w, i). length s - i)") (auto dest: find_from_ge)

declare split_loop.simps [simp del]

definition splitStringPiece :: "string \<Rightarrow> string \<Rightarrow> piece list" where
  "splitStringPiece str_v split_world =
     (if length split_world = 0 then [] else split_loop str_v split_world 0)"

text \<open>Reading a view: undefined when it reaches past the text it points into.\<close>

definition piece_str :: "string \<Rightarrow> piece \<Rightarrow> string res" where
  "piece_str s p = (case p of (i, n) \<Rightarrow>
     if i + unat n \<le> length s then Ok (take (unat n) (drop i s)) else Err OutOfBounds)"

section \<open>Joining\<close>

text \<open>The loop over all but the last element, then \<open>container.back()\<close>.\<close>

fun join_loop :: "string \<Rightarrow> string list \<Rightarrow> string" where
  "join_loop brk [] = []"
| "join_loop brk [x] = x"
| "join_loop brk (x # y # xs) = x @ brk @ join_loop brk (y # xs)"

definition join :: "string \<Rightarrow> string list \<Rightarrow> string" where
  "join brk container = (if container = [] then [] else join_loop brk container)"

text \<open>
  Reference for a one-character separator: cut at every occurrence; nothing follows a trailing
  separator.
\<close>

function split_ref :: "char \<Rightarrow> string \<Rightarrow> string list" where
  "split_ref c s =
     (if s = [] then []
      else case dropWhile (\<lambda>x. x \<noteq> c) s of
             [] \<Rightarrow> [s]
           | _ # rest \<Rightarrow> takeWhile (\<lambda>x. x \<noteq> c) s # split_ref c rest)"
  by pat_completeness auto
termination
  by (relation "measure (\<lambda>(c, s). length s)")
    (auto, metis length_Cons length_dropWhile_le less_eq_Suc_le)

declare split_ref.simps [simp del]

section \<open>Properties\<close>

lemma split_ref_Nil: "s \<noteq> [] \<Longrightarrow> dropWhile (\<lambda>x. x \<noteq> c) s = [] \<Longrightarrow> split_ref c s = [s]"
  by (subst split_ref.simps) (simp only: list.case if_False)

lemma split_ref_Cons: "dropWhile (\<lambda>x. x \<noteq> c) s = x # rest \<Longrightarrow>
    split_ref c s = takeWhile (\<lambda>x. x \<noteq> c) s # split_ref c rest"
  by (subst split_ref.simps) auto

lemma find_from_char:
  "i \<le> length s \<Longrightarrow> find_from s [c] i =
     (let n = length (takeWhile (\<lambda>x. x \<noteq> c) (drop i s))
      in if i + n < length s then Some (i + n) else None)"
proof (induction s "[c]" i rule: find_from.induct)
  case (1 s i)
  show ?case
  proof (cases "i = length s")
    case True
    then show ?thesis
      by (simp add: find_from.simps [of s "[c]" "length s"] find_from.simps [of s "[c]" "Suc (length s)"])
  next
    case False
    with "1.prems" have d: "drop i s = s ! i # drop (Suc i) s" and i: "i < length s"
      by (simp_all add: Cons_nth_drop_Suc)
    show ?thesis
    proof (cases "s ! i = c")
      case True
      with i d show ?thesis by (simp add: find_from.simps [of s "[c]" i])
    next
      case False
      with i d have "\<not> occurs_at [c] (drop i s)" by simp
      with "1.hyps" i have IH: "find_from s [c] (Suc i) =
          (let n = length (takeWhile (\<lambda>x. x \<noteq> c) (drop (Suc i) s))
           in if Suc i + n < length s then Some (Suc i + n) else None)" by simp
      have "find_from s [c] i = find_from s [c] (Suc i)"
        using \<open>\<not> occurs_at [c] (drop i s)\<close> i by (simp add: find_from.simps [of s "[c]" i])
      with IH d False show ?thesis by (simp add: Let_def)
    qed
  qed
qed

lemma piece_len_char:
  assumes "index \<le> current" and "current < 2 ^ 64"
  shows "unat (piece_len current index 1) = current - index"
proof -
  have "piece_len current index 1 = word_of_nat (current - index)"
    using assms(1) by (simp add: piece_len_def of_nat_diff)
  moreover have "current - index < 2 ^ 64" using assms by linarith
  then have "unat (word_of_nat (current - index) :: u64) = current - index"
    by (rule unat_of_nat_u64)
  ultimately show ?thesis by (simp only:)
qed

lemma split_loop_char:
  assumes "length s < 2 ^ 64"
  shows "map (piece_str s) (split_loop s [c] index) = map Ok (split_ref c (drop index s))"
  using assms
proof (induction s "[c]" index rule: split_loop.induct)
  case (1 s index)
  let ?d = "drop index s" and ?P = "\<lambda>x. x \<noteq> c"
  let ?n = "length (takeWhile ?P ?d)"
  show ?case
  proof (cases "index < length s")
    case False
    then show ?thesis by (simp add: split_loop.simps [of s "[c]" index] split_ref.simps [of c "[]"])
  next
    case i: True
    have n: "index + ?n \<le> length s"
      using length_takeWhile_le [of ?P ?d] i by simp
    have dw: "dropWhile ?P ?d = drop (index + ?n) s"
      using dropWhile_eq_drop [of ?P ?d] by (simp only: drop_drop add.commute)
    have tw: "takeWhile ?P ?d = take ?n ?d"
      by (rule takeWhile_eq_take)
    show ?thesis
    proof (cases "index + ?n < length s")
      case True
      then have find: "find_from s [c] index = Some (index + ?n)"
        using i find_from_char [of index s c] by (simp add: Let_def)
      have len: "unat (piece_len (index + ?n) index 1) = ?n"
        using True "1.prems" by (subst piece_len_char) simp_all
      have IH: "map (piece_str s) (split_loop s [c] (index + ?n + 1))
          = map Ok (split_ref c (drop (index + ?n + 1) s))"
        using "1.hyps" [OF i find] "1.prems" by simp
      have "dropWhile ?P ?d = s ! (index + ?n) # drop (index + ?n + 1) s"
        using Cons_nth_drop_Suc [OF True] dw by (simp only: Suc_eq_plus1)
      then have "split_ref c ?d = takeWhile ?P ?d # split_ref c (drop (index + ?n + 1) s)"
        by (rule split_ref_Cons)
      moreover have "piece_str s (index, piece_len (index + ?n) index 1) = Ok (takeWhile ?P ?d)"
        using len n tw by (simp add: piece_str_def)
      ultimately show ?thesis
        using i find IH by (simp add: split_loop.simps [of s "[c]" index])
    next
      case False
      with n have "dropWhile ?P ?d = []" using dw by simp
      then have "split_ref c ?d = [?d]" using i by (intro split_ref_Nil) simp_all
      moreover have "find_from s [c] index = None"
        using False i find_from_char [of index s c] by (simp add: Let_def)
      moreover have "length s - index < 2 ^ 64" using "1.prems" by linarith
      then have "unat (word_of_nat (length s - index) :: u64) = length s - index"
        by (rule unat_of_nat_u64)
      ultimately show ?thesis
        using i by (simp add: split_loop.simps [of s "[c]" index] piece_str_def)
    qed
  qed
qed

lemma split_ref_no_sep: "p \<in> set (split_ref c s) \<Longrightarrow> c \<notin> set p"
proof (induction c s rule: split_ref.induct)
  case (1 c s)
  then show ?case
    by (subst (asm) split_ref.simps)
      (auto split: if_splits list.splits dest: set_takeWhileD simp: dropWhile_eq_Nil_conv)
qed

lemma split_ref_nonempty: "s \<noteq> [] \<Longrightarrow> split_ref c s \<noteq> []"
  by (subst split_ref.simps) (simp split: list.splits)

lemma join_loop_Cons: "xs \<noteq> [] \<Longrightarrow> join_loop b (x # xs) = x @ b @ join_loop b xs"
  by (cases xs) simp_all

lemma join_split_ref: "s \<noteq> [] \<Longrightarrow> last s \<noteq> c \<Longrightarrow> join_loop [c] (split_ref c s) = s"
proof (induction c s rule: split_ref.induct)
  case (1 c s)
  show ?case
  proof (cases "dropWhile (\<lambda>x. x \<noteq> c) s")
    case Nil
    with "1.prems" have "split_ref c s = [s]"
      by (intro split_ref_Nil)
    then show ?thesis by simp
  next
    case (Cons x rest)
    then have x: "x = c" using hd_dropWhile [of "\<lambda>x. x \<noteq> c" s] by simp
    have s: "s = takeWhile (\<lambda>x. x \<noteq> c) s @ c # rest"
      using Cons x takeWhile_dropWhile_id [of "\<lambda>x. x \<noteq> c" s] by simp
    then have "rest \<noteq> []" and "last rest \<noteq> c"
      using "1.prems"(2) by (metis last_ConsL last_appendR list.distinct(1), metis last_ConsL last_ConsR last_appendR list.distinct(1))
    then have "join_loop [c] (split_ref c rest) = rest" and "split_ref c rest \<noteq> []"
      using "1.IH" "1.prems" Cons split_ref_nonempty by auto
    then show ?thesis
      using split_ref_Cons [OF Cons] s by (simp add: join_loop_Cons)
  qed
qed

text \<open>
  The hexadecimal dump of a byte string can be read back: \<open>toHex\<close> loses nothing, and it is
  exactly two characters per byte.
\<close>

theorem toHex_roundtrip: "unhex (toHex src) = src \<and> length (toHex src) = 2 * length src"
  by (simp add: unhex_toHex length_toHex)

text \<open>
  C18. Splitting at a one-character separator, the only use the code base makes of
  \<open>splitStringPiece\<close> (configuration keys at a dot): every piece is a readable view, no piece
  contains the separator, and joining the pieces with the separator gives the text back, for every
  non-empty text that does not end in the separator.
\<close>

theorem split_join_roundtrip:
  assumes "length s < 2 ^ 64" and "s \<noteq> []" and "last s \<noteq> c"
  shows "\<exists>ps. map (piece_str s) (splitStringPiece s [c]) = map Ok ps
            \<and> join [c] ps = s \<and> (\<forall>p \<in> set ps. c \<notin> set p)"
proof (intro exI conjI ballI)
  show "map (piece_str s) (splitStringPiece s [c]) = map Ok (split_ref c s)"
    using split_loop_char [OF assms(1), of c 0] by (simp add: splitStringPiece_def)
  show "join [c] (split_ref c s) = s"
    using assms by (simp add: join_def join_split_ref split_ref_nonempty)
qed (rule split_ref_no_sep)

theorem split_join_roundtrip_witness:
  "\<exists>ps. map (piece_str ''system.port'') (splitStringPiece ''system.port'' ''.'') = map Ok ps
      \<and> join ''.'' ps = ''system.port'' \<and> (\<forall>p \<in> set ps. CHR ''.'' \<notin> set p)"
  by (rule split_join_roundtrip) simp_all

text \<open>
  A separator of two or more characters is not handled: where the text begins with the
  separator, the first view has a wrapped length and reading it is out of bounds.
\<close>

theorem split_long_separator_bad:
  assumes "2 \<le> length w" and "length w + length t < 2 ^ 63"
  shows "\<exists>p ps. splitStringPiece (w @ t) w = p # ps \<and> piece_str (w @ t) p = Err OutOfBounds"
proof -
  have occ: "occurs_at w (w @ t)" by (induction w) simp_all
  have f: "find_from (w @ t) w 0 = Some 0"
    by (subst find_from.simps) (simp add: occ)
  have "piece_len 0 0 (length w) = - word_of_nat (length w - 1)"
    using assms(1) by (simp add: piece_len_def of_nat_diff)
  moreover have "unat (- word_of_nat (length w - 1) :: u64) = 2 ^ 64 - (length w - 1)"
    using assms by (intro unat_uminus_u64) simp_all
  ultimately have n: "unat (piece_len 0 0 (length w)) = 2 ^ 64 - (length w - 1)"
    by simp
  have "splitStringPiece (w @ t) w = (0, piece_len 0 0 (length w)) # split_loop (w @ t) w 1"
    using f assms by (auto simp: splitStringPiece_def split_loop.simps [of "w @ t" w 0])
  moreover have "piece_str (w @ t) (0, piece_len 0 0 (length w)) = Err OutOfBounds"
    using n assms by (simp add: piece_str_def)
  ultimately show ?thesis by blast
qed

theorem split_long_separator_bad_witness:
  "\<exists>p ps. splitStringPiece ''--b'' ''--'' = p # ps \<and> piece_str ''--b'' p = Err OutOfBounds"
  using split_long_separator_bad [of "''--''" "''b''"] by simp

end
