(* ===== verification/Timer_Manager.thy ===== *)
theory Timer_Manager
  imports Net_Prelude
begin

text \<open>
  include/base/timer.h: \<open>Timer\<close> and \<open>TimerManager\<close>. The \<open>std::multiset\<close> ordered by
  deadline is a list in iteration order; inserting goes behind the equivalent elements
  (\<open>std::multiset::insert\<close> inserts at the upper bound of the range). Every call of
  \<open>currentMs()\<close> may see another value, so an operation that reads the clock takes the sequence
  \<open>now\<close> of its readings. A callback is an opaque value, \<open>None\<close> for an empty
  \<open>std::function\<close>. The mutex makes each operation one atomic step.
\<close>

section \<open>Timers\<close>

type_synonym ms = u64

record 'cb timer =
  repeat :: bool
  target_timestamp :: ms
  interval :: ms
  callback :: "'cb option"

text \<open>The two constructors. \<open>static_cast<MsStampType>(-1)\<close> is \<open>- 1\<close>.\<close>

definition new_timer :: "ms \<Rightarrow> ms \<Rightarrow> 'cb option \<Rightarrow> bool \<Rightarrow> 'cb timer" where
  "new_timer cur_ms ival cb rep =
     \<lparr>repeat = rep,
      target_timestamp = (if ival > - 1 - cur_ms then - 1 else ival + cur_ms),
      interval = ival, callback = cb\<rparr>"

definition timer_at :: "ms \<Rightarrow> 'cb timer" where
  "timer_at ts = \<lparr>repeat = False, target_timestamp = ts, interval = 0, callback = None\<rparr>"

definition timer_less :: "'cb timer \<Rightarrow> 'cb timer \<Rightarrow> bool" where
  "timer_less lhs rhs \<longleftrightarrow> target_timestamp lhs < target_timestamp rhs"

section \<open>The ordered multiset\<close>

type_synonym 'cb timers = "'cb timer list"

fun ms_insert :: "'cb timer \<Rightarrow> 'cb timers \<Rightarrow> 'cb timers" where
  "ms_insert t [] = [t]"
| "ms_insert t (x # xs) = (if timer_less t x then t # x # xs else x # ms_insert t xs)"

definition ms_lower_bound :: "'cb timer \<Rightarrow> 'cb timers \<Rightarrow> nat" where
  "ms_lower_bound k ts = length (takeWhile (\<lambda>t. timer_less t k) ts)"

text \<open>\<open>find\<close>: the lower bound if it is equivalent to the key, else \<open>end()\<close>.\<close>

definition ms_find :: "'cb timer \<Rightarrow> 'cb timers \<Rightarrow> nat option" where
  "ms_find k ts =
     (let i = ms_lower_bound k ts
      in if i < length ts \<and> \<not> timer_less k (ts ! i) then Some i else None)"

definition list_erase :: "nat \<Rightarrow> 'a list \<Rightarrow> 'a list" where
  "list_erase i xs = take i xs @ drop (Suc i) xs"

section \<open>Operations\<close>

definition addTimer :: "'cb timer option \<Rightarrow> 'cb timers \<Rightarrow> 'cb timers res" where
  "addTimer t ts =
     (case t of
        None \<Rightarrow> Err AssertFailed
      | Some t \<Rightarrow> if callback t = None then Err AssertFailed else Ok (ms_insert t ts))"

text \<open>The loop that puts a fresh copy of every repeating timer back.\<close>

fun rearm :: "(nat \<Rightarrow> ms) \<Rightarrow> nat \<Rightarrow> 'cb timer list \<Rightarrow> 'cb timers \<Rightarrow> 'cb timers" where
  "rearm now k [] ts = ts"
| "rearm now k (t # result) ts =
     (if repeat t
      then rearm now (k + 1) result (ms_insert (new_timer (now k) (interval t) (callback t) True) ts)
      else rearm now k result ts)"

definition takeExpiredTimers :: "(nat \<Rightarrow> ms) \<Rightarrow> 'cb timers \<Rightarrow> 'cb timer list \<times> 'cb timers" where
  "takeExpiredTimers now ts =
     (let cur_ms = now 0;
          lower = ms_lower_bound (timer_at cur_ms) ts;
          iter = lower + length (takeWhile (\<lambda>t. target_timestamp t = cur_ms) (drop lower ts));
          result = take iter ts
      in (result, rearm now 1 result (drop iter ts)))"

definition getNextInterval :: "(nat \<Rightarrow> ms) \<Rightarrow> 'cb timers \<Rightarrow> ms" where
  "getNextInterval now ts =
     (case ts of
        [] \<Rightarrow> - 1
      | t # _ \<Rightarrow>
          if target_timestamp t < now 0 then 0 else target_timestamp t - now 1)"

text \<open>
  The out-parameter \<open>timer\<close> is assigned before the callback is tested, so the returned option
  can be \<open>Some\<close> together with \<open>False\<close>.
\<close>

definition takeFirstIfExpired ::
    "(nat \<Rightarrow> ms) \<Rightarrow> ms \<Rightarrow> 'cb timers \<Rightarrow> bool \<times> 'cb timer option \<times> 'cb timers" where
  "takeFirstIfExpired now cur_ms ts =
     (case ts of
        [] \<Rightarrow> (False, None, ts)
      | t # rest \<Rightarrow>
          if target_timestamp t \<le> cur_ms
          then (callback t \<noteq> None, Some t,
                if repeat t then ms_insert (new_timer (now 0) (interval t) (callback t) True) rest
                else rest)
          else (False, None, ts))"

definition removeTimer :: "'cb timer option \<Rightarrow> 'cb timers \<Rightarrow> 'cb timers res" where
  "removeTimer t ts =
     (case t of
        None \<Rightarrow> Ok ts
      | Some t \<Rightarrow>
          (case ms_find t ts of
             None \<Rightarrow> Err EraseEnd
           | Some i \<Rightarrow> Ok (list_erase i ts)))"

section \<open>Invariant: deadline order\<close>

definition timers_ok :: "'cb timers \<Rightarrow> bool" where
  "timers_ok ts \<longleftrightarrow> sorted (map target_timestamp ts)"

definition expired :: "ms \<Rightarrow> 'cb timer \<Rightarrow> bool" where
  "expired cur t \<longleftrightarrow> target_timestamp t \<le> cur"

lemma timers_ok_Nil [simp]: "timers_ok []"
  by (simp add: timers_ok_def)

lemma timers_ok_Cons [simp]:
  "timers_ok (t # ts) \<longleftrightarrow> (\<forall>x \<in> set ts. target_timestamp t \<le> target_timestamp x) \<and> timers_ok ts"
  by (auto simp: timers_ok_def)

lemma timers_ok_append:
  "timers_ok (xs @ ys) \<longleftrightarrow> timers_ok xs \<and> timers_ok ys \<and>
     (\<forall>x \<in> set xs. \<forall>y \<in> set ys. target_timestamp x \<le> target_timestamp y)"
  by (auto simp: timers_ok_def sorted_append)

lemma mset_ms_insert [simp]: "mset (ms_insert t ts) = add_mset t (mset ts)"
  by (induction ts) auto

lemma length_ms_insert [simp]: "length (ms_insert t ts) = Suc (length ts)"
  by (induction ts) auto

lemma set_ms_insert [simp]: "set (ms_insert t ts) = insert t (set ts)"
  by (induction ts) auto

lemma timers_ok_ms_insert [simp, intro, invs]: "timers_ok ts \<Longrightarrow> timers_ok (ms_insert t ts)"
  by (induction ts) (auto simp: timer_less_def)

lemma timers_ok_rearm [simp, intro, invs]: "timers_ok ts \<Longrightarrow> timers_ok (rearm now k r ts)"
  by (induction now k r ts rule: rearm.induct) simp_all

lemma timers_ok_take_drop [simp, intro]:
  "timers_ok ts \<Longrightarrow> timers_ok (take i ts)"
  "timers_ok ts \<Longrightarrow> timers_ok (drop i ts)"
  by (simp_all add: timers_ok_def sorted_wrt_take sorted_wrt_drop flip: take_map drop_map)

lemma timers_ok_list_erase [simp, intro, invs]:
  assumes "timers_ok ts"
  shows "timers_ok (list_erase i ts)"
proof -
  have "timers_ok (take i ts @ drop i ts)" using assms by simp
  moreover have "set (drop (Suc i) ts) \<subseteq> set (drop i ts)" by (rule set_drop_subset_set_drop) simp
  ultimately show ?thesis using assms unfolding list_erase_def timers_ok_append by blast
qed

section \<open>What the operations return\<close>

text \<open>On an ordered set the two searches of \<open>takeExpiredTimers\<close> stop behind the last expired timer.\<close>

lemma expired_prefix:
  assumes "timers_ok ts"
  shows "ms_lower_bound (timer_at cur) ts
       + length (takeWhile (\<lambda>t. target_timestamp t = cur) (drop (ms_lower_bound (timer_at cur) ts) ts))
       = length (filter (expired cur) ts)"
  using assms
proof (induction ts)
  case Nil
  then show ?case by (simp add: ms_lower_bound_def)
next
  case (Cons t ts)
  consider (lt) "target_timestamp t < cur" | (eq) "target_timestamp t = cur" | (gt) "cur < target_timestamp t"
    by (rule linorder_cases)
  then show ?case
  proof cases
    case lt
    with Cons show ?thesis by (simp add: ms_lower_bound_def timer_less_def timer_at_def expired_def)
  next
    case eq
    with Cons.prems have "ms_lower_bound (timer_at cur) ts = 0"
      by (cases ts) (auto simp: ms_lower_bound_def timer_less_def timer_at_def)
    with eq Cons show ?thesis by (simp add: ms_lower_bound_def timer_less_def timer_at_def expired_def)
  next
    case gt
    with Cons.prems have "filter (expired cur) (t # ts) = []"
      by (auto simp: expired_def filter_empty_conv dest: order.strict_trans2)
    moreover have "\<not> target_timestamp t < cur" and "target_timestamp t \<noteq> cur" using gt by auto
    ultimately show ?thesis by (simp only: ms_lower_bound_def timer_less_def timer_at_def) simp
  qed
qed

lemma take_expired: "timers_ok ts \<Longrightarrow> take (length (filter (expired cur) ts)) ts = filter (expired cur) ts"
proof (induction ts)
  case (Cons t ts)
  show ?case
  proof (cases "expired cur t")
    case False
    with Cons.prems have "filter (expired cur) (t # ts) = []"
      by (auto simp: expired_def filter_empty_conv dest: order.strict_trans2)
    then show ?thesis by simp
  qed (use Cons in simp)
qed simp

lemma drop_expired:
  "timers_ok ts \<Longrightarrow> drop (length (filter (expired cur) ts)) ts = filter (\<lambda>t. \<not> expired cur t) ts"
proof (induction ts)
  case (Cons t ts)
  show ?case
  proof (cases "expired cur t")
    case False
    with Cons.prems have none: "\<forall>x \<in> set (t # ts). \<not> expired cur x"
      by (auto simp: expired_def dest: order.strict_trans2)
    then have "filter (expired cur) (t # ts) = []" by (simp add: filter_empty_conv)
    moreover have "filter (\<lambda>t. \<not> expired cur t) (t # ts) = t # ts" using none by (simp add: filter_id_conv)
    ultimately show ?thesis by (simp only: list.size drop_0)
  qed (use Cons in simp)
qed simp

lemma takeExpiredTimers_eq:
  "timers_ok ts \<Longrightarrow> takeExpiredTimers now ts =
     (filter (expired (now 0)) ts,
      rearm now 1 (filter (expired (now 0)) ts) (filter (\<lambda>t. \<not> expired (now 0) t) ts))"
  by (simp add: takeExpiredTimers_def Let_def expired_prefix take_expired drop_expired)

text \<open>One new timer in front of timers that are not due.\<close>

lemma takeExpired_first:
  assumes "timers_ok ts" and "\<not> repeat t" and "\<forall>x \<in> set ts. now 0 < target_timestamp x"
  shows "takeExpiredTimers now (ms_insert t ts) = 
    (if target_timestamp t \<le> now 0 then [t] else [], if target_timestamp t \<le> now 0 then ts else ms_insert t ts)"
proof -
  have e: "\<forall>x \<in> set ts. \<not> expired (now 0) x" using assms(3) by (auto simp: expired_def)
  then have "takeExpiredTimers now (ms_insert t ts) = ([t], ts)" if "target_timestamp t \<le> now 0"
  proof -
    have "ms_insert t ts = t # ts" using that assms(3) by (cases ts) (auto simp: timer_less_def)
    moreover have "expired (now 0) t" using that by (simp add: expired_def)
    ultimately show ?thesis using e assms(2) takeExpiredTimers_eq [OF timers_ok_ms_insert [OF assms(1), of t], of now] by simp
  qed
  moreover have "takeExpiredTimers now (ms_insert t ts) = ([], ms_insert t ts)" if "\<not> target_timestamp t \<le> now 0"
  proof -
    have "\<forall>x \<in> set (ms_insert t ts). \<not> expired (now 0) x" using that e by (simp add: expired_def)
    then show ?thesis using takeExpiredTimers_eq [of "ms_insert t ts" now] assms(1) by (simp add: filter_empty_conv filter_id_conv)
  qed
  ultimately show ?thesis by simp
qed

text \<open>The timers \<open>rearm\<close> creates, in order, with the clock readings they use.\<close>

fun rearmed :: "(nat \<Rightarrow> ms) \<Rightarrow> nat \<Rightarrow> 'cb timer list \<Rightarrow> 'cb timer list" where
  "rearmed now k [] = []"
| "rearmed now k (t # r) =
     (if repeat t then new_timer (now k) (interval t) (callback t) True # rearmed now (k + 1) r
      else rearmed now k r)"

lemma mset_rearm: "mset (rearm now k r ts) = mset (rearmed now k r) + mset ts"
  by (induction now k r ts rule: rearm.induct) simp_all

lemma length_rearmed: "length (rearmed now k r) = length (filter repeat r)"
  by (induction now k r rule: rearmed.induct) simp_all

text \<open>The overflow test of the constructor makes the deadline saturate instead of wrapping.\<close>

lemma new_timer_deadline:
  "unat (target_timestamp (new_timer cur ival cb rep)) = min (2 ^ 64 - 1) (unat cur + unat ival)"
proof -
  have m1: "unat (- 1 :: u64) = 2 ^ 64 - 1" using unat_uminus_u64 [of 1] by simp
  have le: "cur \<le> - 1" by simp
  have d: "unat (- 1 - cur) = 2 ^ 64 - 1 - unat cur"
    using le m1 by (simp add: unat_sub)
  have lim: "unat cur < 2 ^ 64" by (rule unat_u64_less)
  show ?thesis
  proof (cases "ival > - 1 - cur")
    case True
    then have "2 ^ 64 - 1 - unat cur < unat ival" using d by (simp add: word_less_nat_alt)
    with True m1 lim show ?thesis by (simp add: new_timer_def min_def)
  next
    case False
    then have le2: "unat ival \<le> 2 ^ 64 - 1 - unat cur" using d by (simp add: word_less_nat_alt)
    with lim have "unat ival + unat cur < 2 ^ 64" by linarith
    then have "unat (ival + cur) = unat ival + unat cur" by (simp add: unat_word_ariths)
    moreover have "min (2 ^ 64 - 1) (unat cur + unat ival) = unat cur + unat ival"
      using le2 lim by linarith
    ultimately show ?thesis using False by (simp add: new_timer_def)
  qed
qed

lemma new_timer_later:
  assumes "base \<le> cur" and "base \<noteq> - 1" and "0 < ival"
  shows "base < target_timestamp (new_timer cur ival cb rep)"
proof -
  have "base < - 1" using assms(2) by (simp add: word_order.not_eq_extremum)
  then have "unat base < 2 ^ 64 - 1"
    using unat_uminus_u64 [of 1] by (simp add: word_less_nat_alt)
  then show ?thesis
    using assms(1,3) by (simp add: word_less_nat_alt word_le_nat_alt new_timer_deadline)
qed

lemma rearmed_later:
  assumes "\<And>k. base \<le> now k" and "base \<noteq> - 1"
    and "\<And>t. t \<in> set r \<Longrightarrow> repeat t \<Longrightarrow> 0 < interval t" and "t \<in> set (rearmed now k r)"
  shows "base < target_timestamp t"
  using assms
proof (induction now k r rule: rearmed.induct)
  case (2 now k x r)
  then show ?case by (cases "repeat x") (auto intro: new_timer_later)
qed simp

lemma ms_find_Some_iff:
  assumes "timers_ok ts"
  shows "(\<exists>i. ms_find t ts = Some i) \<longleftrightarrow> target_timestamp t \<in> target_timestamp ` set ts"
  using assms
proof (induction ts)
  case (Cons x ts)
  show ?case
  proof (cases "timer_less x t")
    case True
    then have "(\<exists>i. ms_find t (x # ts) = Some i) \<longleftrightarrow> (\<exists>i. ms_find t ts = Some i)"
      by (simp add: ms_find_def ms_lower_bound_def Let_def)
    with True Cons show ?thesis by (auto simp: timer_less_def)
  next
    case False
    then have "(\<exists>i. ms_find t (x # ts) = Some i) \<longleftrightarrow> \<not> timer_less t x"
      by (simp add: ms_find_def ms_lower_bound_def)
    with False Cons.prems show ?thesis by (auto simp: timer_less_def)
  qed
qed (simp add: ms_find_def ms_lower_bound_def)

lemma ms_find_sound:
  assumes "ms_find t ts = Some i"
  shows "i < length ts \<and> target_timestamp (ts ! i) = target_timestamp t"
proof -
  have i: "i = length (takeWhile (\<lambda>x. timer_less x t) ts)" "i < length ts" "\<not> timer_less t (ts ! i)"
    using assms by (auto simp: ms_find_def ms_lower_bound_def Let_def split: if_splits)
  then have "\<not> timer_less (ts ! i) t" using nth_length_takeWhile by blast
  with i show ?thesis by (auto simp: timer_less_def)
qed

lemma mset_list_erase: "i < length ts \<Longrightarrow> mset ts = add_mset (ts ! i) (mset (list_erase i ts))"
  by (metis id_take_nth_drop list_erase_def mset.simps(2) mset_append union_mset_add_mset_right)


section \<open>The contract of a timer service\<close>

text \<open>
  What an event loop relies on: polling at a clock reading delivers the pending timers whose
  deadline has passed and keeps the others.
\<close>

locale timer_service =
  fixes arm :: "'t \<Rightarrow> 's \<Rightarrow> 's"
    and poll :: "'c \<Rightarrow> 's \<Rightarrow> 't list \<times> 's"
    and reading :: "'c \<Rightarrow> ms"
    and deadline :: "'t \<Rightarrow> ms"
    and pending :: "'s \<Rightarrow> 't multiset"
    and service_inv :: "'s \<Rightarrow> bool"
  assumes arm_inv: "service_inv s \<Longrightarrow> service_inv (arm t s)"
    and poll_inv: "service_inv s \<Longrightarrow> service_inv (snd (poll c s))"
    and arm_pending: "pending (arm t s) = add_mset t (pending s)"
    and poll_delivers: "service_inv s \<Longrightarrow>
      mset (fst (poll c s)) = filter_mset (\<lambda>t. deadline t \<le> reading c) (pending s)"
    and poll_keeps: "service_inv s \<Longrightarrow>
      filter_mset (\<lambda>t. \<not> deadline t \<le> reading c) (pending s) \<subseteq># pending (snd (poll c s))"
begin

definition poll_all :: "'c list \<Rightarrow> 's \<Rightarrow> 's" where
  "poll_all cs s = fold (\<lambda>c s. snd (poll c s)) cs s"

lemma poll_all_inv: "service_inv s \<Longrightarrow> service_inv (poll_all cs s)"
  unfolding poll_all_def by (induction cs arbitrary: s) (simp_all add: poll_inv)

lemma poll_early:
  assumes "service_inv s" and "t \<in># pending s" and "reading c < deadline t"
  shows "t \<in># pending (snd (poll c s))"
proof -
  have "t \<in># filter_mset (\<lambda>t. \<not> deadline t \<le> reading c) (pending s)"
    using assms by simp
  with poll_keeps [OF assms(1)] show ?thesis by (rule mset_subset_eqD)
qed

lemma kept_until_due:
  assumes "service_inv s" and "t \<in># pending s" and "\<forall>c \<in> set cs. reading c < deadline t"
  shows "t \<in># pending (poll_all cs s)"
  using assms
proof (induction cs arbitrary: s)
  case (Cons c cs)
  have "t \<in># pending (snd (poll c s))" and "service_inv (snd (poll c s))"
    using Cons.prems poll_early [of s t c] poll_inv [of s c] by simp_all
  with Cons have "t \<in># pending (poll_all cs (snd (poll c s)))" by simp
  then show ?case by (simp add: poll_all_def)
qed (simp add: poll_all_def)

lemma fires_when_due:
  assumes "service_inv s" and "t \<in># pending s"
    and "\<forall>c \<in> set cs. reading c < deadline t" and "deadline t \<le> reading d"
  shows "t \<in> set (fst (poll d (poll_all cs s)))"
proof -
  have "t \<in># mset (fst (poll d (poll_all cs s)))"
    using kept_until_due [OF assms(1,2,3)] assms(4)
    by (simp add: poll_delivers [OF poll_all_inv [OF assms(1)]])
  then show ?thesis by simp
qed

lemma never_early:
  assumes "service_inv s" and "t \<in> set (fst (poll c s))"
  shows "deadline t \<le> reading c"
proof -
  have "t \<in># mset (fst (poll c s))" using assms(2) by simp
  then show ?thesis by (simp add: poll_delivers [OF assms(1)])
qed

end

interpretation tm: timer_service ms_insert takeExpiredTimers "\<lambda>now. now 0" target_timestamp mset timers_ok
proof unfold_locales
  fix s :: "'a timers" and c :: "nat \<Rightarrow> ms"
  assume ok: "timers_ok s"
  then show "timers_ok (snd (takeExpiredTimers c s))"
    by (simp add: takeExpiredTimers_eq timers_ok_def sorted_filter)
      (metis timers_ok_def timers_ok_rearm sorted_filter)
  show "mset (fst (takeExpiredTimers c s)) = filter_mset (\<lambda>t. target_timestamp t \<le> c 0) (mset s)"
    using ok by (simp add: takeExpiredTimers_eq expired_def [abs_def])
  show "filter_mset (\<lambda>t. \<not> target_timestamp t \<le> c 0) (mset s) \<subseteq># mset (snd (takeExpiredTimers c s))"
    using ok by (simp add: takeExpiredTimers_eq expired_def mset_rearm)
qed simp_all


section \<open>The abstract manager\<close>

datatype 'cb timer_op =
    Add "'cb timer option"
  | TakeExpired "nat \<Rightarrow> ms"
  | TakeFirst "nat \<Rightarrow> ms" ms
  | Remove "'cb timer option"
  | NextInterval "nat \<Rightarrow> ms"

datatype 'cb timer_answer = Done | Taken "'cb timer list" | First bool "'cb timer option" | Interval ms | Failed lon_error

fun code_op :: "'cb timer_op \<Rightarrow> 'cb timers \<Rightarrow> ('cb timer_answer \<times> 'cb timers) res" where
  "code_op (Add t) ts = res_bind (addTimer t ts) (\<lambda>ts'. Ok (Done, ts'))"
| "code_op (TakeExpired now) ts = (case takeExpiredTimers now ts of (r, ts') \<Rightarrow> Ok (Taken r, ts'))"
| "code_op (TakeFirst now cur) ts = (case takeFirstIfExpired now cur ts of (b, t, ts') \<Rightarrow> Ok (First b t, ts'))"
| "code_op (Remove t) ts = res_bind (removeTimer t ts) (\<lambda>ts'. Ok (Done, ts'))"
| "code_op (NextInterval now) ts = Ok (Interval (getNextInterval now ts), ts)"

fun code_answers :: "'cb timers \<Rightarrow> 'cb timer_op list \<Rightarrow> 'cb timer_answer list" where
  "code_answers ts [] = []"
| "code_answers ts (op # ops) =
     (case code_op op ts of Inl e \<Rightarrow> [Failed e] | Inr (a, ts') \<Rightarrow> a # code_answers ts' ops)"

text \<open>The copy a repeating timer leaves when it is taken alone.\<close>

definition again :: "ms \<Rightarrow> 'cb timer \<Rightarrow> 'cb timer multiset" where
  "again cur t = (if repeat t then {#new_timer cur (interval t) (callback t) True#} else {#})"

definition next_spec :: "(nat \<Rightarrow> ms) \<Rightarrow> 'cb timer multiset \<Rightarrow> ms" where
  "next_spec now M =
     (if M = {#} then - 1
      else let d = Min (target_timestamp ` set_mset M) in if d < now 0 then 0 else d - now 1)"

inductive spec_op :: "'cb timer_op \<Rightarrow> 'cb timer multiset \<Rightarrow> ('cb timer_answer \<times> 'cb timer multiset) res \<Rightarrow> bool" where
  add: "callback t \<noteq> None \<Longrightarrow> spec_op (Add (Some t)) M (Ok (Done, add_mset t M))"
| add_nothing: "spec_op (Add None) M (Err AssertFailed)"
| add_bare: "callback t = None \<Longrightarrow> spec_op (Add (Some t)) M (Err AssertFailed)"
| expired: "mset r = filter_mset (\<lambda>t. target_timestamp t \<le> now 0) M \<Longrightarrow> sorted (map target_timestamp r) \<Longrightarrow>
    spec_op (TakeExpired now) M
      (Ok (Taken r, filter_mset (\<lambda>t. now 0 < target_timestamp t) M + mset (rearmed now 1 r)))"
| first_due: "t \<in># M \<Longrightarrow> \<forall>x \<in># M. target_timestamp t \<le> target_timestamp x \<Longrightarrow> target_timestamp t \<le> cur \<Longrightarrow>
    spec_op (TakeFirst now cur) M (Ok (First (callback t \<noteq> None) (Some t), M - {#t#} + again (now 0) t))"
| first_early: "\<forall>x \<in># M. cur < target_timestamp x \<Longrightarrow> spec_op (TakeFirst now cur) M (Ok (First False None, M))"
| remove: "x \<in># M \<Longrightarrow> target_timestamp x = target_timestamp t \<Longrightarrow> spec_op (Remove (Some t)) M (Ok (Done, M - {#x#}))"
| remove_nothing: "spec_op (Remove None) M (Ok (Done, M))"
| remove_gone: "\<forall>x \<in># M. target_timestamp x \<noteq> target_timestamp t \<Longrightarrow> spec_op (Remove (Some t)) M (Err EraseEnd)"
| interval_left: "spec_op (NextInterval now) M (Ok (Interval (next_spec now M), M))"

inductive spec_answers :: "'cb timer multiset \<Rightarrow> 'cb timer_op list \<Rightarrow> 'cb timer_answer list \<Rightarrow> bool" where
  none: "spec_answers M [] []"
| answer: "spec_op op M (Ok (a, M')) \<Longrightarrow> spec_answers M' ops as \<Longrightarrow> spec_answers M (op # ops) (a # as)"
| failed: "spec_op op M (Err e) \<Longrightarrow> spec_answers M (op # ops) [Failed e]"

lemma removed_spec:
  assumes "timers_ok ts"
  shows "spec_op (Remove (Some t)) (mset ts) (map_sum id (\<lambda>ts'. (Done, mset ts')) (removeTimer (Some t) ts))"
proof (cases "ms_find t ts")
  case None
  then have "target_timestamp t \<notin> target_timestamp ` set ts" using ms_find_Some_iff [OF assms, of t] by simp
  then have "\<forall>x \<in># mset ts. target_timestamp x \<noteq> target_timestamp t" by (metis imageI set_mset_mset)
  then show ?thesis using None by (simp add: removeTimer_def spec_op.remove_gone)
next
  case (Some i)
  then have i: "i < length ts" "target_timestamp (ts ! i) = target_timestamp t" using ms_find_sound by blast+
  then have "mset (list_erase i ts) = mset ts - {#ts ! i#}" using mset_list_erase [of i ts] by simp
  moreover have "spec_op (Remove (Some t)) (mset ts) (Ok (Done, mset ts - {#ts ! i#}))"
    using i by (intro spec_op.remove) simp_all
  ultimately show ?thesis using Some by (simp add: removeTimer_def)
qed

lemma first_spec:
  assumes "timers_ok ts"
  shows "spec_op (TakeFirst now cur) (mset ts)
    (case takeFirstIfExpired now cur ts of (b, t, ts') \<Rightarrow> Ok (First b t, mset ts'))"
proof (cases ts)
  case Nil
  then show ?thesis by (auto simp: takeFirstIfExpired_def intro: spec_op.first_early)
next
  case (Cons t rest)
  have least: "\<forall>x \<in># mset ts. target_timestamp t \<le> target_timestamp x" using assms Cons by (auto simp: timers_ok_def)
  show ?thesis
  proof (cases "target_timestamp t \<le> cur")
    case True
    have "spec_op (TakeFirst now cur) (mset ts) (Ok (First (callback t \<noteq> None) (Some t), mset ts - {#t#} + again (now 0) t))"
      by (rule spec_op.first_due [OF _ least True]) (simp add: Cons)
    then show ?thesis using True Cons by (simp add: takeFirstIfExpired_def again_def split: if_splits)
  next
    case False
    then have "\<forall>x \<in># mset ts. cur < target_timestamp x" using least by (meson le_less_trans not_le)
    from spec_op.first_early [OF this] show ?thesis using False Cons by (simp add: takeFirstIfExpired_def)
  qed
qed

lemma next_specified: "timers_ok ts \<Longrightarrow> getNextInterval now ts = next_spec now (mset ts)"
proof (cases ts)
  case (Cons t rest)
  assume "timers_ok ts"
  then have "Min (target_timestamp ` set ts) = target_timestamp t"
    using Cons by (intro Min_eqI) (auto simp: timers_ok_def)
  then show ?thesis using Cons by (simp add: getNextInterval_def next_spec_def Let_def)
qed (simp add: getNextInterval_def next_spec_def)

text \<open>One operation of the code is one of the specification, and the list stays in order.\<close>

lemma code_op_specified:
  assumes "timers_ok ts"
  shows "spec_op op (mset ts) (map_sum id (\<lambda>(a, ts'). (a, mset ts')) (code_op op ts))"
    and "code_op op ts = Ok (a, ts') \<Longrightarrow> timers_ok ts'"
proof -
  note simps = addTimer_def takeExpiredTimers_eq [OF assms] mset_rearm expired_def [abs_def] not_le
  show "spec_op op (mset ts) (map_sum id (\<lambda>(a, ts'). (a, mset ts')) (code_op op ts))"
  proof (cases op)
    case (Add t)
    then show ?thesis by (cases t) (auto simp: simps intro: spec_op.intros)
  next
    case (TakeExpired now)
    let ?r = "filter (\<lambda>t. target_timestamp t \<le> now 0) ts"
    have "spec_op (TakeExpired now) (mset ts)
      (Ok (Taken ?r, filter_mset (\<lambda>t. now 0 < target_timestamp t) (mset ts) + mset (rearmed now 1 ?r)))"
      using assms by (intro spec_op.expired) (simp_all add: timers_ok_def sorted_filter)
    then show ?thesis using TakeExpired by (simp add: simps union_commute)
  next
    case (TakeFirst now cur)
    then show ?thesis using first_spec [OF assms, of now cur] by (simp add: split_def)
  next
    case (Remove t)
    show ?thesis
    proof (cases t)
      case None
      then show ?thesis using Remove by (simp add: removeTimer_def spec_op.remove_nothing)
    next
      case (Some a)
      then show ?thesis using Remove removed_spec [OF assms, of a] by (cases "removeTimer (Some a) ts") simp_all
    qed
  next
    case (NextInterval now)
    then show ?thesis using spec_op.interval_left [of now "mset ts"] by (simp add: next_specified [OF assms])
  qed
  have taken: "timers_ok ts''" if "takeExpiredTimers now ts = (r, ts'')" for now r ts''
    using tm.poll_inv [OF assms, of now] that by simp
  show "timers_ok ts'" if "code_op op ts = Ok (a, ts')"
    using that assms
    by (cases op) (auto simp: addTimer_def removeTimer_def takeFirstIfExpired_def dest: taken split: option.splits if_splits list.splits prod.splits)
qed

lemma code_answers_specified: "timers_ok ts \<Longrightarrow> spec_answers (mset ts) ops (code_answers ts ops)"
proof (induction ops arbitrary: ts)
  case (Cons op ops)
  note spec = code_op_specified [OF Cons.prems]
  show ?case
  proof (cases "code_op op ts")
    case (Inl e)
    then show ?thesis using spec(1) [of op] by (auto intro: spec_answers.failed)
  next
    case (Inr r)
    obtain a ts' where "r = (a, ts')" by (cases r)
    then show ?thesis using Inr spec(1) [of op] Cons.IH [OF spec(2)] by (auto intro: spec_answers.answer)
  qed
qed (simp add: spec_answers.none)

section \<open>Properties\<close>

text \<open>
  C15. The manager refines a multiset of timers. The specification keeps no order and no positions: adding puts a
  timer into the multiset; taking the expired ones returns those due at the clock's reading, sorted
  by deadline, and keeps the others and a fresh copy of every repeating one; taking the first returns a timer of
  the least deadline if it is due, and puts a copy back if it repeats; removing takes out one
  timer with the deadline of the given one; the interval is the time to the least deadline. The answers of
  the code to any sequence of operations on a new manager, up to the first failure, are answers of
  the specification; the failures are those of adding nothing or a timer without a callback, and of
  removing when no timer has the deadline.
\<close>

theorem timer_manager_refines: "spec_answers {#} ops (code_answers [] ops)"
  using code_answers_specified [of "[]" ops] by simp

text \<open>
  C13. \<open>takeExpiredTimers\<close> returns exactly the timers whose deadline is not after the first clock
  reading, in deadline order, and leaves the others together with one fresh copy of every
  repeating timer it returned.
\<close>

theorem takeExpiredTimers_exact:
  assumes "timers_ok ts" and "takeExpiredTimers now ts = (result, left)"
  shows "result = filter (\<lambda>t. target_timestamp t \<le> now 0) ts \<and> timers_ok result
    \<and> mset left = mset (filter (\<lambda>t. now 0 < target_timestamp t) ts) + mset (rearmed now 1 result)
    \<and> length (rearmed now 1 result) = length (filter repeat result)"
proof -
  have r: "result = filter (expired (now 0)) ts"
    and l: "left = rearm now 1 result (filter (\<lambda>t. \<not> expired (now 0) t) ts)"
    using assms by (auto simp: takeExpiredTimers_eq)
  show ?thesis
    using assms(1) unfolding l mset_rearm r length_rearmed
    by (auto simp: expired_def [abs_def] not_le timers_ok_def sorted_filter union_commute)
qed

theorem takeExpiredTimers_exact_witness:
  "takeExpiredTimers (\<lambda>k. 7 + of_nat k) [new_timer 0 5 (Some CHR ''a'') True, new_timer 0 9 (Some CHR ''b'') False]
     = ([new_timer 0 5 (Some CHR ''a'') True],
        [new_timer 0 9 (Some CHR ''b'') False, new_timer 8 5 (Some CHR ''a'') True])
   \<and> timers_ok [new_timer 0 5 (Some CHR ''a'') True]"
proof -
  let ?ts = "[new_timer 0 5 (Some CHR ''a'') True, new_timer 0 9 (Some CHR ''b'') False]"
  have e: "takeExpiredTimers (\<lambda>k. 7 + of_nat k) ?ts
     = ([new_timer 0 5 (Some CHR ''a'') True],
        [new_timer 0 9 (Some CHR ''b'') False, new_timer 8 5 (Some CHR ''a'') True])"
    by (simp add: takeExpiredTimers_def Let_def ms_lower_bound_def timer_less_def timer_at_def new_timer_def)
  have "timers_ok ?ts" by (simp add: new_timer_def)
  from takeExpiredTimers_exact [OF this e] e show ?thesis by blast
qed

text \<open>
  C16. A timer fires on time: armed in any state of the manager, it is kept by every poll made before
  its deadline and returned by the first poll at or after it; and no poll returns a timer early.
\<close>

theorem timer_fires_when_due:
  assumes "timers_ok ts" and "addTimer (Some t) ts = Ok ts1"
    and "\<forall>now \<in> set polls. now 0 < target_timestamp t" and "target_timestamp t \<le> late 0"
  shows "t \<in> set (fst (takeExpiredTimers late (fold (\<lambda>now s. snd (takeExpiredTimers now s)) polls ts1)))
    \<and> (\<forall>x \<in> set (fst (takeExpiredTimers late ts)). target_timestamp x \<le> late 0)"
proof -
  have "ts1 = ms_insert t ts" using assms(2) by (simp add: addTimer_def split: if_splits)
  then have "timers_ok ts1" and "t \<in># mset ts1" using assms(1) by simp_all
  then have "t \<in> set (fst (takeExpiredTimers late (tm.poll_all polls ts1)))"
    by (rule tm.fires_when_due) (use assms in auto)
  moreover have "\<forall>x \<in> set (fst (takeExpiredTimers late ts)). target_timestamp x \<le> late 0"
    using tm.never_early [OF assms(1)] by blast
  ultimately show ?thesis by (simp add: tm.poll_all_def)
qed

theorem timer_fires_when_due_witness:
  "new_timer 100 50 (Some ()) False
     \<in> set (fst (takeExpiredTimers (\<lambda>_. 160)
         (fold (\<lambda>now s. snd (takeExpiredTimers now s)) [\<lambda>_. 120, \<lambda>_. 149] [new_timer 100 50 (Some ()) False])))"
proof -
  have "addTimer (Some (new_timer 100 50 (Some ()) False)) [] = Ok [new_timer 100 50 (Some ()) False]"
    by (simp add: addTimer_def new_timer_def)
  from timer_fires_when_due [OF timers_ok_Nil this, of "[\<lambda>_. 120, \<lambda>_. 149]" "\<lambda>_. 160"]
  show ?thesis by (simp add: new_timer_def)
qed

text \<open>
  The constructor saturates: a deadline is the clock reading plus the interval, cut off at the
  largest timestamp, and never wraps into the past.
\<close>

theorem timer_deadline_saturates:
  "unat (target_timestamp (new_timer cur ival cb rep)) = min (2 ^ 64 - 1) (unat cur + unat ival)
   \<and> cur \<le> target_timestamp (new_timer cur ival cb rep)"
proof -
  have "unat cur < 2 ^ 64" by (rule unat_u64_less)
  then have "unat cur \<le> min (2 ^ 64 - 1) (unat cur + unat ival)" by simp
  then show ?thesis by (simp add: word_le_nat_alt new_timer_deadline)
qed

text \<open>
  With a clock that does not run backwards, taking the expired timers leaves nothing overdue:
  every timer still in the set, re-armed repeating ones included, has a later deadline than the
  first reading, provided repeating timers have a positive interval and the clock is not at its
  last value.
\<close>

theorem takeExpiredTimers_leaves_none_overdue:
  assumes "timers_ok ts" and "\<And>k. now 0 \<le> now k" and "now 0 \<noteq> - 1"
    and "\<And>t. t \<in> set ts \<Longrightarrow> repeat t \<Longrightarrow> 0 < interval t"
    and "t \<in> set (snd (takeExpiredTimers now ts))"
  shows "now 0 < target_timestamp t"
proof -
  let ?r = "filter (expired (now 0)) ts"
  have "t \<in># mset (snd (takeExpiredTimers now ts))" using assms(5) by simp
  then have "t \<in> set (rearmed now 1 ?r) \<or> (t \<in> set ts \<and> \<not> expired (now 0) t)"
    using assms(1) by (auto simp: takeExpiredTimers_eq mset_rearm)
  moreover have "now 0 < target_timestamp t" if "t \<in> set (rearmed now 1 ?r)"
    by (rule rearmed_later [OF assms(2,3) _ that]) (use assms(4) in auto)
  ultimately show ?thesis by (auto simp: expired_def not_le)
qed

theorem takeExpiredTimers_leaves_none_overdue_witness:
  "(7 :: ms) < target_timestamp (new_timer 7 5 (Some ()) True)"
proof -
  let ?ts = "[new_timer 0 5 (Some ()) True]"
  show ?thesis
  proof (rule takeExpiredTimers_leaves_none_overdue [of ?ts "\<lambda>_. 7"])
    show "new_timer 7 5 (Some ()) True \<in> set (snd (takeExpiredTimers (\<lambda>_. 7) ?ts))"
      by (simp add: takeExpiredTimers_def Let_def ms_lower_bound_def timer_less_def timer_at_def new_timer_def)
  qed (auto simp: new_timer_def)
qed

text \<open>
  \<open>getNextInterval\<close> on a clock that stands still during the call: the largest value when no
  timer is set, else the time left until the earliest deadline, 0 when it has passed.
\<close>

theorem getNextInterval_steady:
  assumes "timers_ok ts" and "now 0 = now 1"
  shows "(ts = [] \<longrightarrow> getNextInterval now ts = - 1)
    \<and> (\<forall>t \<in> set ts. unat (getNextInterval now ts) \<le> unat (target_timestamp t) - unat (now 0))
    \<and> (ts \<noteq> [] \<longrightarrow> (\<exists>t \<in> set ts. unat (getNextInterval now ts) = unat (target_timestamp t) - unat (now 0)))"
proof (cases ts)
  case Nil
  then show ?thesis by (simp add: getNextInterval_def)
next
  case (Cons x xs)
  have "unat (getNextInterval now ts) = unat (target_timestamp x) - unat (now 0)"
    using assms(2) Cons by (auto simp: getNextInterval_def unat_sub not_less word_le_nat_alt word_less_nat_alt)
  moreover have "\<forall>t \<in> set ts. unat (target_timestamp x) \<le> unat (target_timestamp t)"
    using assms(1) Cons by (auto simp: word_le_nat_alt)
  ultimately show ?thesis using Cons by (auto intro: diff_le_mono)
qed

theorem getNextInterval_steady_witness:
  "unat (getNextInterval (\<lambda>_. 7) [new_timer 0 9 (Some ()) False]) \<le> unat (target_timestamp (new_timer 0 9 (Some ()) False)) - unat (7 :: ms)"
  using getNextInterval_steady [of "[new_timer 0 9 (Some ()) False]" "\<lambda>_. 7"] by simp

text \<open>
  The two clock readings of \<open>getNextInterval\<close> race: when the earliest deadline is reached
  between them, the subtraction wraps and the answer is a huge interval instead of 0.
\<close>

theorem getNextInterval_race_wraps:
  assumes "now 0 \<le> target_timestamp t" and "target_timestamp t < now 1"
  shows "getNextInterval now (t # ts) = - (now 1 - target_timestamp t)
    \<and> unat (getNextInterval now (t # ts)) = 2 ^ 64 - (unat (now 1) - unat (target_timestamp t))"
proof -
  have e: "getNextInterval now (t # ts) = - (now 1 - target_timestamp t)"
    using assms(1) by (auto simp: getNextInterval_def dest: leD)
  have d: "unat (now 1 - target_timestamp t) = unat (now 1) - unat (target_timestamp t)"
    using assms(2) by (simp add: unat_sub order.strict_implies_order)
  have "0 < unat (now 1) - unat (target_timestamp t)" and "unat (now 1) - unat (target_timestamp t) < 2 ^ 64"
    using assms(2) less_imp_diff_less [OF unat_u64_less [of "now 1"]] by (simp_all add: word_less_nat_alt)
  then have "unat (- word_of_nat (unat (now 1 - target_timestamp t)) :: u64)
      = 2 ^ 64 - (unat (now 1) - unat (target_timestamp t))"
    unfolding d by (rule unat_uminus_u64)
  with e show ?thesis by simp
qed

theorem getNextInterval_race_wraps_witness:
  "getNextInterval (\<lambda>k. if k = 0 then 9 else 10) [new_timer 0 9 (Some ()) False] = (- 1 :: ms)"
proof -
  have "getNextInterval (\<lambda>k. if k = 0 then 9 else 10) [new_timer 0 9 (Some ()) False]
      = - (10 - target_timestamp (new_timer 0 9 (Some ()) False))"
    using getNextInterval_race_wraps [of "\<lambda>k. if k = 0 then 9 else 10" "new_timer 0 9 (Some ()) False" "[]"]
    by (simp add: new_timer_def)
  then show ?thesis by (simp add: new_timer_def)
qed

text \<open>
  \<open>removeTimer\<close> looks a timer up by its deadline only. If some timer has that deadline exactly
  one timer with it is removed, which is the given one when deadlines are unique; if none has (the
  timer has already been taken), the code erases \<open>end()\<close>, which is undefined.
\<close>

theorem removeTimer_by_deadline:
  assumes "timers_ok ts"
  shows "(if target_timestamp t \<in> target_timestamp ` set ts
     then \<exists>x ts'. removeTimer (Some t) ts = Ok ts' \<and> mset ts = add_mset x (mset ts')
            \<and> target_timestamp x = target_timestamp t
            \<and> (inj_on target_timestamp (insert t (set ts)) \<longrightarrow> x = t)
     else removeTimer (Some t) ts = Err EraseEnd)"
proof (cases "ms_find t ts")
  case None
  with assms show ?thesis by (auto simp: removeTimer_def simp flip: ms_find_Some_iff)
next
  case (Some i)
  then have i: "i < length ts" and eq: "target_timestamp (ts ! i) = target_timestamp t"
    using ms_find_sound by blast+
  then have "mset ts = add_mset (ts ! i) (mset (list_erase i ts))"
    by (intro mset_list_erase)
  moreover have "inj_on target_timestamp (insert t (set ts)) \<longrightarrow> ts ! i = t"
    using i eq by (meson inj_onD insertCI nth_mem)
  moreover have "target_timestamp t \<in> target_timestamp ` set ts"
    using Some assms ms_find_Some_iff by blast
  moreover have "removeTimer (Some t) ts = Ok (list_erase i ts)" using Some by (simp add: removeTimer_def)
  ultimately show ?thesis using eq by auto
qed

theorem removeTimer_by_deadline_witness:
  "removeTimer (Some (new_timer 0 5 (Some CHR ''b'') False)) [new_timer 0 5 (Some CHR ''a'') False]
     = Ok [] \<and> removeTimer (Some (new_timer 0 5 (Some CHR ''b'') False)) [] = Err EraseEnd"
proof -
  have "timers_ok ([] :: char timers)" by simp
  from removeTimer_by_deadline [OF this, of "new_timer 0 5 (Some CHR ''b'') False"]
  show ?thesis
    by (simp add: removeTimer_def ms_find_def ms_lower_bound_def timer_less_def new_timer_def list_erase_def)
qed

end
