(* ===== verification/Fd_Manager.thy ===== *)
theory Fd_Manager
  imports Net_Prelude
begin

text \<open>
  include/io/fd_manager.h: \<open>FdContext\<close> and \<open>_FdManager\<close>. The vector of owning pointers is a
  list of optional contexts (\<open>nullptr\<close> is \<open>None\<close>). The reader-writer lock makes each
  operation atomic. A client writes through the pointer \<open>getContext\<close> returns; that is
  \<open>updContext\<close>.
\<close>

record FdContext =
  is_socket :: bool
  is_initialized :: bool
  is_user_non_block :: bool
  is_sys_non_block :: bool
  readTimeout :: u64
  writeTimeout :: u64

definition FdContext_default :: FdContext where
  "FdContext_default = \<lparr>is_socket = False, is_initialized = False, is_user_non_block = False,
     is_sys_non_block = False, readTimeout = - 1, writeTimeout = - 1\<rparr>"

definition FdContext_new :: "bool \<Rightarrow> FdContext" where
  "FdContext_new sock = FdContext_default\<lparr>is_socket := sock, is_initialized := True\<rparr>"

type_synonym fd_contexts = "FdContext option list"

definition setContext :: "fd \<Rightarrow> FdContext \<Rightarrow> fd_contexts \<Rightarrow> fd_contexts res" where
  "setContext i context contexts =
     (let len = int (length contexts)
      in res_bind
           (if i \<ge> len then res_bind (grow15 i) (\<lambda>n. Ok (vec_resize n None contexts))
            else Ok contexts)
           (\<lambda>cs. vec_set cs i (Some context)))"

definition getContext :: "fd \<Rightarrow> fd_contexts \<Rightarrow> FdContext option res" where
  "getContext i contexts =
     (let len = int (length contexts)
      in if i < len then vec_get contexts i else Ok None)"

definition hasFd :: "fd \<Rightarrow> fd_contexts \<Rightarrow> bool res" where
  "hasFd i contexts =
     (let len = int (length contexts)
      in if i < len then res_bind (vec_get contexts i) (\<lambda>c. Ok (c \<noteq> None)) else Ok False)"

definition delContext :: "fd \<Rightarrow> fd_contexts \<Rightarrow> fd_contexts res" where
  "delContext i contexts =
     (let len = int (length contexts)
      in if i < len
         then res_bind (vec_get contexts i)
                (\<lambda>c. if c \<noteq> None then vec_set contexts i None else Ok contexts)
         else Ok contexts)"

text \<open>A write through the pointer returned by \<open>getContext\<close>.\<close>

definition updContext :: "fd \<Rightarrow> (FdContext \<Rightarrow> FdContext) \<Rightarrow> fd_contexts \<Rightarrow> fd_contexts res" where
  "updContext i f contexts =
     res_bind (getContext i contexts)
       (\<lambda>c. case c of None \<Rightarrow> Err NullDeref | Some c \<Rightarrow> vec_set contexts i (Some (f c)))"

section \<open>The table contract\<close>

lemmas fd_defs = setContext_def getContext_def hasFd_def delContext_def updContext_def

text \<open>Growing by half keeps every entry and makes room for a descriptor above 1.\<close>

lemma getContext_resize:
  assumes "length t \<le> n" and "0 \<le> j"
  shows "getContext j (vec_resize n None t) = getContext j t"
  using assms by (auto simp: getContext_def vec_get_def nth_vec_resize Let_def)

lemma getContext_update:
  assumes "0 \<le> i" and "i < int (length t)" and "0 \<le> j"
  shows "getContext j (t[nat i := c]) = (if j = i then Ok c else getContext j t)"
  using assms by (auto simp: getContext_def vec_get_def Let_def nth_list_update)

lemma setContext_get:
  assumes "2 \<le> i" and "0 \<le> j"
  shows "\<exists>t'. setContext i c t = Ok t' \<and> getContext j t' = (if j = i then Ok (Some c) else getContext j t)"
proof (cases "i < int (length t)")
  case True
  then show ?thesis
    using assms getContext_update [of i t j "Some c"] by (simp add: setContext_def vec_set_def)
next
  case False
  obtain n where n: "grow15 i = Ok n" and big: "nat i < n" using grow15_above [OF assms(1)] by blast
  have "setContext i c t = Ok ((vec_resize n None t)[nat i := Some c])"
    using False n big assms by (simp add: setContext_def vec_set_def)
  moreover have "getContext j ((vec_resize n None t)[nat i := Some c])
      = (if j = i then Ok (Some c) else getContext j t)"
    using False big assms getContext_update [of i "vec_resize n None t" j "Some c"]
      getContext_resize [of t n j] by simp
  ultimately show ?thesis by blast
qed

lemma delContext_get:
  assumes "0 \<le> i" and "0 \<le> j"
  shows "\<exists>t'. delContext i t = Ok t' \<and> getContext j t' = (if j = i then Ok None else getContext j t)"
  using assms getContext_update [of i t j None]
  by (auto simp: delContext_def getContext_def vec_get_def vec_set_def Let_def)

interpretation fdt: fd_table setContext getContext delContext "\<lambda>i. 2 \<le> i" "[]"
proof unfold_locales
  fix i j :: fd and c t t'
  assume i: "2 \<le> i" and j: "2 \<le> j" and p: "setContext i c t = Ok t'"
  then show "getContext j t' = (if j = i then Ok (Some c) else getContext j t)"
    using setContext_get [of i j c t] by auto
next
  fix i j :: fd and t t'
  assume i: "2 \<le> i" and j: "2 \<le> j" and p: "delContext i t = Ok t'"
  then show "getContext j t' = (if j = i then Ok None else getContext j t)"
    using delContext_get [of i j t] by auto
next
  fix i c t assume "2 \<le> (i :: fd)"
  then show "\<exists>t'. setContext i c t = Ok t'" and "\<exists>t'. delContext i t = Ok t'"
    using setContext_get [of i 2] delContext_get [of i 2] by fastforce+
qed (simp add: getContext_def)

lemma hasFd_iff: "0 \<le> i \<Longrightarrow> hasFd i t = Ok b \<longleftrightarrow> b = (getContext i t \<noteq> Ok None)"
  by (auto simp: hasFd_def getContext_def vec_get_def Let_def)

section \<open>Properties\<close>

text \<open>
  The descriptor table is a map on the descriptors above 1: a stored context is found again, is
  gone after \<open>delContext\<close>, and neither call disturbs another descriptor, however the vector
  grew in between.
\<close>

theorem fd_table_behaves_as_map:
  assumes "2 \<le> i" and "2 \<le> j" and "j \<noteq> i"
  shows "\<exists>t1 t2. setContext i c t = Ok t1 \<and> getContext i t1 = Ok (Some c) \<and> hasFd i t1 = Ok True
     \<and> delContext i t1 = Ok t2 \<and> getContext i t2 = Ok None \<and> hasFd i t2 = Ok False
     \<and> getContext j t1 = getContext j t \<and> getContext j t2 = getContext j t"
proof -
  obtain t1 where t1: "setContext i c t = Ok t1" using fdt.put_total assms(1) by blast
  obtain t2 where t2: "delContext i t1 = Ok t2" using fdt.del_total assms(1) by blast
  have "getContext i t1 = Ok (Some c) \<and> getContext i t2 = Ok None"
    using fdt.open_close [OF assms(1) t1 t2] .
  moreover from this have "hasFd i t1 = Ok True" and "hasFd i t2 = Ok False"
    using assms(1) by (simp_all add: hasFd_iff)
  moreover have "getContext j t1 = getContext j t" and "getContext j t2 = getContext j t"
    using fdt.get_put [OF assms(1,2) t1] fdt.others_untouched [OF assms t1 t2] assms(3) by simp_all
  ultimately show ?thesis using t1 t2 by blast
qed

theorem fd_table_behaves_as_map_witness:
  "\<exists>t1 t2. setContext 7 (FdContext_new True) [] = Ok t1 \<and> getContext 7 t1 = Ok (Some (FdContext_new True))
     \<and> hasFd 7 t1 = Ok True \<and> delContext 7 t1 = Ok t2 \<and> getContext 7 t2 = Ok None \<and> hasFd 7 t2 = Ok False
     \<and> getContext 3 t1 = getContext 3 [] \<and> getContext 3 t2 = getContext 3 []"
  by (rule fd_table_behaves_as_map) simp_all

text \<open>
  The growth factor does not cover the descriptors 0 and 1: storing a context for one of them in a
  table it does not fit in writes past the resized vector; and every operation indexes the vector
  with a negative descriptor.
\<close>

theorem fd_table_small_descriptors:
  "((i = 0 \<or> i = 1) \<longrightarrow> length t \<le> nat i \<longrightarrow> setContext i c t = Err OutOfBounds)
   \<and> (i < 0 \<longrightarrow> setContext i c t = Err OutOfBounds \<and> getContext i t = Err OutOfBounds
        \<and> hasFd i t = Err OutOfBounds \<and> delContext i t = Err OutOfBounds)"
  by (auto simp: fd_defs Let_def grow15_def vec_set_def vec_get_def vec_resize_def)

theorem fd_table_small_descriptors_witness:
  "setContext 1 (FdContext_new True) [] = Err OutOfBounds \<and> hasFd (- 1) [] = Err OutOfBounds"
  using fd_table_small_descriptors [of 1 "[]" "FdContext_new True"]
    fd_table_small_descriptors [of "- 1" "[]" "FdContext_new True"] by simp

end
