(* ===== verification/Executor_Core.thy ===== *)
theory Executor_Core
  imports Net_Prelude
begin

text \<open>
  include/coroutine/executor.h and src/coroutine/executor.cpp in the configuration the build
  selects (\<open>LON_CONTEXT_TYPE\<close> is \<open>COROUTINE_FCONTEXT\<close>). One thread is modelled: its executor
  objects, its three thread-local pointers, and its stacks.

  A stack is named by the executor that runs on it (the thread's own stack by the executor made
  from it). A saved context is a pointer into a stack: \<open>make_fcontext\<close> always writes it at the
  top of the stack (\<open>EntryCtx\<close>), \<open>jump_fcontext\<close> leaves one at the depth it was called
  (\<open>SavedCtx\<close>, a new one at every jump). The CPU runs on one stack (\<open>running\<close>); every other
  stack holds at most one context that may be jumped to (\<open>suspended\<close>), and jumping to any other
  context value is \<open>DeadContext\<close>: its frame is gone.

  The program that uses the library acts between the jumps; each operation below is what the
  library does when code running on \<open>running\<close> calls it, up to and including the jump.
  A callback is an opaque value.
\<close>

type_synonym eptr = nat

datatype State = Init | Exec | Ready | HoldUp | Terminal | Aborted

datatype ctx = EntryCtx eptr | SavedCtx eptr nat

fun ctx_owner :: "ctx \<Rightarrow> eptr" where
  "ctx_owner (EntryCtx p) = p"
| "ctx_owner (SavedCtx p n) = p"

datatype stack_mem = NoStack | Allocated | Freed

record 'cb executor =
  ex_is_call_back_type :: bool
  ex_state :: State
  ex_id :: u64
  ex_stack_size :: u64
  ex_stack :: stack_mem
  ex_callback :: "'cb option"
  ex_context :: "ctx option"

text \<open>
  Where a suspended stack continues: at the start of \<open>executorMainFunc\<close>, or inside
  \<open>swapContext\<close> behind its jump, with the local \<open>dst\<close>.
\<close>

datatype point = AtEntry | InSwap eptr

record 'cb thread =
  heap :: "eptr \<Rightarrow> 'cb executor option"
  t_cur_executor :: "eptr option"
  t_main_executor :: "eptr option"
  t_base_executor :: "eptr option"
  running :: eptr
  suspended :: "eptr \<Rightarrow> (ctx \<times> point) option"
  gen :: nat
  started :: "eptr list" \<comment> \<open>the executors whose callback was called, in order\<close>
  least_unallocated_id :: u64
  executor_count :: u64

definition DefaultStackSize :: u64 where
  "DefaultStackSize = 64 * 1024"

section \<open>Objects\<close>

definition deref :: "'cb thread \<Rightarrow> eptr \<Rightarrow> 'cb executor res" where
  "deref th p = (case heap th p of None \<Rightarrow> Err UseAfterFree | Some e \<Rightarrow> Ok e)"

definition upd :: "eptr \<Rightarrow> ('cb executor \<Rightarrow> 'cb executor) \<Rightarrow> 'cb thread \<Rightarrow> 'cb thread" where
  "upd p f th = th\<lparr>heap := (heap th)(p := map_option f (heap th p))\<rparr>"

definition idGenerate :: "'cb thread \<Rightarrow> u64 \<times> 'cb thread" where
  "idGenerate th =
     (let n = least_unallocated_id th + 1 in (n, th\<lparr>least_unallocated_id := n\<rparr>))"

definition createUpdateData :: "'cb thread \<Rightarrow> 'cb thread" where
  "createUpdateData th = th\<lparr>executor_count := executor_count th + 1\<rparr>"

definition destroyUpdateData :: "'cb thread \<Rightarrow> 'cb thread" where
  "destroyUpdateData th = th\<lparr>executor_count := executor_count th - 1\<rparr>"

text \<open>
  The two constructors; \<open>p\<close> is the address the allocator returned. \<open>newContext\<close> and
  \<open>getCurrentContext\<close> do nothing in this configuration.
\<close>

definition Executor_current :: "eptr \<Rightarrow> 'cb thread \<Rightarrow> 'cb thread" where
  "Executor_current p th =
     (let (n, th) = idGenerate th;
          e = \<lparr>ex_is_call_back_type = False, ex_state = Ready, ex_id = n, ex_stack_size = 0,
               ex_stack = NoStack, ex_callback = None, ex_context = None\<rparr>
      in createUpdateData (th\<lparr>heap := (heap th)(p \<mapsto> e)\<rparr>))"

definition Executor_callback :: "eptr \<Rightarrow> 'cb option \<Rightarrow> u64 \<Rightarrow> 'cb thread \<Rightarrow> 'cb thread res" where
  "Executor_callback p cb sz th =
     (let (n, th) = idGenerate th;
          e = \<lparr>ex_is_call_back_type = True, ex_state = Init, ex_id = n, ex_stack_size = sz,
               ex_stack = NoStack, ex_callback = cb, ex_context = None\<rparr>
      in if cb = None then Err AssertFailed
         else Ok (createUpdateData (th\<lparr>heap := (heap th)(p \<mapsto> e)\<rparr>)))"

text \<open>The destructor: the object and its stack go away.\<close>

definition destroy_executor :: "eptr \<Rightarrow> 'cb thread \<Rightarrow> 'cb thread" where
  "destroy_executor p th =
     (destroyUpdateData th)\<lparr>heap := (heap th)(p := None), suspended := (suspended th)(p := None)\<rparr>"

section \<open>Contexts\<close>

text \<open>
  \<open>fixStackUnwinding\<close> copies two words of the memory \<open>context_\<close> points to into the top of the
  stack: both must exist.
\<close>

definition fixStackUnwinding :: "eptr \<Rightarrow> 'cb thread \<Rightarrow> 'cb thread res" where
  "fixStackUnwinding p th =
     res_bind (deref th p)
       (\<lambda>e. if ex_stack e = NoStack \<or> ex_context e = None then Err NullDeref else Ok th)"

text \<open>\<open>make_fcontext\<close> on the stack of \<open>p\<close>.\<close>

definition make_fcontext :: "eptr \<Rightarrow> 'cb thread \<Rightarrow> 'cb thread" where
  "make_fcontext p th = th\<lparr>suspended := (suspended th)(p \<mapsto> (EntryCtx p, AtEntry))\<rparr>"

definition makeContext :: "eptr \<Rightarrow> 'cb thread \<Rightarrow> 'cb thread res" where
  "makeContext p th =
     res_bind (deref th p)
       (\<lambda>e. let sz = (if ex_stack_size e = 0 then DefaultStackSize else ex_stack_size e);
                st = (if ex_stack e \<noteq> NoStack then Freed else Allocated)
            in if st = Freed then Err UseAfterFree
               else Ok (upd p (\<lambda>e. e\<lparr>ex_stack_size := sz, ex_stack := st, ex_context := Some (EntryCtx p)\<rparr>)
                          (make_fcontext p th)))"

text \<open>
  \<open>resetContext\<close> zeroes the stack and makes an entry context on it, but does not assign the
  pointer \<open>make_fcontext\<close> returns to \<open>context_\<close>.
\<close>

definition resetContext :: "eptr \<Rightarrow> 'cb thread \<Rightarrow> 'cb thread res" where
  "resetContext p th =
     res_bind (deref th p)
       (\<lambda>e. if ex_stack e = NoStack then Err NullDeref
            else if running th = p then Err DeadContext
            else Ok (make_fcontext p th))"

definition initToReady :: "eptr \<Rightarrow> 'cb thread \<Rightarrow> 'cb thread res" where
  "initToReady p th = res_bind (makeContext p th) (\<lambda>th. Ok (upd p (\<lambda>e. e\<lparr>ex_state := Ready\<rparr>) th))"

text \<open>A store through a possibly null \<open>Executor*\<close>.\<close>

definition store_context :: "eptr option \<Rightarrow> ctx \<Rightarrow> 'cb thread \<Rightarrow> 'cb thread res" where
  "store_context q c th =
     (case q of
        None \<Rightarrow> Err NullDeref
      | Some q \<Rightarrow> res_bind (deref th q) (\<lambda>_. Ok (upd q (\<lambda>e. e\<lparr>ex_context := Some c\<rparr>) th)))"

text \<open>
  The beginning of \<open>executorMainFunc\<close>, which acts on \<open>t_cur_executor\<close>; the callback is
  called afterwards.
\<close>

definition executorMainFunc_start :: "eptr option \<Rightarrow> ctx \<Rightarrow> 'cb thread \<Rightarrow> 'cb thread res" where
  "executorMainFunc_start data fctx th =
     (case t_cur_executor th of
        None \<Rightarrow> Err NullDeref
      | Some cur \<Rightarrow>
          res_bind (fixStackUnwinding cur th) (\<lambda>th.
          res_bind (store_context data fctx th) (\<lambda>th.
          res_bind (deref th cur) (\<lambda>e.
            if ex_callback e = None then Err AssertFailed
            else Ok (th\<lparr>started := started th @ [cur]\<rparr>)))))"

text \<open>
  \<open>swapContext(src, dst)\<close>: jump to \<open>dst->context_\<close> with \<open>src\<close> as data. The code at
  the other end stores the context of the stack just left: in \<open>src\<close> when it starts, in its own
  \<open>dst\<close> when it continues behind a jump.
\<close>

definition swapContext :: "eptr option \<Rightarrow> eptr option \<Rightarrow> 'cb thread \<Rightarrow> 'cb thread res" where
  "swapContext src dst th =
     (case dst of
        None \<Rightarrow> Err NullDeref
      | Some d \<Rightarrow>
          res_bind (deref th d) (\<lambda>e.
            case ex_context e of
              None \<Rightarrow> Err NullDeref
            | Some c \<Rightarrow>
                (case suspended th (ctx_owner c) of
                   None \<Rightarrow> Err DeadContext
                 | Some (c', pt) \<Rightarrow>
                     if c' \<noteq> c then Err DeadContext
                     else let o' = ctx_owner c;
                              fctx = SavedCtx (running th) (gen th);
                              th = th\<lparr>suspended := (suspended th)(o' := None, running th \<mapsto> (fctx, InSwap d)),
                                      running := o', gen := gen th + 1\<rparr>
                          in (case pt of
                                AtEntry \<Rightarrow> executorMainFunc_start src fctx th
                              | InSwap d' \<Rightarrow> store_context (Some d') fctx th))))"

section \<open>Operations\<close>

definition execInner :: "eptr \<Rightarrow> 'cb thread \<Rightarrow> 'cb thread res" where
  "execInner p th = swapContext (t_main_executor th) (Some p) (th\<lparr>t_cur_executor := Some p\<rparr>)"

definition yieldInner :: "eptr \<Rightarrow> 'cb thread \<Rightarrow> 'cb thread res" where
  "yieldInner p th =
     (let th = th\<lparr>t_cur_executor := t_main_executor th\<rparr>
      in res_bind (fixStackUnwinding p th) (\<lambda>th. swapContext (Some p) (t_cur_executor th) th))"

definition terminalInner :: "eptr \<Rightarrow> 'cb thread \<Rightarrow> 'cb thread res" where
  "terminalInner p th =
     (let th = th\<lparr>t_cur_executor := t_main_executor th\<rparr>
      in swapContext (Some p) (t_cur_executor th) th)"

definition mainExecInner :: "eptr \<Rightarrow> 'cb thread \<Rightarrow> 'cb thread res" where
  "mainExecInner p th = swapContext (t_base_executor th) (Some p) (th\<lparr>t_cur_executor := Some p\<rparr>)"

definition mainYieldInner :: "eptr \<Rightarrow> 'cb thread \<Rightarrow> 'cb thread res" where
  "mainYieldInner p th =
     (let th = th\<lparr>t_cur_executor := t_base_executor th\<rparr>
      in res_bind (fixStackUnwinding p th) (\<lambda>th. swapContext (Some p) (t_base_executor th) th))"

definition doExec :: "bool \<Rightarrow> eptr \<Rightarrow> 'cb thread \<Rightarrow> 'cb thread res" where
  "doExec main p th =
     (let go = (\<lambda>th. let th = upd p (\<lambda>e. e\<lparr>ex_state := Exec\<rparr>) th
                     in if main then mainExecInner p th else execInner p th)
      in res_bind (deref th p) (\<lambda>e.
           case ex_state e of
             Init \<Rightarrow> res_bind (initToReady p th) go
           | HoldUp \<Rightarrow> go th
           | Ready \<Rightarrow> go th
           | Exec \<Rightarrow> Ok th
           | Terminal \<Rightarrow> Ok th
           | Aborted \<Rightarrow> Ok th))"

definition exec :: "eptr \<Rightarrow> 'cb thread \<Rightarrow> 'cb thread res" where
  "exec p th = (if t_main_executor th = Some p then Err AssertFailed else doExec False p th)"

definition mainExec :: "eptr \<Rightarrow> 'cb thread \<Rightarrow> 'cb thread res" where
  "mainExec p th = doExec True p th"

definition yield :: "eptr \<Rightarrow> 'cb thread \<Rightarrow> 'cb thread res" where
  "yield p th =
     res_bind (deref th p) (\<lambda>e.
       if ex_state e \<noteq> Exec then Ok th
       else yieldInner p (upd p (\<lambda>e. e\<lparr>ex_state := HoldUp\<rparr>) th))"

definition mainYield :: "eptr \<Rightarrow> 'cb thread \<Rightarrow> 'cb thread res" where
  "mainYield p th =
     res_bind (deref th p) (\<lambda>e.
       if ex_state e \<noteq> Exec then Ok th
       else mainYieldInner p (upd p (\<lambda>e. e\<lparr>ex_state := HoldUp\<rparr>) th))"

definition kill :: "eptr \<Rightarrow> 'cb thread \<Rightarrow> 'cb thread res" where
  "kill p th =
     res_bind (deref th p) (\<lambda>e.
       let cur_state = ex_state e;
           th = upd p (\<lambda>e. e\<lparr>ex_state := Terminal\<rparr>) th
       in if cur_state = Exec then terminalInner p th else Ok th)"

definition terminal :: "eptr \<Rightarrow> 'cb thread \<Rightarrow> 'cb thread res" where
  "terminal p th =
     res_bind (deref th p) (\<lambda>e.
       if ex_state e \<noteq> Exec then Err AssertFailed
       else terminalInner p (upd p (\<lambda>e. e\<lparr>ex_state := Terminal\<rparr>) th))"

text \<open>
  The end of \<open>executorMainFunc\<close>: the callback has returned or thrown (both are caught and
  logged) and the current executor terminates.
\<close>

definition executorMainFunc_end :: "'cb thread \<Rightarrow> 'cb thread res" where
  "executorMainFunc_end th =
     (case t_cur_executor th of None \<Rightarrow> Err NullDeref | Some cur \<Rightarrow> terminal cur th)"

definition reset :: "'cb option \<Rightarrow> eptr \<Rightarrow> 'cb thread \<Rightarrow> 'cb thread res" where
  "reset func p th =
     res_bind (deref th p) (\<lambda>e.
       let th = upd p (\<lambda>e. e\<lparr>ex_callback := func\<rparr>) th
       in if ex_stack e \<noteq> NoStack then resetContext p th else makeContext p th)"

definition reuse :: "eptr \<Rightarrow> 'cb thread \<Rightarrow> 'cb thread res" where
  "reuse p th =
     res_bind (deref th p) (\<lambda>e.
       if ex_is_call_back_type e \<and> ex_state e = Terminal
       then resetContext p (upd p (\<lambda>e. e\<lparr>ex_state := Ready\<rparr>) th)
       else Ok th)"

definition setMainExecutor :: "eptr option \<Rightarrow> 'cb thread \<Rightarrow> 'cb thread" where
  "setMainExecutor p th = th\<lparr>t_main_executor := p\<rparr>"

definition getCurrent :: "eptr \<Rightarrow> 'cb thread \<Rightarrow> eptr \<times> 'cb thread" where
  "getCurrent fresh th =
     (case t_cur_executor th of
        Some p \<Rightarrow> (p, th)
      | None \<Rightarrow>
          let th = Executor_current fresh th;
              th = th\<lparr>t_cur_executor := Some fresh, t_base_executor := Some fresh\<rparr>;
              th = (if t_main_executor th = None then setMainExecutor (Some fresh) th else th)
          in (fresh, th))"

definition getCurrentId :: "'cb thread \<Rightarrow> u64" where
  "getCurrentId th =
     (case t_cur_executor th of
        None \<Rightarrow> 0
      | Some p \<Rightarrow> (case heap th p of None \<Rightarrow> 0 | Some e \<Rightarrow> ex_id e))"

definition totalExecutorCount :: "'cb thread \<Rightarrow> u64" where
  "totalExecutorCount th = executor_count th"

definition getState :: "eptr \<Rightarrow> 'cb thread \<Rightarrow> State res" where
  "getState p th = res_bind (deref th p) (\<lambda>e. Ok (ex_state e))"

section \<open>Cooperative use\<close>

text \<open>
  The library's own protocol: \<open>exec\<close> is called by the code on the main executor's stack, and a
  coroutine it switched to gives control back by \<open>yield\<close>, by returning, or by being killed.
  \<open>parked\<close> says of a coroutine that is not running that its \<open>context_\<close> is the live
  context of its stack.
\<close>

definition parked :: "eptr \<Rightarrow> (ctx \<times> point) option \<Rightarrow> eptr \<Rightarrow> 'cb executor \<Rightarrow> bool" where
  "parked m sus p e \<longleftrightarrow> ex_callback e \<noteq> None \<and>
     (case ex_state e of
        Init \<Rightarrow> ex_stack e = NoStack
      | Exec \<Rightarrow> False
      | Terminal \<Rightarrow> True
      | Aborted \<Rightarrow> True
      | _ \<Rightarrow> ex_stack e = Allocated \<and>
            (\<exists>c pt. ex_context e = Some c \<and> ctx_owner c = p \<and> sus = Some (c, pt) \<and> (pt = AtEntry \<or> pt = InSwap m)))"

definition on_cpu :: "'cb executor \<Rightarrow> bool" where
  "on_cpu e \<longleftrightarrow> ex_is_call_back_type e \<and> ex_state e = Exec \<and> ex_stack e = Allocated
     \<and> ex_context e \<noteq> None \<and> ex_callback e \<noteq> None"

definition main_waits :: "eptr \<Rightarrow> 'cb thread \<Rightarrow> bool" where
  "main_waits m th \<longleftrightarrow>
     (\<exists>e c. heap th m = Some e \<and> ex_context e = Some c \<and> ctx_owner c = m
        \<and> suspended th m = Some (c, InSwap (running th)))
     \<and> (\<exists>e. heap th (running th) = Some e \<and> on_cpu e)"

definition coop_ok :: "eptr \<Rightarrow> 'cb thread \<Rightarrow> bool" where
  "coop_ok m th \<longleftrightarrow>
     t_main_executor th = Some m \<and> t_cur_executor th = Some (running th)
     \<and> suspended th (running th) = None \<and> heap th m \<noteq> None \<and> heap th (running th) \<noteq> None
     \<and> (\<forall>p e. heap th p = Some e \<longrightarrow> ex_is_call_back_type e \<longrightarrow> p \<noteq> m \<longrightarrow> p \<noteq> running th
          \<longrightarrow> parked m (suspended th p) p e)
     \<and> (running th \<noteq> m \<longrightarrow> main_waits m th)"

lemma parked_simps [simp]:
  "ex_state e = Init \<Longrightarrow> parked m sus p e \<longleftrightarrow> ex_callback e \<noteq> None \<and> ex_stack e = NoStack"
  "ex_state e = Terminal \<Longrightarrow> parked m sus p e \<longleftrightarrow> ex_callback e \<noteq> None"
  "ex_state e = Aborted \<Longrightarrow> parked m sus p e \<longleftrightarrow> ex_callback e \<noteq> None"
  "ex_state e = Exec \<Longrightarrow> \<not> parked m sus p e"
  "ex_state e = HoldUp \<or> ex_state e = Ready \<Longrightarrow> parked m sus p e \<longleftrightarrow>
     ex_callback e \<noteq> None \<and> ex_stack e = Allocated \<and>
     (\<exists>c pt. ex_context e = Some c \<and> ctx_owner c = p \<and> sus = Some (c, pt) \<and> (pt = AtEntry \<or> pt = InSwap m))"
  by (auto simp: parked_def)

text \<open>What a switch between \<open>m\<close> and \<open>p\<close> leaves alone.\<close>

definition same_but :: "eptr \<Rightarrow> eptr \<Rightarrow> 'cb thread \<Rightarrow> 'cb thread \<Rightarrow> bool" where
  "same_but p m th th' \<longleftrightarrow>
     (\<forall>q. q \<noteq> p \<longrightarrow> q \<noteq> m \<longrightarrow> heap th' q = heap th q \<and> suspended th' q = suspended th q)
     \<and> t_base_executor th' = t_base_executor th
     \<and> (\<forall>q. map_option ex_is_call_back_type (heap th' q) = map_option ex_is_call_back_type (heap th q))
     \<and> (heap th' m = heap th m \<or> (\<exists>c. heap th' m = map_option (\<lambda>e. e\<lparr>ex_context := Some c\<rparr>) (heap th m)))"

lemma same_but_dom: "same_but p m th th' \<Longrightarrow> dom (heap th') = dom (heap th)"
  unfolding same_but_def by (metis (no_types, lifting) domIff map_option_is_None set_eq_iff)

lemmas exec_defs = exec_def doExec_def execInner_def initToReady_def makeContext_def make_fcontext_def
  swapContext_def executorMainFunc_start_def store_context_def fixStackUnwinding_def upd_def deref_def

lemmas leave_defs = yield_def yieldInner_def kill_def terminal_def terminalInner_def executorMainFunc_end_def
  swapContext_def store_context_def fixStackUnwinding_def upd_def deref_def

lemma coop_okD:
  assumes "coop_ok m th"
  shows "t_main_executor th = Some m" and "t_cur_executor th = Some (running th)"
    and "suspended th (running th) = None"
    and "\<exists>e. heap th m = Some e" and "\<exists>e. heap th (running th) = Some e"
    and "heap th p = Some e \<Longrightarrow> ex_is_call_back_type e \<Longrightarrow> p \<noteq> m \<Longrightarrow> p \<noteq> running th \<Longrightarrow>
      parked m (suspended th p) p e"
    and "running th \<noteq> m \<Longrightarrow> main_waits m th"
  using assms by (auto simp: coop_ok_def)

text \<open>Switching to a coroutine that has not started: a stack is made and its callback called.\<close>

lemma exec_first:
  assumes ok: "coop_ok m th" and r: "running th = m" and e: "heap th p = Some e" "ex_is_call_back_type e"
    and pm: "p \<noteq> m" and st: "ex_state e = Init"
  shows "\<exists>th'. exec p th = Ok th' \<and> coop_ok m th' \<and> running th' = p \<and> started th' = started th @ [p]
    \<and> same_but p m th th'"
proof -
  have pk: "parked m (suspended th p) p e" using coop_okD(6) [OF ok e] pm r by simp
  obtain em where em: "heap th m = Some em" using coop_okD(4) [OF ok] by blast
  note d = coop_okD(1,2,3) [OF ok]
  have "ex_stack e = NoStack" and "ex_callback e \<noteq> None" using pk st by simp_all
  then show ?thesis
    using st e pm em r d coop_okD(6) [OF ok]
    by (auto simp: exec_defs Let_def coop_ok_def main_waits_def on_cpu_def same_but_def)
qed

text \<open>Switching to a parked coroutine: it continues behind its last jump.\<close>

lemma exec_again:
  assumes ok: "coop_ok m th" and r: "running th = m" and e: "heap th p = Some e" "ex_is_call_back_type e"
    and pm: "p \<noteq> m" and st: "ex_state e = HoldUp \<or> ex_state e = Ready"
  shows "\<exists>th'. exec p th = Ok th' \<and> coop_ok m th' \<and> running th' = p
    \<and> same_but p m th th'"
proof -
  have pk: "parked m (suspended th p) p e" using coop_okD(6) [OF ok e] pm r by simp
  obtain em where em: "heap th m = Some em" using coop_okD(4) [OF ok] by blast
  note d = coop_okD(1,2,3) [OF ok]
  obtain c pt where "ex_context e = Some c" "ctx_owner c = p" "suspended th p = Some (c, pt)"
    "pt = AtEntry \<or> pt = InSwap m" "ex_stack e = Allocated" "ex_callback e \<noteq> None"
    using pk st by auto
  then show ?thesis
    using st e pm em r d coop_okD(6) [OF ok]
    by (auto simp: exec_defs Let_def coop_ok_def main_waits_def on_cpu_def same_but_def)
qed

text \<open>Leaving the CPU: the main executor continues, with a live context in the coroutine left.\<close>

lemma yield_back:
  assumes ok: "coop_ok m th" and r: "running th \<noteq> m"
  shows "\<exists>th' e. yield (running th) th = Ok th' \<and> coop_ok m th' \<and> running th' = m
    \<and> heap th' (running th) = Some e \<and> ex_state e = HoldUp
    \<and> same_but (running th) m th th'"
proof -
  obtain e em c where e: "heap th (running th) = Some e" "on_cpu e"
    and em: "heap th m = Some em" "ex_context em = Some c" "ctx_owner c = m"
      "suspended th m = Some (c, InSwap (running th))"
    using coop_okD(7) [OF ok r] by (auto simp: main_waits_def)
  note d = coop_okD(1,2,3) [OF ok]
  show ?thesis
    using e em r d coop_okD(6) [OF ok]
    by (auto simp: leave_defs Let_def coop_ok_def on_cpu_def same_but_def)
qed

lemma kill_running:
  assumes ok: "coop_ok m th" and r: "running th \<noteq> m"
  shows "\<exists>th' e. kill (running th) th = Ok th' \<and> coop_ok m th' \<and> running th' = m
    \<and> heap th' (running th) = Some e \<and> ex_state e = Terminal
    \<and> same_but (running th) m th th'"
proof -
  obtain e em c where e: "heap th (running th) = Some e" "on_cpu e"
    and em: "heap th m = Some em" "ex_context em = Some c" "ctx_owner c = m"
      "suspended th m = Some (c, InSwap (running th))"
    using coop_okD(7) [OF ok r] by (auto simp: main_waits_def)
  note d = coop_okD(1,2,3) [OF ok]
  show ?thesis
    using e em r d coop_okD(6) [OF ok]
    by (auto simp: leave_defs Let_def coop_ok_def on_cpu_def same_but_def)
qed

text \<open>On the CPU, returning from the callback is the same as being killed.\<close>

lemma finish_is_kill:
  assumes ok: "coop_ok m th" and r: "running th \<noteq> m"
  shows "executorMainFunc_end th = kill (running th) th"
proof -
  obtain e where "heap th (running th) = Some e" "on_cpu e"
    using coop_okD(7) [OF ok r] by (auto simp: main_waits_def)
  then show ?thesis
    using coop_okD(2) [OF ok] by (simp add: executorMainFunc_end_def terminal_def kill_def deref_def on_cpu_def)
qed

lemma kill_parked:
  assumes ok: "coop_ok m th" and e: "heap th p = Some e" "ex_is_call_back_type e"
    and p: "p \<noteq> m" "p \<noteq> running th"
  shows "\<exists>th'. kill p th = Ok th' \<and> coop_ok m th' \<and> running th' = running th \<and> same_but p m th th'"
proof -
  have pk: "parked m (suspended th p) p e" using coop_okD(6) [OF ok e] p by simp
  then have "ex_state e \<noteq> Exec" and cb: "ex_callback e \<noteq> None" by (auto simp: parked_def)
  then have k: "kill p th = Ok (upd p (\<lambda>e. e\<lparr>ex_state := Terminal\<rparr>) th)"
    using e by (simp add: kill_def deref_def)
  have "coop_ok m (upd p (\<lambda>e. e\<lparr>ex_state := Terminal\<rparr>) th)"
    using ok e p cb by (auto simp: coop_ok_def upd_def main_waits_def)
  with k e p show ?thesis by (auto simp: upd_def same_but_def)
qed

lemma exec_ended:
  assumes "heap th p = Some e" and "ex_state e = Terminal \<or> ex_state e = Aborted \<or> ex_state e = Exec"
    and "t_main_executor th \<noteq> Some p"
  shows "exec p th = Ok th"
  using assms by (auto simp: exec_def doExec_def deref_def)

lemma new_executor:
  assumes ok: "coop_ok m th" and "heap th p = None" and "cb \<noteq> None"
  shows "\<exists>th'. Executor_callback p cb sz th = Ok th' \<and> coop_ok m th'"
  using assms by (auto simp: Executor_callback_def idGenerate_def createUpdateData_def coop_ok_def main_waits_def Let_def)

lemma destroy_parked:
  assumes ok: "coop_ok m th" and "p \<noteq> m" and "p \<noteq> running th"
  shows "coop_ok m (destroy_executor p th)"
  using assms by (auto simp: destroy_executor_def destroyUpdateData_def coop_ok_def main_waits_def)

section \<open>Steps of a cooperative thread\<close>

inductive coop_step :: "eptr \<Rightarrow> 'cb thread \<Rightarrow> 'cb thread res \<Rightarrow> bool" for m where
  create: "heap th p = None \<Longrightarrow> cb \<noteq> None \<Longrightarrow> coop_step m th (Executor_callback p cb sz th)"
| switch: "running th = m \<Longrightarrow> heap th p = Some e \<Longrightarrow> ex_is_call_back_type e \<Longrightarrow> p \<noteq> m \<Longrightarrow>
    coop_step m th (exec p th)"
| give_up: "running th \<noteq> m \<Longrightarrow> coop_step m th (yield (running th) th)"
| return: "running th \<noteq> m \<Longrightarrow> coop_step m th (executorMainFunc_end th)"
| kill_any: "heap th p = Some e \<Longrightarrow> ex_is_call_back_type e \<Longrightarrow> p \<noteq> m \<Longrightarrow> coop_step m th (kill p th)"
| release: "p \<noteq> m \<Longrightarrow> p \<noteq> running th \<Longrightarrow> coop_step m th (Ok (destroy_executor p th))"

inductive coop_reach :: "eptr \<Rightarrow> 'cb thread \<Rightarrow> 'cb thread \<Rightarrow> bool" for m th0 where
  start: "coop_reach m th0 th0"
| step: "coop_reach m th0 th \<Longrightarrow> coop_step m th (Ok th') \<Longrightarrow> coop_reach m th0 th'"

lemma coop_step_safe: "coop_step m th r \<Longrightarrow> coop_ok m th \<Longrightarrow> \<exists>th'. r = Ok th' \<and> coop_ok m th'"
proof (induction rule: coop_step.induct)
  case (create th p cb sz)
  then show ?case using new_executor by blast
next
  case (switch th p e)
  show ?case
  proof (cases "ex_state e = Init \<or> ex_state e = HoldUp \<or> ex_state e = Ready")
    case True
    then show ?thesis using exec_first exec_again switch by metis
  next
    case False
    then have "ex_state e = Terminal \<or> ex_state e = Aborted \<or> ex_state e = Exec" by (cases "ex_state e") auto
    then show ?thesis using exec_ended switch coop_okD(1) by fastforce
  qed
next
  case (give_up th)
  then show ?case using yield_back by metis
next
  case (return th)
  then show ?case using finish_is_kill kill_running by metis
next
  case (kill_any th p e)
  then show ?case using kill_parked kill_running by metis
next
  case (release p th)
  then show ?case using destroy_parked by blast
qed

text \<open>A thread before and after its first \<open>getCurrent\<close>.\<close>

definition fresh_thread :: "eptr \<Rightarrow> 'cb thread" where
  "fresh_thread b = \<lparr>heap = (\<lambda>_. None), t_cur_executor = None, t_main_executor = None,
     t_base_executor = None, running = b, suspended = (\<lambda>_. None), gen = 0, started = [],
     least_unallocated_id = 0, executor_count = 0\<rparr>"

lemma coop_ok_fresh: "coop_ok b (snd (getCurrent b (fresh_thread b)))"
  by (simp add: getCurrent_def fresh_thread_def Executor_current_def idGenerate_def createUpdateData_def
      setMainExecutor_def coop_ok_def)

lemma coop_reach_ok: "coop_reach m th0 th \<Longrightarrow> coop_ok m th0 \<Longrightarrow> coop_ok m th"
proof (induction rule: coop_reach.induct)
  case (step th th')
  then show ?case using coop_step_safe by fastforce
qed

section \<open>Properties\<close>

text \<open>
  C2. Context safety of the coroutine switch. In a thread that uses executors cooperatively
  (\<open>exec\<close> from the main executor, \<open>yield\<close> or a return from the running coroutine, \<open>kill\<close>
  of any coroutine, creation and destruction of others) no step ever jumps to a dead context,
  follows a null pointer or fails an assertion, however many steps have been made.
\<close>

theorem coroutine_switch_safe:
  assumes "coop_reach b (snd (getCurrent b (fresh_thread b))) th" and "coop_step b th r"
  shows "\<exists>th'. r = Ok th' \<and> coop_ok b th'"
  using coop_step_safe [OF assms(2) coop_reach_ok [OF assms(1) coop_ok_fresh]] .

theorem coroutine_switch_safe_witness:
  "\<exists>th'. Executor_callback 1 (Some ()) 0 (snd (getCurrent 0 (fresh_thread 0))) = Ok th' \<and> coop_ok 0 th'"
proof (rule coroutine_switch_safe)
  show "coop_reach 0 (snd (getCurrent 0 (fresh_thread 0))) (snd (getCurrent 0 (fresh_thread 0)))"
    by (rule coop_reach.start)
  show "coop_step 0 (snd (getCurrent 0 (fresh_thread 0)))
      (Executor_callback 1 (Some ()) 0 (snd (getCurrent 0 (fresh_thread 0))))"
    by (rule coop_step.create)
      (simp_all add: getCurrent_def fresh_thread_def Executor_current_def idGenerate_def createUpdateData_def
        setMainExecutor_def)
qed

text \<open>
  C12. \<open>exec\<close> and \<open>yield\<close> are inverse switches: from the main executor \<open>exec\<close> puts a coroutine
  that is new, ready or held up on the CPU and makes it current; its \<open>yield\<close> brings control and
  \<open>t_cur_executor\<close> back to the main executor, leaves the coroutine held up and ready to be
  switched to again, and changes no third executor.
\<close>

theorem exec_yield_roundtrip:
  assumes "coop_ok m th" and "running th = m" and "heap th p = Some e" and "ex_is_call_back_type e"
    and "p \<noteq> m" and "ex_state e = Init \<or> ex_state e = HoldUp \<or> ex_state e = Ready"
  shows "\<exists>th1 th2 e2. exec p th = Ok th1 \<and> running th1 = p \<and> t_cur_executor th1 = Some p
     \<and> yield p th1 = Ok th2 \<and> running th2 = m \<and> t_cur_executor th2 = Some m
     \<and> heap th2 p = Some e2 \<and> ex_state e2 = HoldUp \<and> coop_ok m th2
     \<and> (\<forall>q. q \<noteq> p \<longrightarrow> q \<noteq> m \<longrightarrow> heap th2 q = heap th q)"
proof -
  obtain th1 where 1: "exec p th = Ok th1" "coop_ok m th1" "running th1 = p"
    "same_but p m th th1"
    using exec_first [OF assms(1-5)] exec_again [OF assms(1-5)] assms(6) by blast
  obtain th2 e2 where 2: "yield p th1 = Ok th2" "coop_ok m th2" "running th2 = m"
    "heap th2 p = Some e2" "ex_state e2 = HoldUp" "same_but p m th1 th2"
    using yield_back [OF 1(2)] 1(3) assms(5) by blast
  show ?thesis using 1 2 coop_okD(2) [OF 1(2)] coop_okD(2) [OF 2(2)] by (auto simp: same_but_def)
qed

text \<open>A thread with one new coroutine, for the witnesses below.\<close>

definition demo_thread :: "unit thread" where
  "demo_thread = (case Executor_callback 1 (Some ()) 0 (snd (getCurrent 0 (fresh_thread 0))) of
     Inl _ \<Rightarrow> fresh_thread 0 | Inr th \<Rightarrow> th)"

lemmas demo_defs = demo_thread_def getCurrent_def fresh_thread_def Executor_current_def idGenerate_def
  createUpdateData_def setMainExecutor_def Executor_callback_def

lemma demo_thread_facts:
  "coop_ok 0 demo_thread" "running demo_thread = 0"
  "\<exists>e. heap demo_thread 1 = Some e \<and> ex_is_call_back_type e \<and> ex_state e = Init"
proof -
  have "heap (snd (getCurrent 0 (fresh_thread 0))) 1 = (None :: unit executor option)"
    by (simp add: demo_defs Let_def)
  from new_executor [OF coop_ok_fresh this, of "Some ()" 0] show "coop_ok 0 demo_thread"
    by (auto simp: demo_thread_def)
qed (simp_all add: demo_defs Let_def)

theorem exec_yield_roundtrip_witness:
  "\<exists>th1 th2. exec 1 demo_thread = Ok th1 \<and> running th1 = 1 \<and> yield 1 th1 = Ok th2 \<and> running th2 = 0"
proof -
  obtain e where "heap demo_thread 1 = Some e" "ex_is_call_back_type e" "ex_state e = Init"
    using demo_thread_facts(3) by blast
  with exec_yield_roundtrip [OF demo_thread_facts(1,2), of 1 e] show ?thesis by auto
qed

text \<open>
  A coroutine that has ended never runs again: when the callback of the running coroutine returns
  (or throws, or the coroutine is killed) control goes back to the main executor, the coroutine
  is \<open>Terminal\<close>, and every later \<open>exec\<close> of it leaves the thread unchanged.
\<close>

theorem ended_coroutine_stays_ended:
  assumes "coop_ok m th" and "running th \<noteq> m"
  shows "\<exists>th' e. executorMainFunc_end th = Ok th' \<and> kill (running th) th = Ok th'
     \<and> running th' = m \<and> coop_ok m th' \<and> heap th' (running th) = Some e \<and> ex_state e = Terminal
     \<and> exec (running th) th' = Ok th'"
proof -
  obtain th' e where k: "kill (running th) th = Ok th'" "coop_ok m th'" "running th' = m"
    "heap th' (running th) = Some e" "ex_state e = Terminal"
    using kill_running [OF assms] by blast
  moreover have "t_main_executor th' \<noteq> Some (running th)"
    using coop_okD(1) [OF k(2)] assms(2) by simp
  then have "exec (running th) th' = Ok th'" using exec_ended k(4,5) by blast
  ultimately show ?thesis using finish_is_kill [OF assms] by auto
qed

lemma demo_running:
  "\<exists>th. exec 1 demo_thread = Ok th \<and> coop_ok 0 th \<and> running th = 1 \<and> heap th 2 = None"
proof -
  have "heap demo_thread 2 = None" by (simp add: demo_defs Let_def)
  moreover obtain e where "heap demo_thread 1 = Some e" "ex_is_call_back_type e" "ex_state e = Init"
    using demo_thread_facts(3) by blast
  ultimately show ?thesis using exec_first [OF demo_thread_facts(1,2), of 1 e] by (auto simp: same_but_def)
qed

theorem ended_coroutine_stays_ended_witness:
  "\<exists>th th' e. exec 1 demo_thread = Ok th \<and> executorMainFunc_end th = Ok th' \<and> heap th' 1 = Some e
     \<and> ex_state e = Terminal \<and> exec 1 th' = Ok th'"
proof -
  obtain th where th: "exec 1 demo_thread = Ok th" "coop_ok 0 th" "running th = 1"
    using demo_running by blast
  with ended_coroutine_stays_ended [OF th(2)] show ?thesis by auto
qed

text \<open>
  \<open>reuse\<close> does not make a finished coroutine runnable: \<open>resetContext\<close> drops the context
  \<open>make_fcontext\<close> returns, so the next \<open>exec\<close> jumps to the context the coroutine left when it
  ended, in a stack that has been zeroed.
\<close>

theorem reuse_jumps_to_dead_context:
  assumes "coop_ok m th" and "running th \<noteq> m"
  shows "\<exists>th1 th2. executorMainFunc_end th = Ok th1 \<and> reuse (running th) th1 = Ok th2
     \<and> exec (running th) th2 = Err DeadContext"
proof -
  obtain e em c where e: "heap th (running th) = Some e" "on_cpu e"
    and em: "heap th m = Some em" "ex_context em = Some c" "ctx_owner c = m"
      "suspended th m = Some (c, InSwap (running th))"
    using coop_okD(7) [OF assms] by (auto simp: main_waits_def)
  note d = coop_okD(1,2,3) [OF assms(1)]
  show ?thesis
    using e em assms(2) d
    by (auto simp: leave_defs exec_defs reuse_def resetContext_def Let_def on_cpu_def)
qed

theorem reuse_jumps_to_dead_context_witness:
  "\<exists>th th1 th2. exec 1 demo_thread = Ok th \<and> executorMainFunc_end th = Ok th1 \<and> reuse 1 th1 = Ok th2
     \<and> exec 1 th2 = Err DeadContext"
proof -
  obtain th where th: "exec 1 demo_thread = Ok th" "coop_ok 0 th" "running th = 1"
    using demo_running by blast
  with reuse_jumps_to_dead_context [OF th(2)] show ?thesis by auto
qed

text \<open>
  \<open>exec\<close> from inside another coroutine is not supported: the inner coroutine's \<open>yield\<close> does
  come back to the outer one, but the outer one is no longer current and the main executor's
  context has been overwritten, so the outer coroutine's own \<open>yield\<close> jumps to a dead context.
\<close>

theorem nested_exec_loses_main:
  assumes "coop_ok m th" and "running th \<noteq> m" and "heap th q = Some eq" and "ex_is_call_back_type eq"
    and "q \<noteq> m" and "q \<noteq> running th" and "ex_state eq = Init"
  shows "\<exists>th1 th2. exec q th = Ok th1 \<and> yield q th1 = Ok th2 \<and> running th2 = running th
     \<and> t_cur_executor th2 = Some m \<and> yield (running th) th2 = Err DeadContext"
proof -
  obtain e em c where e: "heap th (running th) = Some e" "on_cpu e"
    and em: "heap th m = Some em" "ex_context em = Some c" "ctx_owner c = m"
      "suspended th m = Some (c, InSwap (running th))"
    using coop_okD(7) [OF assms(1,2)] by (auto simp: main_waits_def)
  note d = coop_okD(1,2,3) [OF assms(1)]
  have "ex_stack eq = NoStack" and "ex_callback eq \<noteq> None"
    using coop_okD(6) [OF assms(1,3,4,5,6)] assms(7) by simp_all
  then show ?thesis
    using e em assms(2-) d
    by (auto simp: leave_defs exec_defs Let_def on_cpu_def)
qed

theorem nested_exec_loses_main_witness:
  "\<exists>th1 th2 th3 th4. exec 1 demo_thread = Ok th1 \<and> Executor_callback 2 (Some ()) 0 th1 = Ok th2
     \<and> exec 2 th2 = Ok th3 \<and> yield 2 th3 = Ok th4 \<and> yield 1 th4 = Err DeadContext"
proof -
  obtain th1 where th1: "exec 1 demo_thread = Ok th1" "coop_ok 0 th1" "running th1 = 1" "heap th1 2 = None"
    using demo_running by blast
  obtain th2 where th2: "Executor_callback 2 (Some ()) 0 th1 = Ok th2" "coop_ok 0 th2"
    using new_executor [OF th1(2,4), of "Some ()" 0] by auto
  then have "running th2 = 1" and "\<exists>e. heap th2 2 = Some e \<and> ex_is_call_back_type e \<and> ex_state e = Init"
    using th1(3) by (auto simp: Executor_callback_def idGenerate_def createUpdateData_def Let_def)
  with nested_exec_loses_main [OF th2(2), of 2] th1 th2 show ?thesis by auto
qed

end
