(* ===== verification/Task_Scheduler.thy ===== *)
theory Task_Scheduler
  imports Executor_Core
begin

text \<open>
  include/coroutine/scheduler.h and src/coroutine/scheduler.cpp. The scheduler's own fields are the
  record \<open>scheduler\<close>; together with the thread of \<open>Executor_Core\<close> they make a \<open>world\<close>.
  An \<open>Executor::Ptr\<close> in the ready queue may be null (\<open>None\<close>).

  The loop \<open>threadScheduleFunc\<close> is cut at the switch to a coroutine: \<open>sched_iter\<close> is one
  iteration up to the switch, \<open>sched_back\<close> what the loop does when control comes back. What the
  coroutines and the blocking function do in between are the other steps of \<open>sched_step\<close>.
\<close>

section \<open>The remote task list, one operation at a time\<close>

text \<open>
  The linked list from \<open>head\<close>, newest first. The interleavings of the lock-free insertion are the
  subject of theory \<open>Remote_Tasks\<close>.
\<close>

type_synonym remote_list = "eptr list"

definition insertFront :: "eptr \<Rightarrow> remote_list \<Rightarrow> bool \<times> remote_list" where
  "insertFront executor head = (head = [], executor # head)"

record scheduler =
  stopping :: bool
  stopped :: bool
  exit_with_tasks_processed :: bool
  ready_executors :: "eptr option list"
  scheduler_executor :: "eptr option"
  remote_tasks :: remote_list

section \<open>Queue operations\<close>

definition ready_push :: "eptr option \<Rightarrow> scheduler \<Rightarrow> scheduler" where
  "ready_push x s = s\<lparr>ready_executors := ready_executors s @ [x]\<rparr>"

definition ready_pop :: "scheduler \<Rightarrow> (eptr option \<times> scheduler) option" where
  "ready_pop s =
     (case ready_executors s of
        [] \<Rightarrow> None
      | x # xs \<Rightarrow> Some (x, s\<lparr>ready_executors := xs\<rparr>))"

definition addExecutor :: "eptr option \<Rightarrow> scheduler \<Rightarrow> bool \<times> scheduler" where
  "addExecutor executor s = (if stopping s then (False, s) else (True, ready_push executor s))"

definition removeExecutor :: "eptr option \<Rightarrow> scheduler \<Rightarrow> scheduler" where
  "removeExecutor executor s = s\<lparr>ready_executors := remove1 executor (ready_executors s)\<rparr>"

definition addRemoteExecutor :: "eptr \<Rightarrow> scheduler \<Rightarrow> bool \<times> scheduler" where
  "addRemoteExecutor executor s =
     (let (b, l) = insertFront executor (remote_tasks s) in (b, s\<lparr>remote_tasks := l\<rparr>))"

text \<open>
  \<open>scheduleAll\<close>: take the whole list with one exchange, then offer its nodes to
  \<open>addExecutor\<close>, whose result is not looked at.
\<close>

fun schedule_nodes :: "remote_list \<Rightarrow> scheduler \<Rightarrow> scheduler" where
  "schedule_nodes [] s = s"
| "schedule_nodes (v # next) s = schedule_nodes next (snd (addExecutor (Some v) s))"

definition scheduleAll :: "scheduler \<Rightarrow> scheduler" where
  "scheduleAll s = schedule_nodes (remote_tasks s) (s\<lparr>remote_tasks := []\<rparr>)"

definition stop :: "scheduler \<Rightarrow> scheduler" where
  "stop s = (if exit_with_tasks_processed s then s\<lparr>stopping := True\<rparr> else s\<lparr>stopped := True\<rparr>)"

definition setExitWithTasksProcessed :: "bool \<Rightarrow> scheduler \<Rightarrow> scheduler" where
  "setExitWithTasksProcessed b s = s\<lparr>exit_with_tasks_processed := b\<rparr>"

definition getExecutorsCount :: "scheduler \<Rightarrow> nat" where
  "getExecutorsCount s = length (ready_executors s)"

text \<open>\<open>stop_pending_func_\<close> enters by the value it returns.\<close>

definition stop_pending :: "bool \<Rightarrow> scheduler \<Rightarrow> bool" where
  "stop_pending func_result s \<longleftrightarrow> stopped s \<and> func_result"

text \<open>The result of the function the constructor installs.\<close>

definition default_stop_pending_func :: bool where
  "default_stop_pending_func = False"

section \<open>The loop\<close>

record 'cb world =
  thr :: "'cb thread"
  sch :: scheduler

text \<open>
  The constructor: \<open>b\<close> and \<open>p\<close> are the addresses of the executors it may create, \<open>loop\<close>
  the bound \<open>threadScheduleFunc\<close>.
\<close>

definition Scheduler_new :: "eptr \<Rightarrow> eptr \<Rightarrow> 'cb \<Rightarrow> 'cb thread \<Rightarrow> 'cb world res" where
  "Scheduler_new b p loop th =
     res_bind (Executor_callback p (Some loop) DefaultStackSize (snd (getCurrent b th))) (\<lambda>th.
       Ok \<lparr>thr = setMainExecutor (Some p) th,
           sch = \<lparr>stopping = False, stopped = False, exit_with_tasks_processed = True,
                  ready_executors = [], scheduler_executor = Some p, remote_tasks = []\<rparr>\<rparr>)"

definition sched_run :: "'cb world \<Rightarrow> 'cb world res" where
  "sched_run w =
     (case scheduler_executor (sch w) of
        None \<Rightarrow> Err NullDeref
      | Some p \<Rightarrow> res_bind (mainExec p (thr w)) (\<lambda>th. Ok (w\<lparr>thr := th\<rparr>)))"

datatype sched_out = LoopEnded | Blocked | Switched eptr | Skipped eptr

text \<open>The statement behind the loop.\<close>

definition sched_leave :: "'cb world \<Rightarrow> (sched_out \<times> 'cb world) res" where
  "sched_leave w =
     (case scheduler_executor (sch w) of
        None \<Rightarrow> Err NullDeref
      | Some p \<Rightarrow> res_bind (mainYield p (thr w)) (\<lambda>th. Ok (LoopEnded, w\<lparr>thr := th\<rparr>)))"

definition sched_iter :: "bool \<Rightarrow> 'cb world \<Rightarrow> (sched_out \<times> 'cb world) res" where
  "sched_iter func_result w =
     (if stop_pending func_result (sch w) then sched_leave w
      else
        let s = scheduleAll (sch w);
            (executor, s) = (case ready_pop s of None \<Rightarrow> (None, s) | Some (x, s') \<Rightarrow> (x, s'));
            w = w\<lparr>sch := s\<rparr>
        in case executor of
             None \<Rightarrow> if stopping s then sched_leave w else Ok (Blocked, w)
           | Some p \<Rightarrow>
               res_bind (getState p (thr w)) (\<lambda>st.
                 if st \<noteq> Terminal \<and> st \<noteq> Aborted
                 then res_bind (exec p (thr w)) (\<lambda>th. Ok (Switched p, w\<lparr>thr := th\<rparr>))
                 else Ok (Skipped p, w)))"

text \<open>Control is back from \<open>executor->exec()\<close>: the state the coroutine was left in is checked.\<close>

definition sched_back :: "eptr \<Rightarrow> 'cb world \<Rightarrow> 'cb world res" where
  "sched_back p w =
     res_bind (getState p (thr w)) (\<lambda>st.
       if st = Terminal \<or> st = HoldUp then Ok w
       else if st = Aborted then Ok w
       else Err AssertFailed)"

section \<open>The queue contract\<close>

interpretation rq: fifo_queue ready_push ready_pop ready_executors
  by unfold_locales (auto simp: ready_push_def ready_pop_def split: list.splits)

lemma schedule_nodes_eq:
  "schedule_nodes l s =
     (if stopping s then s else s\<lparr>ready_executors := ready_executors s @ map Some l\<rparr>)"
  by (induction l s rule: schedule_nodes.induct) (simp_all add: addExecutor_def ready_push_def)

lemma scheduleAll_eq:
  "scheduleAll s =
     (if stopping s then s\<lparr>remote_tasks := []\<rparr>
      else s\<lparr>ready_executors := ready_executors s @ map Some (remote_tasks s), remote_tasks := []\<rparr>)"
  by (simp add: scheduleAll_def schedule_nodes_eq)

section \<open>Invariant of a running loop\<close>

definition base_waits :: "eptr \<Rightarrow> 'cb thread \<Rightarrow> bool" where
  "base_waits S th \<longleftrightarrow>
     (\<exists>b e c. t_base_executor th = Some b \<and> b \<noteq> S \<and> b \<noteq> running th \<and> heap th b = Some e \<and> \<not> ex_is_call_back_type e
        \<and> ex_context e = Some c \<and> ctx_owner c = b \<and> suspended th b = Some (c, InSwap S))"

definition task :: "eptr \<Rightarrow> 'cb thread \<Rightarrow> eptr \<Rightarrow> bool" where
  "task S th p \<longleftrightarrow> p \<noteq> S \<and> (\<exists>e. heap th p = Some e \<and> ex_is_call_back_type e)"

definition queued :: "scheduler \<Rightarrow> eptr set" where
  "queued s = {p. Some p \<in> set (ready_executors s)} \<union> set (remote_tasks s)"

definition loop_ok :: "eptr \<Rightarrow> 'cb thread \<Rightarrow> bool" where
  "loop_ok S th \<longleftrightarrow> coop_ok S th \<and> base_waits S th \<and> (\<exists>e. heap th S = Some e \<and> on_cpu e)"

definition sched_ok :: "eptr \<Rightarrow> 'cb world \<Rightarrow> bool" where
  "sched_ok S w \<longleftrightarrow> loop_ok S (thr w) \<and> scheduler_executor (sch w) = Some S
     \<and> (\<forall>p \<in> queued (sch w). task S (thr w) p)"

text \<open>The loop has been left: the thread is back in the code that called \<open>run\<close>.\<close>

definition loop_left :: "eptr \<Rightarrow> 'cb world \<Rightarrow> bool" where
  "loop_left S w \<longleftrightarrow> t_base_executor (thr w) = Some (running (thr w))
     \<and> t_cur_executor (thr w) = t_base_executor (thr w) \<and> running (thr w) \<noteq> S
     \<and> (\<exists>e. heap (thr w) S = Some e \<and> ex_state e = HoldUp)"

inductive sched_step :: "eptr \<Rightarrow> 'cb world \<Rightarrow> 'cb world res \<Rightarrow> bool" for S where
  iterate: "running (thr w) = S \<Longrightarrow> sched_step S w (res_bind (sched_iter b w) (\<lambda>(_, w'). Ok w'))"
| co_yield: "running (thr w) \<noteq> S \<Longrightarrow>
    sched_step S w (res_bind (yield (running (thr w)) (thr w)) (\<lambda>th. sched_back (running (thr w)) (w\<lparr>thr := th\<rparr>)))"
| co_return: "running (thr w) \<noteq> S \<Longrightarrow>
    sched_step S w (res_bind (executorMainFunc_end (thr w)) (\<lambda>th. sched_back (running (thr w)) (w\<lparr>thr := th\<rparr>)))"
| co_kill_self: "running (thr w) \<noteq> S \<Longrightarrow>
    sched_step S w (res_bind (kill (running (thr w)) (thr w)) (\<lambda>th. sched_back (running (thr w)) (w\<lparr>thr := th\<rparr>)))"
| co_kill: "task S (thr w) p \<Longrightarrow> p \<noteq> running (thr w) \<Longrightarrow>
    sched_step S w (res_bind (kill p (thr w)) (\<lambda>th. Ok (w\<lparr>thr := th\<rparr>)))"
| create_task: "heap (thr w) p = None \<Longrightarrow> cb \<noteq> None \<Longrightarrow>
    sched_step S w (res_bind (Executor_callback p cb sz (thr w)) (\<lambda>th. Ok (w\<lparr>thr := th\<rparr>)))"
| add_task: "task S (thr w) p \<Longrightarrow> sched_step S w (Ok (w\<lparr>sch := snd (addExecutor (Some p) (sch w))\<rparr>))"
| add_null: "sched_step S w (Ok (w\<lparr>sch := snd (addExecutor None (sch w))\<rparr>))"
| remove_task: "sched_step S w (Ok (w\<lparr>sch := removeExecutor x (sch w)\<rparr>))"
| add_remote: "task S (thr w) p \<Longrightarrow> sched_step S w (Ok (w\<lparr>sch := snd (addRemoteExecutor p (sch w))\<rparr>))"
| request_stop: "sched_step S w (Ok (w\<lparr>sch := stop (sch w)\<rparr>))"
| set_exit: "sched_step S w (Ok (w\<lparr>sch := setExitWithTasksProcessed b (sch w)\<rparr>))"

lemma task_same_but:
  "same_but p m th th' \<Longrightarrow> task S th' q \<longleftrightarrow> task S th q"
proof -
  assume "same_but p m th th'"
  then have "map_option ex_is_call_back_type (heap th' q) = map_option ex_is_call_back_type (heap th q)"
    by (simp add: same_but_def)
  then show ?thesis by (cases "heap th q"; cases "heap th' q") (auto simp: task_def)
qed

lemma loop_ok_same_but:
  assumes "loop_ok S th" and "same_but p S th th'" and "coop_ok S th'"
    and "t_base_executor th \<noteq> Some p" and "running th' = S \<or> running th' = p \<or> running th' = running th"
  shows "loop_ok S th'"
proof -
  obtain b e c where b: "t_base_executor th = Some b" "b \<noteq> S" "b \<noteq> running th" "heap th b = Some e" "\<not> ex_is_call_back_type e"
    "ex_context e = Some c" "ctx_owner c = b" "suspended th b = Some (c, InSwap S)"
    using assms(1) by (auto simp: loop_ok_def base_waits_def)
  then have "base_waits S th'" using assms(2,4,5) by (auto simp: base_waits_def same_but_def)
  moreover have "\<exists>e. heap th' S = Some e \<and> on_cpu e"
    using assms(1,2) by (auto simp: loop_ok_def same_but_def on_cpu_def)
  ultimately show ?thesis using assms(3) by (simp add: loop_ok_def)
qed

lemma task_not_base: "loop_ok S th \<Longrightarrow> task S th p \<Longrightarrow> t_base_executor th \<noteq> Some p"
  by (auto simp: loop_ok_def base_waits_def task_def)

lemma running_task: "loop_ok S th \<Longrightarrow> running th \<noteq> S \<Longrightarrow> task S th (running th)"
  using coop_okD(7) [of S th] by (auto simp: loop_ok_def task_def on_cpu_def main_waits_def)

text \<open>Leaving the loop: the base executor continues behind \<open>run\<close>.\<close>

lemma mainYield_back:
  assumes "loop_ok S th" and "running th = S"
  shows "\<exists>th' b e. mainYield S th = Ok th' \<and> t_base_executor th = Some b \<and> running th' = b
     \<and> t_cur_executor th' = Some b \<and> t_base_executor th' = Some b \<and> b \<noteq> S
     \<and> heap th' S = Some e \<and> ex_state e = HoldUp"
proof -
  obtain b e c where b: "t_base_executor th = Some b" "b \<noteq> S" "heap th b = Some e"
    "ex_context e = Some c" "ctx_owner c = b" "suspended th b = Some (c, InSwap S)"
    using assms(1) by (auto simp: loop_ok_def base_waits_def)
  obtain es where "heap th S = Some es" "on_cpu es" using assms(1) by (auto simp: loop_ok_def)
  with b show ?thesis
    using assms(2) by (auto simp: mainYield_def mainYieldInner_def leave_defs Let_def on_cpu_def)
qed

lemma exec_task:
  assumes "loop_ok S th" and "running th = S" and "task S th p" and "heap th p = Some e"
    and "ex_state e \<noteq> Terminal" and "ex_state e \<noteq> Aborted"
  shows "\<exists>th'. exec p th = Ok th' \<and> loop_ok S th' \<and> running th' = p \<and> (\<forall>q. task S th' q \<longleftrightarrow> task S th q)
    \<and> same_but p S th th'"
proof -
  have ok: "coop_ok S th" and p: "p \<noteq> S" "ex_is_call_back_type e"
    using assms(1,3,4) by (auto simp: loop_ok_def task_def)
  have "parked S (suspended th p) p e" using coop_okD(6) [OF ok assms(4)] p assms(2) by simp
  then have "ex_state e = Init \<or> ex_state e = HoldUp \<or> ex_state e = Ready"
    using assms(5,6) by (cases "ex_state e") auto
  then obtain th' where th': "exec p th = Ok th'" "coop_ok S th'" "running th' = p" "same_but p S th th'"
    using exec_first [OF ok assms(2,4) p(2,1)] exec_again [OF ok assms(2,4) p(2,1)] by blast
  then have "loop_ok S th'"
    using loop_ok_same_but [OF assms(1) th'(4,2)] task_not_base [OF assms(1,3)] by simp
  then show ?thesis using th' task_same_but by blast
qed

text \<open>A coroutine on the CPU gives control back to the loop, which accepts the state it is in.\<close>

lemma switch_back:
  assumes "loop_ok S th" and "running th \<noteq> S" and "coop_ok S th'" and "running th' = S"
    and "same_but (running th) S th th'" and "heap th' (running th) = Some e"
    and "ex_state e = HoldUp \<or> ex_state e = Terminal"
  shows "loop_ok S th'" and "\<And>q. task S th' q \<longleftrightarrow> task S th q"
    and "sched_back (running th) (w\<lparr>thr := th'\<rparr>) = Ok (w\<lparr>thr := th'\<rparr>)"
  using loop_ok_same_but [OF assms(1,5,3)] task_not_base [OF assms(1) running_task [OF assms(1,2)]]
    task_same_but [OF assms(5)] assms(4,6,7)
  by (auto simp: sched_back_def getState_def deref_def)

lemma sched_ok_mono:
  assumes "sched_ok S w" and "loop_ok S th'" and "\<And>q. task S (thr w) q \<Longrightarrow> task S th' q"
  shows "sched_ok S (w\<lparr>thr := th'\<rparr>)"
  using assms by (auto simp: sched_ok_def)

lemma queued_ops:
  "queued (snd (addExecutor (Some p) s)) \<subseteq> insert p (queued s)"
  "queued (snd (addExecutor None s)) = queued s"
  "queued (removeExecutor x s) \<subseteq> queued s"
  "queued (snd (addRemoteExecutor p s)) = insert p (queued s)"
  "queued (stop s) = queued s"
  "queued (setExitWithTasksProcessed b s) = queued s"
  "queued (scheduleAll s) \<subseteq> queued s"
  "ready_pop s = Some (x, s') \<Longrightarrow> queued s' \<subseteq> queued s"
  "ready_pop s = Some (Some p, s') \<Longrightarrow> p \<in> queued s"
  by (auto simp: queued_def addExecutor_def ready_push_def removeExecutor_def addRemoteExecutor_def insertFront_def
      stop_def setExitWithTasksProcessed_def scheduleAll_eq ready_pop_def split: list.splits dest: subsetD [OF set_remove1_subset])

lemma scheduler_executor_ops [simp]:
  "scheduler_executor (snd (addExecutor y s)) = scheduler_executor s"
  "scheduler_executor (removeExecutor y s) = scheduler_executor s"
  "scheduler_executor (snd (addRemoteExecutor p s)) = scheduler_executor s"
  "scheduler_executor (stop s) = scheduler_executor s"
  "scheduler_executor (setExitWithTasksProcessed b s) = scheduler_executor s"
  "scheduler_executor (scheduleAll s) = scheduler_executor s"
  by (simp_all add: addExecutor_def ready_push_def removeExecutor_def addRemoteExecutor_def insertFront_def
      stop_def setExitWithTasksProcessed_def scheduleAll_eq)

lemma sched_leave_ok:
  assumes "sched_ok S w" and "running (thr w) = S"
  shows "\<exists>w'. sched_leave w = Ok (LoopEnded, w') \<and> loop_left S w' \<and> sch w' = sch w"
proof -
  have "loop_ok S (thr w)" using assms(1) by (simp add: sched_ok_def)
  from mainYield_back [OF this assms(2)] obtain th' b e where "mainYield S (thr w) = Ok th'" "running th' = b"
    "t_cur_executor th' = Some b" "t_base_executor th' = Some b" "b \<noteq> S" "heap th' S = Some e" "ex_state e = HoldUp"
    by blast
  then show ?thesis using assms(1) by (auto simp: sched_leave_def sched_ok_def loop_left_def)
qed

text \<open>What one iteration takes from the queues: the entry popped, and the queues afterwards.\<close>

definition sched_pick :: "scheduler \<Rightarrow> eptr option \<times> scheduler" where
  "sched_pick s =
     (let s = scheduleAll s in case ready_pop s of None \<Rightarrow> (None, s) | Some (x, s') \<Rightarrow> (x, s'))"

lemma sched_iter_pick:
  assumes "\<not> stop_pending b (sch w)" and "sched_pick (sch w) = (x, s')"
  shows "sched_iter b w =
     (case x of
        None \<Rightarrow> if stopping s' then sched_leave (w\<lparr>sch := s'\<rparr>) else Ok (Blocked, w\<lparr>sch := s'\<rparr>)
      | Some p \<Rightarrow>
          res_bind (getState p (thr w)) (\<lambda>st.
            if st \<noteq> Terminal \<and> st \<noteq> Aborted
            then res_bind (exec p (thr w)) (\<lambda>th. Ok (Switched p, w\<lparr>sch := s', thr := th\<rparr>))
            else Ok (Skipped p, w\<lparr>sch := s'\<rparr>)))"
  using assms by (auto simp: sched_iter_def sched_pick_def Let_def split: option.splits prod.splits cong: if_cong)

lemma sched_pick_keeps:
  assumes "sched_pick s = (x, s')"
  shows "queued s' \<subseteq> queued s" and "\<And>p. x = Some p \<Longrightarrow> p \<in> queued s"
    and "scheduler_executor s' = scheduler_executor s" and "stopping s' = stopping s"
proof -
  have 1: "scheduler_executor s' = scheduler_executor (scheduleAll s) \<and> stopping s' = stopping (scheduleAll s)"
    using assms by (auto simp: sched_pick_def Let_def ready_pop_def split: option.splits list.splits)
  show "scheduler_executor s' = scheduler_executor s" using 1 by simp
  show "stopping s' = stopping s" using 1 by (simp add: scheduleAll_eq)
  show "queued s' \<subseteq> queued s"
    using assms queued_ops(7) [of s] queued_ops(8) [of "scheduleAll s"]
    by (fastforce simp: sched_pick_def Let_def split: option.splits)
  show "\<And>p. x = Some p \<Longrightarrow> p \<in> queued s"
    using assms queued_ops(7) [of s] queued_ops(9) [of "scheduleAll s"]
    by (fastforce simp: sched_pick_def Let_def split: option.splits)
qed

lemma sched_iter_safe:
  assumes ok: "sched_ok S w" and r: "running (thr w) = S"
  shows "\<exists>out w'. sched_iter b w = Ok (out, w') \<and> (if out = LoopEnded then loop_left S w' else sched_ok S w')"
proof (cases "stop_pending b (sch w)")
  case True
  then show ?thesis using sched_leave_ok [OF ok r] by (auto simp: sched_iter_def)
next
  case False
  obtain x s' where pick: "sched_pick (sch w) = (x, s')" by (cases "sched_pick (sch w)")
  note it = sched_iter_pick [OF False pick] and k = sched_pick_keeps [OF pick]
  have ok': "sched_ok S (w\<lparr>sch := s'\<rparr>)" using ok k(1,3) by (auto simp: sched_ok_def)
  show ?thesis
  proof (cases x)
    case None
    then show ?thesis using it ok' sched_leave_ok [OF ok'] r by auto
  next
    case (Some p)
    have t: "task S (thr w) p" using ok k(2) [OF Some] by (simp add: sched_ok_def)
    then obtain e where e: "heap (thr w) p = Some e" by (auto simp: task_def)
    show ?thesis
    proof (cases "ex_state e = Terminal \<or> ex_state e = Aborted")
      case True
      then show ?thesis using it Some e ok' by (auto simp: getState_def deref_def)
    next
      case nt: False
      have "loop_ok S (thr w)" using ok by (simp add: sched_ok_def)
      then obtain th' where th': "exec p (thr w) = Ok th'" "loop_ok S th'" "\<forall>q. task S th' q \<longleftrightarrow> task S (thr w) q"
        using exec_task [OF _ r t e] nt by auto
      moreover have "sched_ok S (w\<lparr>sch := s', thr := th'\<rparr>)"
        using sched_ok_mono [OF ok' th'(2)] th'(3) by simp
      ultimately show ?thesis using it Some e nt by (auto simp: getState_def deref_def)
    qed
  qed
qed

definition leaves_cpu :: "eptr \<Rightarrow> 'cb thread \<Rightarrow> 'cb thread res \<Rightarrow> bool" where
  "leaves_cpu S th r \<longleftrightarrow>
     (\<exists>th' e. r = Ok th' \<and> coop_ok S th' \<and> running th' = S \<and> heap th' (running th) = Some e
        \<and> (ex_state e = HoldUp \<or> ex_state e = Terminal) \<and> same_but (running th) S th th')"

lemma leave_cpu_safe:
  assumes ok: "sched_ok S w" and r: "running (thr w) \<noteq> S" and op: "leaves_cpu S (thr w) op"
  shows "\<exists>w'. res_bind op (\<lambda>th. sched_back (running (thr w)) (w\<lparr>thr := th\<rparr>)) = Ok w'
    \<and> sched_ok S w' \<and> sch w' = sch w \<and> running (thr w') = S \<and> (\<forall>q. task S (thr w') q \<longleftrightarrow> task S (thr w) q)"
proof -
  obtain th' e where y: "op = Ok th'" "coop_ok S th'" "running th' = S"
    "same_but (running (thr w)) S (thr w) th'" "heap th' (running (thr w)) = Some e"
    "ex_state e = HoldUp \<or> ex_state e = Terminal"
    using op by (auto simp: leaves_cpu_def)
  have l: "loop_ok S (thr w)" using ok by (simp add: sched_ok_def)
  note b = switch_back [OF l r y(2-6)]
  show ?thesis using y(1,3) b sched_ok_mono [OF ok b(1)] by simp
qed

lemma coroutine_ends:
  assumes ok: "sched_ok S w" and r: "running (thr w) \<noteq> S"
  shows "\<exists>th. executorMainFunc_end (thr w) = Ok th \<and> sched_ok S (w\<lparr>thr := th\<rparr>) \<and> running th = S
    \<and> same_but (running (thr w)) S (thr w) th \<and> sched_back (running (thr w)) (w\<lparr>thr := th\<rparr>) = Ok (w\<lparr>thr := th\<rparr>)"
proof -
  have l: "loop_ok S (thr w)" using ok by (simp add: sched_ok_def)
  then have c: "coop_ok S (thr w)" by (simp add: loop_ok_def)
  obtain th e where e: "executorMainFunc_end (thr w) = Ok th" "coop_ok S th" "running th = S" "heap th (running (thr w)) = Some e"
    "ex_state e = Terminal" "same_but (running (thr w)) S (thr w) th"
    using kill_running [OF c r] finish_is_kill [OF c r] by auto
  note b = switch_back [OF l r e(2,3,6,4)]
  show ?thesis using e(1,3,5,6) sched_ok_mono [OF ok b(1)] b(2,3) by auto
qed

lemma yield_keeps_loop:
  assumes ok: "sched_ok S w" and r: "running (thr w) \<noteq> S" and y: "yield (running (thr w)) (thr w) = Ok th"
  shows "sched_ok S (w\<lparr>thr := th\<rparr>)" and "running th = S" and "task S th (running (thr w))"
    and "\<exists>e. heap th (running (thr w)) = Some e \<and> ex_state e = HoldUp" and "same_but (running (thr w)) S (thr w) th"
proof -
  have l: "loop_ok S (thr w)" using ok by (simp add: sched_ok_def)
  obtain e where e: "coop_ok S th" "running th = S" "heap th (running (thr w)) = Some e" "ex_state e = HoldUp"
    "same_but (running (thr w)) S (thr w) th"
    using yield_back [of S "thr w"] l r y by (auto simp: loop_ok_def)
  note b = switch_back [OF l r e(1,2,5,3)]
  show "sched_ok S (w\<lparr>thr := th\<rparr>)" using sched_ok_mono [OF ok b(1)] b(2) e(4) by simp
  show "task S th (running (thr w))" using b(2) running_task [OF l r] e(4) by simp
qed (use yield_back [of S "thr w"] ok r y in \<open>auto simp: sched_ok_def loop_ok_def\<close>)

lemma sched_step_safe:
  "sched_step S w r \<Longrightarrow> sched_ok S w \<Longrightarrow> \<exists>w'. r = Ok w' \<and> (sched_ok S w' \<or> loop_left S w')"
proof (induction rule: sched_step.induct)
  case (iterate w b)
  then show ?case using sched_iter_safe [OF iterate(2,1), of b] by (auto split: if_splits)
next
  case (co_yield w)
  then have "coop_ok S (thr w)" by (simp add: sched_ok_def loop_ok_def)
  then have "leaves_cpu S (thr w) (yield (running (thr w)) (thr w))"
    using yield_back [OF _ co_yield(1)] by (fastforce simp: leaves_cpu_def)
  from leave_cpu_safe [OF co_yield(2,1) this] show ?case by auto
next
  case (co_return w)
  then have "coop_ok S (thr w)" by (simp add: sched_ok_def loop_ok_def)
  then have "leaves_cpu S (thr w) (executorMainFunc_end (thr w))"
    using kill_running [OF _ co_return(1)] finish_is_kill [OF _ co_return(1)] by (fastforce simp: leaves_cpu_def)
  from leave_cpu_safe [OF co_return(2,1) this] show ?case by auto
next
  case (co_kill_self w)
  then have "coop_ok S (thr w)" by (simp add: sched_ok_def loop_ok_def)
  then have "leaves_cpu S (thr w) (kill (running (thr w)) (thr w))"
    using kill_running [OF _ co_kill_self(1)] by (fastforce simp: leaves_cpu_def)
  from leave_cpu_safe [OF co_kill_self(2,1) this] show ?case by auto
next
  case (co_kill w p)
  then have l: "loop_ok S (thr w)" and c: "coop_ok S (thr w)" by (auto simp: sched_ok_def loop_ok_def)
  obtain e where e: "heap (thr w) p = Some e" "ex_is_call_back_type e" "p \<noteq> S"
    using co_kill(1) by (auto simp: task_def)
  obtain th' where k: "kill p (thr w) = Ok th'" "coop_ok S th'" "running th' = running (thr w)"
    "same_but p S (thr w) th'"
    using kill_parked [OF c e co_kill(2)] by blast
  have "loop_ok S th'" using loop_ok_same_but [OF l k(4,2)] task_not_base [OF l co_kill(1)] k(3) by simp
  then show ?case using k(1) sched_ok_mono [OF co_kill(3)] task_same_but [OF k(4)] by auto
next
  case (create_task w p cb sz)
  then have l: "loop_ok S (thr w)" and c: "coop_ok S (thr w)" by (auto simp: sched_ok_def loop_ok_def)
  obtain th' where n: "Executor_callback p cb sz (thr w) = Ok th'" "coop_ok S th'"
    using new_executor [OF c create_task(1,2)] by blast
  from n(1) have o: "running th' = running (thr w)" "t_base_executor th' = t_base_executor (thr w)"
    "suspended th' = suspended (thr w)" "\<And>q e. heap (thr w) q = Some e \<Longrightarrow> heap th' q = Some e"
    using create_task(1) by (auto simp: Executor_callback_def idGenerate_def createUpdateData_def Let_def split: if_splits)
  have "base_waits S th'"
    using l o(1-3) o(4) by (fastforce simp: loop_ok_def base_waits_def)
  moreover have "\<exists>e. heap th' S = Some e \<and> on_cpu e"
    using l o(4) by (fastforce simp: loop_ok_def)
  ultimately have "loop_ok S th'" using n(2) by (simp add: loop_ok_def)
  moreover have "\<And>q. task S (thr w) q \<Longrightarrow> task S th' q"
    using o(4) by (fastforce simp: task_def)
  ultimately show ?case using n(1) sched_ok_mono [OF create_task(3)] by simp
next
  case (add_task w p)
  then show ?case using queued_ops(1) [of p "sch w"] by (auto simp: sched_ok_def)
next
  case (add_null w)
  then show ?case by (simp add: sched_ok_def queued_ops)
next
  case (remove_task w x)
  then show ?case using queued_ops(3) [of x "sch w"] by (auto simp: sched_ok_def)
next
  case (add_remote w p)
  then show ?case by (simp add: sched_ok_def queued_ops)
next
  case (request_stop w)
  then show ?case by (simp add: sched_ok_def queued_ops)
next
  case (set_exit w b)
  then show ?case by (simp add: sched_ok_def queued_ops)
qed

text \<open>The worlds a scheduler goes through while its loop runs.\<close>

inductive sched_reach :: "eptr \<Rightarrow> 'cb world \<Rightarrow> 'cb world \<Rightarrow> bool" for S w0 where
  start: "sched_reach S w0 w0"
| step: "sched_reach S w0 w \<Longrightarrow> \<not> loop_left S w \<Longrightarrow> sched_step S w (Ok w') \<Longrightarrow> sched_reach S w0 w'"

lemma sched_reach_ok:
  "sched_reach S w0 w \<Longrightarrow> sched_ok S w0 \<Longrightarrow> sched_ok S w \<or> loop_left S w"
proof (induction rule: sched_reach.induct)
  case (step w w')
  then show ?case using sched_step_safe by fastforce
qed simp

text \<open>A new scheduler whose \<open>run\<close> has been called.\<close>

definition sched_started :: "eptr \<Rightarrow> eptr \<Rightarrow> 'cb \<Rightarrow> 'cb world res" where
  "sched_started b p loop = res_bind (Scheduler_new b p loop (fresh_thread b)) sched_run"

lemmas sched_started_defs = sched_started_def Scheduler_new_def sched_run_def fresh_thread_def getCurrent_def
  Executor_current_def Executor_callback_def idGenerate_def createUpdateData_def setMainExecutor_def
  mainExec_def doExec_def mainExecInner_def initToReady_def makeContext_def make_fcontext_def
  swapContext_def executorMainFunc_start_def store_context_def fixStackUnwinding_def upd_def deref_def

lemma sched_started_ok:
  assumes "b \<noteq> p"
  shows "\<exists>w. sched_started b p loop = Ok w \<and> sched_ok p w \<and> running (thr w) = p
     \<and> ready_executors (sch w) = [] \<and> remote_tasks (sch w) = [] \<and> \<not> stopping (sch w) \<and> \<not> stopped (sch w)
     \<and> exit_with_tasks_processed (sch w) \<and> (\<forall>q. q \<noteq> b \<longrightarrow> q \<noteq> p \<longrightarrow> heap (thr w) q = None)"
  using assms
  by (simp add: sched_started_defs Let_def sched_ok_def loop_ok_def coop_ok_def base_waits_def queued_def on_cpu_def)

section \<open>Properties\<close>

text \<open>
  C1. Safety of the scheduling loop. From a new scheduler whose \<open>run\<close> was called, through any
  sequence of loop iterations, yields, returns and kills of coroutines, creations, local and
  remote additions (null included), removals and stop requests: no step jumps to a dead
  context, follows a null or dangling pointer, or fails the \<open>unexpected state\<close> assertion of
  the loop; the loop either goes on or has returned to the caller of \<open>run\<close>.
\<close>

theorem scheduler_loop_safe:
  assumes "b \<noteq> S" and "sched_started b S loop = Ok w0" and "sched_reach S w0 w" and "\<not> loop_left S w"
    and "sched_step S w r"
  shows "\<exists>w'. r = Ok w' \<and> (sched_ok S w' \<or> loop_left S w')"
proof -
  have "sched_ok S w0" using sched_started_ok [OF assms(1), of loop] assms(2) by auto
  then have "sched_ok S w" using sched_reach_ok [OF assms(3)] assms(4) by blast
  then show ?thesis by (rule sched_step_safe [OF assms(5)])
qed

theorem scheduler_loop_safe_witness:
  "\<exists>w0 w1. sched_started 0 1 () = Ok w0 \<and> res_bind (sched_iter False w0) (\<lambda>(_, w'). Ok w') = Ok w1
     \<and> (sched_ok 1 w1 \<or> loop_left 1 w1)"
proof -
  obtain w0 where w0: "sched_started 0 1 () = Ok w0" "sched_ok 1 w0" "running (thr w0) = 1"
    using sched_started_ok [of 0 1 "()"] by auto
  have "\<not> loop_left 1 w0" using w0(2) by (auto simp: sched_ok_def loop_ok_def on_cpu_def loop_left_def)
  then show ?thesis
    using scheduler_loop_safe [OF _ w0(1) sched_reach.start _ sched_step.iterate [OF w0(3), of False]] w0(1) by auto
qed

lemma sched_iter_serves:
  assumes "sched_ok S w" and "running (thr w) = S" and "\<not> stop_pending b (sch w)" and "\<not> stopping (sch w)"
    and "ready_executors (sch w) @ map Some (remote_tasks (sch w)) = Some p # rest"
    and "heap (thr w) p = Some e" and "ex_state e \<noteq> Terminal" and "ex_state e \<noteq> Aborted"
  shows "\<exists>w'. sched_iter b w = Ok (Switched p, w') \<and> running (thr w') = p \<and> t_cur_executor (thr w') = Some p
     \<and> ready_executors (sch w') = rest \<and> remote_tasks (sch w') = [] \<and> sched_ok S w'
     \<and> same_but p S (thr w) (thr w') \<and> sch w' = (sch w)\<lparr>ready_executors := rest, remote_tasks := []\<rparr>"
proof -
  let ?s = "(sch w)\<lparr>ready_executors := rest, remote_tasks := []\<rparr>"
  have pick: "sched_pick (sch w) = (Some p, ?s)"
    using assms(4,5) by (auto simp: sched_pick_def scheduleAll_eq ready_pop_def Let_def)
  have "p \<in> queued (sch w)" using sched_pick_keeps(2) [OF pick] by simp
  then have t: "task S (thr w) p" and l: "loop_ok S (thr w)" using assms(1) by (auto simp: sched_ok_def)
  obtain th' where th': "exec p (thr w) = Ok th'" "loop_ok S th'" "running th' = p"
    "\<forall>q. task S th' q \<longleftrightarrow> task S (thr w) q" "same_but p S (thr w) th'"
    using exec_task [OF l assms(2) t assms(6-8)] by blast
  have "sched_ok S (w\<lparr>sch := ?s\<rparr>)"
    using assms(1) sched_pick_keeps(1,3) [OF pick] by (auto simp: sched_ok_def)
  then have "sched_ok S (w\<lparr>sch := ?s, thr := th'\<rparr>)" using sched_ok_mono [OF _ th'(2), of "w\<lparr>sch := ?s\<rparr>"] th'(4) by simp
  moreover have "t_cur_executor th' = Some p" using th'(2,3) coop_okD(2) by (auto simp: loop_ok_def)
  ultimately show ?thesis
    using sched_iter_pick [OF assms(3) pick(1)] th' assms(6-8) by (simp add: getState_def deref_def)
qed

text \<open>A running loop with one new coroutine in its queue, for the witnesses below.\<close>

definition demo_world :: "'cb \<Rightarrow> 'cb world res" where
  "demo_world cb =
     res_bind (sched_started 0 1 cb) (\<lambda>w.
     res_bind (Executor_callback 2 (Some cb) 0 (thr w)) (\<lambda>th.
       Ok (w\<lparr>thr := th, sch := snd (addExecutor (Some 2) (sch w))\<rparr>)))"

lemma demo_world_ok:
  "\<exists>w e. demo_world cb = Ok w \<and> sched_ok 1 w \<and> running (thr w) = 1 \<and> ready_executors (sch w) = [Some 2]
     \<and> remote_tasks (sch w) = [] \<and> \<not> stopping (sch w) \<and> \<not> stopped (sch w) \<and> exit_with_tasks_processed (sch w)
     \<and> heap (thr w) 2 = Some e \<and> ex_state e = Init \<and> finite (dom (heap (thr w)))"
proof -
  obtain w0 where w0: "sched_started 0 1 cb = Ok w0" "sched_ok 1 w0" "running (thr w0) = 1"
    "ready_executors (sch w0) = []" "remote_tasks (sch w0) = []" "\<not> stopping (sch w0)" "\<not> stopped (sch w0)"
    "exit_with_tasks_processed (sch w0)" "heap (thr w0) 2 = None" "\<forall>q. q \<noteq> 0 \<longrightarrow> q \<noteq> 1 \<longrightarrow> heap (thr w0) q = None"
    using sched_started_ok [of 0 1 cb] by auto
  let ?r = "Executor_callback 2 (Some cb) 0 (thr w0)"
  obtain th e where th: "?r = Ok th" "running th = 1" "heap th 2 = Some e" "ex_is_call_back_type e" "ex_state e = Init"
    "dom (heap th) = insert 2 (dom (heap (thr w0)))"
    using w0(3) by (auto simp: Executor_callback_def idGenerate_def createUpdateData_def Let_def)
  have "sched_ok 1 (w0\<lparr>thr := th\<rparr>) \<or> loop_left 1 (w0\<lparr>thr := th\<rparr>)"
    using sched_step_safe [OF sched_step.create_task [OF w0(9), of "Some cb" 1 0] w0(2)] th(1) by auto
  then have "sched_ok 1 (w0\<lparr>thr := th\<rparr>)" using th(2) by (auto simp: loop_left_def)
  then have "sched_ok 1 (w0\<lparr>thr := th, sch := snd (addExecutor (Some 2) (sch w0))\<rparr>)"
    using queued_ops(1) [of 2 "sch w0"] th(3,4) by (auto simp: sched_ok_def task_def)
  moreover have "dom (heap th) \<subseteq> {0, 1, 2}" unfolding th(6) using w0(10) by auto
  then have "finite (dom (heap th))" by (rule finite_subset) simp
  ultimately show ?thesis using w0 th(1-5) by (auto simp: demo_world_def addExecutor_def ready_push_def)
qed

text \<open>
  Order of service. Unless the stop condition holds, an iteration serves the first entry of the
  ready queue followed by the remote tasks, the newest remote task first (the list is taken as
  it is linked); a coroutine that has not ended is switched to, and the rest of that sequence
  is the new ready queue.
\<close>

theorem scheduler_serves_in_order:
  assumes "sched_ok S w" and "running (thr w) = S" and "\<not> stop_pending b (sch w)" and "\<not> stopping (sch w)"
    and "ready_executors (sch w) @ map Some (remote_tasks (sch w)) = Some p # rest"
    and "heap (thr w) p = Some e" and "ex_state e \<noteq> Terminal" and "ex_state e \<noteq> Aborted"
  shows "\<exists>w'. sched_iter b w = Ok (Switched p, w') \<and> running (thr w') = p \<and> t_cur_executor (thr w') = Some p
     \<and> ready_executors (sch w') = rest \<and> remote_tasks (sch w') = [] \<and> sched_ok S w'"
  using sched_iter_serves [OF assms] by blast

theorem scheduler_serves_in_order_witness:
  "\<exists>w w'. demo_world () = Ok w \<and> sched_iter False w = Ok (Switched 2, w') \<and> running (thr w') = 2"
proof -
  obtain w e where w: "demo_world () = Ok w" "sched_ok 1 w" "running (thr w) = 1" "ready_executors (sch w) = [Some 2]"
    "remote_tasks (sch w) = []" "\<not> stopping (sch w)" "heap (thr w) 2 = Some e" "ex_state e = Init"
    using demo_world_ok [of "()"] by blast
  then show ?thesis
    using scheduler_serves_in_order [OF w(2,3), of False 2 "[]" e] by (auto simp: stop_pending_def)
qed

text \<open>
  When the loop ends. An iteration leaves the loop exactly when \<open>stopped_\<close> is set and
  \<open>stop_pending_func_\<close> agrees, or when \<open>stopping_\<close> is set and the ready queue is empty or
  starts with a null entry; what is then still in the remote list is dropped.
\<close>

theorem scheduler_loop_ends_iff:
  assumes "sched_ok S w" and "running (thr w) = S"
  shows "(\<exists>w'. sched_iter b w = Ok (LoopEnded, w') \<and> loop_left S w'
            \<and> (stop_pending b (sch w) \<or> remote_tasks (sch w') = []))
     \<longleftrightarrow> stopped (sch w) \<and> b \<or> stopping (sch w) \<and> (ready_executors (sch w) = [] \<or> hd (ready_executors (sch w)) = None)"
proof (cases "stop_pending b (sch w)")
  case True
  then show ?thesis using sched_leave_ok [OF assms] by (auto simp: sched_iter_def stop_pending_def)
next
  case False
  obtain x s' where pick: "sched_pick (sch w) = (x, s')" by (cases "sched_pick (sch w)")
  note it = sched_iter_pick [OF False pick] and k = sched_pick_keeps [OF pick]
  have ok': "sched_ok S (w\<lparr>sch := s'\<rparr>)" using assms(1) k(1,3) by (auto simp: sched_ok_def)
  have r: "remote_tasks s' = []"
    using pick by (auto simp: sched_pick_def scheduleAll_eq Let_def ready_pop_def split: list.splits if_splits)
  have x: "stopping (sch w) \<Longrightarrow> x = None \<longleftrightarrow> ready_executors (sch w) = [] \<or> hd (ready_executors (sch w)) = None"
    using pick by (auto simp: sched_pick_def scheduleAll_eq Let_def ready_pop_def split: list.splits)
  show ?thesis
  proof (cases x)
    case None
    then show ?thesis
      using it x k(4) r False sched_leave_ok [OF ok'] assms(2) by (auto simp: stop_pending_def)
  next
    case (Some p)
    have "sched_iter b w \<noteq> Ok (LoopEnded, w')" for w'
      using it Some by (cases "getState p (thr w)"; cases "exec p (thr w)") auto
    then show ?thesis using x Some False by (auto simp: stop_pending_def)
  qed
qed

theorem scheduler_loop_ends_iff_witness:
  "\<exists>w w'. demo_world () = Ok w \<and> sched_iter True (w\<lparr>sch := (sch w)\<lparr>stopped := True\<rparr>\<rparr>) = Ok (LoopEnded, w')"
proof -
  obtain w where w: "demo_world () = Ok w" "sched_ok 1 w" "running (thr w) = 1"
    using demo_world_ok [of "()"] by blast
  have "sched_ok 1 (w\<lparr>sch := (sch w)\<lparr>stopped := True\<rparr>\<rparr>)" using w(2) by (simp add: sched_ok_def queued_def)
  from scheduler_loop_ends_iff [OF this, of True] w show ?thesis by auto
qed

text \<open>
  \<open>stop\<close> with \<open>setExitWithTasksProcessed(false)\<close> and the default stop condition has no
  effect on the loop: no later iteration leaves it, whatever is in the queues.
\<close>

theorem immediate_stop_never_ends_loop:
  assumes "\<not> stopping (sch w)"
  shows "\<forall>w'. sched_iter default_stop_pending_func
      (w\<lparr>sch := stop (setExitWithTasksProcessed False (sch w))\<rparr>) \<noteq> Ok (LoopEnded, w')"
proof -
  let ?w = "w\<lparr>sch := stop (setExitWithTasksProcessed False (sch w))\<rparr>"
  have s: "\<not> stopping (sch ?w)" using assms by (simp add: stop_def setExitWithTasksProcessed_def)
  have ns: "\<not> stop_pending default_stop_pending_func (sch ?w)"
    by (simp add: stop_pending_def default_stop_pending_func_def)
  obtain x s' where pick: "sched_pick (sch ?w) = (x, s')" by (cases "sched_pick (sch ?w)")
  show ?thesis
    using sched_iter_pick [OF ns pick] sched_pick_keeps(4) [OF pick] s
    by (cases x; cases "getState (the x) (thr w)"; cases "exec (the x) (thr w)") auto
qed

theorem immediate_stop_never_ends_loop_witness:
  "\<exists>w. demo_world () = Ok w \<and> (\<forall>w'. sched_iter default_stop_pending_func
      (w\<lparr>sch := stop (setExitWithTasksProcessed False (sch w))\<rparr>) \<noteq> Ok (LoopEnded, w'))"
proof -
  obtain w where "demo_world () = Ok w" "\<not> stopping (sch w)" using demo_world_ok [of "()"] by blast
  then show ?thesis using immediate_stop_never_ends_loop by blast
qed

text \<open>
  One round: an iteration, and, when it switches to a coroutine, what that coroutine does next
  (it returns when \<open>fin\<close>, else it yields) up to the next iteration.
\<close>

definition sched_round :: "bool \<Rightarrow> bool \<Rightarrow> 'cb world \<Rightarrow> (sched_out \<times> 'cb world) res" where
  "sched_round b fin w =
     res_bind (sched_iter b w) (\<lambda>(out, w').
       case out of
         Switched p \<Rightarrow>
           res_bind (res_bind (if fin then executorMainFunc_end (thr w') else yield p (thr w'))
             (\<lambda>th. sched_back p (w'\<lparr>thr := th\<rparr>))) (\<lambda>w''. Ok (out, w''))
       | _ \<Rightarrow> Ok (out, w'))"

fun sched_rounds :: "bool \<Rightarrow> bool list \<Rightarrow> 'cb world \<Rightarrow> (sched_out list \<times> 'cb world) res" where
  "sched_rounds b [] w = Ok ([], w)"
| "sched_rounds b (fin # fins) w =
     res_bind (sched_round b fin w) (\<lambda>(out, w').
     res_bind (sched_rounds b fins w') (\<lambda>(outs, w''). Ok (out # outs, w'')))"

definition served :: "sched_out \<Rightarrow> eptr \<Rightarrow> bool" where
  "served out p \<longleftrightarrow> out = Switched p \<or> out = Skipped p"

lemma sched_round_picks:
  assumes ok: "sched_ok S w" and r: "running (thr w) = S" and ns: "\<not> stop_pending b (sch w)" and pick: "sched_pick (sch w) = (Some p, s)"
  shows "\<exists>out w'. sched_round b fin w = Ok (out, w') \<and> served out p \<and> sched_ok S w' \<and> running (thr w') = S \<and> sch w' = s
    \<and> (\<forall>q. task S (thr w') q \<longleftrightarrow> task S (thr w) q)"
proof -
  note it = sched_iter_pick [OF ns pick] and k = sched_pick_keeps [OF pick]
  have ok': "sched_ok S (w\<lparr>sch := s\<rparr>)" using ok k(1,3) by (auto simp: sched_ok_def)
  have t: "task S (thr w) p" and l: "loop_ok S (thr w)" using ok k(2) by (auto simp: sched_ok_def)
  then obtain e where e: "heap (thr w) p = Some e" "p \<noteq> S" by (auto simp: task_def)
  show ?thesis
  proof (cases "ex_state e = Terminal \<or> ex_state e = Aborted")
    case True
    then show ?thesis using it e r ok' by (auto simp: sched_round_def served_def getState_def deref_def)
  next
    case False
    then obtain th' where th': "exec p (thr w) = Ok th'" "loop_ok S th'" "running th' = p"
      "\<forall>q. task S th' q \<longleftrightarrow> task S (thr w) q"
      using exec_task [OF l r t e(1)] by auto
    let ?w = "w\<lparr>sch := s, thr := th'\<rparr>"
    have ok2: "sched_ok S ?w" using sched_ok_mono [OF ok' th'(2)] th'(4) by simp
    have c: "coop_ok S th'" and rn: "running th' \<noteq> S" using th'(2,3) e(2) by (auto simp: loop_ok_def)
    have "leaves_cpu S th' (if fin then executorMainFunc_end th' else yield p th')"
      using yield_back [OF c rn] kill_running [OF c rn] finish_is_kill [OF c rn] th'(3)
      by (fastforce simp: leaves_cpu_def)
    from leave_cpu_safe [OF ok2, simplified, OF rn this] it th' e(1) False show ?thesis
      by (auto simp: sched_round_def served_def getState_def deref_def)
  qed
qed

lemma sched_round_pops:
  assumes "sched_ok S w" and "running (thr w) = S" and "stopping (sch w)"
    and "\<not> stop_pending b (sch w)" and "ready_executors (sch w) = Some p # rest"
  shows "\<exists>out w'. sched_round b fin w = Ok (out, w') \<and> served out p \<and> sched_ok S w' \<and> running (thr w') = S
    \<and> sch w' = (sch w)\<lparr>ready_executors := rest, remote_tasks := []\<rparr>"
proof -
  have "sched_pick (sch w) = (Some p, (sch w)\<lparr>ready_executors := rest, remote_tasks := []\<rparr>)"
    using assms(3,5) by (simp add: sched_pick_def scheduleAll_eq ready_pop_def)
  from sched_round_picks [OF assms(1,2,4) this] show ?thesis by blast
qed

lemma sched_rounds_drain:
  assumes "sched_ok S w" and "running (thr w) = S" and "stopping (sch w)" and "\<not> stop_pending b (sch w)"
    and "ready_executors (sch w) = map Some ps" and "length fins = length ps"
  shows "\<exists>outs w'. sched_rounds b fins w = Ok (outs, w') \<and> list_all2 served outs ps \<and> sched_ok S w'
    \<and> running (thr w') = S \<and> stopping (sch w') \<and> ready_executors (sch w') = []"
  using assms
proof (induction ps arbitrary: w fins)
  case (Cons p ps)
  obtain fin fins' where f: "fins = fin # fins'" "length fins' = length ps"
    using Cons.prems(6) by (cases fins) auto
  have "ready_executors (sch w) = Some p # map Some ps" using Cons.prems(5) by simp
  from sched_round_pops [OF Cons.prems(1-4) this, of fin] obtain out w1 where
    w1: "sched_round b fin w = Ok (out, w1)" "served out p" "sched_ok S w1" "running (thr w1) = S"
      "sch w1 = (sch w)\<lparr>ready_executors := map Some ps, remote_tasks := []\<rparr>"
    by auto
  have "stopping (sch w1)" "\<not> stop_pending b (sch w1)" "ready_executors (sch w1) = map Some ps"
    using w1(5) Cons.prems(3,4) by (simp_all add: stop_pending_def)
  from Cons.IH [OF w1(3,4) this f(2)] w1(1,2) show ?case by (auto simp: f(1))
qed auto

text \<open>
  C11. A graceful stop lets every queued task have its turn: from the moment \<open>stopping_\<close> is set,
  as many iterations as there are entries serve each of them once, in queue order (whether the
  coroutines return or yield), nothing new enters the queue, and the iteration after them
  leaves the loop. The number of iterations to the end is thus known when \<open>stop\<close> is called.
\<close>

theorem graceful_stop_drains:
  assumes "sched_ok S w" and "running (thr w) = S" and "exit_with_tasks_processed (sch w)"
    and "\<not> stopped (sch w)" and "ready_executors (sch w) = map Some ps" and "length fins = length ps"
  shows "\<exists>outs w' w''. sched_rounds b fins (w\<lparr>sch := stop (sch w)\<rparr>) = Ok (outs, w') \<and> list_all2 served outs ps
     \<and> (\<forall>x. addExecutor x (sch w') = (False, sch w')) \<and> sched_iter b w' = Ok (LoopEnded, w'') \<and> loop_left S w''"
proof -
  let ?w = "w\<lparr>sch := stop (sch w)\<rparr>"
  have "sched_ok S ?w" using assms(1) by (simp add: sched_ok_def queued_ops)
  moreover have "stopping (sch ?w)" "\<not> stop_pending b (sch ?w)" "ready_executors (sch ?w) = map Some ps"
    using assms(3-5) by (simp_all add: stop_def stop_pending_def)
  ultimately obtain outs w' where w': "sched_rounds b fins ?w = Ok (outs, w')" "list_all2 served outs ps"
    "sched_ok S w'" "running (thr w') = S" "stopping (sch w')" "ready_executors (sch w') = []"
    using sched_rounds_drain [of S ?w b ps fins] assms(2,6) by auto
  obtain out w'' where it: "sched_iter b w' = Ok (out, w'')" "if out = LoopEnded then loop_left S w'' else sched_ok S w''"
    using sched_iter_safe [OF w'(3,4)] by blast
  have "out = LoopEnded"
    using it(1) w'(5,6)
    by (auto simp: sched_iter_def sched_leave_def scheduleAll_eq ready_pop_def Let_def res_bind_def
        split: if_splits option.splits sum.splits)
  then show ?thesis using w' it by (auto simp: addExecutor_def)
qed

theorem graceful_stop_drains_witness:
  "\<exists>w outs w' w''. demo_world () = Ok w \<and> sched_rounds False [False] (w\<lparr>sch := stop (sch w)\<rparr>) = Ok (outs, w')
     \<and> list_all2 served outs [2] \<and> sched_iter False w' = Ok (LoopEnded, w'')"
proof -
  obtain w where w: "demo_world () = Ok w" "sched_ok 1 w" "running (thr w) = 1" "ready_executors (sch w) = [Some 2]"
    "\<not> stopped (sch w)" "exit_with_tasks_processed (sch w)"
    using demo_world_ok [of "()"] by blast
  from graceful_stop_drains [OF w(2,3,6,5), of "[2]" "[False]" False] w(1,4) show ?thesis by auto
qed

text \<open>
  A scheduler runs once. When its loop has been left, a second \<open>run\<close> continues behind
  \<open>mainYield\<close> at the end of \<open>threadScheduleFunc\<close>; returning from there makes the scheduler's
  executor switch to the main executor, which is itself, through a context that is gone.
\<close>

theorem second_run_jumps_to_dead_context:
  assumes "sched_ok S w" and "running (thr w) = S"
  shows "\<exists>w1 w2. sched_leave w = Ok (LoopEnded, w1) \<and> sched_run w1 = Ok w2 \<and> running (thr w2) = S
     \<and> executorMainFunc_end (thr w2) = Err DeadContext"
proof -
  have l: "loop_ok S (thr w)" and s: "scheduler_executor (sch w) = Some S" using assms(1) by (auto simp: sched_ok_def)
  obtain b e c where b: "t_base_executor (thr w) = Some b" "b \<noteq> S" "heap (thr w) b = Some e"
    "ex_context e = Some c" "ctx_owner c = b" "suspended (thr w) b = Some (c, InSwap S)"
    using l by (auto simp: loop_ok_def base_waits_def)
  obtain es where es: "heap (thr w) S = Some es" "on_cpu es" using l by (auto simp: loop_ok_def)
  have m: "t_main_executor (thr w) = Some S" using l by (auto simp: loop_ok_def coop_ok_def)
  show ?thesis
    using b es m s assms(2)
    by (auto simp: sched_leave_def sched_run_def mainYield_def mainYieldInner_def mainExec_def doExec_def
        mainExecInner_def leave_defs Let_def on_cpu_def)
qed

theorem second_run_jumps_to_dead_context_witness:
  "\<exists>w w1 w2. demo_world () = Ok w \<and> sched_leave w = Ok (LoopEnded, w1) \<and> sched_run w1 = Ok w2
     \<and> executorMainFunc_end (thr w2) = Err DeadContext"
  using demo_world_ok [of "()"] second_run_jumps_to_dead_context by blast

end
