(* ===== verification/Remote_Tasks.thy ===== *)
theory Remote_Tasks
  imports Task_Scheduler "HOL-Library.Multiset"
begin

text \<open>
  \<open>Scheduler::RemoteTaskList\<close> of include/coroutine/scheduler.h at the level of its atomic
  accesses: any number of threads are inside \<open>insertFront\<close> while the scheduler's thread is inside
  \<open>scheduleAll\<close>, and every access to \<open>head\<close> or to a node is a step of its own. Nodes live at
  addresses; \<open>delete\<close> frees an address and a later \<open>new\<close> may return it again, also while another
  thread still compares with it.

  The development shows that these interleavings implement the list operations
  \<open>Task_Scheduler.insertFront\<close> and \<open>scheduleAll\<close>, with the successful compare-exchange and
  the exchange as the moments at which they take effect.
\<close>

section \<open>State and atomic steps\<close>

record node =
  node_value :: eptr
  node_next :: "nat option"

text \<open>Where a thread is inside \<open>insertFront\<close>, with its locals \<open>new_node\<close> and \<open>old_head\<close>.\<close>

datatype pc = Outside | Fresh nat | Loaded nat "nat option" | Linked nat "nat option" | Returned bool

record remote =
  head_ptr :: "nat option"
  nodes :: "nat \<Rightarrow> node option"
  pcs :: "nat \<Rightarrow> pc"
  walk :: "nat option" \<comment> \<open>the local \<open>_head\<close> of \<open>scheduleAll\<close>\<close>
  delivered :: "eptr list" \<comment> \<open>the calls of \<open>addExecutor\<close> so far\<close>

definition remote_init :: remote where
  "remote_init = \<lparr>head_ptr = None, nodes = (\<lambda>_. None), pcs = (\<lambda>_. Outside), walk = None, delivered = []\<rparr>"

definition insert_new :: "nat \<Rightarrow> eptr \<Rightarrow> nat \<Rightarrow> remote \<Rightarrow> remote" where
  "insert_new t v n s =
     s\<lparr>nodes := (nodes s)(n \<mapsto> \<lparr>node_value = v, node_next = None\<rparr>), pcs := (pcs s)(t := Fresh n)\<rparr>"

definition insert_load :: "nat \<Rightarrow> nat \<Rightarrow> remote \<Rightarrow> remote" where
  "insert_load t n s = s\<lparr>pcs := (pcs s)(t := Loaded n (head_ptr s))\<rparr>"

definition insert_link :: "nat \<Rightarrow> nat \<Rightarrow> nat option \<Rightarrow> remote \<Rightarrow> remote res" where
  "insert_link t n old s =
     (case nodes s n of
        None \<Rightarrow> Err UseAfterFree
      | Some nd \<Rightarrow> Ok (s\<lparr>nodes := (nodes s)(n \<mapsto> nd\<lparr>node_next := old\<rparr>), pcs := (pcs s)(t := Linked n old)\<rparr>))"

definition insert_cas :: "nat \<Rightarrow> nat \<Rightarrow> nat option \<Rightarrow> remote \<Rightarrow> remote" where
  "insert_cas t n old s =
     (if head_ptr s = old
      then s\<lparr>head_ptr := Some n, pcs := (pcs s)(t := Returned (old = None))\<rparr>
      else s\<lparr>pcs := (pcs s)(t := Loaded n (head_ptr s))\<rparr>)"

definition take_all :: "remote \<Rightarrow> remote" where
  "take_all s = s\<lparr>walk := head_ptr s, head_ptr := None\<rparr>"

definition visit_node :: "remote \<Rightarrow> remote res" where
  "visit_node s =
     (case walk s of
        None \<Rightarrow> Ok s
      | Some n \<Rightarrow>
          (case nodes s n of
             None \<Rightarrow> Err UseAfterFree
           | Some nd \<Rightarrow> Ok (s\<lparr>delivered := delivered s @ [node_value nd], walk := node_next nd,
                              nodes := (nodes s)(n := None)\<rparr>)))"

datatype event = Tau | Ins eptr bool | TakeAll | Deliver eptr

inductive remote_step :: "remote \<Rightarrow> event \<Rightarrow> remote res \<Rightarrow> bool" where
  call: "pcs s t = Outside \<or> pcs s t = Returned b \<Longrightarrow> nodes s n = None \<Longrightarrow>
    remote_step s Tau (Ok (insert_new t v n s))"
| load: "pcs s t = Fresh n \<Longrightarrow> remote_step s Tau (Ok (insert_load t n s))"
| link: "pcs s t = Loaded n old \<Longrightarrow> remote_step s Tau (insert_link t n old s)"
| cas_fails: "pcs s t = Linked n old \<Longrightarrow> head_ptr s \<noteq> old \<Longrightarrow> remote_step s Tau (Ok (insert_cas t n old s))"
| cas_succeeds: "pcs s t = Linked n old \<Longrightarrow> head_ptr s = old \<Longrightarrow> nodes s n = Some nd \<Longrightarrow>
    remote_step s (Ins (node_value nd) (old = None)) (Ok (insert_cas t n old s))"
| exchange: "walk s = None \<Longrightarrow> remote_step s TakeAll (Ok (take_all s))"
| visit: "walk s = Some n \<Longrightarrow> remote_step s (Deliver (case nodes s n of None \<Rightarrow> 0 | Some nd \<Rightarrow> node_value nd)) (visit_node s)"

section \<open>The abstract list\<close>

record abs_remote =
  a_list :: remote_list
  a_taken :: "eptr list"
  a_delivered :: "eptr list"

inductive abs_step :: "abs_remote \<Rightarrow> event \<Rightarrow> abs_remote \<Rightarrow> bool" where
  "abs_step a Tau a"
| "insertFront v (a_list a) = (b, l) \<Longrightarrow> abs_step a (Ins v b) (a\<lparr>a_list := l\<rparr>)"
| "a_taken a = [] \<Longrightarrow> abs_step a TakeAll (a\<lparr>a_taken := a_list a, a_list := []\<rparr>)"
| "a_taken a = v # vs \<Longrightarrow> abs_step a (Deliver v) (a\<lparr>a_taken := vs, a_delivered := a_delivered a @ [v]\<rparr>)"

inductive_cases abs_step_cases: "abs_step a ev a'"

text \<open>The addresses of the nodes linked from \<open>p\<close>.\<close>

fun chain :: "(nat \<Rightarrow> node option) \<Rightarrow> nat option \<Rightarrow> nat list \<Rightarrow> bool" where
  "chain h p [] \<longleftrightarrow> p = None"
| "chain h p (n # ns) \<longleftrightarrow> p = Some n \<and> (case h n of None \<Rightarrow> False | Some nd \<Rightarrow> chain h (node_next nd) ns)"

definition val_at :: "(nat \<Rightarrow> node option) \<Rightarrow> nat \<Rightarrow> eptr" where
  "val_at h n = (case h n of None \<Rightarrow> 0 | Some nd \<Rightarrow> node_value nd)"

fun pending :: "pc \<Rightarrow> nat option" where
  "pending (Fresh n) = Some n"
| "pending (Loaded n old) = Some n"
| "pending (Linked n old) = Some n"
| "pending _ = None"

definition owned :: "remote \<Rightarrow> nat list \<Rightarrow> bool" where
  "owned s ns \<longleftrightarrow> (\<forall>t n. pending (pcs s t) = Some n \<longrightarrow> n \<notin> set ns \<and> nodes s n \<noteq> None)
     \<and> (\<forall>t u n. pending (pcs s t) = Some n \<longrightarrow> pending (pcs s u) = Some n \<longrightarrow> t = u)
     \<and> (\<forall>t n old. pcs s t = Linked n old \<longrightarrow> map_option node_next (nodes s n) = Some old)"

definition implements :: "remote \<Rightarrow> abs_remote \<Rightarrow> bool" where
  "implements s a \<longleftrightarrow>
     (\<exists>hs ws. chain (nodes s) (head_ptr s) hs \<and> chain (nodes s) (walk s) ws \<and> distinct (hs @ ws)
        \<and> owned s (hs @ ws) \<and> a_list a = map (val_at (nodes s)) hs \<and> a_taken a = map (val_at (nodes s)) ws
        \<and> a_delivered a = delivered s)"

section \<open>Refinement\<close>

lemma chain_upd: "n \<notin> set ns \<Longrightarrow> chain (h(n := x)) p ns \<longleftrightarrow> chain h p ns"
  by (induction ns arbitrary: p) (auto split: option.splits)

lemma chain_alloc: "chain h p ns \<Longrightarrow> n \<in> set ns \<Longrightarrow> h n \<noteq> None"
  by (induction ns arbitrary: p) (auto split: option.splits)

lemma val_at_upd: "n \<notin> set ns \<Longrightarrow> map (val_at (h(n := x))) ns = map (val_at h) ns"
  by (auto simp: val_at_def)

lemma chain_None [simp]: "chain h None ns \<longleftrightarrow> ns = []"
  by (cases ns) auto

lemma ownedD:
  assumes "owned s ns"
  shows "pending (pcs s t) = Some n \<Longrightarrow> n \<notin> set ns" and "pending (pcs s t) = Some n \<Longrightarrow> nodes s n \<noteq> None"
    and "pending (pcs s t) = Some n \<Longrightarrow> pending (pcs s u) = Some n \<Longrightarrow> t = u"
    and "pcs s t = Linked n old \<Longrightarrow> map_option node_next (nodes s n) = Some old"
  using assms unfolding owned_def by blast+

text \<open>A step that only moves a thread inside \<open>insertFront\<close> keeps the abstraction.\<close>

lemma implements_pcs:
  assumes "implements s a" and "pending p = pending (pcs s t)" and "\<And>n old. p \<noteq> Linked n old"
  shows "implements (s\<lparr>pcs := (pcs s)(t := p)\<rparr>) a"
proof -
  have "owned (s\<lparr>pcs := (pcs s)(t := p)\<rparr>) ns" if "owned s ns" for ns
    using that assms(2,3) unfolding owned_def by (simp split: if_splits) metis
  then show ?thesis using assms(1) unfolding implements_def by fastforce
qed

lemma implementsE:
  assumes "implements s a"
  obtains hs ws where "chain (nodes s) (head_ptr s) hs" "chain (nodes s) (walk s) ws" "distinct (hs @ ws)"
    "owned s (hs @ ws)" "a_list a = map (val_at (nodes s)) hs" "a_taken a = map (val_at (nodes s)) ws"
    "a_delivered a = delivered s"
  using assms by (auto simp: implements_def)

lemma implements_new:
  assumes "implements s a" and "pending (pcs s t) = None" and "nodes s n = None"
  shows "implements (insert_new t v n s) a"
proof -
  obtain hs ws where i: "chain (nodes s) (head_ptr s) hs" "chain (nodes s) (walk s) ws" "distinct (hs @ ws)"
    "owned s (hs @ ws)" "a_list a = map (val_at (nodes s)) hs" "a_taken a = map (val_at (nodes s)) ws"
    "a_delivered a = delivered s"
    using assms(1) by (rule implementsE)
  have n: "n \<notin> set hs" "n \<notin> set ws" using chain_alloc [OF i(1), of n] chain_alloc [OF i(2), of n] assms(3) by auto
  have p: "\<And>u. pending (pcs s u) \<noteq> Some n" using ownedD(2) [OF i(4)] assms(3) by blast
  have l: "\<And>u m old. pcs s u = Linked m old \<Longrightarrow> m \<noteq> n" using p by (metis pending.simps(3))
  have "owned (insert_new t v n s) (hs @ ws)"
    using i(4) n p l assms(2) unfolding owned_def insert_new_def by (auto split: if_splits)
  then show ?thesis
    unfolding implements_def using i n
    by (intro exI [of _ hs] exI [of _ ws]) (auto simp: insert_new_def chain_upd val_at_def)
qed

lemma implements_link:
  assumes "implements s a" and "pcs s t = Loaded n old"
  shows "\<exists>s'. insert_link t n old s = Ok s' \<and> implements s' a"
proof -
  obtain hs ws where i: "chain (nodes s) (head_ptr s) hs" "chain (nodes s) (walk s) ws" "distinct (hs @ ws)"
    "owned s (hs @ ws)" "a_list a = map (val_at (nodes s)) hs" "a_taken a = map (val_at (nodes s)) ws"
    "a_delivered a = delivered s"
    using assms(1) by (rule implementsE)
  have pt: "pending (pcs s t) = Some n" using assms(2) by simp
  then obtain nd where nd: "nodes s n = Some nd" and n: "n \<notin> set hs" "n \<notin> set ws"
    using i(4) by (fastforce simp: owned_def)
  have l: "\<And>u m o'. pcs s u = Linked m o' \<Longrightarrow> m \<noteq> n"
    using i(4) assms(2) pt unfolding owned_def by (metis pc.distinct(15) pending.simps(3))
  let ?s = "s\<lparr>nodes := (nodes s)(n \<mapsto> nd\<lparr>node_next := old\<rparr>), pcs := (pcs s)(t := Linked n old)\<rparr>"
  have "owned ?s (hs @ ws)"
    using i(4) l pt nd n unfolding owned_def by (auto split: if_splits)
  then have "implements ?s a"
    unfolding implements_def using i n
    by (intro exI [of _ hs] exI [of _ ws]) (auto simp: chain_upd val_at_def)
  then show ?thesis using nd by (simp add: insert_link_def)
qed

lemma implements_insert:
  assumes "implements s a" and "pcs s t = Linked n old" and "head_ptr s = old" and "nodes s n = Some nd"
  shows "\<exists>a'. implements (insert_cas t n old s) a' \<and> abs_step a (Ins (node_value nd) (old = None)) a'"
proof -
  obtain hs ws where i: "chain (nodes s) (head_ptr s) hs" "chain (nodes s) (walk s) ws" "distinct (hs @ ws)"
    "owned s (hs @ ws)" "a_list a = map (val_at (nodes s)) hs" "a_taken a = map (val_at (nodes s)) ws"
    "a_delivered a = delivered s"
    using assms(1) by (rule implementsE)
  let ?s = "insert_cas t n old s" and ?a = "a\<lparr>a_list := node_value nd # a_list a\<rparr>"
  have n: "n \<notin> set hs" "n \<notin> set ws" and nx: "node_next nd = old"
    and u: "\<And>u. u \<noteq> t \<Longrightarrow> pending (pcs s u) \<noteq> Some n"
    using ownedD(1,3) [OF i(4), of t n] ownedD(4) [OF i(4) assms(2)] assms(2,4) by auto
  have "owned ?s ((n # hs) @ ws)"
    using i(4) assms(2,3) u unfolding owned_def insert_cas_def by (auto split: if_splits)
  moreover have "chain (nodes ?s) (head_ptr ?s) (n # hs)" using assms(3,4) i(1) nx by (simp add: insert_cas_def)
  ultimately have "implements ?s ?a"
    unfolding implements_def using i n assms(3,4)
    by (intro exI [of _ "n # hs"] exI [of _ ws]) (auto simp: insert_cas_def val_at_def)
  moreover have "old = None \<longleftrightarrow> a_list a = []" using i(1,5) assms(3) by (cases hs) auto
  then have "abs_step a (Ins (node_value nd) (old = None)) ?a"
    by (intro abs_step.intros) (simp add: insertFront_def)
  ultimately show ?thesis by blast
qed

lemma implements_take:
  assumes "implements s a" and "walk s = None"
  shows "\<exists>a'. implements (take_all s) a' \<and> abs_step a TakeAll a'"
proof -
  obtain hs ws where i: "chain (nodes s) (head_ptr s) hs" "chain (nodes s) (walk s) ws" "distinct (hs @ ws)"
    "owned s (hs @ ws)" "a_list a = map (val_at (nodes s)) hs" "a_taken a = map (val_at (nodes s)) ws"
    "a_delivered a = delivered s"
    using assms(1) by (rule implementsE)
  have ws: "ws = []" using i(2) assms(2) by simp
  have "implements (take_all s) (a\<lparr>a_taken := a_list a, a_list := []\<rparr>)"
    unfolding implements_def using i ws
    by (intro exI [of _ "[]"] exI [of _ hs]) (auto simp: take_all_def owned_def)
  moreover have "abs_step a TakeAll (a\<lparr>a_taken := a_list a, a_list := []\<rparr>)"
    using i(6) ws by (intro abs_step.intros) simp
  ultimately show ?thesis by blast
qed

lemma implements_visit:
  assumes "implements s a" and "walk s = Some n"
  shows "\<exists>s' a'. visit_node s = Ok s' \<and> implements s' a' \<and> abs_step a (Deliver (val_at (nodes s) n)) a'"
proof -
  obtain hs ws where i: "chain (nodes s) (head_ptr s) hs" "chain (nodes s) (walk s) ws" "distinct (hs @ ws)"
    "owned s (hs @ ws)" "a_list a = map (val_at (nodes s)) hs" "a_taken a = map (val_at (nodes s)) ws"
    "a_delivered a = delivered s"
    using assms(1) by (rule implementsE)
  obtain ws' nd where w: "ws = n # ws'" "nodes s n = Some nd" "chain (nodes s) (node_next nd) ws'"
    using i(2) assms(2) by (cases ws) (auto split: option.splits)
  let ?s = "s\<lparr>delivered := delivered s @ [node_value nd], walk := node_next nd, nodes := (nodes s)(n := None)\<rparr>"
  let ?a = "a\<lparr>a_taken := map (val_at (nodes s)) ws', a_delivered := a_delivered a @ [val_at (nodes s) n]\<rparr>"
  have n: "n \<notin> set hs" "n \<notin> set ws'" using i(3) w(1) by auto
  have l: "\<And>u m old. pcs s u = Linked m old \<Longrightarrow> m \<noteq> n"
    using i(4) w(1) unfolding owned_def by (metis in_set_conv_decomp pending.simps(3))
  have "owned ?s (hs @ ws')" using i(4) w(1) l unfolding owned_def by auto
  then have "implements ?s ?a"
    unfolding implements_def using i n w
    by (intro exI [of _ hs] exI [of _ ws']) (auto simp: chain_upd val_at_def)
  moreover have "abs_step a (Deliver (val_at (nodes s) n)) ?a" using i(6) w(1) by (intro abs_step.intros) simp
  ultimately show ?thesis using assms(2) w(2) by (auto simp: visit_node_def)
qed

lemma remote_step_refines:
  assumes "remote_step s ev r" and "implements s a"
  shows "\<exists>s' a'. r = Ok s' \<and> implements s' a' \<and> abs_step a ev a'"
  using assms
proof cases
  case (call t b n v)
  then show ?thesis using implements_new [OF assms(2), of t n v] abs_step.intros(1) by auto
next
  case (load t n)
  have "implements (insert_load t n s) a"
    unfolding insert_load_def using load by (intro implements_pcs [OF assms(2)]) auto
  then show ?thesis using load abs_step.intros(1) by auto
next
  case (link t n old)
  then show ?thesis using implements_link [OF assms(2) link(3)] abs_step.intros(1) by auto
next
  case (cas_fails t n old)
  have "implements (s\<lparr>pcs := (pcs s)(t := Loaded n (head_ptr s))\<rparr>) a"
    using cas_fails by (intro implements_pcs [OF assms(2)]) auto
  then show ?thesis using cas_fails abs_step.intros(1) by (auto simp: insert_cas_def)
next
  case (cas_succeeds t n old nd)
  then show ?thesis using implements_insert [OF assms(2)] by auto
next
  case exchange
  then show ?thesis using implements_take [OF assms(2)] by auto
next
  case (visit n)
  then show ?thesis using implements_visit [OF assms(2)] by (auto simp: val_at_def)
qed

section \<open>Executions\<close>

inductive remote_run :: "event list \<Rightarrow> remote \<Rightarrow> bool" where
  start: "remote_run [] remote_init"
| step: "remote_run tr s \<Longrightarrow> remote_step s ev (Ok s') \<Longrightarrow> remote_run (tr @ [ev]) s'"

definition abs_init :: abs_remote where
  "abs_init = \<lparr>a_list = [], a_taken = [], a_delivered = []\<rparr>"

inductive abs_run :: "event list \<Rightarrow> abs_remote \<Rightarrow> bool" where
  start: "abs_run [] abs_init"
| step: "abs_run tr a \<Longrightarrow> abs_step a ev a' \<Longrightarrow> abs_run (tr @ [ev]) a'"

lemma implements_init: "implements remote_init abs_init"
  unfolding implements_def by (intro exI [of _ "[]"]) (simp add: remote_init_def abs_init_def owned_def)

lemma remote_run_refines: "remote_run tr s \<Longrightarrow> \<exists>a. abs_run tr a \<and> implements s a"
proof (induction rule: remote_run.induct)
  case start
  then show ?case using implements_init abs_run.start by blast
next
  case (step tr s ev s')
  then show ?case using remote_step_refines abs_run.step by fastforce
qed

fun inserted :: "event list \<Rightarrow> eptr list" where
  "inserted [] = []"
| "inserted (Ins v b # tr) = v # inserted tr"
| "inserted (_ # tr) = inserted tr"

lemma inserted_append [simp]: "inserted (tr @ tr') = inserted tr @ inserted tr'"
  by (induction tr rule: inserted.induct) auto

lemma abs_run_conserves:
  "abs_run tr a \<Longrightarrow> mset (inserted tr) = mset (a_list a) + mset (a_taken a) + mset (a_delivered a)"
proof (induction rule: abs_run.induct)
  case (step tr a ev a')
  from step(2,3) show ?case by cases (auto simp: insertFront_def)
qed (simp add: abs_init_def)

section \<open>Properties\<close>

text \<open>
  C9. The lock-free list is linearizable and memory safe. For every interleaving of any number of
  \<open>insertFront\<close> calls with the scheduler's \<open>scheduleAll\<close>, also when freed addresses are
  allocated again, no step touches a freed node, and the execution is one of the sequential
  list: a successful compare-exchange is \<open>insertFront\<close> on the list (with the very boolean the
  call returns), the exchange empties it, and the nodes taken are delivered in list order.
\<close>

theorem remote_tasks_linearizable:
  assumes "remote_run tr s" and "remote_step s ev r"
  shows "\<exists>s' a a'. r = Ok s' \<and> abs_run tr a \<and> implements s a \<and> abs_step a ev a' \<and> implements s' a'
     \<and> delivered s' = a_delivered a'"
  using remote_run_refines [OF assms(1)] remote_step_refines [OF assms(2)] by (fastforce simp: implements_def)

text \<open>An execution in which thread 0 inserts task 7 at address 1, which is then delivered.\<close>

lemmas remote_step_defs = remote_init_def insert_new_def insert_load_def insert_link_def insert_cas_def
  take_all_def visit_node_def

lemma demo_remote:
  "\<exists>s. remote_run [Tau, Tau, Tau, Ins 7 True] s \<and> head_ptr s = Some 1 \<and> walk s = None \<and> delivered s = []
     \<and> nodes s 1 = Some \<lparr>node_value = 7, node_next = None\<rparr>"
proof -
  let ?s1 = "insert_new 0 7 1 remote_init"
  let ?s2 = "insert_load 0 1 ?s1"
  let ?s3 = "?s2\<lparr>nodes := (nodes ?s2)(1 \<mapsto> \<lparr>node_value = 7, node_next = None\<rparr>), pcs := (pcs ?s2)(0 := Linked 1 None)\<rparr>"
  let ?s4 = "insert_cas 0 1 None ?s3"
  have "remote_run ([] @ [Tau]) ?s1"
    by (intro remote_run.step [OF remote_run.start] remote_step.call) (simp_all add: remote_init_def)
  moreover have "remote_step ?s1 Tau (Ok ?s2)" by (rule remote_step.load) (simp add: insert_new_def)
  ultimately have 2: "remote_run (([] @ [Tau]) @ [Tau]) ?s2" by (rule remote_run.step)
  have "remote_step ?s2 Tau (insert_link 0 1 None ?s2)"
    by (rule remote_step.link) (simp add: remote_step_defs)
  then have "remote_step ?s2 Tau (Ok ?s3)" by (simp add: remote_step_defs)
  from remote_run.step [OF 2 this] have 3: "remote_run ((([] @ [Tau]) @ [Tau]) @ [Tau]) ?s3" by simp
  have "remote_step ?s3 (Ins (node_value \<lparr>node_value = 7, node_next = None\<rparr>) (None = (None :: nat option))) (Ok ?s4)"
    by (rule remote_step.cas_succeeds) (simp_all add: remote_step_defs)
  from remote_run.step [OF 3 this] show ?thesis
    by (intro exI [of _ ?s4]) (simp add: remote_step_defs)
qed

theorem remote_tasks_linearizable_witness:
  "\<exists>s s' a a'. remote_run [Tau, Tau, Tau, Ins 7 True] s \<and> Ok (take_all s) = Ok s' \<and> implements s a
     \<and> abs_step a TakeAll a' \<and> implements s' a'"
proof -
  obtain s where s: "remote_run [Tau, Tau, Tau, Ins 7 True] s" "walk s = None" using demo_remote by blast
  from remote_tasks_linearizable [OF s(1) remote_step.exchange [OF s(2)]] s(1) show ?thesis by blast
qed

text \<open>
  No remote task is lost or run twice by the list: at every moment the tasks inserted so far are
  exactly those delivered plus those still linked from \<open>head\<close> or from the scheduler's local
  pointer; once both are null every inserted task has been delivered, as often as it was
  inserted.
\<close>

theorem remote_tasks_conserved:
  assumes "remote_run tr s"
  shows "mset (delivered s) \<subseteq># mset (inserted tr)
     \<and> (head_ptr s = None \<and> walk s = None \<longrightarrow> mset (delivered s) = mset (inserted tr))"
proof -
  obtain a where a: "abs_run tr a" "implements s a" using remote_run_refines [OF assms] by blast
  note c = abs_run_conserves [OF a(1)]
  have d: "a_delivered a = delivered s" using a(2) by (auto elim: implementsE)
  have "mset (delivered s) = mset (inserted tr)" if "head_ptr s = None" "walk s = None"
    using a(2) that c d by (auto elim!: implementsE)
  then show ?thesis using c d by simp
qed

theorem remote_tasks_conserved_witness:
  "\<exists>s s'. remote_run [Tau, Tau, Tau, Ins 7 True] s \<and> visit_node (take_all s) = Ok s' \<and> mset (delivered s') = {#7#}"
proof -
  obtain s where s: "remote_run [Tau, Tau, Tau, Ins 7 True] s" "head_ptr s = Some 1" "walk s = None" "delivered s = []"
    "nodes s 1 = Some \<lparr>node_value = 7, node_next = None\<rparr>"
    using demo_remote by blast
  have r: "remote_run ([Tau, Tau, Tau, Ins 7 True] @ [TakeAll]) (take_all s)"
    by (rule remote_run.step [OF s(1) remote_step.exchange [OF s(3)]])
  have w: "walk (take_all s) = Some 1" using s(2) by (simp add: take_all_def)
  obtain s' where v: "visit_node (take_all s) = Ok s'" "head_ptr s' = None" "walk s' = None"
    using s w by (auto simp: visit_node_def take_all_def)
  from remote_run.step [OF r] remote_step.visit [OF w] v(1)
  have "remote_run ([Tau, Tau, Tau, Ins 7 True] @ [TakeAll] @
      [Deliver (case nodes (take_all s) 1 of None \<Rightarrow> 0 | Some nd \<Rightarrow> node_value nd)]) s'"
    by fastforce
  from remote_tasks_conserved [OF this] v(2,3) s(1) v(1) show ?thesis by auto
qed

end
