(* ===== verification/Sys_Calls.thy ===== *)
theory Sys_Calls
  imports Net_Prelude
begin

text \<open>
  System calls as the sources see them, and src/base/epoll_helper.h. The kernel is not part of the
  repository: its state is a type variable and every call a parameter, a function from the
  state to an outcome and a new state. An outcome is a value, or \<open>-1\<close> with \<open>errno\<close>.
\<close>

datatype errno = EINTR | EAGAIN | EINPROGRESS | EBADF | OtherErrno nat

type_synonym 'a sys = "errno + 'a"

type_synonym ('k, 'a) syscall = "'k \<Rightarrow> 'a sys \<times> 'k"

text \<open>\<open>invokeNoIntr\<close>: the call is repeated as long as a signal interrupts it.\<close>

partial_function (option) invokeNoIntr :: "('k, 'a) syscall \<Rightarrow> 'k \<Rightarrow> ('a sys \<times> 'k) option" where
  "invokeNoIntr func k =
     (let (ret, k') = func k in if ret = Inl EINTR then invokeNoIntr func k' else Some (ret, k'))"

definition invoked :: "('k, 'a) syscall \<Rightarrow> 'k \<Rightarrow> ('a sys \<times> 'k) res" where
  "invoked func k = (case invokeNoIntr func k of None \<Rightarrow> Err NoReturn | Some r \<Rightarrow> Ok r)"

datatype ep_op = EPOLL_CTL_ADD | EPOLL_CTL_MOD | EPOLL_CTL_DEL

text \<open>\<open>epollOperation\<close> fills the \<open>epoll_event\<close> with the events and the descriptor.\<close>

definition epollOperation ::
    "(ep_op \<Rightarrow> fd \<Rightarrow> u32 \<times> fd \<Rightarrow> ('k, unit) syscall) \<Rightarrow> ep_op \<Rightarrow> u32 \<Rightarrow> fd \<Rightarrow> ('k, unit) syscall" where
  "epollOperation epoll_ctl op events i = epoll_ctl op i (events, i)"

lemma invokeNoIntr_done: "fst (func k) \<noteq> Inl EINTR \<Longrightarrow> invokeNoIntr func k = Some (func k)"
  by (subst invokeNoIntr.simps) (cases "func k"; simp)

lemma invokeNoIntr_again: "fst (func k) = Inl EINTR \<Longrightarrow> invokeNoIntr func k = invokeNoIntr func (snd (func k))"
  by (subst invokeNoIntr.simps) (cases "func k"; simp)

lemma invoked_done: "func k = (r, k') \<Longrightarrow> r \<noteq> Inl EINTR \<Longrightarrow> invoked func k = Ok (r, k')"
  by (simp add: invoked_def invokeNoIntr_done)

text \<open>The kernel after \<open>n\<close> calls.\<close>

fun after_calls :: "('k, 'a) syscall \<Rightarrow> nat \<Rightarrow> 'k \<Rightarrow> 'k" where
  "after_calls func 0 k = k"
| "after_calls func (Suc n) k = after_calls func n (snd (func k))"

text \<open>
  C19. A call made through \<open>invokeNoIntr\<close> returns as soon as one attempt is not interrupted, with
  the outcome of exactly that attempt: after \<open>n\<close> interrupted attempts the next outcome is the
  result, whatever it is, and no later attempt is made.
\<close>

theorem invokeNoIntr_returns:
  assumes "\<And>i. i < n \<Longrightarrow> fst (func (after_calls func i k)) = Inl EINTR"
    and "fst (func (after_calls func n k)) \<noteq> Inl EINTR"
  shows "invokeNoIntr func k = Some (func (after_calls func n k))"
  using assms
proof (induction n arbitrary: k)
  case (Suc n)
  have "fst (func k) = Inl EINTR" using Suc.prems(1) [of 0] by simp
  moreover have "invokeNoIntr func (snd (func k)) = Some (func (after_calls func n (snd (func k))))"
    using Suc.prems(1) [of "Suc i" for i] Suc.prems(2) by (intro Suc.IH) auto
  ultimately show ?case by (simp add: invokeNoIntr_again)
qed (simp add: invokeNoIntr_done)

theorem invokeNoIntr_returns_witness:
  "invokeNoIntr (\<lambda>k :: nat. (if k < 2 then Inl EINTR else Inr (5 :: nat), k + 1)) 0 = Some (Inr 5, 3)"
proof -
  let ?f = "\<lambda>k :: nat. (if k < 2 then Inl EINTR else Inr (5 :: nat), k + 1)"
  have "invokeNoIntr ?f 0 = Some (?f (after_calls ?f 2 0))"
    by (rule invokeNoIntr_returns) (auto simp: numeral_2_eq_2 less_Suc_eq)
  then show ?thesis by (simp add: numeral_2_eq_2)
qed

end
