(* ===== verification/Io_Manager.thy ===== *)
theory Io_Manager
  imports Task_Scheduler Timer_Manager Sys_Calls
begin

text \<open>
  include/io/io_manager.h and src/io/io_manager.cpp. An \<open>IOManager\<close> owns the scheduler and the
  executors of its thread (the \<open>world\<close> of \<open>Task_Scheduler\<close>), a timer set, the vector of
  registered events, and an epoll instance with a pipe to wake it up. The kernel enters as a
  record of system calls over an opaque state; \<open>epoll_ctl_ok\<close> states what the theorems use of
  the documentation of \<open>epoll_ctl\<close>.
\<close>

unbundle bit_operations_syntax

section \<open>State\<close>

definition EPOLLIN :: u32 where "EPOLLIN = 1"
definition EPOLLOUT :: u32 where "EPOLLOUT = 4"
definition EPOLLERR :: u32 where "EPOLLERR = 8"
definition EPOLLHUP :: u32 where "EPOLLHUP = 16"
definition EPOLLET :: u32 where "EPOLLET = 0x80000000"

lemmas epoll_bits = EPOLLIN_def EPOLLOUT_def EPOLLERR_def EPOLLHUP_def EPOLLET_def

text \<open>\<open>IOManager::EventType\<close>.\<close>

definition Read :: u32 where "Read = EPOLLIN"
definition Write :: u32 where "Write = EPOLLOUT"

record FdEvents =
  registered_events :: u32
  read_call_once :: bool
  write_call_once :: bool
  read_executor :: "eptr option"
  write_executor :: "eptr option"

definition FdEvents_default :: FdEvents where
  "FdEvents_default = \<lparr>registered_events = 0, read_call_once = True, write_call_once = True,
     read_executor = None, write_executor = None\<rparr>"

record 'k kernel_api =
  sys_epoll_create :: "nat \<Rightarrow> ('k, fd) syscall"
  sys_pipe :: "('k, fd \<times> fd) syscall"
  sys_set_nonblock :: "fd \<Rightarrow> ('k, unit) syscall"
  sys_epoll_ctl :: "ep_op \<Rightarrow> fd \<Rightarrow> u32 \<times> fd \<Rightarrow> ('k, unit) syscall"
  sys_epoll_wait :: "nat \<Rightarrow> int \<Rightarrow> ('k, (fd \<times> u32) list) syscall"
  sys_read :: "fd \<Rightarrow> nat \<Rightarrow> ('k, nat) syscall"
  sys_write :: "fd \<Rightarrow> string \<Rightarrow> ('k, nat) syscall"

record ('cb, 'k) io_manager =
  io_stopped :: bool
  epoll_fd :: fd
  wakeup_pipe_fd :: "fd \<times> fd"
  io_world :: "'cb world"
  timer_manager :: "'cb timers"
  fd_events :: "FdEvents list"
  kern :: 'k

definition epoll_create_size :: nat where "epoll_create_size = 1000"
definition epoll_wait_max_size :: nat where "epoll_wait_max_size = 64"

definition upd_event :: "fd \<Rightarrow> (FdEvents \<Rightarrow> FdEvents) \<Rightarrow> ('cb, 'k) io_manager \<Rightarrow> ('cb, 'k) io_manager res" where
  "upd_event i f m =
     res_bind (vec_get (fd_events m) i) (\<lambda>e.
     res_bind (vec_set (fd_events m) i (f e)) (\<lambda>v. Ok (m\<lparr>fd_events := v\<rparr>)))"

definition upd_sch :: "scheduler \<Rightarrow> ('cb, 'k) io_manager \<Rightarrow> ('cb, 'k) io_manager" where
  "upd_sch s m = m\<lparr>io_world := (io_world m)\<lparr>sch := s\<rparr>\<rparr>"

definition io_sch :: "('cb, 'k) io_manager \<Rightarrow> scheduler" where
  "io_sch m = sch (io_world m)"

section \<open>Calls of epoll\<close>

text \<open>A call whose failure is logged and asserted (\<open>LON_ERROR_INVOKE_ASSERT\<close>).\<close>

definition asserted :: "('k, 'a) syscall \<Rightarrow> ('cb, 'k) io_manager \<Rightarrow> ('a \<times> ('cb, 'k) io_manager) res" where
  "asserted call m =
     (case call (kern m) of
        (Inl e, k) \<Rightarrow> Err AssertFailed
      | (Inr v, k) \<Rightarrow> Ok (v, m\<lparr>kern := k\<rparr>))"

definition asserted_noIntr :: "('k, 'a) syscall \<Rightarrow> ('cb, 'k) io_manager \<Rightarrow> ('a \<times> ('cb, 'k) io_manager) res" where
  "asserted_noIntr call m =
     res_bind (invoked call (kern m)) (\<lambda>(r, k).
       case r of Inl e \<Rightarrow> Err AssertFailed | Inr v \<Rightarrow> Ok (v, m\<lparr>kern := k\<rparr>))"

definition epollAdd :: "'k kernel_api \<Rightarrow> fd \<Rightarrow> u32 \<Rightarrow> ('cb, 'k) io_manager \<Rightarrow> ('cb, 'k) io_manager res" where
  "epollAdd api i events m =
     res_bind (asserted_noIntr (epollOperation (sys_epoll_ctl api) EPOLL_CTL_ADD events i) m) (\<lambda>(_, m). Ok m)"

definition epollMod :: "'k kernel_api \<Rightarrow> fd \<Rightarrow> u32 \<Rightarrow> ('cb, 'k) io_manager \<Rightarrow> ('cb, 'k) io_manager res" where
  "epollMod api i events m =
     res_bind (asserted_noIntr (epollOperation (sys_epoll_ctl api) EPOLL_CTL_MOD events i) m) (\<lambda>(_, m). Ok m)"

definition epollDel :: "'k kernel_api \<Rightarrow> fd \<Rightarrow> ('cb, 'k) io_manager \<Rightarrow> ('cb, 'k) io_manager res" where
  "epollDel api i m =
     res_bind (asserted_noIntr (epollOperation (sys_epoll_ctl api) EPOLL_CTL_DEL EPOLLET i) m) (\<lambda>(_, m). Ok m)"

definition initEpoll :: "'k kernel_api \<Rightarrow> ('cb, 'k) io_manager \<Rightarrow> ('cb, 'k) io_manager res" where
  "initEpoll api m =
     res_bind (asserted (sys_epoll_create api epoll_create_size) m) (\<lambda>(i, m). Ok (m\<lparr>epoll_fd := i\<rparr>))"

definition initPipe :: "'k kernel_api \<Rightarrow> ('cb, 'k) io_manager \<Rightarrow> ('cb, 'k) io_manager res" where
  "initPipe api m =
     res_bind (asserted (sys_pipe api) m) (\<lambda>(p, m).
     res_bind (asserted (sys_set_nonblock api (fst p)) (m\<lparr>wakeup_pipe_fd := p\<rparr>)) (\<lambda>(_, m).
       epollAdd api (fst p) (EPOLLIN OR EPOLLOUT) m))"

text \<open>The constructor, given the addresses and the loop function of \<open>Scheduler_new\<close>.\<close>

definition IOManager_new ::
    "'k kernel_api \<Rightarrow> eptr \<Rightarrow> eptr \<Rightarrow> 'cb \<Rightarrow> 'cb thread \<Rightarrow> 'k \<Rightarrow> ('cb, 'k) io_manager res" where
  "IOManager_new api b p loop th k =
     res_bind (Scheduler_new b p loop th) (\<lambda>w.
       let m = \<lparr>io_stopped = False, epoll_fd = - 1, wakeup_pipe_fd = (- 1, - 1),
                io_world = w\<lparr>sch := setExitWithTasksProcessed True (sch w)\<rparr>,
                timer_manager = [], fd_events = [], kern = k\<rparr>
       in res_bind (initEpoll api m) (initPipe api))"

text \<open>\<open>wakeup\<close>; the spin lock makes it one step.\<close>

definition wakeup :: "'k kernel_api \<Rightarrow> ('cb, 'k) io_manager \<Rightarrow> ('cb, 'k) io_manager res" where
  "wakeup api m = res_bind (asserted (sys_write api (snd (wakeup_pipe_fd m)) ''1'') m) (\<lambda>(_, m). Ok m)"

section \<open>Operations\<close>

text \<open>The lambda \<open>epAdd\<close> of \<open>registerEvent\<close>.\<close>

definition epAdd :: "'k kernel_api \<Rightarrow> fd \<Rightarrow> u32 \<Rightarrow> ('cb, 'k) io_manager \<Rightarrow> ('cb, 'k) io_manager res" where
  "epAdd api i type m =
     res_bind (vec_get (fd_events m) i) (\<lambda>e.
       let events_dst = registered_events e OR type
       in res_bind (if registered_events e \<noteq> 0 then epollMod api i events_dst m
                    else epollAdd api i (events_dst OR EPOLLET) m)
            (upd_event i (\<lambda>e. e\<lparr>registered_events := events_dst\<rparr>)))"

definition registerEvent ::
    "'k kernel_api \<Rightarrow> fd \<Rightarrow> u32 \<Rightarrow> eptr option \<Rightarrow> bool \<Rightarrow> ('cb, 'k) io_manager \<Rightarrow> (bool \<times> ('cb, 'k) io_manager) res" where
  "registerEvent api i type executor call_once m =
     (if io_stopped m then Ok (False, m)
      else
        res_bind
          (if i < 0 \<or> int (length (fd_events m)) \<le> i
           then res_bind (grow15 i) (\<lambda>n. Ok (m\<lparr>fd_events := vec_resize n FdEvents_default (fd_events m)\<rparr>))
           else Ok m)
          (\<lambda>m. if type = Read
               then res_bind (upd_event i (\<lambda>e. e\<lparr>read_executor := executor, read_call_once := call_once\<rparr>) m) (\<lambda>m.
                    res_bind (epAdd api i type m) (\<lambda>m. Ok (True, m)))
               else if type = Write
               then res_bind (upd_event i (\<lambda>e. e\<lparr>write_executor := executor, write_call_once := call_once\<rparr>) m) (\<lambda>m.
                    res_bind (epAdd api i type m) (\<lambda>m. Ok (True, m)))
               else Ok (False, m)))"

definition hasEvent :: "fd \<Rightarrow> u32 \<Rightarrow> ('cb, 'k) io_manager \<Rightarrow> bool res" where
  "hasEvent i type m =
     (if i < 0 \<or> int (length (fd_events m)) \<le> i then Ok False
      else res_bind (vec_get (fd_events m) i) (\<lambda>e. Ok (registered_events e AND type \<noteq> 0)))"

definition removeEvent :: "'k kernel_api \<Rightarrow> fd \<Rightarrow> u32 \<Rightarrow> ('cb, 'k) io_manager \<Rightarrow> ('cb, 'k) io_manager res" where
  "removeEvent api i events m =
     (if i < 0 \<or> int (length (fd_events m)) \<le> i then Ok m
      else res_bind (vec_get (fd_events m) i) (\<lambda>e.
        if registered_events e AND events = 0 then Ok m
        else let events_dst = NOT (registered_events e) AND events
             in res_bind (if events_dst \<noteq> 0 then epollMod api i events_dst m else epollDel api i m) (\<lambda>m.
                res_bind (if events_dst AND Read = 0 then upd_event i (\<lambda>e. e\<lparr>read_executor := None\<rparr>) m else Ok m) (\<lambda>m.
                  if events_dst AND Write = 0 then upd_event i (\<lambda>e. e\<lparr>write_executor := None\<rparr>) m else Ok m))))"

definition registerTimer :: "'cb timer option \<Rightarrow> ('cb, 'k) io_manager \<Rightarrow> (bool \<times> ('cb, 'k) io_manager) res" where
  "registerTimer timer m =
     (if io_stopped m then Ok (False, m)
      else case timer of
             None \<Rightarrow> Err NullDeref
           | Some t \<Rightarrow>
               if callback t = None then Err AssertFailed
               else res_bind (addTimer timer (timer_manager m)) (\<lambda>ts. Ok (True, m\<lparr>timer_manager := ts\<rparr>)))"

definition cancelTimer :: "'cb timer option \<Rightarrow> ('cb, 'k) io_manager \<Rightarrow> ('cb, 'k) io_manager res" where
  "cancelTimer timer m = res_bind (removeTimer timer (timer_manager m)) (\<lambda>ts. Ok (m\<lparr>timer_manager := ts\<rparr>))"

definition io_stop :: "('cb, 'k) io_manager \<Rightarrow> ('cb, 'k) io_manager" where
  "io_stop m = upd_sch (stop (io_sch m)) (m\<lparr>io_stopped := True\<rparr>)"

definition io_addExecutor :: "eptr option \<Rightarrow> ('cb, 'k) io_manager \<Rightarrow> ('cb, 'k) io_manager" where
  "io_addExecutor x m = upd_sch (snd (addExecutor x (io_sch m))) m"

definition io_removeExecutor :: "eptr option \<Rightarrow> ('cb, 'k) io_manager \<Rightarrow> ('cb, 'k) io_manager" where
  "io_removeExecutor x m = upd_sch (removeExecutor x (io_sch m)) m"

definition addRemoteTask :: "'k kernel_api \<Rightarrow> eptr \<Rightarrow> ('cb, 'k) io_manager \<Rightarrow> ('cb, 'k) io_manager res" where
  "addRemoteTask api p m = wakeup api (upd_sch (snd (addRemoteExecutor p (io_sch m))) m)"

definition io_run :: "('cb, 'k) io_manager \<Rightarrow> ('cb, 'k) io_manager res" where
  "io_run m = res_bind (sched_run (io_world m)) (\<lambda>w. Ok (m\<lparr>io_world := w\<rparr>))"

definition io_setExitWithTasksProcessed :: "bool \<Rightarrow> ('cb, 'k) io_manager \<Rightarrow> ('cb, 'k) io_manager" where
  "io_setExitWithTasksProcessed b m = upd_sch (setExitWithTasksProcessed b (io_sch m)) m"

section \<open>Waiting for events\<close>

text \<open>\<open>static_cast<int>\<close> of a \<open>size_t\<close>: the low 32 bits, signed.\<close>

definition to_int32 :: "u64 \<Rightarrow> int" where
  "to_int32 x = (let y = uint x mod 2 ^ 32 in if y < 2 ^ 31 then y else y - 2 ^ 32)"

definition epoll_timeout :: "(nat \<Rightarrow> ms) \<Rightarrow> 'cb timers \<Rightarrow> int" where
  "epoll_timeout now ts = to_int32 (getNextInterval now ts)"

text \<open>
  The expired timers become executors at the addresses the allocator gives; an executor
  \<open>addExecutor\<close> does not take is destroyed with the last pointer to it.
\<close>

fun add_timer_execs :: "('cb thread \<Rightarrow> eptr) \<Rightarrow> 'cb timer list \<Rightarrow> 'cb world \<Rightarrow> 'cb world res" where
  "add_timer_execs alloc [] w = Ok w"
| "add_timer_execs alloc (t # ts) w =
     (let p = alloc (thr w)
      in res_bind (Executor_callback p (callback t) DefaultStackSize (thr w)) (\<lambda>th.
           let (ok, s) = addExecutor (Some p) (sch w)
           in add_timer_execs alloc ts (w\<lparr>thr := (if ok then th else destroy_executor p th), sch := s\<rparr>)))"

partial_function (option) drain_pipe :: "('k, nat) syscall \<Rightarrow> 'k \<Rightarrow> 'k option" where
  "drain_pipe rd k =
     (let (ret, k') = rd k in if (case ret of Inl _ \<Rightarrow> False | Inr n \<Rightarrow> 0 < n) then drain_pipe rd k' else Some k')"

text \<open>
  The two halves of the loop body for one direction. \<open>first\<close> is \<open>epoll_events->data.fd\<close>, the
  descriptor of the first event of the batch.
\<close>

definition once_or_reuse ::
    "fd \<Rightarrow> u32 \<Rightarrow> u32 \<Rightarrow> (FdEvents \<Rightarrow> bool) \<Rightarrow> (FdEvents \<Rightarrow> eptr option) \<Rightarrow> u32 \<Rightarrow> ('cb, 'k) io_manager
       \<Rightarrow> (u32 \<times> ('cb, 'k) io_manager) res" where
  "once_or_reuse first ev flag call_once executor left_events m =
     (if ev AND flag = 0 then Ok (left_events, m)
      else res_bind (vec_get (fd_events m) first) (\<lambda>f.
        if call_once f then Ok (left_events AND NOT flag, m)
        else case executor f of
               None \<Rightarrow> Err NullDeref
             | Some q \<Rightarrow>
                 res_bind (reuse q (thr (io_world m))) (\<lambda>th.
                   Ok (left_events, m\<lparr>io_world := (io_world m)\<lparr>thr := th\<rparr>\<rparr>))))"

definition enqueue_side ::
    "fd \<Rightarrow> (FdEvents \<Rightarrow> bool) \<Rightarrow> (FdEvents \<Rightarrow> eptr option) \<Rightarrow> (FdEvents \<Rightarrow> FdEvents) \<Rightarrow> ('cb, 'k) io_manager
       \<Rightarrow> ('cb, 'k) io_manager res" where
  "enqueue_side i call_once executor clear m =
     res_bind (vec_get (fd_events m) i) (\<lambda>e.
       let (add_ret, s) = addExecutor (executor e) (io_sch m)
       in res_bind (if call_once e then upd_event i clear (upd_sch s m) else Ok (upd_sch s m)) (\<lambda>m.
            if add_ret then Ok m else Err AssertFailed))"

definition update_interest :: "'k kernel_api \<Rightarrow> fd \<Rightarrow> u32 \<Rightarrow> ('cb, 'k) io_manager \<Rightarrow> ('cb, 'k) io_manager res" where
  "update_interest api i left_events m =
     res_bind (vec_get (fd_events m) i) (\<lambda>e.
       if left_events \<noteq> registered_events e
       then res_bind (if left_events \<noteq> 0 then epollMod api i left_events m else epollDel api i m)
              (upd_event i (\<lambda>e. e\<lparr>registered_events := left_events\<rparr>))
       else Ok m)"

definition handle_event :: "'k kernel_api \<Rightarrow> fd \<Rightarrow> fd \<times> u32 \<Rightarrow> ('cb, 'k) io_manager \<Rightarrow> ('cb, 'k) io_manager res" where
  "handle_event api first ep_event m =
     (let (i, ev) = ep_event
      in if i = fst (wakeup_pipe_fd m)
         then (case drain_pipe (sys_read api i 8) (kern m) of
                 None \<Rightarrow> Err NoReturn
               | Some k \<Rightarrow> Ok (m\<lparr>kern := k\<rparr>))
         else
           res_bind (vec_get (fd_events m) i) (\<lambda>e.
           res_bind (once_or_reuse first ev EPOLLIN read_call_once read_executor (registered_events e) m) (\<lambda>(left_events, m).
           res_bind (once_or_reuse first ev EPOLLOUT write_call_once write_executor left_events m) (\<lambda>(left_events, m).
           res_bind (update_interest api i left_events m) (\<lambda>m.
           res_bind (if ev AND (EPOLLIN OR EPOLLERR OR EPOLLHUP) \<noteq> 0
                     then enqueue_side i read_call_once read_executor (\<lambda>e. e\<lparr>read_executor := None\<rparr>) m
                     else Ok m) (\<lambda>m.
             if ev AND (EPOLLOUT OR EPOLLERR OR EPOLLHUP) \<noteq> 0
             then enqueue_side i write_call_once write_executor (\<lambda>e. e\<lparr>write_executor := None\<rparr>) m
             else Ok m))))))"

fun handle_events :: "'k kernel_api \<Rightarrow> fd \<Rightarrow> (fd \<times> u32) list \<Rightarrow> ('cb, 'k) io_manager \<Rightarrow> ('cb, 'k) io_manager res" where
  "handle_events api first [] m = Ok m"
| "handle_events api first (ev # evs) m = res_bind (handle_event api first ev m) (handle_events api first evs)"

definition blockPending ::
    "'k kernel_api \<Rightarrow> ('cb thread \<Rightarrow> eptr) \<Rightarrow> (nat \<Rightarrow> ms) \<Rightarrow> (nat \<Rightarrow> ms) \<Rightarrow> ('cb, 'k) io_manager
       \<Rightarrow> ('cb, 'k) io_manager res" where
  "blockPending api alloc now_before now_after m =
     (let next_interval = epoll_timeout now_before (timer_manager m)
      in res_bind (asserted_noIntr (sys_epoll_wait api epoll_wait_max_size next_interval) m) (\<lambda>(evs, m).
         let (timers, ts) = takeExpiredTimers now_after (timer_manager m)
         in res_bind (add_timer_execs alloc timers (io_world m)) (\<lambda>w.
              handle_events api (fst (hd evs)) evs (m\<lparr>timer_manager := ts, io_world := w\<rparr>))))"

section \<open>Registered events and the kernel's interest list\<close>

text \<open>
  What the theorems use of \<open>epoll_ctl(2)\<close>: \<open>interest\<close> reads the interest list off the kernel's
  state, \<open>usable\<close> are the descriptors that can be added (open, of a kind epoll supports). An
  \<open>ADD\<close> of a usable descriptor that is not in the list, a \<open>MOD\<close> and a \<open>DEL\<close> of one that is
  succeed and change that entry only; an \<open>ADD\<close> of one that is (\<open>EEXIST\<close>), a \<open>MOD\<close> and a
  \<open>DEL\<close> of one that is not (\<open>ENOENT\<close>) fail.
\<close>

definition epoll_ctl_ok :: "'k kernel_api \<Rightarrow> ('k \<Rightarrow> fd \<Rightarrow> u32 option) \<Rightarrow> fd set \<Rightarrow> bool" where
  "epoll_ctl_ok api interest usable \<longleftrightarrow>
     (\<forall>k i ev. interest k i = None \<longrightarrow> i \<in> usable \<longrightarrow>
        (\<exists>k'. sys_epoll_ctl api EPOLL_CTL_ADD i (ev, i) k = (Inr (), k') \<and> interest k' = (interest k)(i \<mapsto> ev)))
     \<and> (\<forall>k i ev. interest k i \<noteq> None \<longrightarrow>
        (\<exists>k'. sys_epoll_ctl api EPOLL_CTL_MOD i (ev, i) k = (Inr (), k') \<and> interest k' = (interest k)(i \<mapsto> ev)))
     \<and> (\<forall>k i ev. interest k i \<noteq> None \<longrightarrow>
        (\<exists>k'. sys_epoll_ctl api EPOLL_CTL_DEL i (ev, i) k = (Inr (), k') \<and> interest k' = (interest k)(i := None)))
     \<and> (\<forall>k i ev. interest k i \<noteq> None \<longrightarrow>
        (\<exists>k' n. sys_epoll_ctl api EPOLL_CTL_ADD i (ev, i) k = (Inl (OtherErrno n), k')))
     \<and> (\<forall>k i ev. interest k i = None \<longrightarrow>
        (\<exists>k' n. sys_epoll_ctl api EPOLL_CTL_MOD i (ev, i) k = (Inl (OtherErrno n), k')))
     \<and> (\<forall>k i ev. interest k i = None \<longrightarrow>
        (\<exists>k' n. sys_epoll_ctl api EPOLL_CTL_DEL i (ev, i) k = (Inl (OtherErrno n), k')))"

text \<open>
  The vector agrees with the kernel: a descriptor other than the pipe is in the interest list
  exactly when events are registered for it, and then with those events, edge-triggered or
  not.
\<close>

definition watched :: "u32 option \<Rightarrow> u32 \<Rightarrow> bool" where
  "watched w r \<longleftrightarrow> r \<in> {0, 1, 4, 5} \<and> (if r = 0 then w = None else w = Some r \<or> w = Some (r OR EPOLLET))"

definition watch_ok :: "('k \<Rightarrow> fd \<Rightarrow> u32 option) \<Rightarrow> ('cb, 'k) io_manager \<Rightarrow> bool" where
  "watch_ok interest m \<longleftrightarrow>
     (\<forall>i \<ge> 0. i \<noteq> fst (wakeup_pipe_fd m) \<longrightarrow>
        watched (interest (kern m) i)
          (if i < int (length (fd_events m)) then registered_events (fd_events m ! nat i) else 0))"

definition events_at :: "('cb, 'k) io_manager \<Rightarrow> fd \<Rightarrow> FdEvents" where
  "events_at m i = (if 0 \<le> i \<and> i < int (length (fd_events m)) then fd_events m ! nat i else FdEvents_default)"

lemma watch_ok_alt:
  "watch_ok interest m \<longleftrightarrow>
     (\<forall>i \<ge> 0. i \<noteq> fst (wakeup_pipe_fd m) \<longrightarrow> watched (interest (kern m) i) (registered_events (events_at m i)))"
  by (simp add: watch_ok_def events_at_def FdEvents_default_def)

lemma watch_ok_cong:
  assumes "fd_events m' = fd_events m" and "interest (kern m') = interest (kern m)" and "wakeup_pipe_fd m' = wakeup_pipe_fd m"
  shows "watch_ok interest m' \<longleftrightarrow> watch_ok interest m"
  using assms by (simp only: watch_ok_def)

lemma events_at_cong: "fd_events m' = fd_events m \<Longrightarrow> events_at m' j = events_at m j"
  by (simp add: events_at_def)

lemma asserted_epoll:
  "sys_epoll_ctl api op i (ev, i) (kern m) = (Inr (), k') \<Longrightarrow>
     asserted_noIntr (epollOperation (sys_epoll_ctl api) op ev i) m = Ok ((), m\<lparr>kern := k'\<rparr>)"
  "sys_epoll_ctl api op i (ev, i) (kern m) = (Inl (OtherErrno n), k') \<Longrightarrow>
     asserted_noIntr (epollOperation (sys_epoll_ctl api) op ev i) m = Err AssertFailed"
  by (simp_all add: asserted_noIntr_def epollOperation_def invoked_def invokeNoIntr_done)

lemma epoll_calls:
  assumes h: "epoll_ctl_ok api interest usable"
  shows "interest (kern m) i = None \<Longrightarrow> i \<in> usable \<Longrightarrow>
      \<exists>k'. epollAdd api i ev m = Ok (m\<lparr>kern := k'\<rparr>) \<and> interest k' = (interest (kern m))(i \<mapsto> ev)"
    and "interest (kern m) i \<noteq> None \<Longrightarrow>
      \<exists>k'. epollMod api i ev m = Ok (m\<lparr>kern := k'\<rparr>) \<and> interest k' = (interest (kern m))(i \<mapsto> ev)"
    and "interest (kern m) i \<noteq> None \<Longrightarrow>
      \<exists>k'. epollDel api i m = Ok (m\<lparr>kern := k'\<rparr>) \<and> interest k' = (interest (kern m))(i := None)"
    and "interest (kern m) i = None \<Longrightarrow> epollMod api i ev m = Err AssertFailed"
    and "interest (kern m) i = None \<Longrightarrow> epollDel api i m = Err AssertFailed"
proof -
  assume "interest (kern m) i = None" "i \<in> usable"
  with h have "\<exists>k'. sys_epoll_ctl api EPOLL_CTL_ADD i (ev, i) (kern m) = (Inr (), k') \<and> interest k' = (interest (kern m))(i \<mapsto> ev)"
    by (simp add: epoll_ctl_ok_def)
  then show "\<exists>k'. epollAdd api i ev m = Ok (m\<lparr>kern := k'\<rparr>) \<and> interest k' = (interest (kern m))(i \<mapsto> ev)"
    by (auto simp: epollAdd_def asserted_epoll)
next
  assume "interest (kern m) i \<noteq> None"
  with h have "\<exists>k'. sys_epoll_ctl api EPOLL_CTL_MOD i (ev, i) (kern m) = (Inr (), k') \<and> interest k' = (interest (kern m))(i \<mapsto> ev)"
    by (simp add: epoll_ctl_ok_def)
  then show "\<exists>k'. epollMod api i ev m = Ok (m\<lparr>kern := k'\<rparr>) \<and> interest k' = (interest (kern m))(i \<mapsto> ev)"
    by (auto simp: epollMod_def asserted_epoll)
next
  assume "interest (kern m) i \<noteq> None"
  with h have "\<exists>k'. sys_epoll_ctl api EPOLL_CTL_DEL i (EPOLLET, i) (kern m) = (Inr (), k') \<and> interest k' = (interest (kern m))(i := None)"
    by (simp add: epoll_ctl_ok_def)
  then show "\<exists>k'. epollDel api i m = Ok (m\<lparr>kern := k'\<rparr>) \<and> interest k' = (interest (kern m))(i := None)"
    by (auto simp: epollDel_def asserted_epoll)
next
  assume "interest (kern m) i = None"
  with h have "\<exists>k' n. sys_epoll_ctl api EPOLL_CTL_MOD i (ev, i) (kern m) = (Inl (OtherErrno n), k')"
    by (simp add: epoll_ctl_ok_def)
  then show "epollMod api i ev m = Err AssertFailed" by (auto simp: epollMod_def asserted_epoll)
next
  assume "interest (kern m) i = None"
  with h have "\<exists>k' n. sys_epoll_ctl api EPOLL_CTL_DEL i (EPOLLET, i) (kern m) = (Inl (OtherErrno n), k')"
    by (simp add: epoll_ctl_ok_def)
  then show "epollDel api i m = Err AssertFailed" by (auto simp: epollDel_def asserted_epoll)
qed

lemma vec_get_events:
  "0 \<le> i \<Longrightarrow> i < int (length (fd_events m)) \<Longrightarrow> vec_get (fd_events m) i = Ok (events_at m i)"
  by (simp add: vec_get_def events_at_def)

lemma upd_event_Ok:
  assumes "0 \<le> i" and "i < int (length (fd_events m))"
  shows "upd_event i f m = Ok (m\<lparr>fd_events := (fd_events m)[nat i := f (events_at m i)]\<rparr>)"
  using assms by (simp add: upd_event_def vec_get_def vec_set_def events_at_def)

lemma events_at_upd [simp]:
  "0 \<le> i \<Longrightarrow> i < int (length (fd_events m)) \<Longrightarrow>
     events_at (m\<lparr>fd_events := (fd_events m)[nat i := e]\<rparr>) j = (if j = i then e else events_at m j)"
  "0 \<le> i \<Longrightarrow> i < int (length (fd_events m)) \<Longrightarrow>
     events_at (m\<lparr>kern := k, fd_events := (fd_events m)[nat i := e]\<rparr>) j = (if j = i then e else events_at m j)"
  by (auto simp: events_at_def nth_list_update)

lemma events_at_kern [simp]: "events_at (m\<lparr>kern := k\<rparr>) j = events_at m j"
  by (simp add: events_at_def)

lemma upd_sch_simps [simp]:
  "fd_events (upd_sch s m) = fd_events m" "wakeup_pipe_fd (upd_sch s m) = wakeup_pipe_fd m"
  "kern (upd_sch s m) = kern m" "thr (io_world (upd_sch s m)) = thr (io_world m)" "sch (io_world (upd_sch s m)) = s"
  "timer_manager (upd_sch s m) = timer_manager m" "io_stopped (upd_sch s m) = io_stopped m"
  by (simp_all add: upd_sch_def)

lemma events_at_sch [simp]: "events_at (upd_sch s m) j = events_at m j"
  by (simp add: events_at_def upd_sch_def)

text \<open>Growing the vector leaves what it says of every descriptor.\<close>

lemma events_at_resize:
  "length (fd_events m) \<le> n \<Longrightarrow> events_at (m\<lparr>fd_events := vec_resize n FdEvents_default (fd_events m)\<rparr>) j = events_at m j"
  by (auto simp: events_at_def nth_vec_resize nat_less_iff)

lemma epAdd_watches:
  assumes api: "epoll_ctl_ok api interest usable" and ok: "watch_ok interest m"
    and i: "0 \<le> i" "i < int (length (fd_events m))" "i \<noteq> fst (wakeup_pipe_fd m)" "i \<in> usable"
    and ty: "type = Read \<or> type = Write"
  shows "\<exists>m'. epAdd api i type m = Ok m' \<and> watch_ok interest m' \<and> length (fd_events m') = length (fd_events m)
    \<and> events_at m' i = (events_at m i)\<lparr>registered_events := registered_events (events_at m i) OR type\<rparr>
    \<and> (\<forall>j. j \<noteq> i \<longrightarrow> events_at m' j = events_at m j) \<and> io_world m' = io_world m \<and> timer_manager m' = timer_manager m
    \<and> wakeup_pipe_fd m' = wakeup_pipe_fd m \<and> io_stopped m' = io_stopped m"
proof -
  let ?r = "registered_events (events_at m i)"
  have w: "watched (interest (kern m) i) ?r" using ok i(1,3) by (simp add: watch_ok_alt)
  have dst: "watched (Some ((?r OR type) OR EPOLLET)) (?r OR type)" "watched (Some (?r OR type)) (?r OR type)"
    using w ty by (auto simp: watched_def Read_def Write_def epoll_bits)
  obtain k' w' where k: "(if ?r \<noteq> 0 then epollMod api i (?r OR type) m else epollAdd api i ((?r OR type) OR EPOLLET) m)
      = Ok (m\<lparr>kern := k'\<rparr>)" "interest k' = (interest (kern m))(i \<mapsto> w')" "watched (Some w') (?r OR type)"
  proof (cases "?r = 0")
    case True
    then have "interest (kern m) i = None" using w by (simp add: watched_def)
    from epoll_calls(1) [OF api this i(4), of "(?r OR type) OR EPOLLET"] show ?thesis using dst(1) True that by auto
  next
    case False
    then have "interest (kern m) i \<noteq> None" using w by (auto simp: watched_def)
    from epoll_calls(2) [OF api this, of "?r OR type"] show ?thesis using dst(2) False that by auto
  qed
  let ?m = "m\<lparr>kern := k', fd_events := (fd_events m)[nat i := (events_at m i)\<lparr>registered_events := ?r OR type\<rparr>]\<rparr>"
  have "epAdd api i type m = Ok ?m"
    unfolding epAdd_def vec_get_events [OF i(1,2)] res_bind_simps Let_def k(1) using i(1,2) by (simp add: upd_event_Ok)
  moreover have "watch_ok interest ?m" using ok k(2,3) i(1,2) by (auto simp: watch_ok_alt)
  ultimately show ?thesis using i(1,2) by simp
qed

text \<open>Making room for a descriptor.\<close>

lemma make_room:
  assumes "0 \<le> i" and "2 \<le> i \<or> i < int (length (fd_events m))"
  obtains m' where "(if i < 0 \<or> int (length (fd_events m)) \<le> i
      then res_bind (grow15 i) (\<lambda>n. Ok (m\<lparr>fd_events := vec_resize n FdEvents_default (fd_events m)\<rparr>)) else Ok m) = Ok m'"
    and "i < int (length (fd_events m'))" and "\<And>j. events_at m' j = events_at m j"
    and "kern m' = kern m" and "io_world m' = io_world m" and "wakeup_pipe_fd m' = wakeup_pipe_fd m"
    and "timer_manager m' = timer_manager m" and "io_stopped m' = io_stopped m"
proof (cases "i < int (length (fd_events m))")
  case True
  then show ?thesis using that [of m] assms(1) by simp
next
  case False
  then obtain n where n: "grow15 i = Ok n" "nat i < n" using assms(2) grow15_above [of i] by auto
  then have "length (fd_events m) \<le> n" using False by simp
  then show ?thesis
    using that [of "m\<lparr>fd_events := vec_resize n FdEvents_default (fd_events m)\<rparr>"] False n events_at_resize [of m n] by auto
qed

lemma upd_executor_watch_ok:
  assumes "watch_ok interest m" and "0 \<le> i" and "i < int (length (fd_events m))"
    and "registered_events (f (events_at m i)) = registered_events (events_at m i)"
  shows "\<exists>m'. upd_event i f m = Ok m' \<and> watch_ok interest m' \<and> length (fd_events m') = length (fd_events m)
    \<and> events_at m' i = f (events_at m i) \<and> (\<forall>j. j \<noteq> i \<longrightarrow> events_at m' j = events_at m j) \<and> kern m' = kern m
    \<and> io_world m' = io_world m \<and> wakeup_pipe_fd m' = wakeup_pipe_fd m \<and> timer_manager m' = timer_manager m
    \<and> io_stopped m' = io_stopped m"
  using assms by (auto simp: upd_event_Ok watch_ok_alt)

lemma hasEvent_eq: "0 \<le> i \<Longrightarrow> hasEvent i type m = Ok (registered_events (events_at m i) AND type \<noteq> 0)"
  by (auto simp: hasEvent_def vec_get_events) (auto simp: events_at_def FdEvents_default_def)

definition side_executor :: "u32 \<Rightarrow> FdEvents \<Rightarrow> eptr option" where
  "side_executor type e = (if type = Read then read_executor e else write_executor e)"

definition set_side :: "u32 \<Rightarrow> eptr option \<Rightarrow> bool \<Rightarrow> FdEvents \<Rightarrow> FdEvents" where
  "set_side type x once e = (if type = Read then e\<lparr>read_executor := x, read_call_once := once\<rparr>
     else e\<lparr>write_executor := x, write_call_once := once\<rparr>)"

lemma registerEvent_events:
  assumes "epoll_ctl_ok api interest usable" and "watch_ok interest m" and "\<not> io_stopped m"
    and "0 \<le> i" and "2 \<le> i \<or> i < int (length (fd_events m))" and "i \<noteq> fst (wakeup_pipe_fd m)" and "i \<in> usable"
    and "type = Read \<or> type = Write"
  shows "\<exists>m'. registerEvent api i type x once m = Ok (True, m') \<and> watch_ok interest m'
     \<and> wakeup_pipe_fd m' = wakeup_pipe_fd m \<and> io_world m' = io_world m \<and> timer_manager m' = timer_manager m
     \<and> i < int (length (fd_events m')) \<and> \<not> io_stopped m'
     \<and> events_at m' i = (set_side type x once (events_at m i))\<lparr>registered_events := registered_events (events_at m i) OR type\<rparr>
     \<and> (\<forall>j. j \<noteq> i \<longrightarrow> events_at m' j = events_at m j)"
proof -
  obtain m1 where m1: "(if i < 0 \<or> int (length (fd_events m)) \<le> i
      then res_bind (grow15 i) (\<lambda>n. Ok (m\<lparr>fd_events := vec_resize n FdEvents_default (fd_events m)\<rparr>)) else Ok m) = Ok m1"
    and r: "i < int (length (fd_events m1))" "\<And>j. events_at m1 j = events_at m j" "kern m1 = kern m"
      "wakeup_pipe_fd m1 = wakeup_pipe_fd m" "io_world m1 = io_world m" "timer_manager m1 = timer_manager m" "io_stopped m1 = io_stopped m"
    using make_room [OF assms(4,5)] by metis
  have ok1: "watch_ok interest m1" using assms(2) r by (simp add: watch_ok_alt)
  let ?f = "set_side type x once"
  have "registered_events (?f (events_at m1 i)) = registered_events (events_at m1 i)" by (simp add: set_side_def)
  from upd_executor_watch_ok [where f = ?f, OF ok1 assms(4) r(1) this] obtain m2 where
    m2: "upd_event i ?f m1 = Ok m2" "watch_ok interest m2" "length (fd_events m2) = length (fd_events m1)"
      "events_at m2 i = ?f (events_at m1 i)" "\<forall>j. j \<noteq> i \<longrightarrow> events_at m2 j = events_at m1 j"
      "io_world m2 = io_world m1" "timer_manager m2 = timer_manager m1" "wakeup_pipe_fd m2 = wakeup_pipe_fd m1" "io_stopped m2 = io_stopped m1"
    by auto
  have "i < int (length (fd_events m2))" "i \<noteq> fst (wakeup_pipe_fd m2)" using m2(3,8) r(1,4) assms(6) by simp_all
  from epAdd_watches [OF assms(1) m2(2) assms(4) this assms(7,8)] obtain m3 where
    m3: "epAdd api i type m2 = Ok m3" "watch_ok interest m3" "wakeup_pipe_fd m3 = wakeup_pipe_fd m2"
      "io_world m3 = io_world m2" "timer_manager m3 = timer_manager m2" "length (fd_events m3) = length (fd_events m2)"
      "events_at m3 i = (events_at m2 i)\<lparr>registered_events := registered_events (events_at m2 i) OR type\<rparr>"
      "\<forall>j. j \<noteq> i \<longrightarrow> events_at m3 j = events_at m2 j" "io_stopped m3 = io_stopped m2"
    by auto
  have "registerEvent api i type x once m = Ok (True, m3)"
    using assms(3,8) m1 m2(1) m3(1) unfolding registerEvent_def set_side_def
    by (auto simp: Read_def Write_def epoll_bits)
  then show ?thesis using m2 m3 r assms(3) by (auto simp: set_side_def)
qed

text \<open>One event, seen from its own descriptor: the interest list first, then the queue.\<close>

lemma update_interest_ok:
  assumes api: "epoll_ctl_ok api interest usable" and ok: "watch_ok interest m"
    and i: "0 \<le> i" "i < int (length (fd_events m))" "i \<noteq> fst (wakeup_pipe_fd m)"
    and l: "l \<in> {0, 1, 4, 5}" "registered_events (events_at m i) = 0 \<Longrightarrow> l = 0"
  shows "\<exists>m'. update_interest api i l m = Ok m' \<and> watch_ok interest m' \<and> length (fd_events m') = length (fd_events m)
    \<and> events_at m' i = (events_at m i)\<lparr>registered_events := l\<rparr> \<and> (\<forall>j. j \<noteq> i \<longrightarrow> events_at m' j = events_at m j)
    \<and> io_world m' = io_world m \<and> wakeup_pipe_fd m' = wakeup_pipe_fd m"
proof (cases "l = registered_events (events_at m i)")
  case True
  then show ?thesis using i ok by (auto simp: update_interest_def vec_get_events)
next
  case False
  then have "registered_events (events_at m i) \<noteq> 0" using l(2) by auto
  then have w: "interest (kern m) i \<noteq> None"
    using ok i(1,3) by (auto simp: watch_ok_alt watched_def split: if_splits)
  obtain k' where k: "(if l \<noteq> 0 then epollMod api i l m else epollDel api i m) = Ok (m\<lparr>kern := k'\<rparr>)"
    "interest k' = (interest (kern m))(i := (if l = 0 then None else Some l))"
    using epoll_calls(2,3) [OF api w] by (cases "l = 0") fastforce+
  let ?m = "m\<lparr>kern := k', fd_events := (fd_events m)[nat i := (events_at m i)\<lparr>registered_events := l\<rparr>]\<rparr>"
  have "update_interest api i l m = Ok ?m"
    unfolding update_interest_def vec_get_events [OF i(1,2)] res_bind_simps if_P [OF False] k(1)
    using i(1,2) by (simp add: upd_event_Ok)
  moreover have "watch_ok interest ?m" using ok k(2) i(1,2) l(1) by (auto simp: watch_ok_alt watched_def)
  ultimately show ?thesis using i(1,2) by simp
qed

lemma enqueue_side_ok:
  assumes "watch_ok interest m" and "0 \<le> i" and "i < int (length (fd_events m))" and "\<not> stopping (io_sch m)"
    and "call_once (events_at m i)" and "registered_events (clear (events_at m i)) = registered_events (events_at m i)"
  shows "\<exists>m'. enqueue_side i call_once executor clear m = Ok m' \<and> watch_ok interest m' \<and> length (fd_events m') = length (fd_events m)
    \<and> events_at m' i = clear (events_at m i) \<and> (\<forall>j. j \<noteq> i \<longrightarrow> events_at m' j = events_at m j)
    \<and> io_sch m' = ready_push (executor (events_at m i)) (io_sch m) \<and> thr (io_world m') = thr (io_world m)
    \<and> wakeup_pipe_fd m' = wakeup_pipe_fd m"
proof -
  let ?s = "ready_push (executor (events_at m i)) (io_sch m)"
  have "watch_ok interest (upd_sch ?s m)" using assms(1) by (simp add: watch_ok_alt)
  moreover have "i < int (length (fd_events (upd_sch ?s m)))" using assms(3) by simp
  ultimately obtain m' where "upd_event i clear (upd_sch ?s m) = Ok m'" "watch_ok interest m'"
    "length (fd_events m') = length (fd_events m)" "events_at m' i = clear (events_at m i)"
    "\<forall>j. j \<noteq> i \<longrightarrow> events_at m' j = events_at m j" "io_world m' = io_world (upd_sch ?s m)" "wakeup_pipe_fd m' = wakeup_pipe_fd m"
    using upd_executor_watch_ok [of interest "upd_sch ?s m" i clear] assms(2,6) by auto
  then show ?thesis
    using assms(2-5) by (auto simp: enqueue_side_def vec_get_events addExecutor_def io_sch_def)
qed

definition left_after :: "u32 \<Rightarrow> u32 \<Rightarrow> u32" where
  "left_after ev r =
     (let l = (if ev AND EPOLLIN = 0 then r else r AND NOT EPOLLIN)
      in if ev AND EPOLLOUT = 0 then l else l AND NOT EPOLLOUT)"

lemma left_after_bits:
  assumes "r \<in> {0, 1, 4, 5}"
  shows "left_after ev r \<in> {0, 1, 4, 5}" and "r = 0 \<Longrightarrow> left_after ev r = 0"
    and "left_after ev r AND Read \<noteq> 0 \<longleftrightarrow> r AND Read \<noteq> 0 \<and> ev AND EPOLLIN = 0"
    and "left_after ev r AND Write \<noteq> 0 \<longleftrightarrow> r AND Write \<noteq> 0 \<and> ev AND EPOLLOUT = 0"
  using assms by (auto simp: left_after_def Let_def Read_def Write_def EPOLLIN_def EPOLLOUT_def)

lemma once_or_reuse_once:
  assumes "0 \<le> i" and "i < int (length (fd_events m))" and "call_once (events_at m i)"
  shows "once_or_reuse i ev flag call_once executor l m = Ok (if ev AND flag = 0 then l else l AND NOT flag, m)"
  using assms by (simp add: once_or_reuse_def vec_get_events)

lemma handle_event_once:
  assumes "0 \<le> i" and "i < int (length (fd_events m))" and "i \<noteq> fst (wakeup_pipe_fd m)"
    and "0 \<le> f" and "f < int (length (fd_events m))" and "read_call_once (events_at m f)" and "write_call_once (events_at m f)"
  shows "handle_event api f (i, ev) m =
     res_bind (update_interest api i (left_after ev (registered_events (events_at m i))) m) (\<lambda>m.
     res_bind (if ev AND (EPOLLIN OR EPOLLERR OR EPOLLHUP) \<noteq> 0
               then enqueue_side i read_call_once read_executor (\<lambda>e. e\<lparr>read_executor := None\<rparr>) m
               else Ok m) (\<lambda>m.
       if ev AND (EPOLLOUT OR EPOLLERR OR EPOLLHUP) \<noteq> 0
       then enqueue_side i write_call_once write_executor (\<lambda>e. e\<lparr>write_executor := None\<rparr>) m
       else Ok m))"
  unfolding handle_event_def left_after_def Let_def using assms
  by (simp only: prod.case if_False vec_get_events once_or_reuse_once res_bind_simps)

text \<open>
  Expired timers: the allocator returns an address not in use while only finitely many are, and
  every timer in the set has a callback (\<open>addTimer\<close> asserts it).
\<close>

definition alloc_ok :: "('cb thread \<Rightarrow> eptr) \<Rightarrow> bool" where
  "alloc_ok alloc \<longleftrightarrow> (\<forall>th. finite (dom (heap th)) \<longrightarrow> heap th (alloc th) = None)"

definition new_task :: "'cb thread \<Rightarrow> eptr \<Rightarrow> 'cb option \<Rightarrow> bool" where
  "new_task th p cb \<longleftrightarrow>
     (case heap th p of
        None \<Rightarrow> False
      | Some e \<Rightarrow> ex_is_call_back_type e \<and> ex_state e = Init \<and> ex_callback e = cb)"

lemma add_timer_execs_ok:
  assumes "alloc_ok alloc" and "\<not> stopping (sch w)" and "\<forall>t \<in> set ts. callback t \<noteq> None" and "finite (dom (heap (thr w)))"
  shows "\<exists>w' ps. add_timer_execs alloc ts w = Ok w' \<and> sch w' = (sch w)\<lparr>ready_executors := ready_executors (sch w) @ map Some ps\<rparr>
    \<and> list_all2 (\<lambda>p t. new_task (thr w') p (callback t)) ps ts \<and> distinct ps
    \<and> (\<forall>p \<in> set ps. heap (thr w) p = None) \<and> (\<forall>p e. heap (thr w) p = Some e \<longrightarrow> heap (thr w') p = Some e)
    \<and> running (thr w') = running (thr w)"
  using assms(2-4)
proof (induction ts arbitrary: w)
  case (Cons t ts)
  let ?p = "alloc (thr w)"
  have p: "heap (thr w) ?p = None" using assms(1) Cons.prems(3) by (simp add: alloc_ok_def)
  obtain cb where cb: "callback t = Some cb" using Cons.prems(2) by auto
  obtain th e where th: "Executor_callback ?p (callback t) DefaultStackSize (thr w) = Ok th"
    "heap th = (heap (thr w))(?p \<mapsto> e)" "ex_is_call_back_type e" "ex_state e = Init" "ex_callback e = callback t"
    "running th = running (thr w)"
    using cb by (auto simp: Executor_callback_def idGenerate_def createUpdateData_def Let_def)
  let ?w = "w\<lparr>thr := th, sch := ready_push (Some ?p) (sch w)\<rparr>"
  have "\<not> stopping (sch ?w)" "\<forall>t \<in> set ts. callback t \<noteq> None" "finite (dom (heap (thr ?w)))"
    using Cons.prems th(2) by (auto simp: ready_push_def)
  from Cons.IH [OF this] obtain w' ps where w': "add_timer_execs alloc ts ?w = Ok w'"
    "sch w' = (sch ?w)\<lparr>ready_executors := ready_executors (sch ?w) @ map Some ps\<rparr>"
    "list_all2 (\<lambda>p t. new_task (thr w') p (callback t)) ps ts" "distinct ps" "\<forall>p \<in> set ps. heap th p = None"
    "\<forall>p e. heap th p = Some e \<longrightarrow> heap (thr w') p = Some e" "running (thr w') = running th"
    by auto
  have "add_timer_execs alloc (t # ts) w = Ok w'"
    using th(1) w'(1) Cons.prems(1) by (simp add: addExecutor_def)
  moreover have "new_task (thr w') ?p (callback t)" using w'(6) th(2-5) by (simp add: new_task_def)
  moreover have "\<forall>p \<in> set ps. heap (thr w) p = None" "?p \<notin> set ps" using w'(5) th(2) by (auto split: if_splits)
  moreover have "\<forall>q x. heap (thr w) q = Some x \<longrightarrow> heap (thr w') q = Some x" using w'(6) th(2) p by (metis fun_upd_other option.distinct(1))
  ultimately show ?case
    using w'(2,3,4,7) p th(6) by (intro exI [of _ w'] exI [of _ "?p # ps"]) (auto simp: ready_push_def)
qed auto

text \<open>The coroutines of timers are tasks the scheduler's loop can serve.\<close>

lemma add_timer_execs_loop:
  assumes "alloc_ok alloc"
  shows "sched_ok S w \<Longrightarrow> running (thr w) = S \<Longrightarrow> \<not> stopping (sch w) \<Longrightarrow> \<forall>t \<in> set ts. callback t \<noteq> None
    \<Longrightarrow> finite (dom (heap (thr w))) \<Longrightarrow> add_timer_execs alloc ts w = Ok w' \<Longrightarrow> sched_ok S w'"
proof (induction ts arbitrary: w)
  case (Cons t ts)
  let ?p = "alloc (thr w)"
  have p: "heap (thr w) ?p = None" using assms Cons.prems(5) by (simp add: alloc_ok_def)
  obtain cb where cb: "callback t = Some cb" using Cons.prems(4) by auto
  obtain th e where th: "Executor_callback ?p (callback t) DefaultStackSize (thr w) = Ok th"
    "heap th = (heap (thr w))(?p \<mapsto> e)" "ex_is_call_back_type e" "running th = running (thr w)"
    using cb by (auto simp: Executor_callback_def idGenerate_def createUpdateData_def Let_def)
  have "sched_ok S (w\<lparr>thr := th\<rparr>) \<or> loop_left S (w\<lparr>thr := th\<rparr>)"
    using sched_step_safe [OF sched_step.create_task [OF p, of "callback t" S DefaultStackSize] Cons.prems(1)] th(1) cb by auto
  then have "sched_ok S (w\<lparr>thr := th\<rparr>)" using th(4) Cons.prems(2) by (auto simp: loop_left_def)
  moreover have "heap (thr w) S \<noteq> None" using Cons.prems(1) by (auto simp: sched_ok_def loop_ok_def)
  then have "task S th ?p" using th(2,3) p by (auto simp: task_def)
  ultimately have "sched_ok S (w\<lparr>thr := th, sch := ready_push (Some ?p) (sch w)\<rparr>)"
    by (auto simp: sched_ok_def queued_def ready_push_def)
  moreover have "finite (dom (heap th))" unfolding th(2) dom_fun_upd using Cons.prems(5) by simp
  ultimately show ?case using Cons.IH [of "w\<lparr>thr := th, sch := ready_push (Some ?p) (sch w)\<rparr>"] Cons.prems th(1,4)
    by (simp add: addExecutor_def ready_push_def)
qed simp

text \<open>\<open>removeEvent\<close> of one registered direction, and registering where the kernel has no entry.\<close>

lemma removeEvent_drops:
  assumes "epoll_ctl_ok api interest usable" and "watch_ok interest m"
    and "0 \<le> i" and "i < int (length (fd_events m))" and "i \<noteq> fst (wakeup_pipe_fd m)"
    and "type = Read \<or> type = Write" and "hasEvent i type m = Ok True"
  shows "\<exists>m'. removeEvent api i type m = Ok m' \<and> interest (kern m') i = None \<and> io_stopped m' = io_stopped m
     \<and> events_at m' i = (events_at m i)\<lparr>read_executor := None, write_executor := None\<rparr>
     \<and> length (fd_events m') = length (fd_events m) \<and> io_world m' = io_world m \<and> timer_manager m' = timer_manager m
     \<and> wakeup_pipe_fd m' = wakeup_pipe_fd m"
proof -
  let ?r = "registered_events (events_at m i)"
  have w: "watched (interest (kern m) i) ?r" using assms(2,3,5) by (simp add: watch_ok_alt)
  have a: "?r AND type \<noteq> 0" using assms(3,7) by (simp add: hasEvent_eq)
  have z: "NOT ?r AND type = 0" using w a assms(6) by (auto simp: watched_def Read_def Write_def epoll_bits)
  have "interest (kern m) i \<noteq> None" using w a by (auto simp: watched_def split: if_splits)
  from epoll_calls(3) [OF assms(1) this] obtain k' where k: "epollDel api i m = Ok (m\<lparr>kern := k'\<rparr>)"
    "interest k' = (interest (kern m))(i := None)" by blast
  let ?m = "m\<lparr>kern := k', fd_events := (fd_events m)[nat i := (events_at m i)\<lparr>read_executor := None, write_executor := None\<rparr>]\<rparr>"
  have "removeEvent api i type m = Ok ?m"
    using assms(3,4) a z k(1) by (simp add: removeEvent_def vec_get_events upd_event_Ok)
  then show ?thesis using k(2) assms(3,4) by simp
qed

lemma epAdd_unwatched:
  assumes "epoll_ctl_ok api interest usable" and "0 \<le> i" and "i < int (length (fd_events m))"
    and "interest (kern m) i = None" and "registered_events (events_at m i) \<noteq> 0"
  shows "epAdd api i t m = Err AssertFailed"
  using assms(2,3,5) epoll_calls(4) [OF assms(1,4)] by (simp add: epAdd_def vec_get_events Let_def)

lemma registerEvent_unwatched:
  assumes "epoll_ctl_ok api interest usable" and "\<not> io_stopped m" and "0 \<le> i" and "i < int (length (fd_events m))"
    and "interest (kern m) i = None" and "registered_events (events_at m i) \<noteq> 0" and "t = Read \<or> t = Write"
  shows "registerEvent api i t x once m = Err AssertFailed"
proof -
  let ?m = "m\<lparr>fd_events := (fd_events m)[nat i := set_side t x once (events_at m i)]\<rparr>"
  have "upd_event i (set_side t x once) m = Ok ?m" using assms(3,4) by (simp add: upd_event_Ok)
  moreover have "epAdd api i t ?m = Err AssertFailed"
    using assms(3-6) by (intro epAdd_unwatched [OF assms(1)]) (simp_all add: set_side_def)
  ultimately show ?thesis
    using assms(2-4,7) unfolding registerEvent_def set_side_def by (auto simp: Read_def Write_def epoll_bits)
qed

section \<open>A concrete kernel\<close>

text \<open>
  An instance of the system calls for the witnesses: the kernel's state is the interest list, no
  event ever arrives, the pipe is (4, 5).
\<close>

definition demo_api :: "(fd \<Rightarrow> u32 option) kernel_api" where
  "demo_api =
     \<lparr>sys_epoll_create = (\<lambda>_ k. (Inr 3, k)), sys_pipe = (\<lambda>k. (Inr (4, 5), k)), sys_set_nonblock = (\<lambda>_ k. (Inr (), k)),
      sys_epoll_ctl = (\<lambda>op i ev k.
        if op = EPOLL_CTL_ADD then (if k i = None then (Inr (), k(i \<mapsto> fst ev)) else (Inl (OtherErrno 17), k))
        else if k i = None then (Inl (OtherErrno 2), k)
        else if op = EPOLL_CTL_MOD then (Inr (), k(i \<mapsto> fst ev)) else (Inr (), k(i := None))),
      sys_epoll_wait = (\<lambda>_ _ k. (Inr [], k)), sys_read = (\<lambda>_ _ k. (Inr 0, k)), sys_write = (\<lambda>_ _ k. (Inr 1, k))\<rparr>"

lemma demo_api_calls [simp]:
  "sys_epoll_create demo_api n k = (Inr 3, k)" "sys_pipe demo_api k = (Inr (4, 5), k)"
  "sys_set_nonblock demo_api i k = (Inr (), k)" "sys_epoll_wait demo_api n ms k = (Inr [], k)"
  by (simp_all add: demo_api_def)

lemma demo_api_ok: "epoll_ctl_ok demo_api (\<lambda>k. k) UNIV"
  by (simp add: epoll_ctl_ok_def demo_api_def)

definition demo_io :: "(unit, fd \<Rightarrow> u32 option) io_manager res" where
  "demo_io = IOManager_new demo_api 2 3 () (fresh_thread 2) (\<lambda>_. None)"

lemma demo_new_ok:
  "\<exists>m. IOManager_new demo_api 2 3 cb (fresh_thread 2) (\<lambda>_. None) = Ok m
     \<and> watch_ok (\<lambda>k. k) m \<and> \<not> io_stopped m \<and> wakeup_pipe_fd m = (4, 5) \<and> fd_events m = []
     \<and> timer_manager m = [] \<and> \<not> stopping (io_sch m) \<and> ready_executors (io_sch m) = [] \<and> finite (dom (heap (thr (io_world m))))"
proof -
  obtain w where w: "Scheduler_new 2 3 cb (fresh_thread 2) = Ok w" "ready_executors (sch w) = []" "\<not> stopping (sch w)"
    "finite (dom (heap (thr w)))"
    by (auto simp: sched_started_defs Let_def)
  have a: "asserted_noIntr (epollOperation (sys_epoll_ctl demo_api) EPOLL_CTL_ADD ev 4) m
      = Ok ((), m\<lparr>kern := (kern m)(4 \<mapsto> ev)\<rparr>)" if "kern m = (\<lambda>_. None)" for ev and m :: "('a, fd \<Rightarrow> u32 option) io_manager"
    by (rule asserted_epoll) (simp add: demo_api_def that)
  have "IOManager_new demo_api 2 3 cb (fresh_thread 2) (\<lambda>_. None) = Ok \<lparr>io_stopped = False, epoll_fd = 3, wakeup_pipe_fd = (4, 5),
      io_world = w\<lparr>sch := setExitWithTasksProcessed True (sch w)\<rparr>, timer_manager = [], fd_events = [],
      kern = [4 \<mapsto> EPOLLIN OR EPOLLOUT]\<rparr>"
    by (simp add: IOManager_new_def w(1) initEpoll_def initPipe_def epollAdd_def asserted_def a)
  then show ?thesis
    using w(2-4) by (auto simp: watch_ok_def watched_def io_sch_def setExitWithTasksProcessed_def)
qed

lemmas demo_io_ok = demo_new_ok [where cb = "()", folded demo_io_def]

lemma least_alloc_ok: "alloc_ok (\<lambda>th. LEAST p. heap th p = None)"
  unfolding alloc_ok_def by (metis (mono_tags, lifting) LeastI_ex domIff ex_new_if_finite infinite_UNIV_nat)

text \<open>Descriptor 7 registered for reading.\<close>

lemma demo_registered:
  "\<exists>m m'. demo_io = Ok m \<and> registerEvent demo_api 7 Read (Some 9) True m = Ok (True, m') \<and> watch_ok (\<lambda>k. k) m'
     \<and> wakeup_pipe_fd m' = (4, 5) \<and> 7 < int (length (fd_events m')) \<and> hasEvent 7 Read m' = Ok True
     \<and> read_executor (events_at m' 7) = Some 9 \<and> read_call_once (events_at m' 7) \<and> write_call_once (events_at m' 7)
     \<and> \<not> stopping (io_sch m') \<and> ready_executors (io_sch m') = [] \<and> \<not> io_stopped m'"
proof -
  obtain m where m: "demo_io = Ok m" "watch_ok (\<lambda>k. k) m" "\<not> io_stopped m" "wakeup_pipe_fd m = (4, 5)" "fd_events m = []"
    "\<not> stopping (io_sch m)" "ready_executors (io_sch m) = []"
    using demo_io_ok by blast
  from registerEvent_events [OF demo_api_ok m(2,3), of 7 Read "Some 9" True] m(4) obtain m' where
    m': "registerEvent demo_api 7 Read (Some 9) True m = Ok (True, m')" "watch_ok (\<lambda>k. k) m'"
      "wakeup_pipe_fd m' = (4, 5)" "io_world m' = io_world m" "7 < int (length (fd_events m'))" "\<not> io_stopped m'"
      "events_at m' 7 = (set_side Read (Some 9) True (events_at m 7))\<lparr>registered_events := registered_events (events_at m 7) OR Read\<rparr>"
    by auto
  have "events_at m' 7 = \<lparr>registered_events = Read, read_call_once = True, write_call_once = True,
      read_executor = Some 9, write_executor = None\<rparr>"
    using m'(7) m(5) by (simp add: set_side_def events_at_def FdEvents_default_def)
  then show ?thesis using m m'(1-6) by (auto simp: hasEvent_eq io_sch_def Read_def EPOLLIN_def)
qed

section \<open>Properties\<close>

text \<open>
  \<open>registerEvent\<close> does what it says for every descriptor from 2 on (and for 0 and 1 when the
  vector already has room): the event is reported by \<open>hasEvent\<close>, the executor is stored for that
  direction, the kernel watches for it, all other descriptors and the other direction are as
  before, and the vector still agrees with the interest list of the kernel.
\<close>

theorem registerEvent_registers:
  assumes "epoll_ctl_ok api interest usable" and "watch_ok interest m" and "\<not> io_stopped m"
    and "0 \<le> i" and "2 \<le> i \<or> i < int (length (fd_events m))" and "i \<noteq> fst (wakeup_pipe_fd m)" and "i \<in> usable"
    and "type = Read \<or> type = Write"
  shows "\<exists>m' w. registerEvent api i type x once m = Ok (True, m') \<and> watch_ok interest m'
     \<and> hasEvent i type m' = Ok True \<and> side_executor type (events_at m' i) = x
     \<and> interest (kern m') i = Some w \<and> w AND type = type
     \<and> (\<forall>j t. 0 \<le> j \<longrightarrow> (j, t) \<noteq> (i, type) \<longrightarrow> t = Read \<or> t = Write \<longrightarrow>
          hasEvent j t m' = hasEvent j t m \<and> side_executor t (events_at m' j) = side_executor t (events_at m j))"
proof -
  from registerEvent_events [OF assms, of x once] obtain m' where m': "registerEvent api i type x once m = Ok (True, m')"
    "watch_ok interest m'" "wakeup_pipe_fd m' = wakeup_pipe_fd m"
    and e: "events_at m' i = (set_side type x once (events_at m i))\<lparr>registered_events := registered_events (events_at m i) OR type\<rparr>"
      "\<forall>j. j \<noteq> i \<longrightarrow> events_at m' j = events_at m j"
    by blast
  have w: "watched (interest (kern m) i) (registered_events (events_at m i))" using assms(2,4,6) by (simp add: watch_ok_alt)
  have "watched (interest (kern m') i) (registered_events (events_at m' i))"
    using m'(2,3) assms(4,6) by (simp add: watch_ok_alt)
  then have w': "watched (interest (kern m') i) (registered_events (events_at m i) OR type)" using e(1) by simp
  note defs = watched_def set_side_def side_executor_def Read_def Write_def epoll_bits
  obtain w where "interest (kern m') i = Some w" "w AND type = type"
    using w w' assms(8) by (auto simp: defs split: if_splits)
  moreover have "hasEvent i type m' = Ok True" using w assms(4,8) e(1) by (auto simp: hasEvent_eq defs)
  moreover have "side_executor type (events_at m' i) = x" using e(1) assms(8) by (auto simp: defs)
  moreover have "hasEvent j t m' = hasEvent j t m \<and> side_executor t (events_at m' j) = side_executor t (events_at m j)"
    if "0 \<le> j" "(j, t) \<noteq> (i, type)" "t = Read \<or> t = Write" for j t
    using that e w assms(8) by (cases "j = i") (auto simp: hasEvent_eq defs)
  ultimately show ?thesis using m'(1,2) by blast
qed

theorem registerEvent_registers_witness:
  "\<exists>m m' w. demo_io = Ok m \<and> registerEvent demo_api 7 Read (Some 9) True m = Ok (True, m')
     \<and> hasEvent 7 Read m' = Ok True \<and> kern m' 7 = Some w \<and> w AND Read = Read"
proof -
  obtain m where m: "demo_io = Ok m" "watch_ok (\<lambda>k. k) m" "\<not> io_stopped m" "wakeup_pipe_fd m = (4, 5)"
    using demo_io_ok by blast
  from registerEvent_registers [OF demo_api_ok m(2,3), of 7 Read "Some 9" True] m(1,4) show ?thesis by auto
qed

text \<open>Events touch neither the timers nor the flag that says the manager was stopped.\<close>

definition same_timers :: "('cb, 'k) io_manager \<Rightarrow> ('cb, 'k) io_manager \<Rightarrow> bool" where
  "same_timers m m' \<longleftrightarrow> timer_manager m' = timer_manager m \<and> io_stopped m' = io_stopped m"

lemma upd_event_timers: "upd_event i f m = Ok m' \<Longrightarrow> same_timers m m'"
  by (auto simp: upd_event_def same_timers_def)

lemma epoll_call_timers:
  "epollMod api i ev m = Ok m' \<Longrightarrow> same_timers m m'"
  "epollDel api i m = Ok m' \<Longrightarrow> same_timers m m'"
  by (auto simp: epollMod_def epollDel_def asserted_noIntr_def same_timers_def split: sum.splits prod.splits)

lemma update_interest_timers: "update_interest api i l m = Ok m' \<Longrightarrow> same_timers m m'"
  by (auto simp: update_interest_def same_timers_def dest!: upd_event_timers epoll_call_timers split: if_splits)

lemma enqueue_side_timers: "enqueue_side i once x clear m = Ok m' \<Longrightarrow> same_timers m m'"
  by (auto simp: enqueue_side_def Let_def upd_sch_def same_timers_def dest!: upd_event_timers split: if_splits prod.splits)

text \<open>
  Delivery of an event when the registrations of its descriptor and of the first descriptor of the batch, \<open>f\<close>,
  are for once.
\<close>

definition woken :: "u32 \<Rightarrow> FdEvents \<Rightarrow> eptr option list" where
  "woken ev e = (if ev AND (EPOLLIN OR EPOLLERR OR EPOLLHUP) \<noteq> 0 then [read_executor e] else [])
     @ (if ev AND (EPOLLOUT OR EPOLLERR OR EPOLLHUP) \<noteq> 0 then [write_executor e] else [])"

text \<open>The entry of the descriptor afterwards.\<close>

definition after_event :: "u32 \<Rightarrow> FdEvents \<Rightarrow> FdEvents" where
  "after_event ev e =
     e\<lparr>registered_events := left_after ev (registered_events e),
       read_executor := (if ev AND (EPOLLIN OR EPOLLERR OR EPOLLHUP) \<noteq> 0 then None else read_executor e),
       write_executor := (if ev AND (EPOLLOUT OR EPOLLERR OR EPOLLHUP) \<noteq> 0 then None else write_executor e)\<rparr>"

lemma handle_event_after:
  assumes "epoll_ctl_ok api interest usable" and "watch_ok interest m"
    and "0 \<le> i" and "i < int (length (fd_events m))" and "i \<noteq> fst (wakeup_pipe_fd m)"
    and "\<not> stopping (io_sch m)" and "read_call_once (events_at m i)" and "write_call_once (events_at m i)"
    and "0 \<le> f" and "f < int (length (fd_events m))" and "read_call_once (events_at m f)" and "write_call_once (events_at m f)"
  shows "\<exists>m'. handle_event api f (i, ev) m = Ok m' \<and> watch_ok interest m'
     \<and> io_sch m' = (io_sch m)\<lparr>ready_executors := ready_executors (io_sch m) @ woken ev (events_at m i)\<rparr>
     \<and> events_at m' i = after_event ev (events_at m i)
     \<and> (\<forall>j. j \<noteq> i \<longrightarrow> events_at m' j = events_at m j) \<and> thr (io_world m') = thr (io_world m)
     \<and> length (fd_events m') = length (fd_events m) \<and> wakeup_pipe_fd m' = wakeup_pipe_fd m \<and> same_timers m m'"
proof -
  let ?r = "registered_events (events_at m i)" and ?in = "ev AND (EPOLLIN OR EPOLLERR OR EPOLLHUP) \<noteq> 0"
    and ?out = "ev AND (EPOLLOUT OR EPOLLERR OR EPOLLHUP) \<noteq> 0"
  have r: "?r \<in> {0, 1, 4, 5}" using assms(2,3,5) by (auto simp: watch_ok_alt watched_def)
  note lb = left_after_bits [OF r, of ev]
  obtain m1 where m1: "update_interest api i (left_after ev ?r) m = Ok m1" "watch_ok interest m1"
    "length (fd_events m1) = length (fd_events m)" "events_at m1 i = (events_at m i)\<lparr>registered_events := left_after ev ?r\<rparr>"
    "\<forall>j. j \<noteq> i \<longrightarrow> events_at m1 j = events_at m j" "io_world m1 = io_world m" "wakeup_pipe_fd m1 = wakeup_pipe_fd m"
    using update_interest_ok [OF assms(1-5) lb(1,2)] by blast
  obtain m2 where m2: "(if ?in then enqueue_side i read_call_once read_executor (\<lambda>e. e\<lparr>read_executor := None\<rparr>) m1 else Ok m1) = Ok m2"
    "watch_ok interest m2" "length (fd_events m2) = length (fd_events m1)"
    "events_at m2 i = (if ?in then (events_at m1 i)\<lparr>read_executor := None\<rparr> else events_at m1 i)" "\<forall>j. j \<noteq> i \<longrightarrow> events_at m2 j = events_at m1 j"
    "io_sch m2 = (if ?in then ready_push (read_executor (events_at m i)) (io_sch m) else io_sch m)"
    "thr (io_world m2) = thr (io_world m)" "wakeup_pipe_fd m2 = wakeup_pipe_fd m"
    using enqueue_side_ok [of interest m1 i read_call_once "\<lambda>e. e\<lparr>read_executor := None\<rparr>" read_executor]
      m1 assms(3,4,6,7) by (cases ?in) (auto simp: io_sch_def)
  have f2: "i < int (length (fd_events m2))" "\<not> stopping (io_sch m2)" "write_call_once (events_at m2 i)"
    "write_executor (events_at m2 i) = write_executor (events_at m i)"
    using m1(3,4) m2(3,4,6) assms(4,6,8) by (simp_all add: ready_push_def)
  obtain m3 where m3: "(if ?out then enqueue_side i write_call_once write_executor (\<lambda>e. e\<lparr>write_executor := None\<rparr>) m2 else Ok m2) = Ok m3"
    "watch_ok interest m3" "events_at m3 i = (if ?out then (events_at m2 i)\<lparr>write_executor := None\<rparr> else events_at m2 i)" "\<forall>j. j \<noteq> i \<longrightarrow> events_at m3 j = events_at m2 j"
    "io_sch m3 = (if ?out then ready_push (write_executor (events_at m i)) (io_sch m2) else io_sch m2)"
    "thr (io_world m3) = thr (io_world m)" "length (fd_events m3) = length (fd_events m2)" "wakeup_pipe_fd m3 = wakeup_pipe_fd m"
    using enqueue_side_ok [where clear = "\<lambda>e. e\<lparr>write_executor := None\<rparr>" and call_once = write_call_once
        and executor = write_executor, OF m2(2) assms(3) f2(1-3)] m2(2,7,8) f2(4)
    by (cases ?out) auto
  have h: "handle_event api f (i, ev) m = Ok m3"
    unfolding handle_event_once [OF assms(3-5,9-12)] m1(1) res_bind_simps m2(1) m3(1) ..
  have "same_timers m m3"
    using m1(1) m2(1) m3(1) by (auto simp: same_timers_def dest!: update_interest_timers enqueue_side_timers split: if_splits)
  moreover have "events_at m3 i = after_event ev (events_at m i)" using m1(4) m2(4) m3(3) by (auto simp: after_event_def)
  ultimately show ?thesis
    using h m1(3,5) m2(3,5,6) m3(2,4-8) by (auto simp: ready_push_def woken_def)
qed

lemma handle_event_in_batch:
  assumes "epoll_ctl_ok api interest usable" and "watch_ok interest m"
    and "0 \<le> i" and "i < int (length (fd_events m))" and "i \<noteq> fst (wakeup_pipe_fd m)"
    and "\<not> stopping (io_sch m)" and "read_call_once (events_at m i)" and "write_call_once (events_at m i)"
    and "0 \<le> f" and "f < int (length (fd_events m))" and "read_call_once (events_at m f)" and "write_call_once (events_at m f)"
  shows "\<exists>m'. handle_event api f (i, ev) m = Ok m' \<and> watch_ok interest m'
     \<and> io_sch m' = (io_sch m)\<lparr>ready_executors := ready_executors (io_sch m) @ woken ev (events_at m i)\<rparr>
     \<and> (hasEvent i Read m' = Ok True \<longleftrightarrow> hasEvent i Read m = Ok True \<and> ev AND EPOLLIN = 0)
     \<and> (hasEvent i Write m' = Ok True \<longleftrightarrow> hasEvent i Write m = Ok True \<and> ev AND EPOLLOUT = 0)
     \<and> (\<forall>j. j \<noteq> i \<longrightarrow> events_at m' j = events_at m j) \<and> thr (io_world m') = thr (io_world m)
     \<and> read_call_once (events_at m' i) \<and> write_call_once (events_at m' i) \<and> length (fd_events m') = length (fd_events m)
     \<and> wakeup_pipe_fd m' = wakeup_pipe_fd m \<and> timer_manager m' = timer_manager m"
proof -
  have r: "registered_events (events_at m i) \<in> {0, 1, 4, 5}" using assms(2,3,5) by (auto simp: watch_ok_alt watched_def)
  show ?thesis
    using handle_event_after [OF assms, of ev] left_after_bits(3,4) [OF r, of ev] assms(3,7,8)
    by (auto simp: hasEvent_eq after_event_def same_timers_def)
qed

lemma handle_event_delivers:
  assumes "epoll_ctl_ok api interest usable" and "watch_ok interest m"
    and "0 \<le> i" and "i < int (length (fd_events m))" and "i \<noteq> fst (wakeup_pipe_fd m)"
    and "\<not> stopping (io_sch m)" and "read_call_once (events_at m i)" and "write_call_once (events_at m i)"
  shows "\<exists>m'. handle_event api i (i, ev) m = Ok m' \<and> watch_ok interest m'
     \<and> io_sch m' = (io_sch m)\<lparr>ready_executors := ready_executors (io_sch m)
          @ (if ev AND (EPOLLIN OR EPOLLERR OR EPOLLHUP) \<noteq> 0 then [read_executor (events_at m i)] else [])
          @ (if ev AND (EPOLLOUT OR EPOLLERR OR EPOLLHUP) \<noteq> 0 then [write_executor (events_at m i)] else [])\<rparr>
     \<and> (hasEvent i Read m' = Ok True \<longleftrightarrow> hasEvent i Read m = Ok True \<and> ev AND EPOLLIN = 0)
     \<and> (hasEvent i Write m' = Ok True \<longleftrightarrow> hasEvent i Write m = Ok True \<and> ev AND EPOLLOUT = 0)
     \<and> (\<forall>j. j \<noteq> i \<longrightarrow> events_at m' j = events_at m j) \<and> thr (io_world m') = thr (io_world m) \<and> timer_manager m' = timer_manager m"
  using handle_event_in_batch [OF assms(1-8) assms(3,4,7,8), of ev] unfolding woken_def by blast

text \<open>
  Delivery of an event to a descriptor with one-shot registrations (the default): a readable
  event appends the read executor to the ready queue, a writable one the write executor, an
  error or hang-up both, in this order; exactly the directions that fired are no longer
  registered, here and in the kernel; no other descriptor changes and no executor is switched.
\<close>

theorem handle_event_oneshot:
  assumes "epoll_ctl_ok api interest usable" and "watch_ok interest m"
    and "0 \<le> i" and "i < int (length (fd_events m))" and "i \<noteq> fst (wakeup_pipe_fd m)"
    and "\<not> stopping (io_sch m)" and "read_call_once (events_at m i)" and "write_call_once (events_at m i)"
  shows "\<exists>m'. handle_event api i (i, ev) m = Ok m' \<and> watch_ok interest m'
     \<and> ready_executors (io_sch m') = ready_executors (io_sch m)
          @ (if ev AND (EPOLLIN OR EPOLLERR OR EPOLLHUP) \<noteq> 0 then [read_executor (events_at m i)] else [])
          @ (if ev AND (EPOLLOUT OR EPOLLERR OR EPOLLHUP) \<noteq> 0 then [write_executor (events_at m i)] else [])
     \<and> (hasEvent i Read m' = Ok True \<longleftrightarrow> hasEvent i Read m = Ok True \<and> ev AND EPOLLIN = 0)
     \<and> (hasEvent i Write m' = Ok True \<longleftrightarrow> hasEvent i Write m = Ok True \<and> ev AND EPOLLOUT = 0)
     \<and> (\<forall>j. j \<noteq> i \<longrightarrow> events_at m' j = events_at m j) \<and> thr (io_world m') = thr (io_world m)"
  using handle_event_delivers [OF assms, of ev] by auto

theorem handle_event_oneshot_witness:
  "\<exists>m m1 m2. demo_io = Ok m \<and> registerEvent demo_api 7 Read (Some 9) True m = Ok (True, m1)
     \<and> handle_event demo_api 7 (7, EPOLLIN) m1 = Ok m2 \<and> ready_executors (io_sch m2) = [Some 9]
     \<and> hasEvent 7 Read m2 \<noteq> Ok True"
proof -
  obtain m m1 where m1: "demo_io = Ok m" "registerEvent demo_api 7 Read (Some 9) True m = Ok (True, m1)"
    "watch_ok (\<lambda>k. k) m1" "wakeup_pipe_fd m1 = (4, 5)" "7 < int (length (fd_events m1))"
    "read_executor (events_at m1 7) = Some 9" "read_call_once (events_at m1 7)" "write_call_once (events_at m1 7)"
    "\<not> stopping (io_sch m1)" "ready_executors (io_sch m1) = []"
    using demo_registered by blast
  from handle_event_oneshot [OF demo_api_ok m1(3) _ m1(5) _ m1(9,7,8), of EPOLLIN] m1 show ?thesis
    by (auto simp: epoll_bits)
qed

text \<open>A turn of the loop up to the handling of the events the wait returned.\<close>

lemma blockPending_timers:
  assumes "alloc_ok alloc" and "\<not> stopping (io_sch m)" and "\<forall>t \<in> set (timer_manager m). callback t \<noteq> None"
    and "sys_epoll_wait api epoll_wait_max_size (epoll_timeout now_before (timer_manager m)) (kern m) = (Inr evs, k)"
    and "takeExpiredTimers now_after (timer_manager m) = (due, rest)" and "finite (dom (heap (thr (io_world m))))"
  shows "\<exists>w' ps. blockPending api alloc now_before now_after m =
       handle_events api (fst (hd evs)) evs (m\<lparr>kern := k, timer_manager := rest, io_world := w'\<rparr>)
     \<and> sch w' = (sch (io_world m))\<lparr>ready_executors := ready_executors (sch (io_world m)) @ map Some ps\<rparr>
     \<and> list_all2 (\<lambda>p t. new_task (thr w') p (callback t)) ps due \<and> distinct ps
     \<and> (\<forall>p e. heap (thr (io_world m)) p = Some e \<longrightarrow> heap (thr w') p = Some e)
     \<and> running (thr w') = running (thr (io_world m))
     \<and> (\<forall>S. sched_ok S (io_world m) \<longrightarrow> running (thr (io_world m)) = S \<longrightarrow> sched_ok S w')
     \<and> (\<forall>p \<in> set ps. heap (thr (io_world m)) p = None)"
proof -
  have "set due \<subseteq> set (timer_manager m)"
    using assms(5) by (auto simp: takeExpiredTimers_def Let_def dest: in_set_takeD)
  then have cb: "\<forall>t \<in> set due. callback t \<noteq> None" using assms(3) by blast
  have s: "\<not> stopping (sch (io_world m))" using assms(2) by (simp add: io_sch_def)
  obtain w' ps where w': "add_timer_execs alloc due (io_world m) = Ok w'"
    "sch w' = (sch (io_world m))\<lparr>ready_executors := ready_executors (sch (io_world m)) @ map Some ps\<rparr>"
    "list_all2 (\<lambda>p t. new_task (thr w') p (callback t)) ps due" "distinct ps" "\<forall>p \<in> set ps. heap (thr (io_world m)) p = None"
    "\<forall>p e. heap (thr (io_world m)) p = Some e \<longrightarrow> heap (thr w') p = Some e" "running (thr w') = running (thr (io_world m))"
    using add_timer_execs_ok [OF assms(1) s cb assms(6)] by blast
  have "asserted_noIntr (sys_epoll_wait api epoll_wait_max_size (epoll_timeout now_before (timer_manager m))) m
      = Ok (evs, m\<lparr>kern := k\<rparr>)"
    using assms(4) by (simp add: asserted_noIntr_def invoked_done)
  then have "blockPending api alloc now_before now_after m =
       handle_events api (fst (hd evs)) evs (m\<lparr>kern := k, timer_manager := rest, io_world := w'\<rparr>)"
    using assms(5) w'(1) by (simp add: blockPending_def)
  moreover have "\<forall>S. sched_ok S (io_world m) \<longrightarrow> running (thr (io_world m)) = S \<longrightarrow> sched_ok S w'"
    using add_timer_execs_loop [OF assms(1) _ _ s cb assms(6) w'(1)] by blast
  ultimately show ?thesis using w'(2-7) by blast
qed

text \<open>A turn in which no descriptor is ready.\<close>

lemma blockPending_idle:
  assumes "alloc_ok alloc" and "\<not> stopping (io_sch m)" and "\<forall>t \<in> set (timer_manager m). callback t \<noteq> None"
    and "sys_epoll_wait api epoll_wait_max_size (epoll_timeout now_before (timer_manager m)) (kern m) = (Inr [], k)"
    and "takeExpiredTimers now_after (timer_manager m) = (due, rest)" and "finite (dom (heap (thr (io_world m))))"
  shows "\<exists>w' ps. blockPending api alloc now_before now_after m = Ok (m\<lparr>kern := k, timer_manager := rest, io_world := w'\<rparr>)
     \<and> sch w' = (sch (io_world m))\<lparr>ready_executors := ready_executors (sch (io_world m)) @ map Some ps\<rparr>
     \<and> list_all2 (\<lambda>p t. new_task (thr w') p (callback t)) ps due \<and> distinct ps
     \<and> (\<forall>p e. heap (thr (io_world m)) p = Some e \<longrightarrow> heap (thr w') p = Some e)
     \<and> running (thr w') = running (thr (io_world m))
     \<and> (\<forall>S. sched_ok S (io_world m) \<longrightarrow> running (thr (io_world m)) = S \<longrightarrow> sched_ok S w')
     \<and> (\<forall>p \<in> set ps. heap (thr (io_world m)) p = None)"
  using blockPending_timers [OF assms] by simp

text \<open>
  Timers that are due run. When the wait returns without events, \<open>blockPending\<close> takes exactly
  the expired timers out of the set and appends one new coroutine per timer to the ready queue,
  in deadline order, each with the callback of its timer; executors that existed are untouched.
\<close>

theorem blockPending_runs_expired_timers:
  assumes "alloc_ok alloc" and "\<not> stopping (io_sch m)" and "\<forall>t \<in> set (timer_manager m). callback t \<noteq> None"
    and "sys_epoll_wait api epoll_wait_max_size (epoll_timeout now_before (timer_manager m)) (kern m) = (Inr [], k)"
    and "takeExpiredTimers now_after (timer_manager m) = (due, rest)" and "finite (dom (heap (thr (io_world m))))"
  shows "\<exists>m' ps. blockPending api alloc now_before now_after m = Ok m' \<and> timer_manager m' = rest
     \<and> ready_executors (io_sch m') = ready_executors (io_sch m) @ map Some ps
     \<and> list_all2 (\<lambda>p t. new_task (thr (io_world m')) p (callback t)) ps due \<and> distinct ps
     \<and> (\<forall>p e. heap (thr (io_world m)) p = Some e \<longrightarrow> heap (thr (io_world m')) p = Some e)"
  using blockPending_idle [OF assms] by (auto simp: io_sch_def)

theorem blockPending_runs_expired_timers_witness:
  "\<exists>m m1 m2 p. demo_io = Ok m \<and> registerTimer (Some (new_timer 0 10 (Some ()) False)) m = Ok (True, m1)
     \<and> blockPending demo_api (\<lambda>th. LEAST p. heap th p = None) (\<lambda>_. 0) (\<lambda>_. 10) m1 = Ok m2 \<and> timer_manager m2 = []
     \<and> ready_executors (io_sch m2) = [Some p] \<and> new_task (thr (io_world m2)) p (Some ())"
proof -
  obtain m where m: "demo_io = Ok m" "\<not> io_stopped m" "timer_manager m = []" "\<not> stopping (io_sch m)"
    "ready_executors (io_sch m) = []" "finite (dom (heap (thr (io_world m))))"
    using demo_io_ok by blast
  let ?t = "new_timer 0 10 (Some ()) False" and ?al = "\<lambda>th :: unit thread. LEAST p. heap th p = None"
  let ?m = "m\<lparr>timer_manager := [?t]\<rparr>"
  have al: "alloc_ok ?al" by (rule least_alloc_ok)
  have "takeExpiredTimers (\<lambda>_. 10) (timer_manager ?m) = ([?t], [])"
    by (simp add: takeExpiredTimers_def ms_lower_bound_def timer_less_def timer_at_def new_timer_def)
  moreover have "sys_epoll_wait demo_api epoll_wait_max_size (epoll_timeout (\<lambda>_. 0) (timer_manager ?m)) (kern ?m) = (Inr [], kern ?m)"
    by (simp add: demo_api_def)
  moreover have "\<forall>t \<in> set (timer_manager ?m). callback t \<noteq> None" by (simp add: new_timer_def)
  moreover have "registerTimer (Some ?t) m = Ok (True, ?m)"
    using m(2,3) by (simp add: registerTimer_def addTimer_def new_timer_def)
  ultimately show ?thesis
    using blockPending_runs_expired_timers [OF al, of ?m demo_api "\<lambda>_. 0" "kern ?m" "\<lambda>_. 10" "[?t]" "[]"] m
    by (fastforce simp: io_sch_def list_all2_Cons2 new_timer_def)
qed

lemma to_int32_minus_1: "to_int32 (- 1) = - 1"
  by (simp add: to_int32_def Let_def unsigned_minus_1_eq_mask mask_eq_exp_minus_1)

text \<open>
  The time the loop waits for events. It is the time to the next timer when that is below
  \<open>2^31\<close> milliseconds, and unlimited (\<open>-1\<close>) when there is no timer. But a timer due in
  \<open>2^31\<close> up to \<open>2^32\<close> milliseconds (25 to 50 days), and a timer that becomes overdue between
  the two clock readings of \<open>getNextInterval\<close>, both give a negative, that is unlimited, wait.
\<close>

theorem epoll_timeout_cases:
  "(getNextInterval now ts < 2 ^ 31 \<longrightarrow> epoll_timeout now ts = uint (getNextInterval now ts))
   \<and> (ts = [] \<longrightarrow> epoll_timeout now ts = - 1)
   \<and> (2 ^ 31 \<le> getNextInterval now ts \<and> getNextInterval now ts < 2 ^ 32 \<longrightarrow> epoll_timeout now ts < 0)
   \<and> (ts = t # ts' \<and> now 0 \<le> target_timestamp t \<and> target_timestamp t + 1 = now 1 \<and> now 1 \<noteq> 0 \<longrightarrow> epoll_timeout now ts < 0)"
proof (intro conjI impI)
  show "epoll_timeout now ts = uint (getNextInterval now ts)" if "getNextInterval now ts < 2 ^ 31"
  proof -
    have "uint (getNextInterval now ts) < 2 ^ 31" using that by (simp add: word_less_def)
    then show ?thesis by (simp add: epoll_timeout_def to_int32_def Let_def)
  qed
  show "epoll_timeout now ts = - 1" if "ts = []"
    using that by (simp add: epoll_timeout_def to_int32_minus_1 getNextInterval_def)
  show "epoll_timeout now ts < 0" if "2 ^ 31 \<le> getNextInterval now ts \<and> getNextInterval now ts < 2 ^ 32"
  proof -
    have "2 ^ 31 \<le> uint (getNextInterval now ts)" "uint (getNextInterval now ts) < 2 ^ 32"
      using that by (simp_all add: word_less_def word_le_def)
    then show ?thesis by (simp add: epoll_timeout_def to_int32_def Let_def)
  qed
  show "epoll_timeout now ts < 0"
    if "ts = t # ts' \<and> now 0 \<le> target_timestamp t \<and> target_timestamp t + 1 = now 1 \<and> now 1 \<noteq> 0"
  proof -
    have "getNextInterval now ts = target_timestamp t - (target_timestamp t + 1)"
      using that by (simp add: getNextInterval_def not_less [symmetric])
    then have "getNextInterval now ts = - 1" by simp
    then show ?thesis by (simp add: epoll_timeout_def to_int32_minus_1)
  qed
qed

theorem epoll_timeout_cases_witness:
  "epoll_timeout (\<lambda>_. 5) [timer_at 1005] = 1000 \<and> epoll_timeout (\<lambda>_. 5) [] = - 1
     \<and> epoll_timeout (\<lambda>_. 0) [timer_at (2 ^ 31)] < 0 \<and> epoll_timeout (\<lambda>n. word_of_nat n + 5) [timer_at 5] < 0"
  using epoll_timeout_cases [of "\<lambda>_. 5" "[timer_at 1005]" "timer_at 0" "[]"]
    epoll_timeout_cases [of "\<lambda>_. 5" "[]"] epoll_timeout_cases [of "\<lambda>_. 0" "[timer_at (2 ^ 31)]"]
    epoll_timeout_cases [of "\<lambda>n. word_of_nat n + 5" "[timer_at 5]" "timer_at 5" "[]"]
  by (simp add: getNextInterval_def timer_at_def)

text \<open>
  \<open>removeEvent\<close> takes the descriptor out of the kernel's interest list but leaves
  \<open>registered_events\<close>: the event is still reported by \<open>hasEvent\<close>, both executors are gone, and
  the next \<open>registerEvent\<close> for the descriptor modifies an entry that does not exist, which
  fails its assertion.
\<close>

theorem removeEvent_breaks_registration:
  assumes "epoll_ctl_ok api interest usable" and "watch_ok interest m" and "\<not> io_stopped m"
    and "0 \<le> i" and "i < int (length (fd_events m))" and "i \<noteq> fst (wakeup_pipe_fd m)"
    and "type = Read \<or> type = Write" and "hasEvent i type m = Ok True"
  shows "\<exists>m'. removeEvent api i type m = Ok m' \<and> interest (kern m') i = None \<and> hasEvent i type m' = Ok True
     \<and> read_executor (events_at m' i) = None \<and> write_executor (events_at m' i) = None
     \<and> (\<forall>t x once. t = Read \<or> t = Write \<longrightarrow> registerEvent api i t x once m' = Err AssertFailed)"
proof -
  obtain m' where m': "removeEvent api i type m = Ok m'" "interest (kern m') i = None" "io_stopped m' = io_stopped m"
    "events_at m' i = (events_at m i)\<lparr>read_executor := None, write_executor := None\<rparr>"
    "length (fd_events m') = length (fd_events m)"
    using removeEvent_drops [OF assms(1,2,4-8)] by blast
  have h: "hasEvent i type m' = Ok True" using m'(4) assms(4,8) by (simp add: hasEvent_eq)
  then have r: "registered_events (events_at m' i) \<noteq> 0" using assms(4) by (auto simp: hasEvent_eq)
  have "\<not> io_stopped m'" "i < int (length (fd_events m'))" using m'(3,5) assms(3,5) by simp_all
  then show ?thesis using m' h registerEvent_unwatched [OF assms(1) _ assms(4) _ m'(2) r] by auto
qed

theorem removeEvent_breaks_registration_witness:
  "\<exists>m m1 m2. demo_io = Ok m \<and> registerEvent demo_api 7 Read (Some 9) True m = Ok (True, m1)
     \<and> removeEvent demo_api 7 Read m1 = Ok m2 \<and> hasEvent 7 Read m2 = Ok True
     \<and> registerEvent demo_api 7 Write (Some 9) True m2 = Err AssertFailed"
proof -
  obtain m m1 where m1: "demo_io = Ok m" "registerEvent demo_api 7 Read (Some 9) True m = Ok (True, m1)"
    "watch_ok (\<lambda>k. k) m1" "wakeup_pipe_fd m1 = (4, 5)" "7 < int (length (fd_events m1))" "hasEvent 7 Read m1 = Ok True"
    "\<not> io_stopped m1"
    using demo_registered by blast
  from removeEvent_breaks_registration [OF demo_api_ok m1(3,7) _ m1(5) _ _ m1(6)] m1(1,2,4) show ?thesis by auto
qed

end
