(* ===== verification/Co_Io.thy ===== *)
theory Co_Io
  imports Io_Manager Fd_Manager
begin

text \<open>
  src/io/co_io_function.cpp, include/io/co_io_function.h and src/io/hook.cpp: the versions of the
  blocking system calls that suspend the calling coroutine instead of the thread. The original
  calls (the \<open>_sys\<close> pointers \<open>hook_init\<close> fills by \<open>dlsym\<close>) are the record \<open>sys_table\<close>, a
  parameter; the arguments a call passes on unchanged (buffers, lengths, flags, addresses) are
  one opaque value.

  A function that waits is cut at its \<open>yield\<close>: the part before returns \<open>IoWait\<close> with the locals
  that the part behind (\<open>ioInner_resume\<close>, \<open>connect_resume\<close>) continues with. The closures handed to
  timers are the constructors of \<open>closure\<close>, executed by \<open>run_closure\<close>; the \<open>shared_ptr<bool>\<close> a
  wait and its timer share is a cell of \<open>flags\<close>, absent once its owner is gone.
\<close>

section \<open>State\<close>

datatype 'u closure =
    UserCallback 'u
  | SleepOver eptr
  | IoTimeout fd u32 nat eptr

type_synonym ('u, 'k) manager = "('u closure, 'k) io_manager"

record ('u, 'k) co =
  mgr :: "('u, 'k) manager"
  fds :: fd_contexts
  flags :: "nat \<Rightarrow> bool option"

record ('k, 'a) sys_table =
  sleep_sys :: "u32 \<Rightarrow> ('k, int) syscall"
  nanosleep_sys :: "int \<times> int \<Rightarrow> ('k, int) syscall"
  socket_sys :: "'a \<Rightarrow> ('k, int) syscall"
  connect_sys :: "fd \<Rightarrow> 'a \<Rightarrow> ('k, int) syscall"
  accept_sys :: "fd \<Rightarrow> 'a \<Rightarrow> ('k, int) syscall"
  read_sys :: "fd \<Rightarrow> 'a \<Rightarrow> ('k, int) syscall"
  readv_sys :: "fd \<Rightarrow> 'a \<Rightarrow> ('k, int) syscall"
  recv_sys :: "fd \<Rightarrow> 'a \<Rightarrow> ('k, int) syscall"
  recvfrom_sys :: "fd \<Rightarrow> 'a \<Rightarrow> ('k, int) syscall"
  recvmsg_sys :: "fd \<Rightarrow> 'a \<Rightarrow> ('k, int) syscall"
  write_sys :: "fd \<Rightarrow> 'a \<Rightarrow> ('k, int) syscall"
  writev_sys :: "fd \<Rightarrow> 'a \<Rightarrow> ('k, int) syscall"
  send_sys :: "fd \<Rightarrow> 'a \<Rightarrow> ('k, int) syscall"
  sendto_sys :: "fd \<Rightarrow> 'a \<Rightarrow> ('k, int) syscall"
  sendmsg_sys :: "fd \<Rightarrow> 'a \<Rightarrow> ('k, int) syscall"
  close_sys :: "fd \<Rightarrow> ('k, int) syscall"
  fcntl_sys :: "fd \<Rightarrow> int \<Rightarrow> int option \<Rightarrow> ('k, int) syscall"
  ioctl_sys :: "fd \<Rightarrow> nat \<Rightarrow> int \<Rightarrow> ('k, int) syscall"
  getsockopt_sys :: "fd \<Rightarrow> int \<Rightarrow> int \<Rightarrow> ('k, int) syscall"
  setsockopt_sys :: "fd \<Rightarrow> int \<Rightarrow> int \<Rightarrow> int \<times> int \<Rightarrow> ('k, int) syscall"

text \<open>What a call returns when it does not wait: \<open>-1\<close> with \<open>errno\<close>, or a value.\<close>

definition ret_int :: "int sys \<Rightarrow> int" where
  "ret_int r = (case r of Inl _ \<Rightarrow> - 1 | Inr v \<Rightarrow> v)"

text \<open>
  A wait holds what the code behind the \<open>yield\<close> still uses: its flag, its timer, and the locals of
  \<open>ioInner\<close>. \<open>timeout\<close> is the \<open>-1\<close> returned without a call having set \<open>errno\<close>.
\<close>

datatype 'u io_out = IoReturn "int sys" | IoTimedOut | IoWait nat "'u closure timer" | ConnectWait

definition call_sys :: "('k, 'b) syscall \<Rightarrow> ('u, 'k) co \<Rightarrow> 'b sys \<times> ('u, 'k) co" where
  "call_sys f c = (case f (kern (mgr c)) of (r, k) \<Rightarrow> (r, c\<lparr>mgr := (mgr c)\<lparr>kern := k\<rparr>\<rparr>))"

definition with_mgr :: "('u, 'k) co \<Rightarrow> ('u, 'k) manager \<Rightarrow> ('u, 'k) co" where
  "with_mgr c m = c\<lparr>mgr := m\<rparr>"

definition co_thread :: "('u, 'k) co \<Rightarrow> 'u closure thread" where
  "co_thread c = thr (io_world (mgr c))"

definition with_thread :: "'u closure thread \<Rightarrow> ('u, 'k) co \<Rightarrow> ('u, 'k) co" where
  "with_thread th c = c\<lparr>mgr := (mgr c)\<lparr>io_world := (io_world (mgr c))\<lparr>thr := th\<rparr>\<rparr>\<rparr>"

text \<open>\<open>Executor::getCurrent()->yield()\<close>.\<close>

definition yield_current :: "eptr \<Rightarrow> ('u, 'k) co \<Rightarrow> ('u, 'k) co res" where
  "yield_current cur c = res_bind (yield cur (co_thread c)) (\<lambda>th. Ok (with_thread th c))"

section \<open>Sleeping\<close>

definition sleepInner :: "eptr \<Rightarrow> ms \<Rightarrow> u32 \<Rightarrow> ('u, 'k) co \<Rightarrow> ('u, 'k) co res" where
  "sleepInner fresh now ms c =
     (let (current, th) = getCurrent fresh (co_thread c);
          c = with_thread th c
      in res_bind (registerTimer (Some (new_timer now (ucast ms) (Some (SleepOver current)) False)) (mgr c)) (\<lambda>(_, m).
           yield_current current (with_mgr c m)))"

definition co_sleep :: "eptr \<Rightarrow> ms \<Rightarrow> u32 \<Rightarrow> ('u, 'k) co \<Rightarrow> ('u, 'k) co res" where
  "co_sleep fresh now seconds c = sleepInner fresh now (seconds * 1000) c"

definition co_usleep :: "eptr \<Rightarrow> ms \<Rightarrow> u32 \<Rightarrow> ('u, 'k) co \<Rightarrow> ('u, 'k) co res" where
  "co_usleep fresh now usec c = sleepInner fresh now (usec div 1000) c"

text \<open>C++ division truncates toward zero.\<close>

definition co_nanosleep :: "eptr \<Rightarrow> ms \<Rightarrow> int \<times> int \<Rightarrow> ('u, 'k) co \<Rightarrow> ('u, 'k) co res" where
  "co_nanosleep fresh now req c =
     sleepInner fresh now (word_of_int (fst req * 1000 + sgn (snd req) * (\<bar>snd req\<bar> div 1000 div 1000))) c"

section \<open>Waiting for a descriptor\<close>

text \<open>The loop of \<open>ioInner\<close> from the call to the \<open>yield\<close> or to the end.\<close>

definition ioInner_loop ::
    "'k kernel_api \<Rightarrow> eptr \<Rightarrow> ms \<Rightarrow> nat \<Rightarrow> fd \<Rightarrow> u32 \<Rightarrow> ('k, int) syscall \<Rightarrow> u64 \<Rightarrow> ('u, 'k) co
       \<Rightarrow> ('u io_out \<times> ('u, 'k) co) res" where
  "ioInner_loop api fresh now flag i event_type func time_out_ms c =
     res_bind (invoked func (kern (mgr c))) (\<lambda>(n_bytes, k).
       let c = c\<lparr>mgr := (mgr c)\<lparr>kern := k\<rparr>\<rparr>
       in if n_bytes = Inl EAGAIN
          then let (current, th) = getCurrent fresh (co_thread c);
                   c = (with_thread th c)\<lparr>flags := (flags c)(flag \<mapsto> False)\<rparr>;
                   timer = new_timer now time_out_ms (Some (IoTimeout i event_type flag current)) False
               in res_bind (registerTimer (Some timer) (mgr c)) (\<lambda>(_, m).
                  res_bind (registerEvent api i event_type (Some current) True m) (\<lambda>(_, m).
                  res_bind (yield_current current (with_mgr c m)) (\<lambda>c. Ok (IoWait flag timer, c))))
          else Ok (IoReturn n_bytes, c))"

definition io_timeout_of :: "u32 \<Rightarrow> FdContext \<Rightarrow> u64" where
  "io_timeout_of event_type context =
     (if event_type = Read then readTimeout context
      else if event_type = Write then writeTimeout context else 0)"

definition ioInner ::
    "'k kernel_api \<Rightarrow> eptr \<Rightarrow> ms \<Rightarrow> nat \<Rightarrow> fd \<Rightarrow> u32 \<Rightarrow> ('k, int) syscall \<Rightarrow> ('u, 'k) co
       \<Rightarrow> ('u io_out \<times> ('u, 'k) co) res" where
  "ioInner api fresh now flag i event_type func c =
     res_bind (getContext i (fds c)) (\<lambda>context.
       case context of
         None \<Rightarrow> (case call_sys func c of (r, c) \<Rightarrow> Ok (IoReturn r, c))
       | Some ctx \<Rightarrow>
           if \<not> is_socket ctx \<or> is_user_non_block ctx
           then (case call_sys func c of (r, c) \<Rightarrow> Ok (IoReturn r, c))
           else ioInner_loop api fresh now flag i event_type func (io_timeout_of event_type ctx) c)"

text \<open>
  Behind the \<open>yield\<close>: \<open>flag\<close>, \<open>timer\<close> and \<open>time_out_ms\<close> are the locals of the suspended call,
  \<open>flag'\<close> the cell the next round uses.
\<close>

definition ioInner_resume ::
    "'k kernel_api \<Rightarrow> eptr \<Rightarrow> ms \<Rightarrow> nat \<Rightarrow> nat \<Rightarrow> 'u closure timer \<Rightarrow> fd \<Rightarrow> u32 \<Rightarrow> ('k, int) syscall \<Rightarrow> u64 \<Rightarrow> ('u, 'k) co
       \<Rightarrow> ('u io_out \<times> ('u, 'k) co) res" where
  "ioInner_resume api fresh now flag' flag timer i event_type func time_out_ms c =
     (case flags c flag of
        None \<Rightarrow> Err NullDeref
      | Some True \<Rightarrow> Ok (IoTimedOut, c\<lparr>flags := (flags c)(flag := None)\<rparr>)
      | Some False \<Rightarrow>
          res_bind (cancelTimer (Some timer) (mgr c)) (\<lambda>m.
            ioInner_loop api fresh now flag' i event_type func time_out_ms
              ((with_mgr c m)\<lparr>flags := (flags c)(flag := None)\<rparr>)))"

text \<open>What the coroutine of an expired timer executes.\<close>

definition run_closure :: "'k kernel_api \<Rightarrow> 'u closure \<Rightarrow> ('u, 'k) co \<Rightarrow> ('u, 'k) co res" where
  "run_closure api cl c =
     (case cl of
        UserCallback u \<Rightarrow> Ok c
      | SleepOver current \<Rightarrow> Ok (c\<lparr>mgr := io_addExecutor (Some current) (mgr c)\<rparr>)
      | IoTimeout i event_type flag current \<Rightarrow>
          res_bind
            (if flags c flag = Some False
             then res_bind (removeEvent api i event_type (mgr c)) (\<lambda>m.
                    Ok (c\<lparr>mgr := m, flags := (flags c)(flag \<mapsto> True)\<rparr>))
             else Ok c)
            (\<lambda>c. Ok (c\<lparr>mgr := io_addExecutor (Some current) (mgr c)\<rparr>)))"

section \<open>Sockets\<close>

definition O_NONBLOCK :: int where "O_NONBLOCK = 2048"
definition F_GETFL :: int where "F_GETFL = 3"
definition F_SETFL :: int where "F_SETFL = 4"

text \<open>Common to \<open>co_socket\<close> and \<open>co_accept\<close>: make the descriptor non-blocking and record it.\<close>

definition adopt_socket :: "('k, 'a) sys_table \<Rightarrow> fd \<Rightarrow> ('u, 'k) co \<Rightarrow> ('u, 'k) co res" where
  "adopt_socket st i c =
     (let (fl, c) = call_sys (fcntl_sys st i F_GETFL (Some 0)) c;
          c = (if ret_int fl AND O_NONBLOCK = 0
               then snd (call_sys (fcntl_sys st i F_SETFL (Some (ret_int fl OR O_NONBLOCK))) c) else c)
      in res_bind (setContext i ((FdContext_new True)\<lparr>is_sys_non_block := True\<rparr>) (fds c)) (\<lambda>f. Ok (c\<lparr>fds := f\<rparr>)))"

definition co_socket :: "('k, 'a) sys_table \<Rightarrow> 'a \<Rightarrow> ('u, 'k) co \<Rightarrow> (int sys \<times> ('u, 'k) co) res" where
  "co_socket st args c =
     (case call_sys (socket_sys st args) c of
        (Inl e, c) \<Rightarrow> Ok (Inl e, c)
      | (Inr i, c) \<Rightarrow> if i = - 1 then Ok (Inr i, c) else res_bind (adopt_socket st i c) (\<lambda>c. Ok (Inr i, c)))"

definition co_connect ::
    "'k kernel_api \<Rightarrow> ('k, 'a) sys_table \<Rightarrow> eptr \<Rightarrow> fd \<Rightarrow> 'a \<Rightarrow> ('u, 'k) co \<Rightarrow> ('u io_out \<times> ('u, 'k) co) res" where
  "co_connect api st fresh i args c =
     res_bind (getContext i (fds c)) (\<lambda>context.
       case context of
         None \<Rightarrow> Ok (IoReturn (Inl EBADF), c)
       | Some ctx \<Rightarrow>
           (case call_sys (connect_sys st i args) c of
              (r, c) \<Rightarrow>
                if \<not> is_socket ctx \<or> is_user_non_block ctx then Ok (IoReturn r, c)
                else if r \<noteq> Inl EINPROGRESS then Ok (IoReturn r, c)
                else let (current, th) = getCurrent fresh (co_thread c);
                         c = with_thread th c
                     in res_bind (registerEvent api i Write (Some current) True (mgr c)) (\<lambda>(_, m).
                        res_bind (yield_current current (with_mgr c m)) (\<lambda>c. Ok (ConnectWait, c)))))"

text \<open>
  Behind the \<open>yield\<close>: \<open>getsockopt(SO_ERROR)\<close>, whose outcome enters as the value stored in
  \<open>error\<close>.
\<close>

definition SOL_SOCKET :: int where "SOL_SOCKET = 1"
definition SO_ERROR :: int where "SO_ERROR = 4"

definition connect_resume :: "('k, 'a) sys_table \<Rightarrow> fd \<Rightarrow> ('u, 'k) co \<Rightarrow> int sys \<times> ('u, 'k) co" where
  "connect_resume st i c =
     (case call_sys (getsockopt_sys st i SOL_SOCKET SO_ERROR) c of
        (Inl e, c) \<Rightarrow> (Inl e, c)
      | (Inr err, c) \<Rightarrow> (if err = 0 then Inr 0 else Inl (OtherErrno (nat err)), c))"

text \<open>The tail of \<open>co_accept\<close> once \<open>ioInner\<close> has returned.\<close>

definition accept_done :: "('k, 'a) sys_table \<Rightarrow> 'u io_out \<times> ('u, 'k) co \<Rightarrow> ('u io_out \<times> ('u, 'k) co) res" where
  "accept_done st r =
     (case r of
        (IoReturn (Inr i), c) \<Rightarrow> if i \<ge> 0 then res_bind (adopt_socket st i c) (\<lambda>c. Ok (IoReturn (Inr i), c)) else Ok r
      | _ \<Rightarrow> Ok r)"

definition co_accept ::
    "'k kernel_api \<Rightarrow> ('k, 'a) sys_table \<Rightarrow> eptr \<Rightarrow> ms \<Rightarrow> nat \<Rightarrow> fd \<Rightarrow> 'a \<Rightarrow> ('u, 'k) co \<Rightarrow> ('u io_out \<times> ('u, 'k) co) res" where
  "co_accept api st fresh now flag i args c =
     res_bind (ioInner api fresh now flag i Read (accept_sys st i args) c) (accept_done st)"

text \<open>The calls that are \<open>ioInner\<close> with their direction and system call.\<close>

definition co_read ::
    "'k kernel_api \<Rightarrow> ('k, 'a) sys_table \<Rightarrow> eptr \<Rightarrow> ms \<Rightarrow> nat \<Rightarrow> fd \<Rightarrow> 'a \<Rightarrow> ('u, 'k) co \<Rightarrow> ('u io_out \<times> ('u, 'k) co) res" where
  "co_read api st fresh now flag i args c = ioInner api fresh now flag i Read (read_sys st i args) c"

definition co_readv ::
    "'k kernel_api \<Rightarrow> ('k, 'a) sys_table \<Rightarrow> eptr \<Rightarrow> ms \<Rightarrow> nat \<Rightarrow> fd \<Rightarrow> 'a \<Rightarrow> ('u, 'k) co \<Rightarrow> ('u io_out \<times> ('u, 'k) co) res" where
  "co_readv api st fresh now flag i args c = ioInner api fresh now flag i Read (readv_sys st i args) c"

definition co_recv ::
    "'k kernel_api \<Rightarrow> ('k, 'a) sys_table \<Rightarrow> eptr \<Rightarrow> ms \<Rightarrow> nat \<Rightarrow> fd \<Rightarrow> 'a \<Rightarrow> ('u, 'k) co \<Rightarrow> ('u io_out \<times> ('u, 'k) co) res" where
  "co_recv api st fresh now flag i args c = ioInner api fresh now flag i Read (recv_sys st i args) c"

definition co_recvfrom ::
    "'k kernel_api \<Rightarrow> ('k, 'a) sys_table \<Rightarrow> eptr \<Rightarrow> ms \<Rightarrow> nat \<Rightarrow> fd \<Rightarrow> 'a \<Rightarrow> ('u, 'k) co \<Rightarrow> ('u io_out \<times> ('u, 'k) co) res" where
  "co_recvfrom api st fresh now flag i args c = ioInner api fresh now flag i Read (recvfrom_sys st i args) c"

definition co_recvmsg ::
    "'k kernel_api \<Rightarrow> ('k, 'a) sys_table \<Rightarrow> eptr \<Rightarrow> ms \<Rightarrow> nat \<Rightarrow> fd \<Rightarrow> 'a \<Rightarrow> ('u, 'k) co \<Rightarrow> ('u io_out \<times> ('u, 'k) co) res" where
  "co_recvmsg api st fresh now flag i args c = ioInner api fresh now flag i Read (recvmsg_sys st i args) c"

definition co_write ::
    "'k kernel_api \<Rightarrow> ('k, 'a) sys_table \<Rightarrow> eptr \<Rightarrow> ms \<Rightarrow> nat \<Rightarrow> fd \<Rightarrow> 'a \<Rightarrow> ('u, 'k) co \<Rightarrow> ('u io_out \<times> ('u, 'k) co) res" where
  "co_write api st fresh now flag i args c = ioInner api fresh now flag i Write (write_sys st i args) c"

definition co_writev ::
    "'k kernel_api \<Rightarrow> ('k, 'a) sys_table \<Rightarrow> eptr \<Rightarrow> ms \<Rightarrow> nat \<Rightarrow> fd \<Rightarrow> 'a \<Rightarrow> ('u, 'k) co \<Rightarrow> ('u io_out \<times> ('u, 'k) co) res" where
  "co_writev api st fresh now flag i args c = ioInner api fresh now flag i Write (writev_sys st i args) c"

definition co_send ::
    "'k kernel_api \<Rightarrow> ('k, 'a) sys_table \<Rightarrow> eptr \<Rightarrow> ms \<Rightarrow> nat \<Rightarrow> fd \<Rightarrow> 'a \<Rightarrow> ('u, 'k) co \<Rightarrow> ('u io_out \<times> ('u, 'k) co) res" where
  "co_send api st fresh now flag i args c = ioInner api fresh now flag i Write (send_sys st i args) c"

definition co_sendto ::
    "'k kernel_api \<Rightarrow> ('k, 'a) sys_table \<Rightarrow> eptr \<Rightarrow> ms \<Rightarrow> nat \<Rightarrow> fd \<Rightarrow> 'a \<Rightarrow> ('u, 'k) co \<Rightarrow> ('u io_out \<times> ('u, 'k) co) res" where
  "co_sendto api st fresh now flag i args c = ioInner api fresh now flag i Write (sendto_sys st i args) c"

definition co_sendmsg ::
    "'k kernel_api \<Rightarrow> ('k, 'a) sys_table \<Rightarrow> eptr \<Rightarrow> ms \<Rightarrow> nat \<Rightarrow> fd \<Rightarrow> 'a \<Rightarrow> ('u, 'k) co \<Rightarrow> ('u io_out \<times> ('u, 'k) co) res" where
  "co_sendmsg api st fresh now flag i args c = ioInner api fresh now flag i Write (sendmsg_sys st i args) c"

definition co_close :: "'k kernel_api \<Rightarrow> ('k, 'a) sys_table \<Rightarrow> fd \<Rightarrow> ('u, 'k) co \<Rightarrow> (int sys \<times> ('u, 'k) co) res" where
  "co_close api st i c =
     res_bind (hasFd i (fds c)) (\<lambda>has.
     res_bind
       (if has
        then res_bind (removeEvent api i (Read OR Write) (mgr c)) (\<lambda>m.
             res_bind (delContext i (fds c)) (\<lambda>f. Ok (c\<lparr>mgr := m, fds := f\<rparr>)))
        else Ok c)
       (\<lambda>c. Ok (call_sys (close_sys st i) c)))"

section \<open>Flags and options\<close>

text \<open>\<open>fcntl\<close> commands by what \<open>co_fcntl\<close> does with them.\<close>

datatype fcntl_cmd = SetFl | GetFl | IntArg int | NoArg int | PtrArg int

definition co_fcntl :: "('k, 'a) sys_table \<Rightarrow> fd \<Rightarrow> fcntl_cmd \<Rightarrow> int \<Rightarrow> ('u, 'k) co \<Rightarrow> (int \<times> ('u, 'k) co) res" where
  "co_fcntl st i cmd arg c =
     (let sys = (\<lambda>cmd a c. case call_sys (fcntl_sys st i cmd a) c of (r, c) \<Rightarrow> (ret_int r, c))
      in case cmd of
           SetFl \<Rightarrow>
             res_bind (getContext i (fds c)) (\<lambda>context.
               case context of
                 None \<Rightarrow> Ok (sys F_SETFL (Some arg) c)
               | Some ctx \<Rightarrow>
                   if is_socket ctx then Ok (sys F_SETFL (Some arg) c)
                   else res_bind (updContext i (\<lambda>ctx. ctx\<lparr>is_user_non_block := (arg AND O_NONBLOCK \<noteq> 0),
                                                     is_sys_non_block := True\<rparr>) (fds c)) (\<lambda>f.
                          Ok (sys F_SETFL (Some (arg OR O_NONBLOCK)) (c\<lparr>fds := f\<rparr>))))
         | GetFl \<Rightarrow>
             (case sys F_GETFL None c of
                (raw_result, c) \<Rightarrow>
                  res_bind (getContext i (fds c)) (\<lambda>context.
                    case context of
                      None \<Rightarrow> Ok (raw_result, c)
                    | Some ctx \<Rightarrow>
                        if is_socket ctx then Ok (raw_result, c)
                        else Ok (if is_user_non_block ctx then raw_result OR O_NONBLOCK
                                 else raw_result AND NOT O_NONBLOCK, c)))
         | IntArg n \<Rightarrow> Ok (sys n (Some arg) c)
         | NoArg n \<Rightarrow> Ok (sys n None c)
         | PtrArg n \<Rightarrow> Ok (sys n (Some arg) c))"

definition FIONBIO :: nat where "FIONBIO = 0x5421"

text \<open>\<open>co_ioctl\<close>; \<open>arg\<close> is what the pointer argument points to.\<close>

definition co_ioctl :: "('k, 'a) sys_table \<Rightarrow> fd \<Rightarrow> nat \<Rightarrow> int \<Rightarrow> ('u, 'k) co \<Rightarrow> (int sys \<times> ('u, 'k) co) res" where
  "co_ioctl st d request arg c =
     res_bind
       (if request = FIONBIO
        then res_bind (getContext d (fds c)) (\<lambda>context.
               case context of
                 None \<Rightarrow> Ok c
               | Some ctx \<Rightarrow>
                   if \<not> is_socket ctx then Ok c
                   else res_bind (updContext d (\<lambda>ctx. ctx\<lparr>is_user_non_block := (arg \<noteq> 0)\<rparr>) (fds c)) (\<lambda>f. Ok (c\<lparr>fds := f\<rparr>)))
        else Ok c)
       (\<lambda>c. Ok (call_sys (ioctl_sys st d request arg) c))"

definition co_getsockopt :: "('k, 'a) sys_table \<Rightarrow> fd \<Rightarrow> int \<Rightarrow> int \<Rightarrow> ('u, 'k) co \<Rightarrow> int sys \<times> ('u, 'k) co" where
  "co_getsockopt st i level optname c = call_sys (getsockopt_sys st i level optname) c"

definition SO_RCVTIMEO :: int where "SO_RCVTIMEO = 20"
definition SO_SNDTIMEO :: int where "SO_SNDTIMEO = 21"

text \<open>C++ division truncates toward zero; \<open>optval\<close> is read as a \<open>timeval\<close>.\<close>

definition timeval_ms :: "int \<times> int \<Rightarrow> u64" where
  "timeval_ms v = word_of_int (fst v * 1000 + sgn (snd v) * (\<bar>snd v\<bar> div 1000))"

definition co_setsockopt ::
    "('k, 'a) sys_table \<Rightarrow> fd \<Rightarrow> int \<Rightarrow> int \<Rightarrow> int \<times> int \<Rightarrow> ('u, 'k) co \<Rightarrow> (int sys \<times> ('u, 'k) co) res" where
  "co_setsockopt st i level optname optval c =
     res_bind
       (if level = SOL_SOCKET \<and> (optname = SO_RCVTIMEO \<or> optname = SO_SNDTIMEO)
        then res_bind (getContext i (fds c)) (\<lambda>context.
               case context of
                 None \<Rightarrow> Ok c
               | Some ctx \<Rightarrow>
                   res_bind (updContext i (\<lambda>ctx. if optname = SO_RCVTIMEO then ctx\<lparr>readTimeout := timeval_ms optval\<rparr>
                                                else ctx\<lparr>writeTimeout := timeval_ms optval\<rparr>) (fds c)) (\<lambda>f.
                     Ok (c\<lparr>fds := f\<rparr>)))
        else Ok c)
       (\<lambda>c. Ok (call_sys (setsockopt_sys st i level optname optval) c))"

section \<open>The hooks\<close>

text \<open>
  The symbols the library interposes: the coroutine version when hooking is enabled, else the
  original call. \<open>usleep\<close>, \<open>send\<close>, \<open>fcntl\<close> and \<open>ioctl\<close> do not look at the switch; the last
  two pass their \<open>va_list\<close> on as the variable argument, so what the callee takes
  for the argument is a value \<open>va\<close> found in that list, whatever the caller's argument is.
\<close>

definition sys_direct :: "('k, int) syscall \<Rightarrow> ('u, 'k) co \<Rightarrow> ('u io_out \<times> ('u, 'k) co) res" where
  "sys_direct f c = (case call_sys f c of (r, c) \<Rightarrow> Ok (IoReturn r, c))"

definition hook_sleep :: "bool \<Rightarrow> ('k, 'a) sys_table \<Rightarrow> eptr \<Rightarrow> ms \<Rightarrow> u32 \<Rightarrow> ('u, 'k) co \<Rightarrow> ('u, 'k) co res" where
  "hook_sleep enabled st fresh now seconds c =
     (if \<not> enabled then Ok (snd (call_sys (sleep_sys st seconds) c)) else co_sleep fresh now seconds c)"

definition hook_usleep :: "bool \<Rightarrow> eptr \<Rightarrow> ms \<Rightarrow> u32 \<Rightarrow> ('u, 'k) co \<Rightarrow> ('u, 'k) co res" where
  "hook_usleep enabled fresh now usec c = co_usleep fresh now usec c"

definition hook_nanosleep :: "bool \<Rightarrow> ('k, 'a) sys_table \<Rightarrow> eptr \<Rightarrow> ms \<Rightarrow> int \<times> int \<Rightarrow> ('u, 'k) co \<Rightarrow> ('u, 'k) co res" where
  "hook_nanosleep enabled st fresh now req c =
     (if \<not> enabled then Ok (snd (call_sys (nanosleep_sys st req) c)) else co_nanosleep fresh now req c)"

definition hook_socket :: "bool \<Rightarrow> ('k, 'a) sys_table \<Rightarrow> 'a \<Rightarrow> ('u, 'k) co \<Rightarrow> (int sys \<times> ('u, 'k) co) res" where
  "hook_socket enabled st args c = (if \<not> enabled then Ok (call_sys (socket_sys st args) c) else co_socket st args c)"

definition hook_connect ::
    "bool \<Rightarrow> 'k kernel_api \<Rightarrow> ('k, 'a) sys_table \<Rightarrow> eptr \<Rightarrow> fd \<Rightarrow> 'a \<Rightarrow> ('u, 'k) co \<Rightarrow> ('u io_out \<times> ('u, 'k) co) res" where
  "hook_connect enabled api st fresh i args c =
     (if \<not> enabled then sys_direct (connect_sys st i args) c else co_connect api st fresh i args c)"

definition hook_accept ::
    "bool \<Rightarrow> 'k kernel_api \<Rightarrow> ('k, 'a) sys_table \<Rightarrow> eptr \<Rightarrow> ms \<Rightarrow> nat \<Rightarrow> fd \<Rightarrow> 'a \<Rightarrow> ('u, 'k) co \<Rightarrow> ('u io_out \<times> ('u, 'k) co) res" where
  "hook_accept enabled api st fresh now flag i args c =
     (if \<not> enabled then sys_direct (accept_sys st i args) c else co_accept api st fresh now flag i args c)"

definition hook_read ::
    "bool \<Rightarrow> 'k kernel_api \<Rightarrow> ('k, 'a) sys_table \<Rightarrow> eptr \<Rightarrow> ms \<Rightarrow> nat \<Rightarrow> fd \<Rightarrow> 'a \<Rightarrow> ('u, 'k) co \<Rightarrow> ('u io_out \<times> ('u, 'k) co) res" where
  "hook_read enabled api st fresh now flag i args c =
     (if \<not> enabled then sys_direct (read_sys st i args) c else co_read api st fresh now flag i args c)"

definition hook_readv ::
    "bool \<Rightarrow> 'k kernel_api \<Rightarrow> ('k, 'a) sys_table \<Rightarrow> eptr \<Rightarrow> ms \<Rightarrow> nat \<Rightarrow> fd \<Rightarrow> 'a \<Rightarrow> ('u, 'k) co \<Rightarrow> ('u io_out \<times> ('u, 'k) co) res" where
  "hook_readv enabled api st fresh now flag i args c =
     (if \<not> enabled then sys_direct (readv_sys st i args) c else co_readv api st fresh now flag i args c)"

definition hook_recv ::
    "bool \<Rightarrow> 'k kernel_api \<Rightarrow> ('k, 'a) sys_table \<Rightarrow> eptr \<Rightarrow> ms \<Rightarrow> nat \<Rightarrow> fd \<Rightarrow> 'a \<Rightarrow> ('u, 'k) co \<Rightarrow> ('u io_out \<times> ('u, 'k) co) res" where
  "hook_recv enabled api st fresh now flag i args c =
     (if \<not> enabled then sys_direct (recv_sys st i args) c else co_recv api st fresh now flag i args c)"

definition hook_recvfrom ::
    "bool \<Rightarrow> 'k kernel_api \<Rightarrow> ('k, 'a) sys_table \<Rightarrow> eptr \<Rightarrow> ms \<Rightarrow> nat \<Rightarrow> fd \<Rightarrow> 'a \<Rightarrow> ('u, 'k) co \<Rightarrow> ('u io_out \<times> ('u, 'k) co) res" where
  "hook_recvfrom enabled api st fresh now flag i args c =
     (if \<not> enabled then sys_direct (recvfrom_sys st i args) c else co_recvfrom api st fresh now flag i args c)"

definition hook_recvmsg ::
    "bool \<Rightarrow> 'k kernel_api \<Rightarrow> ('k, 'a) sys_table \<Rightarrow> eptr \<Rightarrow> ms \<Rightarrow> nat \<Rightarrow> fd \<Rightarrow> 'a \<Rightarrow> ('u, 'k) co \<Rightarrow> ('u io_out \<times> ('u, 'k) co) res" where
  "hook_recvmsg enabled api st fresh now flag i args c =
     (if \<not> enabled then sys_direct (recvmsg_sys st i args) c else co_recvmsg api st fresh now flag i args c)"

definition hook_write ::
    "bool \<Rightarrow> 'k kernel_api \<Rightarrow> ('k, 'a) sys_table \<Rightarrow> eptr \<Rightarrow> ms \<Rightarrow> nat \<Rightarrow> fd \<Rightarrow> 'a \<Rightarrow> ('u, 'k) co \<Rightarrow> ('u io_out \<times> ('u, 'k) co) res" where
  "hook_write enabled api st fresh now flag i args c =
     (if \<not> enabled then sys_direct (write_sys st i args) c else co_write api st fresh now flag i args c)"

definition hook_writev ::
    "bool \<Rightarrow> 'k kernel_api \<Rightarrow> ('k, 'a) sys_table \<Rightarrow> eptr \<Rightarrow> ms \<Rightarrow> nat \<Rightarrow> fd \<Rightarrow> 'a \<Rightarrow> ('u, 'k) co \<Rightarrow> ('u io_out \<times> ('u, 'k) co) res" where
  "hook_writev enabled api st fresh now flag i args c =
     (if \<not> enabled then sys_direct (writev_sys st i args) c else co_writev api st fresh now flag i args c)"

definition hook_send ::
    "bool \<Rightarrow> 'k kernel_api \<Rightarrow> ('k, 'a) sys_table \<Rightarrow> eptr \<Rightarrow> ms \<Rightarrow> nat \<Rightarrow> fd \<Rightarrow> 'a \<Rightarrow> ('u, 'k) co \<Rightarrow> ('u io_out \<times> ('u, 'k) co) res" where
  "hook_send enabled api st fresh now flag i args c =
     co_send api st fresh now flag i args c"

definition hook_sendto ::
    "bool \<Rightarrow> 'k kernel_api \<Rightarrow> ('k, 'a) sys_table \<Rightarrow> eptr \<Rightarrow> ms \<Rightarrow> nat \<Rightarrow> fd \<Rightarrow> 'a \<Rightarrow> ('u, 'k) co \<Rightarrow> ('u io_out \<times> ('u, 'k) co) res" where
  "hook_sendto enabled api st fresh now flag i args c =
     (if \<not> enabled then sys_direct (sendto_sys st i args) c else co_sendto api st fresh now flag i args c)"

definition hook_sendmsg ::
    "bool \<Rightarrow> 'k kernel_api \<Rightarrow> ('k, 'a) sys_table \<Rightarrow> eptr \<Rightarrow> ms \<Rightarrow> nat \<Rightarrow> fd \<Rightarrow> 'a \<Rightarrow> ('u, 'k) co \<Rightarrow> ('u io_out \<times> ('u, 'k) co) res" where
  "hook_sendmsg enabled api st fresh now flag i args c =
     (if \<not> enabled then sys_direct (sendmsg_sys st i args) c else co_sendmsg api st fresh now flag i args c)"

definition hook_close :: "bool \<Rightarrow> 'k kernel_api \<Rightarrow> ('k, 'a) sys_table \<Rightarrow> fd \<Rightarrow> ('u, 'k) co \<Rightarrow> (int sys \<times> ('u, 'k) co) res" where
  "hook_close enabled api st i c = (if \<not> enabled then Ok (call_sys (close_sys st i) c) else co_close api st i c)"

definition hook_fcntl :: "bool \<Rightarrow> ('k, 'a) sys_table \<Rightarrow> int \<Rightarrow> fd \<Rightarrow> fcntl_cmd \<Rightarrow> int \<Rightarrow> ('u, 'k) co \<Rightarrow> (int \<times> ('u, 'k) co) res" where
  "hook_fcntl enabled st va i cmd arg c = co_fcntl st i cmd va c"

definition hook_ioctl :: "bool \<Rightarrow> ('k, 'a) sys_table \<Rightarrow> int \<Rightarrow> fd \<Rightarrow> nat \<Rightarrow> int \<Rightarrow> ('u, 'k) co \<Rightarrow> (int sys \<times> ('u, 'k) co) res" where
  "hook_ioctl enabled st va d request arg c = co_ioctl st d request va c"

definition hook_getsockopt :: "bool \<Rightarrow> ('k, 'a) sys_table \<Rightarrow> fd \<Rightarrow> int \<Rightarrow> int \<Rightarrow> ('u, 'k) co \<Rightarrow> int sys \<times> ('u, 'k) co" where
  "hook_getsockopt enabled st i level optname c =
     (if \<not> enabled then call_sys (getsockopt_sys st i level optname) c else co_getsockopt st i level optname c)"

definition hook_setsockopt ::
    "bool \<Rightarrow> ('k, 'a) sys_table \<Rightarrow> fd \<Rightarrow> int \<Rightarrow> int \<Rightarrow> int \<times> int \<Rightarrow> ('u, 'k) co \<Rightarrow> (int sys \<times> ('u, 'k) co) res" where
  "hook_setsockopt enabled st i level optname optval c =
     (if \<not> enabled then Ok (call_sys (setsockopt_sys st i level optname optval) c)
      else co_setsockopt st i level optname optval c)"

section \<open>Properties\<close>

lemmas co_state_defs = with_mgr_def co_thread_def with_thread_def call_sys_def

lemma registerTimer_Ok:
  "\<not> io_stopped m \<Longrightarrow> callback t \<noteq> None \<Longrightarrow>
     registerTimer (Some t) m = Ok (True, m\<lparr>timer_manager := ms_insert t (timer_manager m)\<rparr>)"
  by (auto simp: registerTimer_def addTimer_def)

lemma getCurrent_running: "coop_ok S th \<Longrightarrow> getCurrent fresh th = (running th, th)"
  using coop_okD(2) [of S th] by (simp add: getCurrent_def)

text \<open>A coroutine is on the CPU, under the main executor \<open>S\<close>.\<close>

definition in_coroutine :: "eptr \<Rightarrow> ('u, 'k) co \<Rightarrow> bool" where
  "in_coroutine S c \<longleftrightarrow> coop_ok S (co_thread c) \<and> running (co_thread c) \<noteq> S"

text \<open>A coroutine \<open>p\<close> has given control back to \<open>S\<close> and waits.\<close>

definition suspended_in :: "eptr \<Rightarrow> eptr \<Rightarrow> ('u, 'k) co \<Rightarrow> bool" where
  "suspended_in S p c \<longleftrightarrow> coop_ok S (co_thread c) \<and> running (co_thread c) = S
     \<and> (\<exists>e. heap (co_thread c) p = Some e \<and> ex_state e = HoldUp)"

lemma yield_current_thread: "yield_current p c = Ok (with_thread th c) \<Longrightarrow> yield p (co_thread c) = Ok th"
proof -
  assume "yield_current p c = Ok (with_thread th c)"
  then obtain x where x: "yield p (co_thread c) = Ok x" "with_thread x c = with_thread th c" by (auto simp: yield_current_def)
  have "co_thread (with_thread y c) = y" for y by (simp add: co_thread_def with_thread_def)
  then have "x = th" using x(2) by metis
  then show ?thesis using x(1) by simp
qed

lemma yield_current_suspends:
  assumes "in_coroutine S c" and "co_thread c' = co_thread c"
  shows "\<exists>th. yield_current (running (co_thread c)) c' = Ok (with_thread th c')
     \<and> suspended_in S (running (co_thread c)) (with_thread th c')"
  using yield_back [of S "co_thread c"] assms
  by (fastforce simp: in_coroutine_def suspended_in_def yield_current_def co_thread_def with_thread_def)

definition wait_timer :: "ms \<Rightarrow> u32 \<Rightarrow> FdContext \<Rightarrow> fd \<Rightarrow> nat \<Rightarrow> eptr \<Rightarrow> 'u closure timer" where
  "wait_timer now type ctx i flag p = new_timer now (io_timeout_of type ctx) (Some (IoTimeout i type flag p)) False"

text \<open>A coroutine with a managed socket, for the witnesses.\<close>

lemma some_coroutine: "\<exists>th :: 'cb thread. coop_ok 0 th \<and> running th = 1"
proof -
  fix cb :: 'cb
  let ?t0 = "snd (getCurrent 0 (fresh_thread 0)) :: 'cb thread"
  have h: "heap ?t0 1 = None" "running ?t0 = 0" by (simp_all add: demo_defs Let_def)
  obtain th where th: "Executor_callback 1 (Some cb) 0 ?t0 = Ok th" "coop_ok 0 th"
    using new_executor [OF coop_ok_fresh h(1), of "Some cb" 0] by auto
  then obtain e where "heap th 1 = Some e" "ex_is_call_back_type e" "ex_state e = Init" "running th = 0"
    using h(2) by (auto simp: Executor_callback_def idGenerate_def createUpdateData_def Let_def)
  then show ?thesis using exec_first [OF th(2)] by fastforce
qed

lemma demo_co:
  "\<exists>c :: (unit, fd \<Rightarrow> u32 option) co. in_coroutine 0 c \<and> running (co_thread c) = 1 \<and> watch_ok (\<lambda>k. k) (mgr c)
     \<and> \<not> io_stopped (mgr c) \<and> wakeup_pipe_fd (mgr c) = (4, 5) \<and> kern (mgr c) = [4 \<mapsto> EPOLLIN OR EPOLLOUT]
     \<and> getContext 7 (fds c) = Ok (Some (FdContext_new True)) \<and> \<not> stopping (io_sch (mgr c)) \<and> timer_manager (mgr c) = []"
proof -
  obtain th :: "unit closure thread" where th: "coop_ok 0 th" "running th = 1" using some_coroutine by blast
  let ?s = "\<lparr>stopping = False, stopped = False, exit_with_tasks_processed = True, ready_executors = [],
    scheduler_executor = None, remote_tasks = []\<rparr>"
  let ?c = "\<lparr>mgr = \<lparr>io_stopped = False, epoll_fd = 3, wakeup_pipe_fd = (4, 5), io_world = \<lparr>thr = th, sch = ?s\<rparr>,
      timer_manager = [], fd_events = [], kern = [4 \<mapsto> EPOLLIN OR EPOLLOUT]\<rparr>,
    fds = replicate 7 None @ [Some (FdContext_new True)], flags = (\<lambda>_. None)\<rparr> :: (unit, fd \<Rightarrow> u32 option) co"
  have "getContext 7 (fds ?c) = Ok (Some (FdContext_new True))" by (simp add: getContext_def vec_get_def nth_append)
  moreover have "watch_ok (\<lambda>k. k) (mgr ?c)" by (auto simp: watch_ok_def watched_def)
  ultimately show ?thesis using th by (intro exI [of _ ?c]) (simp add: in_coroutine_def co_thread_def io_sch_def)
qed

lemma ioInner_waits:
  fixes c :: "('u, 'k) co"
  assumes api: "epoll_ctl_ok api interest usable" and ok: "watch_ok interest (mgr c)" and "\<not> io_stopped (mgr c)"
    and i: "2 \<le> i" "i \<noteq> fst (wakeup_pipe_fd (mgr c))" "i \<in> usable"
    and ctx: "getContext i (fds c) = Ok (Some ctx)" "is_socket ctx" "\<not> is_user_non_block ctx"
    and call: "func (kern (mgr c)) = (Inl EAGAIN, k)" "interest k = interest (kern (mgr c))"
    and ty: "type = Read \<or> type = Write" and co: "in_coroutine S c"
  shows "\<exists>c'. ioInner api fresh now flag i type func c
      = Ok (IoWait flag (wait_timer now type ctx i flag (running (co_thread c))), c')
     \<and> hasEvent i type (mgr c') = Ok True \<and> side_executor type (events_at (mgr c') i) = Some (running (co_thread c))
     \<and> timer_manager (mgr c') = ms_insert (wait_timer now type ctx i flag (running (co_thread c))) (timer_manager (mgr c))
     \<and> flags c' flag = Some False \<and> suspended_in S (running (co_thread c)) c' \<and> watch_ok interest (mgr c')
     \<and> i < int (length (fd_events (mgr c'))) \<and> wakeup_pipe_fd (mgr c') = wakeup_pipe_fd (mgr c)
     \<and> read_call_once (events_at (mgr c') i) = (type = Read \<or> read_call_once (events_at (mgr c) i))
     \<and> write_call_once (events_at (mgr c') i) = (type = Write \<or> write_call_once (events_at (mgr c) i))
     \<and> (\<exists>th. yield (running (co_thread c)) (co_thread c) = Ok th \<and> io_world (mgr c') = (io_world (mgr c))\<lparr>thr := th\<rparr>)"
proof -
  let ?p = "running (co_thread c)" and ?t = "wait_timer now type ctx i flag (running (co_thread c)) :: 'u closure timer"
  let ?m = "(mgr c)\<lparr>kern := k, timer_manager := ms_insert ?t (timer_manager (mgr c))\<rparr>"
  have "watch_ok interest ?m" using ok call(2) by (subst watch_ok_cong [of _ "mgr c"]) simp_all
  moreover have "\<not> io_stopped ?m" "0 \<le> i" "i \<noteq> fst (wakeup_pipe_fd ?m)" using assms(3) i by simp_all
  ultimately obtain m' where m': "registerEvent api i type (Some ?p) True ?m = Ok (True, m')" "watch_ok interest m'"
    "io_world m' = io_world (mgr c)" "timer_manager m' = timer_manager ?m"
    "events_at m' i = (set_side type (Some ?p) True (events_at ?m i))\<lparr>registered_events := registered_events (events_at ?m i) OR type\<rparr>"
    "wakeup_pipe_fd m' = wakeup_pipe_fd (mgr c)" "i < int (length (fd_events m'))"
    using registerEvent_events [OF api, of ?m i type "Some ?p" True] i(1,3) ty by auto
  have r: "registered_events (events_at (mgr c) i) \<in> {0, 1, 4, 5}" "events_at ?m i = events_at (mgr c) i"
    using ok i(1,2) by (auto simp: watch_ok_alt watched_def intro: events_at_cong)
  let ?c = "c\<lparr>flags := (flags c)(flag \<mapsto> False), mgr := m'\<rparr>"
  have th: "co_thread ?c = co_thread c" using m'(3) by (simp add: co_thread_def)
  obtain th where y: "yield_current ?p ?c = Ok (with_thread th ?c)" "suspended_in S ?p (with_thread th ?c)"
    using yield_current_suspends [OF co th] by blast
  have "invoked func (kern (mgr c)) = Ok (Inl EAGAIN, k)" using call(1) by (simp add: invoked_done)
  moreover have "registerTimer (Some ?t) ((mgr c)\<lparr>kern := k\<rparr>) = Ok (True, ?m)"
    using assms(3) by (simp add: registerTimer_Ok wait_timer_def new_timer_def)
  moreover have "getCurrent fresh (co_thread c) = (?p, co_thread c)" using co getCurrent_running by (auto simp: in_coroutine_def)
  ultimately have "ioInner api fresh now flag i type func c = Ok (IoWait flag ?t, with_thread th ?c)"
    using ctx m'(1) y(1)
    by (simp add: ioInner_def ioInner_loop_def Let_def co_state_defs wait_timer_def)
  moreover have "hasEvent i type m' = Ok True" "side_executor type (events_at m' i) = Some ?p"
    using m'(5) r i(1) ty by (auto simp: hasEvent_eq set_side_def side_executor_def Read_def Write_def epoll_bits)
  moreover have e: "events_at (mgr (with_thread th ?c)) i = events_at m' i" by (rule events_at_cong) (simp add: with_thread_def)
  moreover have "read_call_once (events_at m' i) = (type = Read \<or> read_call_once (events_at (mgr c) i))"
    "write_call_once (events_at m' i) = (type = Write \<or> write_call_once (events_at (mgr c) i))"
    using m'(5) r(2) ty by (auto simp: set_side_def Read_def Write_def epoll_bits)
  moreover have "yield ?p (co_thread c) = Ok th" using yield_current_thread [OF y(1)] th by simp
  ultimately show ?thesis
    using y(2) m'(2,3,4,6,7) watch_ok_cong [of "mgr (with_thread th ?c)" m' interest]
    by (auto simp: with_thread_def hasEvent_def)
qed

text \<open>
  A blocking call on a managed socket suspends only its coroutine. When the call would block,
  the event is registered for the running coroutine, a timer with the socket's timeout is armed,
  the coroutine is held up with a live context, and control is back at the scheduler.
\<close>

theorem blocking_call_waits:
  fixes c :: "('u, 'k) co"
  assumes api: "epoll_ctl_ok api interest usable" and ok: "watch_ok interest (mgr c)" and "\<not> io_stopped (mgr c)"
    and i: "2 \<le> i" "i \<noteq> fst (wakeup_pipe_fd (mgr c))" "i \<in> usable"
    and ctx: "getContext i (fds c) = Ok (Some ctx)" "is_socket ctx" "\<not> is_user_non_block ctx"
    and call: "func (kern (mgr c)) = (Inl EAGAIN, k)" "interest k = interest (kern (mgr c))"
    and ty: "type = Read \<or> type = Write" and co: "in_coroutine S c"
  shows "\<exists>c'. ioInner api fresh now flag i type func c
      = Ok (IoWait flag (wait_timer now type ctx i flag (running (co_thread c))), c')
     \<and> hasEvent i type (mgr c') = Ok True \<and> side_executor type (events_at (mgr c') i) = Some (running (co_thread c))
     \<and> timer_manager (mgr c') = ms_insert (wait_timer now type ctx i flag (running (co_thread c))) (timer_manager (mgr c))
     \<and> flags c' flag = Some False \<and> suspended_in S (running (co_thread c)) c' \<and> watch_ok interest (mgr c')"
  using ioInner_waits [where c = c and func = func and k = k, OF assms] by blast

theorem blocking_call_waits_witness:
  "\<exists>c c' :: (unit, fd \<Rightarrow> u32 option) co. \<exists>t. in_coroutine 0 c
     \<and> ioInner demo_api 9 100 0 7 Read (\<lambda>k. (Inl EAGAIN, k)) c = Ok (IoWait 0 t, c')
     \<and> hasEvent 7 Read (mgr c') = Ok True \<and> suspended_in 0 1 c'"
proof -
  obtain c :: "(unit, fd \<Rightarrow> u32 option) co" where c: "in_coroutine 0 c" "running (co_thread c) = 1" "watch_ok (\<lambda>k. k) (mgr c)"
    "\<not> io_stopped (mgr c)" "wakeup_pipe_fd (mgr c) = (4, 5)" "getContext 7 (fds c) = Ok (Some (FdContext_new True))"
    using demo_co by blast
  have "is_socket (FdContext_new True)" "\<not> is_user_non_block (FdContext_new True)"
    by (simp_all add: FdContext_new_def FdContext_default_def)
  from blocking_call_waits [OF demo_api_ok c(3,4) _ _ _ c(6) this, where func = "\<lambda>k. (Inl EAGAIN, k)" and k = "kern (mgr c)"
      and type = Read and S = 0 and fresh = 9 and now = 100 and flag = 0] c(1,2,5)
  show ?thesis by auto
qed

lemma ioInner_unwatched:
  assumes api: "epoll_ctl_ok api interest usable" and "\<not> io_stopped (mgr c)"
    and i: "0 \<le> i" "i < int (length (fd_events (mgr c)))" and r: "registered_events (events_at (mgr c) i) \<noteq> 0"
    and call: "func (kern (mgr c)) = (Inl EAGAIN, k)" "interest k i = None" and ty: "type = Read \<or> type = Write"
    and ctx: "getContext i (fds c) = Ok (Some ctx)" "is_socket ctx" "\<not> is_user_non_block ctx"
  shows "ioInner api fresh now flag i type func c = Err AssertFailed"
proof -
  obtain p th where g: "getCurrent fresh (thr (io_world (mgr c))) = (p, th)" by fastforce
  let ?t = "new_timer now (io_timeout_of type ctx) (Some (IoTimeout i type flag p)) False"
  let ?m = "(mgr c)\<lparr>kern := k, io_world := (io_world (mgr c))\<lparr>thr := th\<rparr>, timer_manager := ms_insert ?t (timer_manager (mgr c))\<rparr>"
  have "invoked func (kern (mgr c)) = Ok (Inl EAGAIN, k)" using call(1) by (simp add: invoked_done)
  moreover have "events_at ?m i = events_at (mgr c) i" by (rule events_at_cong) simp
  then have "registerEvent api i type (Some p) True ?m = Err AssertFailed"
    using assms(2) i r call(2) ty by (intro registerEvent_unwatched [OF api]) simp_all
  ultimately show ?thesis
    using ctx g assms(2) by (simp add: ioInner_def ioInner_loop_def Let_def co_state_defs registerTimer_Ok new_timer_def)
qed

text \<open>
  C21. A timeout is reported once and then fatal. When the timer of a waiting call fires first, the
  coroutine is enqueued and its call returns \<open>-1\<close>; but the descriptor's registration is left
  behind, and the next call on that socket that has to wait, in either direction, fails the
  assertion in \<open>epollMod\<close> and ends the program.
\<close>

theorem timed_out_socket_is_poisoned:
  assumes api: "epoll_ctl_ok api interest usable" and ok: "watch_ok interest (mgr c)" and "\<not> io_stopped (mgr c)"
    and i: "0 \<le> i" "i < int (length (fd_events (mgr c)))" "i \<noteq> fst (wakeup_pipe_fd (mgr c))"
    and ty: "type = Read \<or> type = Write" "hasEvent i type (mgr c) = Ok True" and "flags c flag = Some False"
    and "\<not> stopping (io_sch (mgr c))"
    and ctx: "getContext i (fds c) = Ok (Some ctx)" "is_socket ctx" "\<not> is_user_non_block ctx"
  shows "\<exists>c1 c2. run_closure api (IoTimeout i type flag p) c = Ok c1
     \<and> ready_executors (io_sch (mgr c1)) = ready_executors (io_sch (mgr c)) @ [Some p]
     \<and> ioInner_resume api fresh now flag' flag t i type func ms c1 = Ok (IoTimedOut, c2)
     \<and> (\<forall>ty2 func2 k2. ty2 = Read \<or> ty2 = Write \<longrightarrow> func2 (kern (mgr c2)) = (Inl EAGAIN, k2)
          \<longrightarrow> interest k2 = interest (kern (mgr c2)) \<longrightarrow> ioInner api fresh now flag' i ty2 func2 c2 = Err AssertFailed)"
proof -
  obtain m' where m': "removeEvent api i type (mgr c) = Ok m'" "interest (kern m') i = None" "\<not> io_stopped m'"
    "events_at m' i = (events_at (mgr c) i)\<lparr>read_executor := None, write_executor := None\<rparr>"
    "length (fd_events m') = length (fd_events (mgr c))" "io_world m' = io_world (mgr c)"
    using removeEvent_drops [OF api ok i ty] assms(3) by auto
  let ?m = "io_addExecutor (Some p) m'"
  let ?c1 = "c\<lparr>mgr := ?m, flags := (flags c)(flag \<mapsto> True)\<rparr>" and ?c2 = "c\<lparr>mgr := ?m, flags := (flags c)(flag := None)\<rparr>"
  have 1: "run_closure api (IoTimeout i type flag p) c = Ok ?c1" using m'(1) assms(9) by (simp add: run_closure_def)
  have 2: "ioInner_resume api fresh now flag' flag t i type func ms ?c1 = Ok (IoTimedOut, ?c2)" by (simp add: ioInner_resume_def)
  have q: "ready_executors (io_sch ?m) = ready_executors (io_sch (mgr c)) @ [Some p]"
    using m'(6) assms(10) by (simp add: io_addExecutor_def addExecutor_def ready_push_def io_sch_def)
  have r: "registered_events (events_at m' i) \<noteq> 0" using m'(4) ty(2) i(1) by (auto simp: hasEvent_eq)
  have 3: "ioInner api fresh now flag' i ty2 func2 ?c2 = Err AssertFailed"
    if "ty2 = Read \<or> ty2 = Write" "func2 (kern ?m) = (Inl EAGAIN, k2)" "interest k2 = interest (kern ?m)" for ty2 func2 k2
    using that m'(2,3,5) r i(1,2) ctx
    by (intro ioInner_unwatched [OF api, where k = k2 and ctx = ctx]) (simp_all add: io_addExecutor_def)
  show ?thesis using 1 2 3 q by fastforce
qed

theorem timed_out_socket_is_poisoned_witness:
  "\<exists>c c1 c2 :: (unit, fd \<Rightarrow> u32 option) co. hasEvent 7 Read (mgr c) = Ok True \<and> run_closure demo_api (IoTimeout 7 Read 0 1) c = Ok c1
     \<and> ioInner_resume demo_api 9 100 1 0 (timer_at 0) 7 Read (\<lambda>k. (Inl EAGAIN, k)) 0 c1 = Ok (IoTimedOut, c2)
     \<and> ioInner demo_api 9 100 1 7 Write (\<lambda>k. (Inl EAGAIN, k)) c2 = Err AssertFailed"
proof -
  obtain c0 :: "(unit, fd \<Rightarrow> u32 option) co" where c: "watch_ok (\<lambda>k. k) (mgr c0)" "\<not> io_stopped (mgr c0)"
    "wakeup_pipe_fd (mgr c0) = (4, 5)" "getContext 7 (fds c0) = Ok (Some (FdContext_new True))" "\<not> stopping (io_sch (mgr c0))"
    using demo_co by blast
  obtain m where m: "watch_ok (\<lambda>k. k) m" "wakeup_pipe_fd m = (4, 5)" "\<not> io_stopped m" "io_world m = io_world (mgr c0)"
    "7 < int (length (fd_events m))" "events_at m 7 = (set_side Read (Some 1) True (events_at (mgr c0) 7))\<lparr>registered_events :=
      registered_events (events_at (mgr c0) 7) OR Read\<rparr>"
    using registerEvent_events [OF demo_api_ok c(1,2), of 7 Read "Some 1" True] c(3) by auto
  have "registered_events (events_at (mgr c0) 7) \<in> {0, 1, 4, 5}" using c(1,3) by (auto simp: watch_ok_alt watched_def)
  then have h: "hasEvent 7 Read m = Ok True" using m(6) by (auto simp: hasEvent_eq Read_def EPOLLIN_def)
  let ?c = "c0\<lparr>mgr := m, flags := [0 \<mapsto> False]\<rparr>"
  have f: "is_socket (FdContext_new True)" "\<not> is_user_non_block (FdContext_new True)"
    by (simp_all add: FdContext_new_def FdContext_default_def)
  have s: "watch_ok (\<lambda>k. k) (mgr ?c)" "\<not> io_stopped (mgr ?c)" "7 < int (length (fd_events (mgr ?c)))"
    "7 \<noteq> fst (wakeup_pipe_fd (mgr ?c))" "hasEvent 7 Read (mgr ?c) = Ok True" "flags ?c 0 = Some False"
    "\<not> stopping (io_sch (mgr ?c))" "getContext 7 (fds ?c) = Ok (Some (FdContext_new True))"
    using m h c(4,5) by (simp_all add: io_sch_def)
  obtain c1 c2 where "run_closure demo_api (IoTimeout 7 Read 0 1) ?c = Ok c1"
    "ioInner_resume demo_api 9 100 1 0 (timer_at 0) 7 Read (\<lambda>k. (Inl EAGAIN, k)) 0 c1 = Ok (IoTimedOut, c2)"
    and w: "\<forall>ty2 func2 k2. ty2 = Read \<or> ty2 = Write \<longrightarrow> func2 (kern (mgr c2)) = (Inl EAGAIN, k2)
      \<longrightarrow> k2 = kern (mgr c2) \<longrightarrow> ioInner demo_api 9 100 1 7 ty2 func2 c2 = Err AssertFailed"
    using timed_out_socket_is_poisoned [OF demo_api_ok s(1,2) _ s(3,4) _ s(5-8) f,
        of 1 9 100 1 "timer_at 0" "\<lambda>k. (Inl EAGAIN, k)" 0] by auto
  moreover have "ioInner demo_api 9 100 1 7 Write (\<lambda>k. (Inl EAGAIN, k)) c2 = Err AssertFailed" using w by simp
  ultimately show ?thesis using s(5) by blast
qed

lemma ioInner_resume_returns:
  assumes "timers_ok (timer_manager (mgr c))" and "flags c flag = Some False"
    and "func (kern (mgr c)) = (r, k)" and "r \<noteq> Inl EAGAIN" and "r \<noteq> Inl EINTR"
  shows "if target_timestamp t \<in> target_timestamp ` set (timer_manager (mgr c))
     then \<exists>c' x. ioInner_resume api fresh now flag' flag t i type func ms c = Ok (IoReturn r, c') \<and> kern (mgr c') = k
            \<and> flags c' flag = None \<and> target_timestamp x = target_timestamp t
            \<and> mset (timer_manager (mgr c)) = add_mset x (mset (timer_manager (mgr c')))
     else ioInner_resume api fresh now flag' flag t i type func ms c = Err EraseEnd"
proof (cases "ms_find t (timer_manager (mgr c))")
  case None
  then show ?thesis
    using ms_find_Some_iff [OF assms(1), of t] assms(2) by (simp add: ioInner_resume_def cancelTimer_def removeTimer_def)
next
  case (Some j)
  have "target_timestamp t \<in> target_timestamp ` set (timer_manager (mgr c))"
    using ms_find_Some_iff [OF assms(1), of t] Some by simp
  moreover have "\<exists>c'. ioInner_resume api fresh now flag' flag t i type func ms c = Ok (IoReturn r, c') \<and> kern (mgr c') = k
      \<and> flags c' flag = None \<and> timer_manager (mgr c') = list_erase j (timer_manager (mgr c))"
    using Some assms(2-5)
    by (simp add: ioInner_resume_def cancelTimer_def removeTimer_def ioInner_loop_def invoked_done with_mgr_def)
  ultimately show ?thesis using ms_find_sound [OF Some] mset_list_erase [of j "timer_manager (mgr c)"] by auto
qed

text \<open>
  A call whose event arrives in time. When the waiting coroutine is resumed and its timer is still
  in the set, one timer with that deadline is removed and the outcome of the retried call is
  returned; when the set holds no timer with that deadline any more (the timer expired in the
  same round, or another coroutine with the same deadline cancelled it) the call erases the end
  iterator.
\<close>

theorem resumed_call_completes:
  assumes "timers_ok (timer_manager (mgr c))" and "flags c flag = Some False"
    and "func (kern (mgr c)) = (r, k)" and "r \<noteq> Inl EAGAIN" and "r \<noteq> Inl EINTR"
  shows "if target_timestamp t \<in> target_timestamp ` set (timer_manager (mgr c))
     then \<exists>c' x. ioInner_resume api fresh now flag' flag t i type func ms c = Ok (IoReturn r, c') \<and> kern (mgr c') = k
            \<and> flags c' flag = None \<and> target_timestamp x = target_timestamp t
            \<and> mset (timer_manager (mgr c)) = add_mset x (mset (timer_manager (mgr c')))
     else ioInner_resume api fresh now flag' flag t i type func ms c = Err EraseEnd"
  using assms by (rule ioInner_resume_returns)

theorem resumed_call_completes_witness:
  "\<exists>c c' :: (unit, fd \<Rightarrow> u32 option) co. timer_manager (mgr c) = [timer_at 5]
     \<and> ioInner_resume demo_api 9 100 2 0 (timer_at 5) 7 Read (\<lambda>k. (Inr 3, k)) 0 c = Ok (IoReturn (Inr 3), c')
     \<and> timer_manager (mgr c') = []"
proof -
  obtain c0 :: "(unit, fd \<Rightarrow> u32 option) co" where "timer_manager (mgr c0) = []" using demo_co by blast
  let ?c = "c0\<lparr>mgr := (mgr c0)\<lparr>timer_manager := [timer_at 5]\<rparr>, flags := [0 \<mapsto> False]\<rparr>"
  have "timers_ok (timer_manager (mgr ?c))" by simp
  from resumed_call_completes [OF this, of 0 "\<lambda>k. (Inr 3, k)" "Inr 3" "kern (mgr c0)" "timer_at 5" demo_api 9 100 2 7 Read 0]
  obtain c' where "ioInner_resume demo_api 9 100 2 0 (timer_at 5) 7 Read (\<lambda>k. (Inr 3, k)) 0 ?c = Ok (IoReturn (Inr 3), c')"
    "timer_manager (mgr c') = []" by auto
  moreover have "timer_manager (mgr ?c) = [timer_at 5]" by simp
  ultimately show ?thesis by blast
qed

lemma co_sleep_suspends:
  fixes c :: "('u, 'k) co"
  defines "t p now seconds \<equiv> new_timer now (word_of_nat (unat (seconds :: u32) * 1000 mod 2 ^ 32)) (Some (SleepOver p)) False"
  assumes "in_coroutine S c"
  shows "\<exists>th. yield (running (co_thread c)) (co_thread c) = Ok th
     \<and> (let c' = with_thread th (c\<lparr>mgr := if io_stopped (mgr c) then mgr c
            else (mgr c)\<lparr>timer_manager := ms_insert (t (running (co_thread c)) now seconds) (timer_manager (mgr c))\<rparr>\<rparr>)
        in co_sleep fresh now seconds c = Ok c' \<and> suspended_in S (running (co_thread c)) c')"
proof -
  let ?p = "running (co_thread c)"
  have g: "getCurrent fresh (co_thread c) = (?p, co_thread c)" using assms(2) getCurrent_running by (auto simp: in_coroutine_def)
  have "unat (seconds * 1000) = unat seconds * 1000 mod 2 ^ 32" by (simp add: unat_word_ariths)
  moreover have "ucast x = (word_of_nat (unat x) :: u64)" for x :: u32 by simp
  ultimately have ms: "ucast (seconds * 1000) = (word_of_nat (unat seconds * 1000 mod 2 ^ 32) :: u64)" by metis
  let ?m = "if io_stopped (mgr c) then mgr c else (mgr c)\<lparr>timer_manager := ms_insert (t ?p now seconds) (timer_manager (mgr c))\<rparr>"
  have r: "registerTimer (Some (t ?p now seconds)) (mgr c) = Ok (\<not> io_stopped (mgr c), ?m)"
    by (cases "io_stopped (mgr c)") (auto simp: registerTimer_def addTimer_def new_timer_def t_def)
  have m: "co_thread (c\<lparr>mgr := ?m\<rparr>) = co_thread c" by (simp add: co_thread_def)
  from yield_current_suspends [OF assms(2) this] obtain th where
    y: "yield_current ?p (c\<lparr>mgr := ?m\<rparr>) = Ok (with_thread th (c\<lparr>mgr := ?m\<rparr>))" "suspended_in S ?p (with_thread th (c\<lparr>mgr := ?m\<rparr>))"
    by blast
  have w: "with_thread (co_thread c) c = c" by (simp add: with_thread_def co_thread_def)
  have "co_sleep fresh now seconds c = Ok (with_thread th (c\<lparr>mgr := ?m\<rparr>))"
    unfolding co_sleep_def sleepInner_def ms g Let_def prod.case w r [unfolded t_def] res_bind_simps with_mgr_def y(1) [unfolded t_def]
    by (simp add: t_def)
  then show ?thesis using y(2) yield_current_thread [OF y(1)] m by (auto simp: Let_def)
qed

text \<open>
  Sleeping. While the manager runs, \<open>co_sleep\<close> holds the coroutine up and arms a timer due
  \<open>seconds * 1000\<close> milliseconds later, reduced modulo \<open>2^32\<close>, whose callback puts the coroutine
  back into the ready queue; once the manager has been stopped the coroutine is held up without
  any timer.
\<close>

theorem co_sleep_arms_timer:
  assumes "in_coroutine S c"
  shows "\<exists>c'. co_sleep fresh now seconds c = Ok c' \<and> suspended_in S (running (co_thread c)) c'
     \<and> (if io_stopped (mgr c) then timer_manager (mgr c') = timer_manager (mgr c)
        else timer_manager (mgr c') = ms_insert (new_timer now (word_of_nat (unat seconds * 1000 mod 2 ^ 32))
               (Some (SleepOver (running (co_thread c)))) False) (timer_manager (mgr c)))
     \<and> (\<forall>c2. \<not> stopping (io_sch (mgr c2)) \<longrightarrow> (\<exists>c3. run_closure api (SleepOver (running (co_thread c))) c2 = Ok c3
          \<and> ready_executors (io_sch (mgr c3)) = ready_executors (io_sch (mgr c2)) @ [Some (running (co_thread c))]))"
proof -
  let ?p = "running (co_thread c)"
  have "\<exists>c3. run_closure api (SleepOver ?p) c2 = Ok c3
      \<and> ready_executors (io_sch (mgr c3)) = ready_executors (io_sch (mgr c2)) @ [Some ?p]" if "\<not> stopping (io_sch (mgr c2))" for c2
    using that by (simp add: run_closure_def io_addExecutor_def addExecutor_def ready_push_def io_sch_def)
  moreover obtain c' where "co_sleep fresh now seconds c = Ok c'" "suspended_in S ?p c'"
    "if io_stopped (mgr c) then timer_manager (mgr c') = timer_manager (mgr c)
     else timer_manager (mgr c') = ms_insert (new_timer now (word_of_nat (unat seconds * 1000 mod 2 ^ 32))
            (Some (SleepOver ?p)) False) (timer_manager (mgr c))"
    using co_sleep_suspends [OF assms, of now seconds fresh] by (cases "io_stopped (mgr c)") (auto simp: with_thread_def Let_def)
  ultimately show ?thesis by blast
qed

theorem co_sleep_arms_timer_witness:
  "\<exists>c c' :: (unit, fd \<Rightarrow> u32 option) co. co_sleep 9 100 2 c = Ok c' \<and> suspended_in 0 1 c'
     \<and> timer_manager (mgr c') = [new_timer 100 2000 (Some (SleepOver 1)) False]"
proof -
  obtain c :: "(unit, fd \<Rightarrow> u32 option) co" where c: "in_coroutine 0 c" "running (co_thread c) = 1"
    "\<not> io_stopped (mgr c)" "timer_manager (mgr c) = []"
    using demo_co by blast
  from co_sleep_arms_timer [OF c(1), of 9 100 2 demo_api] c(2-4) show ?thesis by auto
qed

text \<open>
  What fcntl(2) documents of the two commands \<open>adopt_socket\<close> uses, with \<open>nonblock\<close> the kernel's view
  of the \<open>O_NONBLOCK\<close> flag of the open descriptors: \<open>F_GETFL\<close> returns the status flags and changes
  none, \<open>F_SETFL\<close> makes \<open>O_NONBLOCK\<close> what its argument says.
\<close>

definition fcntl_ok :: "('k, 'a) sys_table \<Rightarrow> ('k \<Rightarrow> fd \<Rightarrow> bool option) \<Rightarrow> bool" where
  "fcntl_ok st nonblock \<longleftrightarrow> (\<forall>k i b. nonblock k i = Some b \<longrightarrow>
     (\<forall>a. \<exists>fl k'. fcntl_sys st i F_GETFL a k = (Inr fl, k') \<and> (fl AND O_NONBLOCK \<noteq> 0) = b \<and> nonblock k' i = Some b)
     \<and> (\<forall>arg. \<exists>k'. fcntl_sys st i F_SETFL (Some arg) k = (Inr 0, k') \<and> nonblock k' i = Some (arg AND O_NONBLOCK \<noteq> 0)))"

text \<open>
  A managed socket: the kernel has it non-blocking, and its context says socket, non-blocking in
  the system, blocking for the user, no timeouts.
\<close>

definition managed_socket :: "('k \<Rightarrow> fd \<Rightarrow> bool option) \<Rightarrow> fd \<Rightarrow> ('u, 'k) co \<Rightarrow> bool" where
  "managed_socket nonblock i c \<longleftrightarrow> nonblock (kern (mgr c)) i = Some True
     \<and> (\<exists>ctx. getContext i (fds c) = Ok (Some ctx) \<and> is_socket ctx \<and> is_sys_non_block ctx \<and> \<not> is_user_non_block ctx
          \<and> readTimeout ctx = - 1 \<and> writeTimeout ctx = - 1)"

lemma or_nonblock: "(fl OR O_NONBLOCK) AND O_NONBLOCK \<noteq> 0"
proof -
  have "(fl OR O_NONBLOCK) AND O_NONBLOCK = O_NONBLOCK" by (rule bit_eqI) (auto simp: bit_simps)
  then show ?thesis by (simp add: O_NONBLOCK_def)
qed

lemma adopt_socket_managed:
  assumes "fcntl_ok st nonblock" and "nonblock (kern (mgr c)) i = Some b" and "2 \<le> i"
  shows "\<exists>c1. adopt_socket st i c = Ok c1 \<and> managed_socket nonblock i c1
     \<and> (\<forall>j. 2 \<le> j \<longrightarrow> j \<noteq> i \<longrightarrow> getContext j (fds c1) = getContext j (fds c))"
proof -
  let ?x = "(FdContext_new True)\<lparr>is_sys_non_block := True\<rparr>"
  obtain f where f: "setContext i ?x (fds c) = Ok f" using fdt.put_total assms(3) by blast
  have g: "getContext i f = Ok (Some ?x)" "\<forall>j. 2 \<le> j \<longrightarrow> j \<noteq> i \<longrightarrow> getContext j f = getContext j (fds c)"
    using fdt.get_put [OF assms(3) _ f] assms(3) by auto
  obtain fl k1 where k1: "fcntl_sys st i F_GETFL (Some 0) (kern (mgr c)) = (Inr fl, k1)" "(fl AND O_NONBLOCK \<noteq> 0) = b"
    "nonblock k1 i = Some b"
    using assms(1) [unfolded fcntl_ok_def, rule_format, OF assms(2), THEN conjunct1, rule_format, of "Some 0"] by blast
  obtain k2 where k2: "fcntl_sys st i F_SETFL (Some (fl OR O_NONBLOCK)) k1 = (Inr 0, k2)" "nonblock k2 i = Some True"
    using assms(1) [unfolded fcntl_ok_def, rule_format, OF k1(3), THEN conjunct2, rule_format, of "fl OR O_NONBLOCK"]
      or_nonblock [of fl] by auto
  have x: "is_socket ?x" "is_sys_non_block ?x" "\<not> is_user_non_block ?x" "readTimeout ?x = - 1" "writeTimeout ?x = - 1"
    by (simp_all add: FdContext_new_def FdContext_default_def)
  let ?k = "if b then k1 else k2"
  have "adopt_socket st i c = Ok (c\<lparr>mgr := (mgr c)\<lparr>kern := ?k\<rparr>, fds := f\<rparr>)"
    using k1(1,2) k2(1) f by (cases b) (auto simp: adopt_socket_def Let_def call_sys_def ret_int_def)
  moreover have "managed_socket nonblock i (c\<lparr>mgr := (mgr c)\<lparr>kern := ?k\<rparr>, fds := f\<rparr>)"
    using k1(3) k2(2) g(1) x unfolding managed_socket_def by simp
  ultimately show ?thesis using g(2) by simp
qed

lemma co_close_managed:
  assumes "getContext i (fds c) = Ok (Some ctx)" and "2 \<le> i"
    and "hasEvent i Read (mgr c) = Ok False" and "hasEvent i Write (mgr c) = Ok False"
  shows "\<exists>c2. co_close api st i c = Ok (fst (close_sys st i (kern (mgr c))), c2) \<and> getContext i (fds c2) = Ok None
     \<and> kern (mgr c2) = snd (close_sys st i (kern (mgr c)))"
proof -
  have "registered_events (events_at (mgr c) i) AND (Read OR Write) = 0"
    using assms(2-4) by (simp add: hasEvent_eq bit.conj_disj_distrib)
  then have r: "removeEvent api i (Read OR Write) (mgr c) = Ok (mgr c)"
    using assms(2) by (auto simp: removeEvent_def vec_get_events)
  obtain f2 where f2: "delContext i (fds c) = Ok f2" using fdt.del_total assms(2) by blast
  then have "getContext i f2 = Ok None" using fdt.get_del [OF assms(2,2) f2] by simp
  moreover have "hasFd i (fds c) = Ok True" using assms(1,2) by (simp add: hasFd_iff)
  ultimately show ?thesis using r f2 by (auto simp: co_close_def call_sys_def split: prod.splits)
qed

text \<open>
  C22. Life of a socket. Under what fcntl(2) documents, the descriptor (from 2 on) that \<open>socket\<close>
  returns to \<open>co_socket\<close>, and likewise the one \<open>accept\<close> returns inside \<open>co_accept\<close>, leaves the call as
  a managed socket: non-blocking in the kernel, whatever its flag was before, with a context that
  says socket, non-blocking in the system and blocking for the user, without timeouts; no other
  context changes. \<open>co_close\<close> of a managed socket without registered events takes the context away
  again and closes the descriptor.
\<close>

theorem socket_life_cycle:
  fixes st :: "('k, 'a) sys_table"
  assumes "fcntl_ok st nonblock" and "2 \<le> i"
  shows "(\<forall>(c :: ('u, 'k) co) k. socket_sys st args (kern (mgr c)) = (Inr i, k) \<longrightarrow> nonblock k i \<noteq> None \<longrightarrow>
       (\<exists>c1. co_socket st args c = Ok (Inr i, c1) \<and> managed_socket nonblock i c1
          \<and> (\<forall>j. 2 \<le> j \<longrightarrow> j \<noteq> i \<longrightarrow> getContext j (fds c1) = getContext j (fds c))))
     \<and> (\<forall>(c0 :: ('u, 'k) co) c. ioInner api fresh now flag l Read (accept_sys st l args) c0 = Ok (IoReturn (Inr i), c) \<longrightarrow> nonblock (kern (mgr c)) i \<noteq> None \<longrightarrow>
       (\<exists>c1. co_accept api st fresh now flag l args c0 = Ok (IoReturn (Inr i), c1) \<and> managed_socket nonblock i c1
          \<and> (\<forall>j. 2 \<le> j \<longrightarrow> j \<noteq> i \<longrightarrow> getContext j (fds c1) = getContext j (fds c))))
     \<and> (\<forall>c :: ('u, 'k) co. managed_socket nonblock i c \<longrightarrow> hasEvent i Read (mgr c) = Ok False \<longrightarrow> hasEvent i Write (mgr c) = Ok False \<longrightarrow>
          (\<exists>c2. co_close api st i c = Ok (fst (close_sys st i (kern (mgr c))), c2) \<and> getContext i (fds c2) = Ok None
             \<and> kern (mgr c2) = snd (close_sys st i (kern (mgr c)))))"
proof (intro conjI allI impI)
  fix c :: "('u, 'k) co" and k
  assume s: "socket_sys st args (kern (mgr c)) = (Inr i, k)" and n: "nonblock k i \<noteq> None"
  from n obtain b where "nonblock (kern (mgr (c\<lparr>mgr := (mgr c)\<lparr>kern := k\<rparr>\<rparr>))) i = Some b" by auto
  from adopt_socket_managed [OF assms(1) this assms(2)] s assms(2)
  show "\<exists>c1. co_socket st args c = Ok (Inr i, c1) \<and> managed_socket nonblock i c1
          \<and> (\<forall>j. 2 \<le> j \<longrightarrow> j \<noteq> i \<longrightarrow> getContext j (fds c1) = getContext j (fds c))"
    by (auto simp: co_socket_def call_sys_def)
next
  fix c0 c :: "('u, 'k) co"
  assume s: "ioInner api fresh now flag l Read (accept_sys st l args) c0 = Ok (IoReturn (Inr i), c)"
    and n: "nonblock (kern (mgr c)) i \<noteq> None"
  from n obtain b where "nonblock (kern (mgr c)) i = Some b" by auto
  from adopt_socket_managed [OF assms(1) this assms(2)] s assms(2)
  show "\<exists>c1. co_accept api st fresh now flag l args c0 = Ok (IoReturn (Inr i), c1) \<and> managed_socket nonblock i c1
          \<and> (\<forall>j. 2 \<le> j \<longrightarrow> j \<noteq> i \<longrightarrow> getContext j (fds c1) = getContext j (fds c))"
    by (auto simp: co_accept_def accept_done_def)
next
  fix c :: "('u, 'k) co"
  assume "managed_socket nonblock i c" "hasEvent i Read (mgr c) = Ok False" "hasEvent i Write (mgr c) = Ok False"
  then show "\<exists>c2. co_close api st i c = Ok (fst (close_sys st i (kern (mgr c))), c2) \<and> getContext i (fds c2) = Ok None
             \<and> kern (mgr c2) = snd (close_sys st i (kern (mgr c)))"
    using co_close_managed [OF _ assms(2)] by (auto simp: managed_socket_def)
qed

text \<open>
  System calls for the witnesses: \<open>socket\<close> returns descriptor 7, open and blocking; a kernel state
  is the non-blocking flags of the open descriptors, which \<open>fcntl\<close> reads and writes; every other
  call succeeds with 0.
\<close>

definition demo_fcntl :: "fd \<Rightarrow> int \<Rightarrow> int option \<Rightarrow> (fd \<Rightarrow> bool option, int) syscall" where
  "demo_fcntl i cmd arg k =
     (case k i of
        None \<Rightarrow> (Inl EBADF, k)
      | Some b \<Rightarrow>
          if cmd = F_SETFL then (Inr 0, k(i \<mapsto> (the arg AND O_NONBLOCK \<noteq> 0))) else (Inr (if b then O_NONBLOCK else 0), k))"

definition demo_st :: "(fd \<Rightarrow> bool option, unit) sys_table" where
  "demo_st = (let ok = (\<lambda>_ _ k. (Inr 0, k)) in
     \<lparr>sleep_sys = (\<lambda>_ k. (Inr 0, k)), nanosleep_sys = (\<lambda>_ k. (Inr 0, k)), socket_sys = (\<lambda>_ k. (Inr 7, k(7 \<mapsto> False))),
      connect_sys = ok, accept_sys = ok, read_sys = ok, readv_sys = ok, recv_sys = ok, recvfrom_sys = ok, recvmsg_sys = ok,
      write_sys = ok, writev_sys = ok, send_sys = ok, sendto_sys = ok, sendmsg_sys = ok, close_sys = (\<lambda>i k. (Inr 0, k(i := None))),
      fcntl_sys = demo_fcntl, ioctl_sys = (\<lambda>_ _ _ k. (Inr 0, k)), getsockopt_sys = (\<lambda>_ _ _ k. (Inr 0, k)),
      setsockopt_sys = (\<lambda>_ _ _ _ k. (Inr 0, k))\<rparr>)"

lemma demo_st_calls [simp]:
  "socket_sys demo_st x k = (Inr 7, k(7 \<mapsto> False))" "fcntl_sys demo_st = demo_fcntl"
  "close_sys demo_st i k = (Inr 0, k(i := None))"
  by (simp_all add: demo_st_def Let_def)

lemma demo_fcntl_ok: "fcntl_ok demo_st (\<lambda>k. k)"
  by (auto simp: fcntl_ok_def demo_fcntl_def F_GETFL_def F_SETFL_def O_NONBLOCK_def)

theorem socket_life_cycle_witness:
  "\<forall>api. \<exists>c c1 c2 :: (unit, fd \<Rightarrow> bool option) co. co_socket demo_st () c = Ok (Inr 7, c1)
     \<and> hasFd 7 (fds c1) = Ok True \<and> kern (mgr c1) 7 = Some True
     \<and> co_close api demo_st 7 (c1\<lparr>mgr := (mgr c1)\<lparr>fd_events := []\<rparr>\<rparr>) = Ok (Inr 0, c2) \<and> hasFd 7 (fds c2) = Ok False
     \<and> kern (mgr c2) 7 = None"
proof
  fix api :: "(fd \<Rightarrow> bool option) kernel_api"
  obtain c :: "(unit, fd \<Rightarrow> bool option) co" where "flags c = flags c" by blast
  have "(2 :: int) \<le> 7" by simp
  note L = socket_life_cycle [OF demo_fcntl_ok this, of "()" api 0 0 0 0]
  obtain c1 where c1: "co_socket demo_st () c = Ok (Inr 7, c1)" "managed_socket (\<lambda>k. k) 7 c1"
    using L [THEN conjunct1, rule_format, OF demo_st_calls(1) [of "()" "kern (mgr c)"]] by auto
  let ?c = "c1\<lparr>mgr := (mgr c1)\<lparr>fd_events := []\<rparr>\<rparr>"
  have h: "hasEvent 7 t (mgr ?c) = Ok False" for t by (simp add: hasEvent_def)
  have m: "managed_socket (\<lambda>k. k) 7 ?c" using c1(2) by (simp add: managed_socket_def)
  obtain c2 where "co_close api demo_st 7 ?c = Ok (fst (close_sys demo_st 7 (kern (mgr ?c))), c2)" "getContext 7 (fds c2) = Ok None"
    "kern (mgr c2) = snd (close_sys demo_st 7 (kern (mgr ?c)))"
    using L [THEN conjunct2, THEN conjunct2, rule_format, OF m h h] by blast
  then show "\<exists>c c1 c2 :: (unit, fd \<Rightarrow> bool option) co. co_socket demo_st () c = Ok (Inr 7, c1)
     \<and> hasFd 7 (fds c1) = Ok True \<and> kern (mgr c1) 7 = Some True
     \<and> co_close api demo_st 7 (c1\<lparr>mgr := (mgr c1)\<lparr>fd_events := []\<rparr>\<rparr>) = Ok (Inr 0, c2) \<and> hasFd 7 (fds c2) = Ok False
     \<and> kern (mgr c2) 7 = None"
    using c1 by (intro exI [of _ c] exI [of _ c1] exI [of _ c2]) (auto simp: hasFd_iff managed_socket_def)
qed

text \<open>
  \<open>co_fcntl\<close> treats sockets and other descriptors the wrong way round: on a managed socket
  \<open>F_SETFL\<close> goes to the system with the user's flags (so that clearing \<open>O_NONBLOCK\<close> makes later
  calls block the whole thread) and the user's choice is not recorded, and \<open>F_GETFL\<close> reports the
  system's flags, whereas the comments and \<open>co_ioctl\<close>, which does record the choice, say that a
  socket stays non-blocking underneath.
\<close>

theorem fcntl_bypasses_sockets:
  assumes "getContext i (fds c) = Ok (Some ctx)" and "is_socket ctx"
    and "fcntl_sys st i F_SETFL (Some arg) (kern (mgr c)) = (r, k)" and "fcntl_sys st i F_GETFL None (kern (mgr c)) = (r', k')"
  shows "co_fcntl st i SetFl arg c = Ok (ret_int r, c\<lparr>mgr := (mgr c)\<lparr>kern := k\<rparr>\<rparr>)
     \<and> co_fcntl st i GetFl arg c = Ok (ret_int r', c\<lparr>mgr := (mgr c)\<lparr>kern := k'\<rparr>\<rparr>)
     \<and> (\<exists>f ctx'. fds (snd (projr (co_ioctl st i FIONBIO arg c))) = f \<and> getContext i f = Ok (Some ctx')
          \<and> is_user_non_block ctx' = (arg \<noteq> 0))"
proof -
  have i: "0 \<le> i" "i < int (length (fds c))" using assms(1) by (auto simp: getContext_def vec_get_def split: if_splits)
  then show ?thesis
    using assms
    by (simp add: co_fcntl_def co_ioctl_def Let_def call_sys_def updContext_def vec_set_def getContext_def vec_get_def split: prod.splits)
qed

end
