(* ===== verification/Net_Address.thy ===== *)
theory Net_Address
  imports Text_Util
begin

text \<open>
  include/net/address.h and src/net/address.cpp: socket addresses as the bytes of their
  \<open>sockaddr\<close>, the \<open>host:port\<close> parser, IPv4, IPv6 and Unix addresses. The byte order is that of the
  platform the sources check for (amd64, little endian), so \<open>htons\<close> swaps bytes. The resolver
  (\<open>inet_pton\<close>, \<open>inet_ntop\<close>, \<open>getaddrinfo\<close>, \<open>if_indextoname\<close>) is outside the repository: its
  functions are parameters. C strings hold no NUL.
\<close>

section \<open>Parsing\<close>

text \<open>
  \<open>HostAndPortParser\<close>: the text before and behind the last colon (\<open>strrchr\<close>), brackets around the
  host removed.
\<close>

definition after_last :: "char \<Rightarrow> string \<Rightarrow> string" where
  "after_last c s = rev (takeWhile (\<lambda>x. x \<noteq> c) (rev s))"

definition HostAndPortParser :: "string \<Rightarrow> (string \<times> string) res" where
  "HostAndPortParser s =
     (if CHR '':'' \<notin> set s then Err InvalidArgument
      else let port = after_last CHR '':'' s;
               host = take (length s - length port - 1) s
           in if host \<noteq> [] \<and> hd host = CHR ''['' \<and> last host = CHR '']''
              then Ok (tl (butlast host), port) else Ok (host, port))"

fun port_loop :: "string \<Rightarrow> int \<Rightarrow> int res" where
  "port_loop [] port_num = Ok port_num"
| "port_loop (c # cs) port_num =
     (if of_char c > (57 :: nat) \<or> of_char c < (48 :: nat) then Err InvalidArgument
      else let port_num = port_num * 10 + int (of_char c) - 48
           in if port_num \<ge> 65536 then Err InvalidArgument else port_loop cs port_num)"

definition getPortFromString :: "string \<Rightarrow> u16 res" where
  "getPortFromString port =
     (if length port > 5 then Err InvalidArgument
      else res_bind (port_loop port 0) (\<lambda>n. Ok (word_of_int n)))"

section \<open>Byte order\<close>

definition htons :: "u16 \<Rightarrow> u16" where
  "htons x = push_bit 8 x OR drop_bit 8 x"

definition ntohs :: "u16 \<Rightarrow> u16" where
  "ntohs x = htons x"

definition ntohl :: "u32 \<Rightarrow> u32" where
  "ntohl x = push_bit 24 (take_bit 8 x) OR push_bit 16 (take_bit 8 (drop_bit 8 x))
     OR push_bit 8 (take_bit 8 (drop_bit 16 x)) OR take_bit 8 (drop_bit 24 x)"

definition le16 :: "u16 \<Rightarrow> u8 list" where
  "le16 x = [ucast x, ucast (drop_bit 8 x)]"

definition le32 :: "u32 \<Rightarrow> u8 list" where
  "le32 x = [ucast x, ucast (drop_bit 8 x), ucast (drop_bit 16 x), ucast (drop_bit 24 x)]"

section \<open>Addresses\<close>

definition AF_UNSPEC :: u16 where "AF_UNSPEC = 0"
definition AF_INET :: u16 where "AF_INET = 2"
definition AF_INET6 :: u16 where "AF_INET6 = 10"

record sockaddr_in =
  sin_family :: u16
  sin_port :: u16
  sin_addr :: u32
  sin_zero :: "u8 list"

record sockaddr_in6 =
  sin6_family :: u16
  sin6_port :: u16
  sin6_flowinfo :: u32
  sin6_addr :: "u8 list"
  sin6_scope_id :: u32

record sockaddr_un =
  sun_family :: u16
  sun_path :: "u8 list"

datatype SockAddress = IPV4Address sockaddr_in | IPV6Address sockaddr_in6 | UnixAddress sockaddr_un

definition IPV4Address_default :: sockaddr_in where
  "IPV4Address_default = \<lparr>sin_family = 0, sin_port = 0, sin_addr = 0, sin_zero = replicate 8 0\<rparr>"

definition IPV6Address_default :: sockaddr_in6 where
  "IPV6Address_default = \<lparr>sin6_family = 0, sin6_port = 0, sin6_flowinfo = 0, sin6_addr = replicate 16 0, sin6_scope_id = 0\<rparr>"

definition UnixAddress_default :: sockaddr_un where
  "UnixAddress_default = \<lparr>sun_family = 0, sun_path = replicate 108 0\<rparr>"

text \<open>\<open>getAddr\<close> and \<open>getAddrLen\<close>: the object as the bytes the system calls and \<open>memcmp\<close> see.\<close>

fun getAddr :: "SockAddress \<Rightarrow> u8 list" where
  "getAddr (IPV4Address a) = le16 (sin_family a) @ le16 (sin_port a) @ le32 (sin_addr a) @ sin_zero a"
| "getAddr (IPV6Address a) =
     le16 (sin6_family a) @ le16 (sin6_port a) @ le32 (sin6_flowinfo a) @ sin6_addr a @ le32 (sin6_scope_id a)"
| "getAddr (UnixAddress a) = le16 (sun_family a) @ sun_path a"

fun getAddrLen :: "SockAddress \<Rightarrow> nat" where
  "getAddrLen (IPV4Address a) = 16"
| "getAddrLen (IPV6Address a) = 28"
| "getAddrLen (UnixAddress a) = 110"

fun getFamily :: "SockAddress \<Rightarrow> u16" where
  "getFamily (IPV4Address a) = sin_family a"
| "getFamily (IPV6Address a) = sin6_family a"
| "getFamily (UnixAddress a) = sun_family a"

definition isInetFamily :: "SockAddress \<Rightarrow> bool" where
  "isInetFamily a = (if getFamily a = AF_INET then True else if getFamily a = AF_INET6 then True else False)"

text \<open>The sizes of the C structs.\<close>

fun addr_wf :: "SockAddress \<Rightarrow> bool" where
  "addr_wf (IPV4Address a) \<longleftrightarrow> length (sin_zero a) = 8"
| "addr_wf (IPV6Address a) \<longleftrightarrow> length (sin6_addr a) = 16"
| "addr_wf (UnixAddress a) \<longleftrightarrow> length (sun_path a) = 108"

subsection \<open>Comparison\<close>

fun memcmp :: "u8 list \<Rightarrow> u8 list \<Rightarrow> nat \<Rightarrow> int" where
  "memcmp (x # xs) (y # ys) (Suc n) = (if x < y then - 1 else if y < x then 1 else memcmp xs ys n)"
| "memcmp _ _ _ = 0"

definition addr_less :: "SockAddress \<Rightarrow> SockAddress \<Rightarrow> bool" where
  "addr_less lhs rhs =
     (let minlen = min (getAddrLen lhs) (getAddrLen rhs);
          result = memcmp (getAddr lhs) (getAddr rhs) minlen
      in if result < 0 then True
         else if result > 0 then False
         else if getAddrLen lhs < getAddrLen rhs then True else False)"

definition addr_eq :: "SockAddress \<Rightarrow> SockAddress \<Rightarrow> bool" where
  "addr_eq lhs rhs \<longleftrightarrow> getAddrLen lhs = getAddrLen rhs \<and> memcmp (getAddr lhs) (getAddr rhs) (getAddrLen lhs) = 0"

definition addr_neq :: "SockAddress \<Rightarrow> SockAddress \<Rightarrow> bool" where
  "addr_neq lhs rhs \<longleftrightarrow> \<not> addr_eq lhs rhs"

subsection \<open>IPv4\<close>

text \<open>\<open>inet_pton\<close> returns the address in network order, \<open>None\<close> when the text is not one.\<close>

definition setByHostAndPort4_num :: "(string \<Rightarrow> u32 option) \<Rightarrow> string \<Rightarrow> u16 \<Rightarrow> sockaddr_in \<Rightarrow> sockaddr_in res" where
  "setByHostAndPort4_num inet_pton host port a =
     (case inet_pton host of
        None \<Rightarrow> Err InvalidArgument
      | Some addr \<Rightarrow> Ok (a\<lparr>sin_addr := addr, sin_port := htons port, sin_family := AF_INET\<rparr>))"

definition setByHostAndPort4_str :: "(string \<Rightarrow> u32 option) \<Rightarrow> string \<Rightarrow> string \<Rightarrow> sockaddr_in \<Rightarrow> sockaddr_in res" where
  "setByHostAndPort4_str inet_pton host port a =
     res_bind (getPortFromString port) (\<lambda>n. setByHostAndPort4_num inet_pton host n a)"

definition setByHostAndPort4 :: "(string \<Rightarrow> u32 option) \<Rightarrow> string \<Rightarrow> sockaddr_in \<Rightarrow> sockaddr_in res" where
  "setByHostAndPort4 inet_pton s a =
     res_bind (HostAndPortParser s) (\<lambda>(host, port). setByHostAndPort4_str inet_pton host port a)"

definition IPV4Address_new :: "(string \<Rightarrow> u32 option) \<Rightarrow> string \<Rightarrow> sockaddr_in res" where
  "IPV4Address_new inet_pton s = setByHostAndPort4 inet_pton s IPV4Address_default"

definition IPV4Address_new_str :: "(string \<Rightarrow> u32 option) \<Rightarrow> string \<Rightarrow> string \<Rightarrow> sockaddr_in res" where
  "IPV4Address_new_str inet_pton host port = setByHostAndPort4_str inet_pton host port IPV4Address_default"

definition IPV4Address_new_num :: "(string \<Rightarrow> u32 option) \<Rightarrow> string \<Rightarrow> u16 \<Rightarrow> sockaddr_in res" where
  "IPV4Address_new_num inet_pton host port = setByHostAndPort4_num inet_pton host port IPV4Address_default"

definition octet_str :: "u32 \<Rightarrow> nat \<Rightarrow> string" where
  "octet_str addr_num k = dec_str (unat (drop_bit k addr_num AND 0xff))"

definition getAddressStr4 :: "sockaddr_in \<Rightarrow> string" where
  "getAddressStr4 a =
     (let addr_num = ntohl (sin_addr a)
      in octet_str addr_num 24 @ ''.'' @ octet_str addr_num 16 @ ''.'' @ octet_str addr_num 8 @ ''.'' @ octet_str addr_num 0)"

definition toString4 :: "sockaddr_in \<Rightarrow> string" where
  "toString4 a = getAddressStr4 a @ '':'' @ dec_str (unat (ntohs (sin_port a)))"

definition setPort4 :: "u16 \<Rightarrow> sockaddr_in \<Rightarrow> sockaddr_in" where
  "setPort4 port a = a\<lparr>sin_port := htons port\<rparr>"

definition getPort4 :: "sockaddr_in \<Rightarrow> u16" where
  "getPort4 a = ntohs (sin_port a)"

subsection \<open>IPv6\<close>

definition setByHostAndPort6_num :: "(string \<Rightarrow> u8 list option) \<Rightarrow> string \<Rightarrow> u16 \<Rightarrow> sockaddr_in6 \<Rightarrow> sockaddr_in6 res" where
  "setByHostAndPort6_num inet_pton host port a =
     (case inet_pton host of
        None \<Rightarrow> Err InvalidArgument
      | Some addr \<Rightarrow> Ok (a\<lparr>sin6_addr := addr, sin6_port := htons port, sin6_family := AF_INET6\<rparr>))"

definition setByHostAndPort6_str :: "(string \<Rightarrow> u8 list option) \<Rightarrow> string \<Rightarrow> string \<Rightarrow> sockaddr_in6 \<Rightarrow> sockaddr_in6 res" where
  "setByHostAndPort6_str inet_pton host port a =
     res_bind (getPortFromString port) (\<lambda>n. setByHostAndPort6_num inet_pton host n a)"

definition setByHostAndPort6 :: "(string \<Rightarrow> u8 list option) \<Rightarrow> string \<Rightarrow> sockaddr_in6 \<Rightarrow> sockaddr_in6 res" where
  "setByHostAndPort6 inet_pton s a =
     res_bind (HostAndPortParser s) (\<lambda>(host, port). setByHostAndPort6_str inet_pton host port a)"

definition IPV6Address_new :: "(string \<Rightarrow> u8 list option) \<Rightarrow> string \<Rightarrow> sockaddr_in6 res" where
  "IPV6Address_new inet_pton s = setByHostAndPort6 inet_pton s IPV6Address_default"

definition IPV6Address_new_str :: "(string \<Rightarrow> u8 list option) \<Rightarrow> string \<Rightarrow> string \<Rightarrow> sockaddr_in6 res" where
  "IPV6Address_new_str inet_pton host port = setByHostAndPort6_str inet_pton host port IPV6Address_default"

definition IPV6Address_new_num :: "(string \<Rightarrow> u8 list option) \<Rightarrow> string \<Rightarrow> u16 \<Rightarrow> sockaddr_in6 res" where
  "IPV6Address_new_num inet_pton host port = setByHostAndPort6_num inet_pton host port IPV6Address_default"

definition getAddressStr6 :: "(u8 list \<Rightarrow> string option) \<Rightarrow> (u32 \<Rightarrow> string option) \<Rightarrow> sockaddr_in6 \<Rightarrow> string" where
  "getAddressStr6 inet_ntop if_indextoname a =
     (case inet_ntop (sin6_addr a) of
        None \<Rightarrow> ''invalid ipv6 address with hex:'' @ toHex (sin6_addr a)
      | Some buffer \<Rightarrow>
          if sin6_scope_id a \<noteq> 0
          then buffer @ ''%'' @ (case if_indextoname (sin6_scope_id a) of
                                   None \<Rightarrow> dec_str (unat (sin6_scope_id a))
                                 | Some name \<Rightarrow> name)
          else buffer)"

definition toString6 :: "(u8 list \<Rightarrow> string option) \<Rightarrow> (u32 \<Rightarrow> string option) \<Rightarrow> sockaddr_in6 \<Rightarrow> string" where
  "toString6 inet_ntop if_indextoname a =
     getAddressStr6 inet_ntop if_indextoname a @ '':'' @ dec_str (unat (ntohs (sin6_port a)))"

definition setPort6 :: "u16 \<Rightarrow> sockaddr_in6 \<Rightarrow> sockaddr_in6" where
  "setPort6 port a = a\<lparr>sin6_port := htons port\<rparr>"

definition getPort6 :: "sockaddr_in6 \<Rightarrow> u16" where
  "getPort6 a = ntohs (sin6_port a)"

subsection \<open>Unix addresses and resolution\<close>

definition toStringUn :: "sockaddr_un \<Rightarrow> string" where
  "toStringUn a = CHR 0x5C # CHR ''0'' # map (\<lambda>b. char_of (unat b)) (takeWhile (\<lambda>b. b \<noteq> 0) (sun_path a))"

text \<open>One result of \<open>getaddrinfo\<close>: the family, the length, and the bytes read as either struct.\<close>

record addrinfo =
  ai_family :: u16
  ai_addrlen :: nat
  ai_in :: sockaddr_in
  ai_in6 :: sockaddr_in6

definition getAddrInfo :: "(string \<Rightarrow> string \<Rightarrow> addrinfo option) \<Rightarrow> string \<Rightarrow> string \<Rightarrow> addrinfo res" where
  "getAddrInfo getaddrinfo host port =
     (case getaddrinfo host port of None \<Rightarrow> Err InvalidArgument | Some r \<Rightarrow> Ok r)"

definition IPAddress_create :: "(string \<Rightarrow> string \<Rightarrow> addrinfo option) \<Rightarrow> string \<Rightarrow> string \<Rightarrow> SockAddress option res" where
  "IPAddress_create getaddrinfo host port =
     res_bind (getAddrInfo getaddrinfo host port) (\<lambda>info.
       if ai_family info = AF_INET
       then if ai_addrlen info < 16 then Err InvalidArgument else Ok (Some (IPV4Address (ai_in info)))
       else if ai_family info = AF_INET6
       then if ai_addrlen info < 28 then Err InvalidArgument else Ok (Some (IPV6Address (ai_in6 info)))
       else Ok None)"

definition IPAddress_create_num :: "(string \<Rightarrow> string \<Rightarrow> addrinfo option) \<Rightarrow> string \<Rightarrow> u16 \<Rightarrow> SockAddress option res" where
  "IPAddress_create_num getaddrinfo host port = IPAddress_create getaddrinfo host (dec_str (unat port))"

definition IPAddress_create_str :: "(string \<Rightarrow> string \<Rightarrow> addrinfo option) \<Rightarrow> string \<Rightarrow> SockAddress option res" where
  "IPAddress_create_str getaddrinfo s =
     res_bind (HostAndPortParser s) (\<lambda>(host, port). IPAddress_create getaddrinfo host port)"

section \<open>Lemmas\<close>

lemma of_char_digit: "d < 10 \<Longrightarrow> of_char (digit_char d) = (48 + d :: nat)"
  by (drule less_10_cases) (auto simp: digit_char_def)

lemma digit_range: "\<not> (of_char c > (57 :: nat) \<or> of_char c < (48 :: nat)) \<longleftrightarrow> is_digit c"
proof
  assume "\<not> (of_char c > (57 :: nat) \<or> of_char c < (48 :: nat))"
  then have d: "of_char c = (48 + (of_char c - 48) :: nat)" "of_char c - 48 < (10 :: nat)" by arith+
  then have "of_char c = (of_char (digit_char (of_char c - 48)) :: nat)" using of_char_digit by simp
  then have "c = digit_char (of_char c - 48)" by simp
  then show "is_digit c" using digit_char_digit [OF d(2)] by simp
qed (auto simp: is_digit_def)

lemma foldl_dec_ge: "n \<le> foldl (\<lambda>n c. 10 * n + digit_val c) n s"
proof (induction s arbitrary: n)
  case (Cons c s)
  show ?case using Cons [of "10 * n + digit_val c"] by simp
qed simp

lemma port_loop_eq:
  assumes "n < 65536"
  shows "port_loop s (int n) =
     (if list_all is_digit s \<and> foldl (\<lambda>n c. 10 * n + digit_val c) n s < 65536
      then Ok (int (foldl (\<lambda>n c. 10 * n + digit_val c) n s)) else Err InvalidArgument)"
  using assms
proof (induction s arbitrary: n)
  case (Cons c s)
  show ?case
  proof (cases "is_digit c")
    case True
    then have r: "\<not> (of_char c > (57 :: nat) \<or> of_char c < (48 :: nat))" by (simp only: digit_range)
    then have "int n * 10 + int (of_char c) - 48 = int (10 * n + digit_val c)" by (auto simp: digit_val_def of_nat_diff)
    then have "port_loop (c # s) (int n) =
        (if 65536 \<le> 10 * n + digit_val c then Err InvalidArgument else port_loop s (int (10 * n + digit_val c)))"
      using r by (simp only: port_loop.simps Let_def) auto
    then show ?thesis
      using Cons.IH [of "10 * n + digit_val c"] True foldl_dec_ge [of "10 * n + digit_val c" s] by auto
  next
    case False
    then have "of_char c > (57 :: nat) \<or> of_char c < (48 :: nat)" using digit_range by blast
    then show ?thesis using False by auto
  qed
qed simp

lemma getPort_eq:
  "getPortFromString s =
     (if length s \<le> 5 \<and> list_all is_digit s \<and> dec_val s < 65536 then Ok (word_of_nat (dec_val s)) else Err InvalidArgument)"
  using port_loop_eq [of 0 s] by (auto simp: getPortFromString_def dec_val_def)

lemma after_last_append: "c \<notin> set p \<Longrightarrow> after_last c (h @ c # p) = p"
proof -
  assume "c \<notin> set p"
  then have "takeWhile (\<lambda>x. x \<noteq> c) (rev p @ c # rev h) = rev p" by (subst takeWhile_append2) auto
  then show ?thesis by (simp add: after_last_def)
qed

lemma HostAndPortParser_eq:
  "CHR '':'' \<notin> set p \<Longrightarrow> HostAndPortParser (h @ CHR '':'' # p) =
     Ok (if h \<noteq> [] \<and> hd h = CHR ''['' \<and> last h = CHR '']'' then tl (butlast h) else h, p)"
  by (simp add: HostAndPortParser_def after_last_append Let_def)

lemma digit_no_sep: "is_digit c \<Longrightarrow> c \<noteq> CHR '':''" "is_digit c \<Longrightarrow> c \<noteq> CHR ''[''"
  by (auto simp: is_digit_def)

lemma bit_htons: "bit (htons x) n \<longleftrightarrow> n < 16 \<and> (if n < 8 then bit x (n + 8) else bit x (n - 8))"
proof (cases "n < 16")
  case True
  have "bit x k \<Longrightarrow> k < 16" for k using bit_imp_le_length [of x k] by simp
  then have "n < 8 \<Longrightarrow> 8 \<le> n \<Longrightarrow> False" "\<not> n < 8 \<Longrightarrow> \<not> bit x (n + 8)" by fastforce+
  then show ?thesis using True by (auto simp: htons_def bit_or_iff bit_push_bit_iff bit_drop_bit_eq add.commute)
next
  case False
  then show ?thesis using bit_imp_le_length [of "htons x" n] by auto
qed

lemma htons_htons [simp]: "htons (htons x) = x" "ntohs (htons x) = x" "htons (ntohs x) = x"
proof -
  have "htons (htons x) = x"
    by (rule bit_eqI) (auto simp: bit_htons dest: bit_imp_le_length)
  then show "htons (htons x) = x" "ntohs (htons x) = x" "htons (ntohs x) = x" by (simp_all add: ntohs_def)
qed

lemma port_str_roundtrip: "getPortFromString (dec_str (unat (p :: u16))) = Ok p"
proof -
  have "unat p < 65536" using unsigned_less [of p, where ?'a = nat] by simp
  moreover have "length (dec_str (unat p)) \<le> 5" by (rule length_dec_str) (use calculation in simp_all)
  moreover have "list_all is_digit (dec_str (unat p))" by (simp add: list_all_iff dec_str_digits)
  ultimately show ?thesis by (simp add: getPort_eq)
qed

text \<open>Dotted decimal of four bytes in memory order.\<close>

definition dotted :: "u8 list \<Rightarrow> string" where
  "dotted bs = join ''.'' (map (\<lambda>b. dec_str (unat b)) bs)"

lemma octet_bits:
  assumes "(k, j) \<in> {(24, 0), (16, 8), (8, 16), (0, 24)}"
  shows "take_bit 8 (drop_bit k (ntohl x)) = take_bit 8 (drop_bit j x)"
proof (rule bit_eqI)
  fix n
  show "bit (take_bit 8 (drop_bit k (ntohl x))) n \<longleftrightarrow> bit (take_bit 8 (drop_bit j x)) n"
  proof (cases "n < 8")
    case True
    then show ?thesis
      using assms
      by (elim insertE emptyE) (simp_all add: ntohl_def bit_or_iff bit_push_bit_iff bit_drop_bit_eq bit_take_bit_iff ac_simps)
  qed (simp add: bit_take_bit_iff)
qed

lemma octet_str_eq:
  assumes "(k, j) \<in> {(24, 0), (16, 8), (8, 16), (0, 24)}"
  shows "octet_str (ntohl x) k = dec_str (unat (ucast (drop_bit j x) :: u8))"
proof -
  have "y AND 0xff = take_bit 8 y" for y :: u32 by (simp add: take_bit_eq_mask mask_eq_exp_minus_1)
  moreover have "unat (take_bit 8 y) = unat (ucast y :: u8)" for y :: u32
    by (simp add: unsigned_ucast_eq unsigned_take_bit_eq)
  ultimately show ?thesis using octet_bits [OF assms] by (simp add: octet_str_def)
qed

lemma getAddressStr4_dotted: "getAddressStr4 a = dotted (le32 (sin_addr a))"
  using octet_str_eq [of 24 0 "sin_addr a"] octet_str_eq [of 16 8 "sin_addr a"] octet_str_eq [of 8 16 "sin_addr a"]
    octet_str_eq [of 0 24 "sin_addr a"]
  by (simp add: getAddressStr4_def Let_def dotted_def le32_def join_def)

subsection \<open>Order\<close>

lemma memcmp_lexord:
  "memcmp xs ys (min (length xs) (length ys)) < 0 \<or>
     memcmp xs ys (min (length xs) (length ys)) = 0 \<and> length xs < length ys
   \<longleftrightarrow> (xs, ys) \<in> lexord {(x, y). x < y}"
proof (induction xs arbitrary: ys)
  case Nil
  then show ?case by (cases ys) auto
next
  case (Cons x xs)
  then show ?case by (cases ys) auto
qed

lemma memcmp_eq_0: "length xs = length ys \<Longrightarrow> memcmp xs ys (length xs) = 0 \<longleftrightarrow> xs = ys"
proof (induction xs ys rule: list_induct2)
  case (Cons x xs y ys)
  then show ?case using less_linear [of x y] by auto
qed simp

lemma length_getAddr [simp]: "addr_wf a \<Longrightarrow> length (getAddr a) = getAddrLen a"
  by (cases a) (auto simp: le16_def le32_def)

lemma addr_less_lexord:
  "addr_wf a \<Longrightarrow> addr_wf b \<Longrightarrow> addr_less a b \<longleftrightarrow> (getAddr a, getAddr b) \<in> lexord {(x, y). x < y}"
  unfolding memcmp_lexord [symmetric] addr_less_def Let_def by auto

lemma le16_inj [simp]: "le16 x = le16 y \<longleftrightarrow> x = y"
proof
  assume "le16 x = le16 y"
  then have e: "ucast x = (ucast y :: u8)" "ucast (drop_bit 8 x) = (ucast (drop_bit 8 y) :: u8)" by (simp_all add: le16_def)
  show "x = y"
  proof (rule bit_eqI)
    fix n assume "possible_bit TYPE(u16) n"
    then have n: "n < 16" by simp
    show "bit x n \<longleftrightarrow> bit y n"
      using arg_cong [OF e(1), of "\<lambda>w. bit w n"] arg_cong [OF e(2), of "\<lambda>w. bit w (n - 8)"] n
      by (cases "n < 8") (auto simp: bit_ucast_iff bit_drop_bit_eq)
  qed
qed simp

lemma le32_inj [simp]: "le32 x = le32 y \<longleftrightarrow> x = y"
proof
  assume "le32 x = le32 y"
  then have e: "ucast x = (ucast y :: u8)" "ucast (drop_bit 8 x) = (ucast (drop_bit 8 y) :: u8)"
    "ucast (drop_bit 16 x) = (ucast (drop_bit 16 y) :: u8)" "ucast (drop_bit 24 x) = (ucast (drop_bit 24 y) :: u8)"
    by (simp_all add: le32_def)
  show "x = y"
  proof (rule bit_eqI)
    fix n assume "possible_bit TYPE(u32) n"
    then have "n < 32" by simp
    then consider "n < 8" | "8 \<le> n" "n < 16" | "16 \<le> n" "n < 24" | "24 \<le> n" "n < 32" by linarith
    then show "bit x n \<longleftrightarrow> bit y n"
      using arg_cong [OF e(1), of "\<lambda>w. bit w n"] arg_cong [OF e(2), of "\<lambda>w. bit w (n - 8)"]
        arg_cong [OF e(3), of "\<lambda>w. bit w (n - 16)"] arg_cong [OF e(4), of "\<lambda>w. bit w (n - 24)"]
      by cases (auto simp: bit_ucast_iff bit_drop_bit_eq)
  qed
qed simp

lemma length_le [simp]: "length (le16 x) = 2" "length (le32 y) = 4"
  by (simp_all add: le16_def le32_def)

lemma getAddr_inject:
  assumes "addr_wf a" and "addr_wf b"
  shows "getAddr a = getAddr b \<longleftrightarrow> a = b"
proof
  assume e: "getAddr a = getAddr b"
  then have l: "getAddrLen a = getAddrLen b" using assms length_getAddr by metis
  show "a = b"
  proof (cases a)
    case (IPV4Address x)
    with l obtain y where "b = IPV4Address y" by (cases b) auto
    with e IPV4Address show ?thesis by (cases x; cases y) auto
  next
    case (IPV6Address x)
    with l obtain y where y: "b = IPV6Address y" by (cases b) auto
    then have "length (sin6_addr x) = length (sin6_addr y)" using assms IPV6Address by simp
    with e IPV6Address y show ?thesis by (cases x; cases y) auto
  next
    case (UnixAddress x)
    with l obtain y where "b = UnixAddress y" by (cases b) auto
    with e UnixAddress show ?thesis by (cases x; cases y) auto
  qed
qed simp

section \<open>Properties\<close>

text \<open>
  The comparison of addresses is a strict linear order that agrees with equality: \<open><\<close> is
  irreflexive, transitive and total, \<open>==\<close> holds exactly for equal addresses of the same kind,
  and \<open>!=\<close> is its negation, across all address families.
\<close>

theorem addr_order_linear:
  assumes "addr_wf a" and "addr_wf b" and "addr_wf c"
  shows "(addr_eq a b \<longleftrightarrow> a = b) \<and> (addr_neq a b \<longleftrightarrow> a \<noteq> b) \<and> \<not> addr_less a a
     \<and> (addr_less a b \<and> addr_less b c \<longrightarrow> addr_less a c) \<and> (addr_less a b \<or> addr_less b a \<or> a = b)"
proof -
  have "addr_eq a b \<longleftrightarrow> getAddr a = getAddr b"
  proof (cases "getAddrLen a = getAddrLen b")
    case True
    then show ?thesis using assms memcmp_eq_0 [of "getAddr a" "getAddr b"] by (simp add: addr_eq_def)
  next
    case False
    then show ?thesis using assms length_getAddr by (metis addr_eq_def)
  qed
  moreover have "trans {(x :: u8, y). x < y}" by (auto intro: transI)
  then have "addr_less a b \<and> addr_less b c \<longrightarrow> addr_less a c"
    using assms lexord_trans by (auto simp: addr_less_lexord)
  moreover have "\<forall>x y :: u8. (x, y) \<in> {(x, y). x < y} \<or> x = y \<or> (y, x) \<in> {(x, y). x < y}" using less_linear by auto
  then have "addr_less a b \<or> addr_less b a \<or> getAddr a = getAddr b"
    using assms lexord_linear [of "{(x :: u8, y). x < y}" "getAddr a" "getAddr b"] by (auto simp: addr_less_lexord)
  moreover have "\<not> addr_less a a" using assms by (simp add: addr_less_lexord lexord_irreflexive)
  ultimately show ?thesis using getAddr_inject [OF assms(1,2)] by (auto simp: addr_neq_def)
qed

theorem addr_order_linear_witness:
  "addr_less (IPV4Address IPV4Address_default) (IPV6Address IPV6Address_default)
     \<or> addr_less (IPV6Address IPV6Address_default) (IPV4Address IPV4Address_default)"
proof -
  have "addr_wf (IPV4Address IPV4Address_default)" "addr_wf (IPV6Address IPV6Address_default)"
    by (simp_all add: IPV4Address_default_def IPV6Address_default_def)
  with addr_order_linear show ?thesis by blast
qed

text \<open>
  C23. The port parser accepts exactly the texts of at most five decimal digits whose value fits 16
  bits, returns that value, and throws \<open>invalid_argument\<close> on every other text; in particular it
  reads back every printed port, and takes the empty text for port 0.
\<close>

theorem getPortFromString_exact:
  "getPortFromString s =
     (if length s \<le> 5 \<and> list_all is_digit s \<and> dec_val s < 65536 then Ok (word_of_nat (dec_val s)) else Err InvalidArgument)
   \<and> getPortFromString (dec_str (unat (p :: u16))) = Ok p \<and> getPortFromString [] = Ok 0"
  using getPort_eq [of s] port_str_roundtrip [of p] getPort_eq [of "[]"] by (simp add: dec_val_def)

text \<open>
  C24. Text round trip of IPv4 addresses: printing an address and constructing one from the text gives
  the same address, port and byte order included, if the resolver reads the dotted decimal of
  the address's bytes back as these bytes.
\<close>

theorem ipv4_text_roundtrip:
  assumes "inet_pton (dotted (le32 (sin_addr a))) = Some (sin_addr a)"
    and "sin_family a = AF_INET" and "sin_zero a = replicate 8 0"
  shows "IPV4Address_new inet_pton (toString4 a) = Ok a"
proof -
  let ?h = "dotted (le32 (sin_addr a))" and ?p = "dec_str (unat (ntohs (sin_port a)))"
  have "CHR '':'' \<notin> set ?p" using dec_str_digits digit_no_sep by blast
  moreover have "hd (dec_str n) \<noteq> CHR ''[''" for n using dec_str_digits digit_no_sep(2) hd_in_set [OF dec_str_nonempty] by blast
  then have "hd ?h \<noteq> CHR ''[''" by (simp add: dotted_def join_def le32_def hd_append)
  ultimately have "HostAndPortParser (toString4 a) = Ok (?h, ?p)"
    using HostAndPortParser_eq [of ?p ?h] by (simp add: toString4_def getAddressStr4_dotted)
  then show ?thesis
    using assms by (simp add: IPV4Address_new_def setByHostAndPort4_def setByHostAndPort4_str_def setByHostAndPort4_num_def
        port_str_roundtrip IPV4Address_default_def)
qed

theorem ipv4_text_roundtrip_witness:
  "IPV4Address_new (\<lambda>s. if s = ''127.0.0.1'' then Some 0x0100007F else None)
     (toString4 \<lparr>sin_family = AF_INET, sin_port = htons 80, sin_addr = 0x0100007F, sin_zero = replicate 8 0\<rparr>)
   = Ok \<lparr>sin_family = AF_INET, sin_port = htons 80, sin_addr = 0x0100007F, sin_zero = replicate 8 0\<rparr>"
proof (rule ipv4_text_roundtrip)
  have "dotted (le32 0x0100007F) = ''127.0.0.1''"
    by code_simp
  then show "(\<lambda>s. if s = ''127.0.0.1'' then Some 0x0100007F else None) (dotted (le32 (sin_addr
      \<lparr>sin_family = AF_INET, sin_port = htons 80, sin_addr = 0x0100007F, sin_zero = replicate 8 0\<rparr>)))
    = Some (sin_addr \<lparr>sin_family = AF_INET, sin_port = htons 80, sin_addr = 0x0100007F, sin_zero = replicate 8 0\<rparr>)"
    by simp
qed simp_all

text \<open>
  Text round trip of IPv6 addresses without a scope, although the text is printed without
  brackets: the last colon is the one before the port. The resolver is assumed to read back
  what it prints for the address, and not to start it with a bracket.
\<close>

theorem ipv6_text_roundtrip:
  assumes "inet_ntop (sin6_addr a) = Some s" and "inet_pton s = Some (sin6_addr a)" and "s = [] \<or> hd s \<noteq> CHR ''[''"
    and "sin6_family a = AF_INET6" and "sin6_scope_id a = 0" and "sin6_flowinfo a = 0"
  shows "IPV6Address_new inet_pton (toString6 inet_ntop if_indextoname a) = Ok a"
proof -
  let ?p = "dec_str (unat (ntohs (sin6_port a)))"
  have "CHR '':'' \<notin> set ?p" using dec_str_digits digit_no_sep by blast
  then have "HostAndPortParser (toString6 inet_ntop if_indextoname a) = Ok (s, ?p)"
    using HostAndPortParser_eq [of ?p s] assms(1,3,5) by (auto simp: toString6_def getAddressStr6_def)
  then show ?thesis
    using assms by (simp add: IPV6Address_new_def setByHostAndPort6_def setByHostAndPort6_str_def setByHostAndPort6_num_def
        port_str_roundtrip IPV6Address_default_def)
qed

theorem ipv6_text_roundtrip_witness:
  "IPV6Address_new (\<lambda>s. if s = ''::'' then Some (replicate 16 0) else None)
     (toString6 (\<lambda>_. Some ''::'') (\<lambda>_. None) (IPV6Address_default\<lparr>sin6_family := AF_INET6\<rparr>))
   = Ok (IPV6Address_default\<lparr>sin6_family := AF_INET6\<rparr>)"
  by (rule ipv6_text_roundtrip [where s = "''::''"]) (simp_all add: IPV6Address_default_def)

end
