(* ===== verification/Balancers.thy ===== *)
theory Balancers
  imports Io_Manager
begin

text \<open>
  include/balancer/io and src/balancer/io: which manager of a group gets a task. The vector of
  managers at the time of a call is an argument: the constructors start one thread per manager
  and every thread appends its own manager (\<open>worker_start\<close>), and nothing orders a call of
  \<open>schedule\<close> after them. Each manager carries the part of the kernel its own descriptors live in.
  The random generator (\<open>mt19937RandomGen\<close>) is a parameter from a range to a number.
\<close>

section \<open>Scheduling\<close>

text \<open>\<open>managers[i]->addRemoteTask(executor)\<close>.\<close>

definition addRemoteTask_at ::
    "'k kernel_api \<Rightarrow> int \<Rightarrow> eptr \<Rightarrow> ('cb, 'k) io_manager list \<Rightarrow> ('cb, 'k) io_manager list res" where
  "addRemoteTask_at api i p managers =
     res_bind (vec_get managers i) (\<lambda>m.
     res_bind (addRemoteTask api p m) (\<lambda>m. vec_set managers i m))"

text \<open>What a worker thread does before it runs its manager.\<close>

definition worker_start :: "('cb, 'k) io_manager \<Rightarrow> ('cb, 'k) io_manager list \<Rightarrow> ('cb, 'k) io_manager list" where
  "worker_start m managers = managers @ [m]"

definition Simple_schedule :: "eptr \<Rightarrow> ('cb, 'k) io_manager \<Rightarrow> ('cb, 'k) io_manager res" where
  "Simple_schedule p m = Ok (io_addExecutor (Some p) m)"

definition Random_schedule ::
    "(u64 \<Rightarrow> u64 \<Rightarrow> u64) \<Rightarrow> 'k kernel_api \<Rightarrow> u64 \<Rightarrow> eptr \<Rightarrow> ('cb, 'k) io_manager list \<Rightarrow> ('cb, 'k) io_manager list res" where
  "Random_schedule rand api threads p managers = addRemoteTask_at api (uint (rand 0 (threads - 1))) p managers"

text \<open>The first component of the state is the static counter of the function.\<close>

definition Sequence_schedule ::
    "'k kernel_api \<Rightarrow> u64 \<Rightarrow> eptr \<Rightarrow> u64 \<times> ('cb, 'k) io_manager list \<Rightarrow> (u64 \<times> ('cb, 'k) io_manager list) res" where
  "Sequence_schedule api threads p s =
     (if threads = 0 then Err DivByZero
      else res_bind (addRemoteTask_at api (uint (fst s mod threads)) p (snd s)) (\<lambda>ms. Ok (fst s + 1, ms)))"

text \<open>The loop that goes down to a priority with workers; the vector is read before the bound is tested.\<close>

function prio_down :: "int \<Rightarrow> 'm list list \<Rightarrow> int res" where
  "prio_down prio prio_workers =
     (if 0 \<le> prio \<and> prio < int (length prio_workers)
      then if prio_workers ! nat prio = [] then prio_down (prio - 1) prio_workers else Ok prio
      else Err OutOfBounds)"
  by pat_completeness auto
termination by (relation "measure (\<lambda>(prio, _). nat (prio + 1))") auto

declare prio_down.simps [simp del]

text \<open>\<open>arg\<close> is \<open>None\<close> when the \<open>any\<close> holds no \<open>int\<close>.\<close>

definition Prio_schedule ::
    "(u64 \<Rightarrow> u64 \<Rightarrow> u64) \<Rightarrow> 'k kernel_api \<Rightarrow> int option \<Rightarrow> eptr \<Rightarrow> ('cb, 'k) io_manager list list
       \<Rightarrow> ('cb, 'k) io_manager list list res" where
  "Prio_schedule rand api arg p prio_workers =
     (case arg of
        None \<Rightarrow> Ok prio_workers
      | Some prio \<Rightarrow>
          let prio = (if prio > int (length prio_workers) - 1 then int (length prio_workers) - 1 else prio)
          in res_bind (prio_down prio prio_workers) (\<lambda>prio.
               if prio = - 1 then Ok prio_workers
               else res_bind (vec_get prio_workers prio) (\<lambda>ws.
                    res_bind (addRemoteTask_at api (uint (rand 0 (word_of_nat (length ws) - 1))) p ws) (\<lambda>ws.
                      vec_set prio_workers prio ws))))"

section \<open>The contract of a balancer\<close>

text \<open>
  \<open>IOWorkBalancer\<close>: a call that returns has put the task into the queues of exactly one of the
  managers behind the balancer, and it is not lost. \<open>accepts\<close> are the states in which the
  balancer keeps the promise.
\<close>

locale work_balancer =
  fixes schedule :: "eptr \<Rightarrow> 's \<Rightarrow> 's res" and pending :: "'s \<Rightarrow> eptr multiset" and accepts :: "'s \<Rightarrow> bool"
  assumes schedule_adds: "accepts s \<Longrightarrow> schedule p s = Ok s' \<Longrightarrow> pending s' = add_mset p (pending s)"
    and schedule_accepts: "accepts s \<Longrightarrow> schedule p s = Ok s' \<Longrightarrow> accepts s'"
begin

lemma batch_conserved:
  "accepts s \<Longrightarrow> fold_res schedule ps s = Ok s' \<Longrightarrow> accepts s' \<and> pending s' = mset ps + pending s"
proof (induction ps arbitrary: s)
  case (Cons p ps)
  from Cons.prems(2) obtain s1 where s1: "schedule p s = Ok s1" "fold_res schedule ps s1 = Ok s'" by auto
  then show ?case
    using Cons.IH [OF schedule_accepts [OF Cons.prems(1) s1(1)] s1(2)] schedule_adds [OF Cons.prems(1) s1(1)] by simp
qed simp

end

text \<open>A balancer that returns: \<open>serves\<close> are the states in which a call is sure to be carried out.\<close>

locale serving_balancer = work_balancer schedule pending accepts
  for schedule :: "eptr \<Rightarrow> 's \<Rightarrow> 's res" and pending :: "'s \<Rightarrow> eptr multiset" and accepts :: "'s \<Rightarrow> bool" +
  fixes serves :: "'s \<Rightarrow> bool"
  assumes schedule_returns: "serves s \<Longrightarrow> \<exists>s'. schedule p s = Ok s' \<and> serves s'"
begin

lemma batch_returns: "serves s \<Longrightarrow> \<exists>s'. fold_res schedule ps s = Ok s'"
proof (induction ps arbitrary: s)
  case (Cons p ps)
  then show ?case using schedule_returns [OF Cons.prems, of p] by auto
qed simp

lemma batch_carried_out: "serves s \<Longrightarrow> accepts s \<Longrightarrow> \<exists>s'. fold_res schedule ps s = Ok s' \<and> pending s' = mset ps + pending s"
  using batch_returns batch_conserved by blast

end

section \<open>The four balancers keep it\<close>

text \<open>The tasks waiting in a manager, and in a vector of managers.\<close>

definition mgr_pending :: "('cb, 'k) io_manager \<Rightarrow> eptr multiset" where
  "mgr_pending m = mset (List.map_filter (\<lambda>x. x) (ready_executors (io_sch m))) + mset (remote_tasks (io_sch m))"

definition group_pending :: "('cb, 'k) io_manager list \<Rightarrow> eptr multiset" where
  "group_pending ms = sum_list (map mgr_pending ms)"

definition levels_pending :: "('cb, 'k) io_manager list list \<Rightarrow> eptr multiset" where
  "levels_pending ws = sum_list (map group_pending ws)"

lemma sum_list_add_at:
  "i < length xs \<Longrightarrow> f y = add_mset p (f (xs ! i)) \<Longrightarrow> sum_list (map f (xs[i := y])) = add_mset p (sum_list (map f xs))"
proof (induction xs arbitrary: i)
  case (Cons x xs)
  then show ?case by (cases i) auto
qed simp

lemma addRemoteTask_sch:
  "addRemoteTask api p m = Ok m' \<Longrightarrow> io_sch m' = (io_sch m)\<lparr>remote_tasks := p # remote_tasks (io_sch m)\<rparr>"
  by (auto simp: addRemoteTask_def wakeup_def asserted_def upd_sch_def io_sch_def addRemoteExecutor_def insertFront_def
      split: prod.splits sum.splits)

lemma addRemoteTask_pending: "addRemoteTask api p m = Ok m' \<Longrightarrow> mgr_pending m' = add_mset p (mgr_pending m)"
  by (simp add: mgr_pending_def addRemoteTask_sch)

lemma addRemoteTask_at_cases:
  assumes "addRemoteTask_at api i p ms = Ok ms'"
  obtains m where "0 \<le> i" and "nat i < length ms" and "addRemoteTask api p (ms ! nat i) = Ok m" and "ms' = ms[nat i := m]"
  using assms by (auto simp: addRemoteTask_at_def vec_get_def vec_set_def split: if_splits)

lemma addRemoteTask_at_pending: "addRemoteTask_at api i p ms = Ok ms' \<Longrightarrow> group_pending ms' = add_mset p (group_pending ms)"
  unfolding group_pending_def by (elim addRemoteTask_at_cases) (simp add: sum_list_add_at addRemoteTask_pending)

lemma prio_down_range: "prio_down prio ws = Ok q \<Longrightarrow> 0 \<le> q \<and> q < int (length ws)"
proof (induction prio ws rule: prio_down.induct)
  case (1 prio ws)
  then show ?case by (simp add: prio_down.simps [of prio ws] split: if_splits)
qed

lemma Prio_schedule_pending:
  "Prio_schedule rand api (Some prio) p ws = Ok ws' \<Longrightarrow> levels_pending ws' = add_mset p (levels_pending ws)"
  unfolding levels_pending_def Prio_schedule_def
  by (auto simp: Let_def vec_get_def vec_set_def dest!: prio_down_range addRemoteTask_at_pending
      intro!: sum_list_add_at split: if_splits)
     linarith+

interpretation simple: work_balancer Simple_schedule mgr_pending "\<lambda>m. \<not> stopping (io_sch m)"
  by unfold_locales
    (auto simp: Simple_schedule_def io_addExecutor_def addExecutor_def ready_push_def upd_sch_def io_sch_def mgr_pending_def
      map_filter_def)

interpretation random: work_balancer "Random_schedule rand api threads" group_pending "\<lambda>_. True" for rand api threads
  by unfold_locales (auto simp: Random_schedule_def addRemoteTask_at_pending)

interpretation sequence: work_balancer "Sequence_schedule api threads" "\<lambda>s. group_pending (snd s)" "\<lambda>_. True" for api threads
  by unfold_locales (auto simp: Sequence_schedule_def addRemoteTask_at_pending split: if_splits)

interpretation prio: work_balancer "Prio_schedule rand api (Some prio)" levels_pending "\<lambda>_. True" for rand api prio
  by unfold_locales (auto simp: Prio_schedule_pending)

section \<open>The sequential balancer\<close>

text \<open>The tasks of a batch that fall to manager \<open>k\<close> when the first one has number \<open>c\<close>, latest first.\<close>

fun share :: "nat \<Rightarrow> nat \<Rightarrow> nat \<Rightarrow> eptr list \<Rightarrow> eptr list" where
  "share T k c [] = []"
| "share T k c (p # ps) = share T k (Suc c) ps @ (if c mod T = k then [p] else [])"

lemma length_share: "length (share T k c ps) = length (filter (\<lambda>j. j mod T = k) [c ..< c + length ps])"
proof (induction ps arbitrary: c)
  case (Cons p ps)
  have "[c ..< c + length (p # ps)] = c # [Suc c ..< Suc c + length ps]"
    by (simp add: upt_conv_Cons del: upt_Suc)
  then show ?case using Cons [of "Suc c"] by simp
qed simp

lemma set_share: "set (share T k c ps) \<subseteq> set ps"
  by (induction ps arbitrary: c) (auto split: if_splits)

text \<open>In \<open>T\<close> consecutive numbers every residue occurs once.\<close>

lemma block_once: "0 < T \<Longrightarrow> k < T \<Longrightarrow> length (filter (\<lambda>j. j mod T = k) [c ..< c + T]) = 1"
proof (induction c)
  case 0
  then have "[0 ..< 0 + T] = [0 ..< k] @ k # [Suc k ..< T]"
    using upt_add_eq_append [of 0 k "T - k"] by (simp add: upt_conv_Cons)
  moreover have "filter (\<lambda>j. j mod T = k) [0 ..< k] = []" "filter (\<lambda>j. j mod T = k) [Suc k ..< T] = []"
    using 0 by (auto simp: filter_empty_conv)
  ultimately show ?case using 0 by simp
next
  case (Suc c)
  have "[c ..< c + T] = c # [Suc c ..< c + T]" and "[Suc c ..< Suc c + T] = [Suc c ..< c + T] @ [c + T]"
    using Suc(2) by (auto simp: upt_conv_Cons)
  then show ?case using Suc by (simp split: if_splits)
qed

lemma blocks_n: "0 < T \<Longrightarrow> k < T \<Longrightarrow> length (filter (\<lambda>j. j mod T = k) [c ..< c + n * T]) = n"
proof (induction n)
  case (Suc n)
  have "[c ..< c + Suc n * T] = [c ..< c + n * T] @ [c + n * T ..< (c + n * T) + T]"
    using upt_add_eq_append [of c "c + n * T" T] by (simp add: algebra_simps)
  then show ?case using Suc block_once [of T k "c + n * T"] by simp
qed simp


text \<open>What is used of \<open>write(2)\<close> on the wake-up pipe: it takes the byte.\<close>

definition pipe_writable :: "'k kernel_api \<Rightarrow> bool" where
  "pipe_writable api \<longleftrightarrow> (\<forall>i k. \<exists>n k'. sys_write api i ''1'' k = (Inr n, k'))"

lemma addRemoteTask_returns:
  assumes "pipe_writable api"
  obtains m' where "addRemoteTask api p m = Ok m'" and "io_sch m' = (io_sch m)\<lparr>remote_tasks := p # remote_tasks (io_sch m)\<rparr>"
proof -
  let ?m = "upd_sch (snd (addRemoteExecutor p (io_sch m))) m"
  obtain n k' where "sys_write api (snd (wakeup_pipe_fd ?m)) ''1'' (kern ?m) = (Inr n, k')"
    using assms unfolding pipe_writable_def by fast
  then have "addRemoteTask api p m = Ok (?m\<lparr>kern := k'\<rparr>)" by (simp add: addRemoteTask_def wakeup_def asserted_def)
  then show ?thesis using that addRemoteTask_sch by blast
qed

lemma Sequence_all_share:
  fixes ms :: "('cb, 'k) io_manager list"
  assumes "pipe_writable api" and "0 < unat threads" and "unat threads = length ms" and "unat c + length ps < 2 ^ 64"
  shows "\<exists>ms'. fold_res (Sequence_schedule api threads) ps (c, ms) = Ok (c + word_of_nat (length ps), ms') \<and> length ms' = length ms
    \<and> (\<forall>k < length ms. io_sch (ms' ! k) =
         (io_sch (ms ! k))\<lparr>remote_tasks := share (length ms) k (unat c) ps @ remote_tasks (io_sch (ms ! k))\<rparr>)"
  using assms(2-)
proof (induction ps arbitrary: c ms)
  case (Cons p ps)
  let ?i = "unat c mod length ms"
  obtain m' where m': "addRemoteTask api p (ms ! ?i) = Ok m'"
    "io_sch m' = (io_sch (ms ! ?i))\<lparr>remote_tasks := p # remote_tasks (io_sch (ms ! ?i))\<rparr>"
    using assms(1) by (rule addRemoteTask_returns)
  let ?ms = "ms[?i := m']"
  have i: "uint (c mod threads) = int ?i" using Cons.prems(2) by (simp add: uint_mod zmod_int flip: Cons.prems(2))
  have l: "?i < length ms" using Cons.prems(1,2) by simp
  then have s: "Sequence_schedule api threads p (c, ms) = Ok (c + 1, ?ms)"
    using Cons.prems(1) i m'(1) by (auto simp: Sequence_schedule_def addRemoteTask_at_def vec_get_def vec_set_def)
  have c1: "unat (c + 1) = Suc (unat c)" using Cons.prems(3) by (simp add: unat_word_ariths)
  then have "0 < unat threads" "unat threads = length ?ms" "unat (c + 1) + length ps < 2 ^ 64" using Cons.prems by simp_all
  from Cons.IH [OF this] obtain ms' where
    ms': "fold_res (Sequence_schedule api threads) ps (c + 1, ?ms) = Ok (c + 1 + word_of_nat (length ps), ms')"
    "length ms' = length ms"
    "\<forall>k < length ms. io_sch (ms' ! k) = (io_sch (?ms ! k))
       \<lparr>remote_tasks := share (length ms) k (Suc (unat c)) ps @ remote_tasks (io_sch (?ms ! k))\<rparr>"
    unfolding c1 by auto
  have "\<forall>k < length ms. io_sch (ms' ! k) =
      (io_sch (ms ! k))\<lparr>remote_tasks := share (length ms) k (unat c) (p # ps) @ remote_tasks (io_sch (ms ! k))\<rparr>"
    using ms'(3) l m'(2) by (auto simp: nth_list_update)
  then show ?case using s ms'(1,2) by (auto simp: algebra_simps)
qed auto

text \<open>
  The sequential balancer is fair: when every thread has entered its manager into the vector,
  a batch of \<open>n\<close> tasks per thread is accepted, and each manager receives exactly \<open>n\<close> of them, in
  front of what it had, its other queues untouched, whatever the counter stands at (short of
  its own wrap-around).
\<close>

theorem sequence_balancer_fair:
  fixes ms :: "('cb, 'k) io_manager list"
  assumes "pipe_writable api" and "0 < unat threads" and "unat threads = length ms"
    and "length ps = n * length ms" and "unat c + length ps < 2 ^ 64"
  shows "\<exists>ms'. fold_res (Sequence_schedule api threads) ps (c, ms) = Ok (c + word_of_nat (length ps), ms')
    \<and> length ms' = length ms
    \<and> (\<forall>k < length ms. \<exists>given. length given = n \<and> set given \<subseteq> set ps
          \<and> io_sch (ms' ! k) = (io_sch (ms ! k))\<lparr>remote_tasks := given @ remote_tasks (io_sch (ms ! k))\<rparr>)"
proof -
  obtain ms' where ms': "fold_res (Sequence_schedule api threads) ps (c, ms) = Ok (c + word_of_nat (length ps), ms')"
    "length ms' = length ms"
    "\<forall>k < length ms. io_sch (ms' ! k) =
       (io_sch (ms ! k))\<lparr>remote_tasks := share (length ms) k (unat c) ps @ remote_tasks (io_sch (ms ! k))\<rparr>"
    using Sequence_all_share [OF assms(1-3,5)] by blast
  have "length (share (length ms) k (unat c) ps) = n" if "k < length ms" for k
    unfolding length_share assms(4) using that by (intro blocks_n) auto
  then show ?thesis using ms' set_share by blast
qed

theorem sequence_balancer_fair_witness:
  "\<exists>m ms'. demo_io = Ok m
    \<and> fold_res (Sequence_schedule demo_api 2) [11, 12, 13, 14] (5, [m, m]) = Ok (5 + word_of_nat (length [11, 12, 13, 14 :: nat]), ms')
    \<and> length ms' = 2"
proof -
  obtain m where m: "demo_io = Ok m" using demo_io_ok by blast
  have "pipe_writable demo_api" by (simp add: pipe_writable_def demo_api_def)
  from sequence_balancer_fair [OF this, of 2 "[m, m]" "[11, 12, 13, 14]" 2 5] show ?thesis using m by auto
qed

section \<open>The priority balancer\<close>

lemma prio_down_highest:
  assumes "0 \<le> prio" and "prio < int (length ws)"
  shows "if \<exists>q. 0 \<le> q \<and> q \<le> prio \<and> ws ! nat q \<noteq> []
    then \<exists>q. prio_down prio ws = Ok q \<and> 0 \<le> q \<and> q \<le> prio \<and> ws ! nat q \<noteq> [] \<and> (\<forall>r. q < r \<and> r \<le> prio \<longrightarrow> ws ! nat r = [])
    else prio_down prio ws = Err OutOfBounds"
  using assms
proof (induction prio ws rule: prio_down.induct)
  case (1 prio ws)
  show ?case
  proof (cases "ws ! nat prio = []")
    case False
    then show ?thesis using 1(2,3) by (auto simp: prio_down.simps [of prio])
  next
    case True
    then have e: "prio_down prio ws = prio_down (prio - 1) ws" using 1(2,3) by (simp add: prio_down.simps [of prio])
    have ex: "(\<exists>q. 0 \<le> q \<and> q \<le> prio \<and> ws ! nat q \<noteq> []) \<longleftrightarrow> (\<exists>q. 0 \<le> q \<and> q \<le> prio - 1 \<and> ws ! nat q \<noteq> [])"
      using True by (metis linorder_not_le order_less_le zle_diff1_eq)
    show ?thesis
    proof (cases "prio = 0")
      case t: True
      then show ?thesis using e ex by (auto simp: prio_down.simps [of "- 1"])
    next
      case False
      have "\<forall>r. q < r \<and> r \<le> prio - 1 \<longrightarrow> ws ! nat r = [] \<Longrightarrow> \<forall>r. q < r \<and> r \<le> prio \<longrightarrow> ws ! nat r = []" for q
        using True by (metis order_less_le zle_diff1_eq)
      then show ?thesis using 1 True False e ex by (fastforce split: if_splits)
    qed
  qed
qed

text \<open>What is used of a uniform generator: the number lies in the range.\<close>

definition rand_in_range :: "(u64 \<Rightarrow> u64 \<Rightarrow> u64) \<Rightarrow> bool" where
  "rand_in_range rand \<longleftrightarrow> (\<forall>lo hi. lo \<le> hi \<longrightarrow> lo \<le> rand lo hi \<and> rand lo hi \<le> hi)"

lemma rand_index:
  assumes "rand_in_range rand" and "0 < n" and "n < 2 ^ 64"
  shows "nat (uint (rand 0 (word_of_nat n - 1))) < n"
proof -
  have "rand 0 (word_of_nat n - 1) \<le> word_of_nat n - 1" using assms(1) by (simp add: rand_in_range_def)
  then have "unat (rand 0 (word_of_nat n - 1)) \<le> unat (word_of_nat n - 1 :: u64)" by (simp add: word_le_nat_alt)
  also have "unat (word_of_nat n - 1 :: u64) = n - 1"
    using assms(2,3) by (subst unat_sub) (simp_all add: word_le_nat_alt unat_of_nat_u64)
  finally show ?thesis using assms(2) by (simp flip: unat_eq_nat_uint)
qed

text \<open>
  A task given with a priority goes to a worker of the highest level that has workers, not
  above the requested one (a request above the last level counts as the last level). When no
  such level has workers the loop reads the vector at -1 before it tests the index, so
  the branch that reports the missing worker is never reached.
\<close>

theorem prio_balancer_schedules:
  fixes ws :: "('cb, 'k) io_manager list list"
  assumes "pipe_writable api" and "rand_in_range rand" and "\<forall>l \<in> set ws. length l < 2 ^ 64"
    and "0 \<le> prio" and "ws \<noteq> []" and "highest = min (nat prio) (length ws - 1)"
  shows "if \<exists>q \<le> highest. ws ! q \<noteq> []
    then \<exists>q j m'. q \<le> highest \<and> j < length (ws ! q) \<and> (\<forall>r. q < r \<and> r \<le> highest \<longrightarrow> ws ! r = [])
      \<and> Prio_schedule rand api (Some prio) p ws = Ok (ws[q := (ws ! q)[j := m']])
      \<and> addRemoteTask api p (ws ! q ! j) = Ok m'
    else Prio_schedule rand api (Some prio) p ws = Err OutOfBounds"
proof -
  let ?t = "if prio > int (length ws) - 1 then int (length ws) - 1 else prio"
  have t: "0 \<le> ?t" "?t < int (length ws)" "nat ?t = highest" using assms(4-6) by (auto simp: Suc_le_eq)
  have ex: "(\<exists>q. 0 \<le> q \<and> q \<le> ?t \<and> ws ! nat q \<noteq> []) \<longleftrightarrow> (\<exists>q \<le> highest. ws ! q \<noteq> [])"
    using t by (metis nat_0_le nat_int nat_mono of_nat_0_le_iff zle_int)
  note d = prio_down_highest [OF t(1,2), unfolded ex]
  show ?thesis
  proof (cases "\<exists>q \<le> highest. ws ! q \<noteq> []")
    case False
    then have "prio_down ?t ws = Err OutOfBounds" using d by auto
    then show ?thesis using False by (simp add: Prio_schedule_def Let_def)
  next
    case True
    then obtain q where q: "prio_down ?t ws = Ok q" "0 \<le> q" "q \<le> ?t" "ws ! nat q \<noteq> []"
      "\<forall>r. q < r \<and> r \<le> ?t \<longrightarrow> ws ! nat r = []" using d by auto
    let ?l = "ws ! nat q" and ?j = "nat (uint (rand 0 (word_of_nat (length (ws ! nat q)) - 1)))"
    have ql: "nat q < length ws" using q(2,3) t(2) by linarith
    have j: "?j < length ?l" using rand_index [OF assms(2)] q(4) assms(3) ql by simp
    have qi: "q < int (length ws)" and ji: "uint (rand 0 (word_of_nat (length ?l) - 1)) < int (length ?l)"
      using ql j by linarith+
    obtain m' where m': "addRemoteTask api p (?l ! ?j) = Ok m'" using assms(1) by (rule addRemoteTask_returns)
    have "Prio_schedule rand api (Some prio) p ws = Ok (ws[nat q := ?l[?j := m']])"
      using q(1,2) m' qi ji by (simp add: Prio_schedule_def Let_def addRemoteTask_at_def vec_get_def vec_set_def)
    moreover have "\<forall>r. nat q < r \<and> r \<le> highest \<longrightarrow> ws ! r = []"
      using q(2,5) t(1,3) by (metis nat_int nat_less_iff nat_mono_iff of_nat_0_le_iff zle_int int_nat_eq)
    moreover have "nat q \<le> highest" using q(3) t(3) by linarith
    ultimately show ?thesis using True j m' by auto
  qed
qed

theorem prio_balancer_schedules_witness:
  "\<exists>m m'. demo_io = Ok m \<and> Prio_schedule (\<lambda>lo hi. lo) demo_api (Some 9) 11 [[], [m], []] = Ok [[], [m'], []]"
proof -
  obtain m where m: "demo_io = Ok m" using demo_io_ok by blast
  have a: "pipe_writable demo_api" "rand_in_range (\<lambda>lo hi. lo)"
    by (simp_all add: pipe_writable_def demo_api_def rand_in_range_def)
  have "\<exists>q \<le> 2. [[], [m], []] ! q \<noteq> []" by (intro exI [of _ "1 :: nat"]) simp
  moreover have "\<forall>l \<in> set [[], [m], []]. length l < 2 ^ 64" by (simp add: one_less_power flip: numeral_2_eq_2)
  then have "if \<exists>q \<le> 2. [[], [m], []] ! q \<noteq> []
    then \<exists>q j m'. q \<le> 2 \<and> j < length ([[], [m], []] ! q) \<and> (\<forall>r. q < r \<and> r \<le> 2 \<longrightarrow> [[], [m], []] ! r = [])
      \<and> Prio_schedule (\<lambda>lo hi. lo) demo_api (Some 9) 11 [[], [m], []] = Ok ([[], [m], []][q := ([[], [m], []] ! q)[j := m']])
      \<and> addRemoteTask demo_api 11 ([[], [m], []] ! q ! j) = Ok m'
    else Prio_schedule (\<lambda>lo hi. lo) demo_api (Some 9) 11 [[], [m], []] = Err OutOfBounds"
    by (intro prio_balancer_schedules [OF a]) simp_all
  ultimately obtain q j m' where "q \<le> 2" "j < length ([[], [m], []] ! q)"
    "Prio_schedule (\<lambda>lo hi. lo) demo_api (Some 9) 11 [[], [m], []] = Ok ([[], [m], []][q := ([[], [m], []] ! q)[j := m']])"
    by (simp only: if_True) blast
  moreover then have "q = 1 \<and> j = 0" by (cases q) (auto simp: less_Suc_eq_0_disj nth_Cons' split: if_splits)
  ultimately show ?thesis using m by auto
qed

section \<open>All of them\<close>

lemma addRemoteTask_at_returns:
  assumes "pipe_writable api" and "0 \<le> i" and "i < int (length ms)"
  shows "\<exists>ms'. addRemoteTask_at api i p ms = Ok ms' \<and> length ms' = length ms"
proof -
  obtain m' where "addRemoteTask api p (ms ! nat i) = Ok m'" using assms(1) by (rule addRemoteTask_returns)
  then show ?thesis using assms(2,3) by (simp add: addRemoteTask_at_def vec_get_def vec_set_def)
qed

text \<open>Every thread has entered its manager into the vector.\<close>

definition complete :: "'k kernel_api \<Rightarrow> u64 \<Rightarrow> ('cb, 'k) io_manager list \<Rightarrow> bool" where
  "complete api threads ms \<longleftrightarrow> pipe_writable api \<and> 0 < unat threads \<and> unat threads = length ms"

interpretation simple: serving_balancer Simple_schedule mgr_pending "\<lambda>m. \<not> stopping (io_sch m)" "\<lambda>_. True"
  by unfold_locales (simp add: Simple_schedule_def)

lemma Random_returns:
  assumes "rand_in_range rand" and "complete api threads ms"
  shows "\<exists>ms'. Random_schedule rand api threads p ms = Ok ms' \<and> complete api threads ms'"
proof -
  have "unat threads = length ms" using assms(2) by (simp add: complete_def)
  from arg_cong [OF this, of "word_of_nat :: nat \<Rightarrow> u64"] have "word_of_nat (length ms) = threads" by simp
  moreover have "length ms < 2 ^ 64" "0 < length ms" using assms(2) unat_u64_less [of threads] by (auto simp: complete_def)
  ultimately have "nat (uint (rand 0 (threads - 1))) < length ms" using rand_index [OF assms(1), of "length ms"] by simp
  then have "uint (rand 0 (threads - 1)) < int (length ms)" by linarith
  then show ?thesis
    using addRemoteTask_at_returns [of api "uint (rand 0 (threads - 1))" ms p] assms(2)
    by (auto simp: Random_schedule_def complete_def)
qed

lemma Sequence_returns:
  assumes "complete api threads (snd s)"
  shows "\<exists>s'. Sequence_schedule api threads p s = Ok s' \<and> complete api threads (snd s')"
proof -
  note c = assms [unfolded complete_def, THEN conjunct2]
  have "unat (fst s mod threads) = unat (fst s) mod unat threads" by (rule unat_mod_distrib)
  moreover note c [THEN conjunct1] c [THEN conjunct2]
  ultimately have "unat (fst s mod threads) < length (snd s)" by (metis mod_less_divisor)
  then have "nat (uint (fst s mod threads)) < length (snd s)" by (simp only: unat_eq_nat_uint)
  then have "uint (fst s mod threads) < int (length (snd s))" by linarith
  then obtain ms' where "addRemoteTask_at api (uint (fst s mod threads)) p (snd s) = Ok ms'" "length ms' = length (snd s)"
    using addRemoteTask_at_returns [of api "uint (fst s mod threads)" "snd s" p] assms [unfolded complete_def, THEN conjunct1] by auto
  moreover have "threads \<noteq> 0" using c by auto
  moreover have "complete api threads ms'" using assms \<open>length ms' = length (snd s)\<close> unfolding complete_def by metis
  ultimately show ?thesis by (simp add: Sequence_schedule_def)
qed

interpretation random: serving_balancer "Random_schedule rand api threads" group_pending "\<lambda>_. True"
    "\<lambda>ms. rand_in_range rand \<and> complete api threads ms" for rand api threads
  by unfold_locales (use Random_returns in blast)

interpretation sequence: serving_balancer "Sequence_schedule api threads" "\<lambda>s. group_pending (snd s)" "\<lambda>_. True"
    "\<lambda>s. complete api threads (snd s)" for api threads
  by unfold_locales (use Sequence_returns in blast)

text \<open>Some level at or below the priority has a worker.\<close>

definition level_serves :: "('cb, 'k) io_manager list list \<Rightarrow> int \<Rightarrow> bool" where
  "level_serves ws prio \<longleftrightarrow> 0 \<le> prio \<and> (\<exists>q \<le> nat prio. q < length ws \<and> ws ! q \<noteq> [])"

lemma Prio_schedule_returns:
  assumes "pipe_writable api" and "rand_in_range rand" and "\<forall>l \<in> set ws. length l < 2 ^ 64" and "level_serves ws prio"
  shows "\<exists>ws'. Prio_schedule rand api (Some prio) p ws = Ok ws' \<and> map length ws' = map length ws"
proof -
  have "0 \<le> prio" "ws \<noteq> []" "\<exists>q \<le> min (nat prio) (length ws - 1). ws ! q \<noteq> []"
    using assms(4) by (auto simp: level_serves_def intro: exI)
  then obtain q j m' where "q \<le> min (nat prio) (length ws - 1)"
    "Prio_schedule rand api (Some prio) p ws = Ok (ws[q := (ws ! q)[j := m']])"
    using prio_balancer_schedules [OF assms(1-3) _ _ refl, of prio p] by auto
  moreover then have "q < length ws" using \<open>ws \<noteq> []\<close> by (cases ws) auto
  then have "map length (ws[q := (ws ! q)[j := m']]) = map length ws" by (intro nth_equalityI) (auto simp: nth_list_update)
  ultimately show ?thesis by blast
qed

lemma level_serves_length: "map length ws' = map length ws \<Longrightarrow> level_serves ws' prio \<longleftrightarrow> level_serves ws prio"
proof -
  assume l: "map length ws' = map length ws"
  then have "length ws' = length ws" by (rule map_eq_imp_length_eq)
  moreover then have "ws' ! q = [] \<longleftrightarrow> ws ! q = []" if "q < length ws" for q
    using arg_cong [OF l, of "\<lambda>xs. xs ! q"] that by auto
  ultimately show ?thesis by (auto simp: level_serves_def)
qed

definition levels_serve :: "(u64 \<Rightarrow> u64 \<Rightarrow> u64) \<Rightarrow> 'k kernel_api \<Rightarrow> int \<Rightarrow> ('cb, 'k) io_manager list list \<Rightarrow> bool" where
  "levels_serve rand api prio ws \<longleftrightarrow>
     pipe_writable api \<and> rand_in_range rand \<and> (\<forall>l \<in> set ws. length l < 2 ^ 64) \<and> level_serves ws prio"

lemma levels_serve_returns:
  assumes "levels_serve rand api prio ws"
  shows "\<exists>ws'. Prio_schedule rand api (Some prio) p ws = Ok ws' \<and> levels_serve rand api prio ws'"
proof -
  obtain ws' where ws': "Prio_schedule rand api (Some prio) p ws = Ok ws'" "map length ws' = map length ws"
    using Prio_schedule_returns assms unfolding levels_serve_def by blast
  have "length ` set ws' = length ` set ws" using arg_cong [OF ws'(2), of set] by simp
  then have "\<forall>l \<in> set ws'. length l < 2 ^ 64" using assms unfolding levels_serve_def by (metis imageE imageI)
  then show ?thesis using assms ws'(1) level_serves_length [OF ws'(2)] unfolding levels_serve_def by blast
qed

interpretation prio: serving_balancer "Prio_schedule rand api (Some prio)" levels_pending "\<lambda>_. True"
    "levels_serve rand api prio" for rand api prio
  by unfold_locales (rule levels_serve_returns)

text \<open>The tasks of a batch of calls that come with an \<open>int\<close>; the others are logged and dropped.\<close>

definition with_prio :: "(int option \<times> eptr) list \<Rightarrow> eptr list" where
  "with_prio calls = map snd (filter (\<lambda>c. fst c \<noteq> None) calls)"

lemma Prio_calls:
  "\<forall>c \<in> set calls. \<forall>prio. fst c = Some prio \<longrightarrow> levels_serve rand api prio ws \<Longrightarrow>
    \<exists>ws'. fold_res (\<lambda>c. Prio_schedule rand api (fst c) (snd c)) calls ws = Ok ws'
      \<and> levels_pending ws' = mset (with_prio calls) + levels_pending ws"
proof (induction calls arbitrary: ws)
  case (Cons c calls)
  show ?case
  proof (cases "fst c")
    case None
    then show ?thesis using Cons by (simp add: Prio_schedule_def with_prio_def)
  next
    case (Some prio)
    then have l: "levels_serve rand api prio ws" using Cons.prems by simp
    then obtain ws1 where ws1: "Prio_schedule rand api (Some prio) (snd c) ws = Ok ws1" "map length ws1 = map length ws"
      "levels_serve rand api prio ws1"
      using Prio_schedule_returns [of api rand ws prio "snd c"] levels_serve_returns [OF l, of "snd c"] unfolding levels_serve_def by auto
    then have "levels_serve rand api q ws1" if "levels_serve rand api q ws" for q
      using that level_serves_length [OF ws1(2), of q] unfolding levels_serve_def by blast
    then show ?thesis
      using Cons.IH [of ws1] Cons.prems ws1(1) Some Prio_schedule_pending [OF ws1(1)] by (auto simp: with_prio_def)
  qed
qed (simp add: with_prio_def)

lemma Simple_stopping: "stopping (io_sch m) \<Longrightarrow> fold_res Simple_schedule ps m = Ok m"
  by (induction ps) (simp_all add: Simple_schedule_def io_addExecutor_def addExecutor_def upd_sch_def io_sch_def)

text \<open>
  C25. What happens to the tasks given to a balancer, for every balancer and every batch of calls. The
  random and the sequential balancer, once every thread has entered its manager, carry out every
  call: the waiting tasks of the managers are afterwards those from before and those of the batch, each
  once. The priority balancer does so for the calls with an \<open>int\<close> for which some level at or below it has
  workers, and drops the tasks of the calls without an \<open>int\<close> (such as the default argument), and only those. The simple
  balancer passes every task to its manager, unless that is stopping: then it drops all of them.
\<close>

theorem balancers_conserve_tasks:
  fixes ms :: "('cb, 'k) io_manager list" and ws :: "('cb, 'k) io_manager list list"
  assumes "pipe_writable api" and "rand_in_range rand"
  shows "(\<exists>m'. fold_res Simple_schedule ps m = Ok m'
        \<and> mgr_pending m' = (if stopping (io_sch m) then {#} else mset ps) + mgr_pending m)
    \<and> (0 < unat threads \<and> unat threads = length ms \<longrightarrow>
        (\<exists>ms'. fold_res (Random_schedule rand api threads) ps ms = Ok ms' \<and> group_pending ms' = mset ps + group_pending ms)
        \<and> (\<exists>c' ms'. fold_res (Sequence_schedule api threads) ps (c, ms) = Ok (c', ms') \<and> group_pending ms' = mset ps + group_pending ms))
    \<and> ((\<forall>l \<in> set ws. length l < 2 ^ 64) \<and> (\<forall>c \<in> set calls. \<forall>prio. fst c = Some prio \<longrightarrow> level_serves ws prio) \<longrightarrow>
        (\<exists>ws'. fold_res (\<lambda>c. Prio_schedule rand api (fst c) (snd c)) calls ws = Ok ws'
          \<and> levels_pending ws' = mset (with_prio calls) + levels_pending ws))"
proof (intro conjI impI; (elim conjE)?)
  show "\<exists>m'. fold_res Simple_schedule ps m = Ok m' \<and> mgr_pending m' = (if stopping (io_sch m) then {#} else mset ps) + mgr_pending m"
    using Simple_stopping [of m ps] simple.batch_carried_out [of m ps] by (cases "stopping (io_sch m)") auto
  assume t: "0 < unat threads" "unat threads = length ms"
  show "\<exists>ms'. fold_res (Random_schedule rand api threads) ps ms = Ok ms' \<and> group_pending ms' = mset ps + group_pending ms"
    using random.batch_carried_out [of rand api threads ms ps] assms t by (simp add: complete_def)
  show "\<exists>c' ms'. fold_res (Sequence_schedule api threads) ps (c, ms) = Ok (c', ms') \<and> group_pending ms' = mset ps + group_pending ms"
    using sequence.batch_carried_out [of api threads "(c, ms)" ps] assms t by (simp add: complete_def)
next
  assume "\<forall>l \<in> set ws. length l < 2 ^ 64" "\<forall>c \<in> set calls. \<forall>prio. fst c = Some prio \<longrightarrow> level_serves ws prio"
  then show "\<exists>ws'. fold_res (\<lambda>c. Prio_schedule rand api (fst c) (snd c)) calls ws = Ok ws'
      \<and> levels_pending ws' = mset (with_prio calls) + levels_pending ws"
    using assms by (intro Prio_calls) (simp add: levels_serve_def)
qed

theorem balancers_conserve_tasks_witness:
  "\<exists>m. demo_io = Ok m
    \<and> (\<exists>m'. fold_res Simple_schedule [11, 12] m = Ok m' \<and> mgr_pending m' = {#11, 12#} + mgr_pending m)
    \<and> (\<exists>ms'. fold_res (Random_schedule (\<lambda>lo hi. hi) demo_api 2) [11, 12] [m, m] = Ok ms' \<and> group_pending ms' = {#11, 12#} + group_pending [m, m])
    \<and> (\<exists>ws'. fold_res (\<lambda>c. Prio_schedule (\<lambda>lo hi. hi) demo_api (fst c) (snd c)) [(Some 9, 11), (None, 12), (Some 1, 13)] [[m], []] = Ok ws'
         \<and> levels_pending ws' = {#11, 13#} + levels_pending [[m], []])"
proof -
  obtain m where m: "demo_io = Ok m" "\<not> stopping (io_sch m)" using demo_io_ok by blast
  let ?calls = "[(Some 9, 11), (None, 12), (Some 1, 13)]"
  have a: "pipe_writable demo_api" "rand_in_range (\<lambda>lo hi. hi)"
    by (simp_all add: pipe_writable_def demo_api_def rand_in_range_def)
  have l: "\<forall>c \<in> set ?calls. \<forall>prio. fst c = Some prio \<longrightarrow> level_serves [[m], []] prio"
    by (auto simp: level_serves_def)
  have s: "\<forall>l \<in> set [[m], []]. length l < 2 ^ 64" by simp
  from balancers_conserve_tasks [OF a, of "[11, 12]" m 2 "[m, m]" 0 "[[m], []]" ?calls]
  show ?thesis using m l s by (intro exI [of _ m]) (simp add: with_prio_def del: fold_res.simps)
qed

end
