(* ===== verification/Balancer_Threads.thy ===== *)
theory Balancer_Threads
  imports Balancers
begin

text \<open>
  The constructors and destructors of \<open>RandomIOBalancer\<close>, \<open>SequenceIOBalancer\<close>
  (src/balancer/io/avg\_balancer.cpp) and \<open>PrioBlancer\<close> (src/balancer/io/prio\_balancer.cpp): the
  constructor starts one thread per worker, every thread appends its manager to a vector that no
  lock protects and runs it, the destructor joins the threads. Threads are numbered in the order
  they are started; two overlapping appends to one vector are a data race.
\<close>

section \<open>Worker threads\<close>

text \<open>The level of each thread: all on one vector, or \<open>prio_threads_count[i]\<close> threads on level \<open>i\<close>.\<close>

definition avg_levels :: "nat \<Rightarrow> nat list" where
  "avg_levels threads_count = replicate threads_count 0"

definition prio_levels :: "u8 list \<Rightarrow> nat list" where
  "prio_levels prio_threads_count = concat (map (\<lambda>i. replicate (unat (prio_threads_count ! i)) i) [0..<length prio_threads_count])"

text \<open>A thread in front of its append, in it, in \<open>manager->run()\<close>, and behind it.\<close>

datatype wpc = Fresh | Pushing | Looping | Ended

text \<open>
  \<open>cur\<close> is \<open>use_current_thread\<close>: the constructing thread, which gets the number behind the
  workers, appends its own manager after it has started them. A manager is named by its thread;
  \<open>stop_asked\<close> are the managers somebody has stopped.
\<close>

record pool =
  started :: nat
  wpcs :: "nat \<Rightarrow> wpc"
  managers :: "nat \<Rightarrow> nat list"
  stop_asked :: "nat set"

definition pool_new :: pool where
  "pool_new = \<lparr>started = 0, wpcs = \<lambda>_. Fresh, managers = \<lambda>_. [], stop_asked = {}\<rparr>"

definition level_of :: "nat list \<Rightarrow> nat \<Rightarrow> nat" where
  "level_of levels t = (if t < length levels then levels ! t else 0)"

definition alive :: "nat list \<Rightarrow> bool \<Rightarrow> pool \<Rightarrow> nat \<Rightarrow> bool" where
  "alive levels cur s t \<longleftrightarrow> t < started s \<or> cur \<and> t = length levels \<and> started s = length levels"

definition appending :: "nat list \<Rightarrow> bool \<Rightarrow> pool \<Rightarrow> nat \<Rightarrow> bool" where
  "appending levels cur s l \<longleftrightarrow> (\<exists>u. alive levels cur s u \<and> wpcs s u = Pushing \<and> level_of levels u = l)"

inductive pool_step :: "nat list \<Rightarrow> bool \<Rightarrow> pool \<Rightarrow> pool res \<Rightarrow> bool" for levels cur where
  spawn: "started s < length levels \<Longrightarrow> pool_step levels cur s (Ok (s\<lparr>started := Suc (started s)\<rparr>))"
| begin_push: "alive levels cur s t \<Longrightarrow> wpcs s t = Fresh \<Longrightarrow> \<not> appending levels cur s (level_of levels t)
    \<Longrightarrow> pool_step levels cur s (Ok (s\<lparr>wpcs := (wpcs s)(t := Pushing)\<rparr>))"
| race: "alive levels cur s t \<Longrightarrow> wpcs s t = Fresh \<Longrightarrow> appending levels cur s (level_of levels t)
    \<Longrightarrow> pool_step levels cur s (Err DataRace)"
| end_push: "alive levels cur s t \<Longrightarrow> wpcs s t = Pushing \<Longrightarrow> l = level_of levels t
    \<Longrightarrow> pool_step levels cur s (Ok (s\<lparr>managers := (managers s)(l := managers s l @ [t]), wpcs := (wpcs s)(t := Looping)\<rparr>))"
| ask_stop: "pool_step levels cur s (Ok (s\<lparr>stop_asked := insert t (stop_asked s)\<rparr>))"
| end_loop: "wpcs s t = Looping \<Longrightarrow> t \<in> stop_asked s \<Longrightarrow> pool_step levels cur s (Ok (s\<lparr>wpcs := (wpcs s)(t := Ended)\<rparr>))"

inductive pool_reach :: "nat list \<Rightarrow> bool \<Rightarrow> pool \<Rightarrow> bool" for levels cur where
  start: "pool_reach levels cur pool_new"
| step: "pool_reach levels cur s \<Longrightarrow> pool_step levels cur s (Ok s') \<Longrightarrow> pool_reach levels cur s'"

text \<open>The destructor returns when every worker thread has been joined.\<close>

definition joined :: "nat list \<Rightarrow> pool \<Rightarrow> bool" where
  "joined levels s \<longleftrightarrow> (\<forall>t < length levels. wpcs s t = Ended)"

section \<open>The vectors\<close>

definition registered :: "wpc \<Rightarrow> bool" where
  "registered c \<longleftrightarrow> c = Looping \<or> c = Ended"

definition pool_ok :: "nat list \<Rightarrow> bool \<Rightarrow> pool \<Rightarrow> bool" where
  "pool_ok levels cur s \<longleftrightarrow>
     started s \<le> length levels
     \<and> (\<forall>t. wpcs s t \<noteq> Fresh \<longrightarrow> alive levels cur s t)
     \<and> (\<forall>t. wpcs s t = Ended \<longrightarrow> t \<in> stop_asked s)
     \<and> (\<forall>l. distinct (managers s l) \<and> set (managers s l) = {t. registered (wpcs s t) \<and> level_of levels t = l})"

lemma pool_ok_new: "pool_ok levels cur pool_new"
  by (simp add: pool_ok_def pool_new_def registered_def)

lemma pool_step_ok:
  assumes "pool_step levels cur s (Ok s')" and "pool_ok levels cur s"
  shows "pool_ok levels cur s'"
proof -
  note ok = assms(2) [unfolded pool_ok_def]
  from assms(1) show ?thesis
  proof cases
    case spawn
    then show ?thesis using ok by (auto simp: pool_ok_def alive_def)
  next
    case (begin_push t)
    then have "registered (wpcs s' u) = registered (wpcs s u)" for u by (simp add: registered_def)
    then show ?thesis using ok begin_push by (auto simp: pool_ok_def alive_def)
  next
    case (end_push t l)
    then have "registered (wpcs s' u) \<longleftrightarrow> u = t \<or> registered (wpcs s u)" for u by (simp add: registered_def)
    moreover have "\<not> registered (wpcs s t)" using end_push by (simp add: registered_def)
    ultimately show ?thesis using ok end_push by (auto simp: pool_ok_def alive_def)
  next
    case (ask_stop t)
    then show ?thesis using ok by (auto simp: pool_ok_def alive_def)
  next
    case (end_loop t)
    then have "registered (wpcs s' u) = registered (wpcs s u)" for u by (simp add: registered_def)
    then show ?thesis using ok end_loop by (auto simp: pool_ok_def alive_def)
  qed
qed

lemma pool_reach_ok: "pool_reach levels cur s \<Longrightarrow> pool_ok levels cur s"
  by (induction rule: pool_reach.induct) (auto intro: pool_ok_new pool_step_ok)

definition all_registered :: "nat list \<Rightarrow> bool \<Rightarrow> pool \<Rightarrow> bool" where
  "all_registered levels cur s \<longleftrightarrow> (\<forall>t < length levels + (if cur then 1 else 0). registered (wpcs s t))"

lemma registered_ids:
  assumes "pool_ok levels cur s" and "all_registered levels cur s"
  shows "{t. registered (wpcs s t) \<and> level_of levels t = l}
    = {t. t < length levels \<and> levels ! t = l} \<union> (if cur \<and> l = 0 then {length levels} else {})"
proof -
  have "registered (wpcs s t) \<longleftrightarrow> t < length levels + (if cur then 1 else 0)" for t
  proof
    assume "registered (wpcs s t)"
    then have "wpcs s t \<noteq> Fresh" by (auto simp: registered_def)
    then have "alive levels cur s t" using assms(1) by (simp add: pool_ok_def)
    then show "t < length levels + (if cur then 1 else 0)" using assms(1) by (auto simp: alive_def pool_ok_def)
  qed (use assms(2) in \<open>simp add: all_registered_def\<close>)
  then have r: "{t. registered (wpcs s t) \<and> level_of levels t = l}
      = {t. t < length levels + (if cur then 1 else 0) \<and> level_of levels t = l}" by simp
  show ?thesis unfolding r by (cases cur) (auto simp: level_of_def less_Suc_eq)
qed

lemma all_registered_length:
  assumes "pool_ok levels cur s" and "all_registered levels cur s"
  shows "length (managers s l) = count_list levels l + (if cur \<and> l = 0 then 1 else 0)"
proof -
  have "length (managers s l) = card {t. registered (wpcs s t) \<and> level_of levels t = l}"
    using assms(1) distinct_card [of "managers s l"] by (simp add: pool_ok_def)
  moreover have "card {t. t < length levels \<and> levels ! t = l} = count_list levels l"
    using length_filter_conv_card [of "(=) l" levels] by (simp add: count_list_eq_length_filter eq_commute [of l])
  ultimately show ?thesis by (cases "cur \<and> l = 0") (auto simp: registered_ids [OF assms])
qed

lemma pool_spawn: "n \<le> length levels \<Longrightarrow> pool_reach levels cur (pool_new\<lparr>started := n\<rparr>)"
proof (induction n)
  case 0
  then show ?case using pool_reach.start [of levels cur] by (simp add: pool_new_def)
next
  case (Suc n)
  then have "pool_reach levels cur (pool_new\<lparr>started := n\<rparr>)" by simp
  from pool_reach.step [OF this pool_step.spawn] Suc.prems show ?case by simp
qed

section \<open>Properties\<close>

text \<open>
  As long as the appends do not overlap, every worker registers exactly once and on its own
  level: when all threads have registered, the vector of a level has exactly one manager per thread
  of the level, and the constructing thread's one more if it was asked for, so that every index
  the balancers pick from the number of threads is in range.
\<close>

theorem balancer_workers_register:
  assumes "pool_reach levels cur s" and "all_registered levels cur s"
  shows "distinct (managers s l) \<and> (\<forall>t \<in> set (managers s l). level_of levels t = l)
    \<and> length (managers s l) = count_list levels l + (if cur \<and> l = 0 then 1 else 0)"
proof -
  have ok: "pool_ok levels cur s" using assms(1) by (rule pool_reach_ok)
  then show ?thesis using all_registered_length [OF ok assms(2), of l] by (auto simp: pool_ok_def)
qed

theorem balancer_workers_register_witness:
  "\<exists>s. pool_reach (avg_levels 1) False s \<and> all_registered (avg_levels 1) False s \<and> length (managers s 0) = 1"
proof -
  let ?l = "avg_levels 1"
  let ?a = "pool_new\<lparr>started := 1\<rparr>"
  let ?b = "?a\<lparr>wpcs := (wpcs ?a)(0 := Pushing)\<rparr>"
  let ?c = "?b\<lparr>managers := (managers ?b)(0 := managers ?b 0 @ [0]), wpcs := (wpcs ?b)(0 := Looping)\<rparr>"
  have a: "pool_reach ?l False ?a" by (rule pool_spawn) (simp add: avg_levels_def)
  have b: "pool_step ?l False ?a (Ok ?b)"
    by (rule pool_step.begin_push) (auto simp: alive_def appending_def pool_new_def)
  have c: "pool_step ?l False ?b (Ok ?c)"
    by (rule pool_step.end_push) (simp_all add: alive_def level_of_def avg_levels_def)
  have r: "pool_reach ?l False ?c" by (rule pool_reach.step [OF pool_reach.step [OF a b] c])
  have "all_registered ?l False ?c" by (simp add: all_registered_def avg_levels_def registered_def)
  with balancer_workers_register [OF r this, of 0] r show ?thesis by (auto simp: avg_levels_def)
qed

text \<open>
  Nothing orders the appends, the first calls and the end: with two threads the appends can race;
  the constructor can have returned before any worker has registered, and scheduling is then out
  of bounds; and since the destructor does not stop the managers, it never returns unless somebody
  else stops every one of them.
\<close>

theorem balancer_construction_defects:
  "(\<exists>s. pool_reach (avg_levels (Suc (Suc n))) cur s \<and> pool_step (avg_levels (Suc (Suc n))) cur s (Err DataRace))
   \<and> (\<exists>s. pool_reach (avg_levels n) cur s \<and> started s = n \<and> managers s 0 = [])
   \<and> Sequence_schedule api 1 p (c, []) = Err OutOfBounds
   \<and> \<not> (\<exists>s. pool_reach levels cur s \<and> joined levels s \<and> (\<exists>t < length levels. t \<notin> stop_asked s))"
proof (intro conjI)
  let ?l = "avg_levels (Suc (Suc n))" and ?a = "pool_new\<lparr>started := 2\<rparr>"
  let ?b = "?a\<lparr>wpcs := (wpcs ?a)(0 := Pushing)\<rparr>"
  have a: "pool_reach ?l cur ?a" by (rule pool_spawn) (simp add: avg_levels_def)
  have b: "pool_step ?l cur ?a (Ok ?b)"
    by (rule pool_step.begin_push) (auto simp: alive_def appending_def pool_new_def)
  have "pool_step ?l cur ?b (Err DataRace)"
    by (rule pool_step.race [where t = 1])
      (auto simp: alive_def appending_def pool_new_def level_of_def avg_levels_def intro!: exI [of _ 0])
  then show "\<exists>s. pool_reach ?l cur s \<and> pool_step ?l cur s (Err DataRace)" using pool_reach.step [OF a b] by blast
  have "pool_reach (avg_levels n) cur (pool_new\<lparr>started := n\<rparr>)" by (rule pool_spawn) (simp add: avg_levels_def)
  then show "\<exists>s. pool_reach (avg_levels n) cur s \<and> started s = n \<and> managers s 0 = []"
    by (intro exI [of _ "pool_new\<lparr>started := n\<rparr>"]) (simp add: pool_new_def)
  show "Sequence_schedule api 1 p (c, []) = Err OutOfBounds"
    by (simp add: Sequence_schedule_def addRemoteTask_at_def vec_get_def)
  show "\<not> (\<exists>s. pool_reach levels cur s \<and> joined levels s \<and> (\<exists>t < length levels. t \<notin> stop_asked s))"
    using pool_reach_ok by (fastforce simp: joined_def pool_ok_def)
qed

end
