(* ===== verification/Sys_Info.thy ===== *)
theory Sys_Info
  imports Executor_Core
begin

text \<open>
  include/base/info.h and src/base/info.cpp: thread and host names, the millisecond clock, and the
  printing of a call stack. The system calls, \<open>backtrace_symbols\<close> and \<open>abi::__cxa_demangle\<close> are
  parameters.
\<close>

section \<open>Host name\<close>

text \<open>\<open>gethostname\<close> gives a name or fails; the loop makes at most five attempts.\<close>

fun host_loop :: "('k \<Rightarrow> string option \<times> 'k) \<Rightarrow> nat \<Rightarrow> 'k \<Rightarrow> string option \<times> 'k" where
  "host_loop gethostname 0 k = (None, k)"
| "host_loop gethostname (Suc n) k =
     (case gethostname k of (Some h, k') \<Rightarrow> (Some h, k') | (None, k') \<Rightarrow> host_loop gethostname n k')"

definition getHostWithoutBuffer :: "('k \<Rightarrow> string option \<times> 'k) \<Rightarrow> 'k \<Rightarrow> string res \<times> 'k" where
  "getHostWithoutBuffer gethostname k =
     (case host_loop gethostname 5 k of (Some h, k') \<Rightarrow> (Ok h, k') | (None, k') \<Rightarrow> (Err ExecFailed, k'))"

text \<open>
  The static variable of \<open>getHostName\<close>: it is initialised by the first call that does not throw, and
  a call that throws leaves it for the next one.
\<close>

definition getHostName :: "('k \<Rightarrow> string option \<times> 'k) \<Rightarrow> string option \<times> 'k \<Rightarrow> string res \<times> string option \<times> 'k" where
  "getHostName gethostname s =
     (case s of (cached, k) \<Rightarrow>
        case cached of
          Some h \<Rightarrow> (Ok h, cached, k)
        | None \<Rightarrow> (case getHostWithoutBuffer gethostname k of
                     (Inr h, k') \<Rightarrow> (Ok h, Some h, k')
                   | (Inl e, k') \<Rightarrow> (Err e, None, k')))"

section \<open>Threads and time\<close>

text \<open>\<open>G_ThreadId\<close> is 0 until the first call; \<open>raw\<close> is \<open>gettid\<close>.\<close>

definition getThreadId :: "u32 \<Rightarrow> u32 \<Rightarrow> u32 \<times> u32" where
  "getThreadId raw cached = (let cached = (if cached = 0 then raw else cached) in (cached, cached))"

text \<open>\<open>setThreadName\<close>: the cached name, and the name handed to \<open>pthread_setname_np\<close>.\<close>

definition setThreadName :: "string \<Rightarrow> string \<times> string" where
  "setThreadName name = (name, take 15 name)"

text \<open>\<open>tid\<close> is what \<open>syscall\<close> returns; \<open>buf\<close> what \<open>pthread_getname_np\<close> leaves in the buffer; \<open>cached\<close> is \<open>G_ThreadName\<close>.\<close>

definition getThreadIdRaw :: "int \<Rightarrow> u32" where
  "getThreadIdRaw tid = word_of_int tid"

definition getThreadNameRaw :: "string \<Rightarrow> string res" where
  "getThreadNameRaw buf = (if CHR 0x00 \<in> set buf then Ok (takeWhile (\<lambda>c. c \<noteq> CHR 0x00) buf) else Err OutOfBounds)"

definition getThreadName :: "string \<Rightarrow> string" where
  "getThreadName cached = cached"

definition getExecutorId :: "eptr \<Rightarrow> 'cb thread \<Rightarrow> u64 res \<times> 'cb thread" where
  "getExecutorId b th =
     (case getCurrent b th of (p, th) \<Rightarrow> (res_bind (deref th p) (\<lambda>e. Ok (ex_id e)), th))"

text \<open>\<open>gettimeofday\<close> gives seconds and microseconds below a million.\<close>

definition currentMs :: "int \<Rightarrow> int \<Rightarrow> u64" where
  "currentMs tv_sec tv_usec = word_of_int (tv_sec * 1000 + tv_usec div 1000)"

text \<open>
  A thread's name is remembered in full, and the system has its first fifteen characters (\<open>pthread_getname_np\<close> gives
  the name with a zero byte behind it; what follows is what the stack held).
\<close>

theorem thread_name_kept:
  assumes "CHR 0x00 \<notin> set n" and "setThreadName n = (cached, given)"
  shows "getThreadName cached = n" and "getThreadNameRaw (given @ CHR 0x00 # garbage) = Ok (take 15 n)"
proof -
  show "getThreadName cached = n" using assms(2) by (simp add: setThreadName_def getThreadName_def)
  have "CHR 0x00 \<notin> set (take 15 n)" using assms(1) by (meson in_set_takeD)
  then show "getThreadNameRaw (given @ CHR 0x00 # garbage) = Ok (take 15 n)"
    using assms(2) by (auto simp: setThreadName_def getThreadNameRaw_def takeWhile_append)
qed

section \<open>Call stacks\<close>

text \<open>\<open>symbols\<close> is \<open>None\<close> when \<open>backtrace_symbols\<close> failed.\<close>

definition backtraceStacks :: "string list option \<Rightarrow> nat \<Rightarrow> string list \<Rightarrow> bool \<times> string list" where
  "backtraceStacks symbols skip stacks =
     (case symbols of None \<Rightarrow> (False, stacks) | Some ss \<Rightarrow> (True, stacks @ drop skip ss))"

text \<open>The scan keeps the last parenthesis and the last plus sign.\<close>

fun scan_frame :: "nat \<Rightarrow> string \<Rightarrow> nat option \<times> nat option \<Rightarrow> nat option \<times> nat option" where
  "scan_frame i [] s = s"
| "scan_frame i (c # cs) (left_par, plus_pos) =
     scan_frame (Suc i) cs
       (if c = CHR ''('' then (Some i, plus_pos) else if c = CHR ''+'' then (left_par, Some i) else (left_par, plus_pos))"

text \<open>
  The name to demangle begins behind the parenthesis and ends at the plus sign, where a NUL is put
  for the call; a plus sign in front of the parenthesis does not end it.
\<close>

definition frame_text :: "(string \<Rightarrow> string option) \<Rightarrow> string \<Rightarrow> string" where
  "frame_text demangle line =
     (case scan_frame 0 line (None, None) of
        (Some l, Some p) \<Rightarrow>
          (let mangled = (if l < p then drop (Suc l) (take p line) else drop (Suc l) line)
           in case demangle mangled of
                Some name \<Rightarrow> take (Suc l) line @ name @ drop p line @ [CHR 0x0A]
              | None \<Rightarrow> line @ [CHR 0x0A])
      | _ \<Rightarrow> line @ [CHR 0x0A])"

definition backtraceString :: "(string \<Rightarrow> string option) \<Rightarrow> string list option \<Rightarrow> nat \<Rightarrow> string" where
  "backtraceString demangle symbols skip =
     (case symbols of None \<Rightarrow> [] | Some ss \<Rightarrow> concat (map (frame_text demangle) (drop skip ss)))"

section \<open>Lemmas\<close>

fun attempts :: "('k \<Rightarrow> string option \<times> 'k) \<Rightarrow> nat \<Rightarrow> 'k \<Rightarrow> string option list" where
  "attempts gethostname 0 k = []"
| "attempts gethostname (Suc n) k = (case gethostname k of (r, k') \<Rightarrow> r # attempts gethostname n k')"

lemma host_loop_first: "fst (host_loop gethostname n k) = Option.bind (List.find (\<lambda>r. r \<noteq> None) (attempts gethostname n k)) id"
  by (induction gethostname n k rule: host_loop.induct) (auto split: prod.split option.split)

lemma scan_frame_append: "scan_frame i (xs @ ys) s = scan_frame (i + length xs) ys (scan_frame i xs s)"
  by (induction i xs s rule: scan_frame.induct) simp_all

lemma scan_frame_none: "CHR ''('' \<notin> set cs \<Longrightarrow> CHR ''+'' \<notin> set cs \<Longrightarrow> scan_frame i cs s = s"
  by (induction i cs s rule: scan_frame.induct) auto

lemma scan_frame_found:
  assumes "CHR ''('' \<notin> set (name @ post)" and "CHR ''+'' \<notin> set post"
  shows "scan_frame 0 (pre @ CHR ''('' # name @ CHR ''+'' # post) (None, None) = (Some (length pre), Some (length pre + 1 + length name))"
proof -
  obtain l p where s: "scan_frame 0 pre (None, None) = (l, p)" by fastforce
  have "\<exists>q. scan_frame i cs (Some n, p) = (Some n, q)" if "CHR ''('' \<notin> set cs" for i cs n and p :: "nat option"
    using that by (induction cs arbitrary: i p) auto
  then obtain q where "scan_frame (Suc (length pre)) name (Some (length pre), p) = (Some (length pre), q)" using assms(1) by fastforce
  then show ?thesis using assms s by (simp add: scan_frame_append scan_frame_none)
qed

section \<open>Properties\<close>

text \<open>
  \<open>getHostName\<close> answers with the first of at most five attempts that succeeds, and throws only if
  five attempts failed; once it has answered, it gives the same answer without asking again.
\<close>

theorem host_name_first_success:
  "fst (getHostName gethostname (None, k)) =
     (case List.find (\<lambda>r. r \<noteq> None) (attempts gethostname 5 k) of Some (Some h) \<Rightarrow> Ok h | _ \<Rightarrow> Err ExecFailed)
   \<and> (case getHostName gethostname (None, k) of
        (Inr h, s) \<Rightarrow> getHostName gethostname s = (Ok h, s)
      | (Inl e, s) \<Rightarrow> fst s = None)"
proof -
  have "fst (host_loop gethostname 5 k) = Option.bind (List.find (\<lambda>r. r \<noteq> None) (attempts gethostname 5 k)) id"
    by (rule host_loop_first)
  then show ?thesis
    by (cases "host_loop gethostname 5 k"; cases "fst (host_loop gethostname 5 k)")
      (auto simp: getHostName_def getHostWithoutBuffer_def split: option.splits bind_splits)
qed

text \<open>
  A stack frame as \<open>backtrace_symbols\<close> prints it, with the mangled name between a parenthesis and
  a plus sign, is printed with the name demangled and everything else as it is; a name that cannot
  be demangled is left alone.
\<close>

theorem backtrace_demangles_names:
  assumes "CHR ''('' \<notin> set (name @ post)" and "CHR ''+'' \<notin> set post"
  shows "frame_text demangle (pre @ CHR ''('' # name @ CHR ''+'' # post) =
     pre @ CHR ''('' # (case demangle name of Some d \<Rightarrow> d | None \<Rightarrow> name) @ CHR ''+'' # post @ [CHR 0x0A]"
  by (simp add: frame_text_def scan_frame_found [OF assms] Suc_diff_le split: option.split)

theorem backtrace_demangles_names_witness:
  "frame_text (\<lambda>s. if s = ''_Z1fv'' then Some ''f()'' else None) ''./a.out(_Z1fv+0x9) [0x1]''
     = ''./a.out(f()+0x9) [0x1]'' @ [CHR 0x0A]"
  using backtrace_demangles_names [of "''_Z1fv''" "''0x9) [0x1]''" "\<lambda>s. if s = ''_Z1fv'' then Some ''f()'' else None" "''./a.out''"]
  by simp

end
