(* ===== verification/Net_Socket.thy ===== *)
theory Net_Socket
  imports Io_Manager Net_Address
begin

text \<open>
  src/net/socket_opt.cpp, src/net/socket.cpp and src/net/tcp/connection.cpp: the thin layer over
  the socket system calls. The calls enter as the record \<open>net_api\<close> over the kernel's state of the
  thread's \<open>IOManager\<close>, seen by the calling coroutine (whether a call suspends it first is the
  business of \<open>Co_Io\<close>). A call that fills an address or a buffer returns the new contents.
\<close>

section \<open>System calls\<close>

text \<open>\<open>msg_iov\<close> is the list of buffers; \<open>msg_name\<close> the address object.\<close>

record msghdr =
  msg_name :: "SockAddress option"
  msg_namelen :: nat
  msg_iov :: "u8 list list"
  msg_iovlen :: nat

record 'k net_api =
  n_socket :: "int \<Rightarrow> int \<Rightarrow> int \<Rightarrow> ('k, fd) syscall"
  n_bind :: "fd \<Rightarrow> u8 list \<Rightarrow> nat \<Rightarrow> ('k, unit) syscall"
  n_listen :: "fd \<Rightarrow> int \<Rightarrow> ('k, unit) syscall"
  n_accept :: "fd \<Rightarrow> SockAddress \<Rightarrow> ('k, fd \<times> SockAddress) syscall"
  n_connect :: "fd \<Rightarrow> u8 list \<Rightarrow> nat \<Rightarrow> ('k, unit) syscall"
  n_shutdown :: "fd \<Rightarrow> int \<Rightarrow> ('k, unit) syscall"
  n_close :: "fd \<Rightarrow> ('k, unit) syscall"
  n_setsockopt :: "fd \<Rightarrow> int \<Rightarrow> int \<Rightarrow> u8 list \<Rightarrow> ('k, unit) syscall"
  n_getsockopt :: "fd \<Rightarrow> int \<Rightarrow> int \<Rightarrow> nat \<Rightarrow> ('k, u8 list) syscall"
  n_send :: "fd \<Rightarrow> u8 list \<Rightarrow> int \<Rightarrow> ('k, nat) syscall"
  n_sendto :: "fd \<Rightarrow> u8 list \<Rightarrow> int \<Rightarrow> u8 list \<Rightarrow> nat \<Rightarrow> ('k, nat) syscall"
  n_sendmsg :: "fd \<Rightarrow> msghdr \<Rightarrow> int \<Rightarrow> ('k, nat) syscall"
  n_recv :: "fd \<Rightarrow> nat \<Rightarrow> int \<Rightarrow> ('k, u8 list) syscall"
  n_recvfrom :: "fd \<Rightarrow> nat \<Rightarrow> int \<Rightarrow> SockAddress \<Rightarrow> nat \<Rightarrow> ('k, u8 list \<times> SockAddress) syscall"
  n_recvmsg :: "fd \<Rightarrow> msghdr \<Rightarrow> int \<Rightarrow> ('k, nat \<times> msghdr) syscall"

text \<open>A call whose result is handed on.\<close>

definition call_net :: "('k, 'a) syscall \<Rightarrow> ('cb, 'k) io_manager \<Rightarrow> 'a sys \<times> ('cb, 'k) io_manager" where
  "call_net f m = (case f (kern m) of (r, k) \<Rightarrow> (r, m\<lparr>kern := k\<rparr>))"

definition AF_UNIX :: u16 where "AF_UNIX = 1"
definition SOCK_STREAM :: int where "SOCK_STREAM = 1"
definition SOL_SOCKET :: int where "SOL_SOCKET = 1"
definition SO_REUSEADDR :: int where "SO_REUSEADDR = 2"
definition SO_TYPE :: int where "SO_TYPE = 3"
definition SO_KEEPALIVE :: int where "SO_KEEPALIVE = 9"
definition SO_REUSEPORT :: int where "SO_REUSEPORT = 15"
definition IPPROTO_TCP :: int where "IPPROTO_TCP = 6"
definition TCP_NODELAY :: int where "TCP_NODELAY = 1"
definition SHUT_WR :: int where "SHUT_WR = 1"
definition SOMAXCONN :: int where "SOMAXCONN = 4096"

section \<open>socket\_opt.cpp\<close>

definition sockopt_connect :: "'k net_api \<Rightarrow> fd \<Rightarrow> SockAddress \<Rightarrow> ('cb, 'k) io_manager \<Rightarrow> unit sys \<times> ('cb, 'k) io_manager" where
  "sockopt_connect napi sock_fd a = call_net (n_connect napi sock_fd (getAddr a) (getAddrLen a))"

text \<open>The switch that makes the object for the peer's address.\<close>

definition address_for :: "u16 \<Rightarrow> SockAddress res" where
  "address_for family =
     (if family = AF_INET then Ok (IPV4Address IPV4Address_default)
      else if family = AF_INET6 then Ok (IPV6Address IPV6Address_default)
      else if family = AF_UNIX then Ok (UnixAddress UnixAddress_default)
      else Err InvalidArgument)"

definition sockopt_accept_family ::
    "'k net_api \<Rightarrow> fd \<Rightarrow> u16 \<Rightarrow> ('cb, 'k) io_manager \<Rightarrow> ((SockAddress \<times> fd) \<times> ('cb, 'k) io_manager) res" where
  "sockopt_accept_family napi sock_fd family m =
     res_bind (address_for family) (\<lambda>result.
     res_bind (asserted (n_accept napi sock_fd result) m) (\<lambda>((ret, result), m). Ok ((result, ret), m)))"

text \<open>
  The variable \<open>type\<close> has two bytes and \<open>getsockopt\<close> is told four: the low half arrives in it. When
  the call fails the variable keeps what the stack held (\<open>garbage\<close>).
\<close>

definition sockopt_accept ::
    "'k net_api \<Rightarrow> u16 \<Rightarrow> fd \<Rightarrow> ('cb, 'k) io_manager \<Rightarrow> ((SockAddress \<times> fd) \<times> ('cb, 'k) io_manager) res" where
  "sockopt_accept napi garbage sock_fd m =
     (let (r, m) = call_net (n_getsockopt napi sock_fd SOL_SOCKET SO_TYPE 4) m;
          type = (case r of Inr (b0 # b1 # _) \<Rightarrow> ucast b0 OR push_bit 8 (ucast b1) | _ \<Rightarrow> garbage)
      in sockopt_accept_family napi sock_fd type m)"

definition sockopt_shutdownWrite :: "'k net_api \<Rightarrow> fd \<Rightarrow> ('cb, 'k) io_manager \<Rightarrow> ('cb, 'k) io_manager res" where
  "sockopt_shutdownWrite napi sock_fd m = res_bind (asserted (n_shutdown napi sock_fd SHUT_WR) m) (\<lambda>(_, m). Ok m)"

text \<open>An \<open>int\<close> option.\<close>

definition opval :: "bool \<Rightarrow> u8 list" where
  "opval on = le32 (if on then 1 else 0)"

definition sockopt_setTcpNoDelay :: "'k net_api \<Rightarrow> fd \<Rightarrow> bool \<Rightarrow> ('cb, 'k) io_manager \<Rightarrow> ('cb, 'k) io_manager res" where
  "sockopt_setTcpNoDelay napi sock_fd on m =
     res_bind (asserted (n_setsockopt napi sock_fd IPPROTO_TCP TCP_NODELAY (opval on)) m) (\<lambda>(_, m). Ok m)"

definition sockopt_setReuseAddr :: "'k net_api \<Rightarrow> fd \<Rightarrow> bool \<Rightarrow> ('cb, 'k) io_manager \<Rightarrow> ('cb, 'k) io_manager res" where
  "sockopt_setReuseAddr napi sock_fd on m =
     res_bind (asserted (n_setsockopt napi sock_fd SOL_SOCKET SO_REUSEADDR (opval on)) m) (\<lambda>(_, m). Ok m)"

definition sockopt_setReusePort :: "'k net_api \<Rightarrow> fd \<Rightarrow> bool \<Rightarrow> ('cb, 'k) io_manager \<Rightarrow> ('cb, 'k) io_manager res" where
  "sockopt_setReusePort napi sock_fd on m =
     res_bind (asserted (n_setsockopt napi sock_fd SOL_SOCKET SO_REUSEPORT (opval on)) m) (\<lambda>(_, m). Ok m)"

definition sockopt_setKeepAlive :: "'k net_api \<Rightarrow> fd \<Rightarrow> bool \<Rightarrow> ('cb, 'k) io_manager \<Rightarrow> ('cb, 'k) io_manager res" where
  "sockopt_setKeepAlive napi sock_fd on m =
     res_bind (asserted (n_setsockopt napi sock_fd SOL_SOCKET SO_KEEPALIVE (opval on)) m) (\<lambda>(_, m). Ok m)"

text \<open>Sending and receiving; \<open>msg_of\<close> is the zeroed header with its buffers set.\<close>

definition msg_of :: "u8 list list \<Rightarrow> nat \<Rightarrow> msghdr" where
  "msg_of buffers len = \<lparr>msg_name = None, msg_namelen = 0, msg_iov = buffers, msg_iovlen = len\<rparr>"

definition msg_to :: "SockAddress \<Rightarrow> msghdr \<Rightarrow> msghdr" where
  "msg_to a msg = msg\<lparr>msg_name := Some a, msg_namelen := getAddrLen a\<rparr>"

definition sockopt_send :: "'k net_api \<Rightarrow> fd \<Rightarrow> u8 list \<Rightarrow> int \<Rightarrow> ('cb, 'k) io_manager \<Rightarrow> nat sys \<times> ('cb, 'k) io_manager" where
  "sockopt_send napi sock_fd message flgs = call_net (n_send napi sock_fd message flgs)"

definition sockopt_sendv ::
    "'k net_api \<Rightarrow> fd \<Rightarrow> u8 list list \<Rightarrow> nat \<Rightarrow> int \<Rightarrow> ('cb, 'k) io_manager \<Rightarrow> nat sys \<times> ('cb, 'k) io_manager" where
  "sockopt_sendv napi sock_fd buffers len flgs = call_net (n_sendmsg napi sock_fd (msg_of buffers len) flgs)"

definition sockopt_sendTo ::
    "'k net_api \<Rightarrow> fd \<Rightarrow> u8 list \<Rightarrow> SockAddress \<Rightarrow> int \<Rightarrow> ('cb, 'k) io_manager \<Rightarrow> nat sys \<times> ('cb, 'k) io_manager" where
  "sockopt_sendTo napi sock_fd buffer peer flgs =
     call_net (n_sendto napi sock_fd buffer flgs (getAddr peer) (getAddrLen peer))"

definition sockopt_sendTo_piece ::
    "'k net_api \<Rightarrow> fd \<Rightarrow> u8 list \<Rightarrow> SockAddress \<Rightarrow> int \<Rightarrow> ('cb, 'k) io_manager \<Rightarrow> nat sys \<times> ('cb, 'k) io_manager" where
  "sockopt_sendTo_piece napi sock_fd message peer flgs = sockopt_sendTo napi sock_fd message peer flgs"

definition sockopt_sendTov ::
    "'k net_api \<Rightarrow> fd \<Rightarrow> u8 list list \<Rightarrow> nat \<Rightarrow> SockAddress \<Rightarrow> int \<Rightarrow> ('cb, 'k) io_manager
       \<Rightarrow> nat sys \<times> ('cb, 'k) io_manager" where
  "sockopt_sendTov napi sock_fd buffers len peer flgs =
     call_net (n_sendmsg napi sock_fd (msg_to peer (msg_of buffers len)) flgs)"

definition sockopt_recvv ::
    "'k net_api \<Rightarrow> fd \<Rightarrow> u8 list list \<Rightarrow> nat \<Rightarrow> int \<Rightarrow> ('cb, 'k) io_manager \<Rightarrow> (nat \<times> msghdr) sys \<times> ('cb, 'k) io_manager" where
  "sockopt_recvv napi sock_fd buffers len flgs = call_net (n_recvmsg napi sock_fd (msg_of buffers len) flgs)"

definition sockopt_recvFrom ::
    "'k net_api \<Rightarrow> fd \<Rightarrow> nat \<Rightarrow> SockAddress \<Rightarrow> int \<Rightarrow> ('cb, 'k) io_manager
       \<Rightarrow> (u8 list \<times> SockAddress) sys \<times> ('cb, 'k) io_manager" where
  "sockopt_recvFrom napi sock_fd len peer flgs = call_net (n_recvfrom napi sock_fd len flgs peer (getAddrLen peer))"

definition sockopt_recvFromv ::
    "'k net_api \<Rightarrow> fd \<Rightarrow> u8 list list \<Rightarrow> nat \<Rightarrow> SockAddress \<Rightarrow> int \<Rightarrow> ('cb, 'k) io_manager
       \<Rightarrow> (nat \<times> msghdr) sys \<times> ('cb, 'k) io_manager" where
  "sockopt_recvFromv napi sock_fd buffers len peer flgs =
     call_net (n_recvmsg napi sock_fd (msg_to peer (msg_of buffers len)) flgs)"

section \<open>socket.cpp\<close>

record Socket =
  sock_fd :: fd
  local_address :: "SockAddress option"

definition Socket_of :: "fd \<Rightarrow> Socket" where
  "Socket_of i = \<lparr>sock_fd = i, local_address = None\<rparr>"

definition Socket_new ::
    "'k net_api \<Rightarrow> int \<Rightarrow> int \<Rightarrow> int \<Rightarrow> ('cb, 'k) io_manager \<Rightarrow> (Socket \<times> ('cb, 'k) io_manager) res" where
  "Socket_new napi domain type protocol m =
     (case call_net (n_socket napi domain type protocol) m of
        (Inl e, m) \<Rightarrow> Err ExecFailed
      | (Inr i, m) \<Rightarrow> Ok (Socket_of i, m))"

text \<open>\<open>Socket::bind\<close>: the result is the \<open>int\<close> the caller tests.\<close>

definition Socket_bind ::
    "'k net_api \<Rightarrow> SockAddress option \<Rightarrow> Socket \<Rightarrow> ('cb, 'k) io_manager \<Rightarrow> int \<times> Socket \<times> ('cb, 'k) io_manager" where
  "Socket_bind napi local_addr s m =
     (let s = s\<lparr>local_address := local_addr\<rparr>
      in case local_addr of
           None \<Rightarrow> (- 1, s, m)
         | Some a \<Rightarrow> (case call_net (n_bind napi (sock_fd s) (getAddr a) (getAddrLen a)) m of
               (Inl e, m) \<Rightarrow> (- 1, s, m)
             | (Inr _, m) \<Rightarrow> (0, s, m)))"

record TcpConnection =
  connected :: bool
  conn_socket :: Socket
  peer_addr :: "SockAddress option"

definition TcpConnection_new :: "Socket \<Rightarrow> SockAddress option \<Rightarrow> TcpConnection" where
  "TcpConnection_new s a = \<lparr>connected = True, conn_socket = s, peer_addr = a\<rparr>"

definition Socket_accept ::
    "'k net_api \<Rightarrow> Socket \<Rightarrow> ('cb, 'k) io_manager \<Rightarrow> (TcpConnection option \<times> ('cb, 'k) io_manager) res" where
  "Socket_accept napi s m =
     (case local_address s of
        None \<Rightarrow> Ok (None, m)
      | Some a \<Rightarrow>
          if sock_fd s = - 1 then Ok (None, m)
          else res_bind (sockopt_accept_family napi (sock_fd s) (getFamily a) m) (\<lambda>((peer, accept_fd), m).
                 Ok (Some (TcpConnection_new ((Socket_of accept_fd)\<lparr>local_address := Some a\<rparr>) (Some peer)), m)))"

definition Socket_listen :: "'k net_api \<Rightarrow> int \<Rightarrow> Socket \<Rightarrow> ('cb, 'k) io_manager \<Rightarrow> int \<times> ('cb, 'k) io_manager" where
  "Socket_listen napi backlog s m =
     (case call_net (n_listen napi (sock_fd s) backlog) m of (Inl e, m) \<Rightarrow> (- 1, m) | (Inr _, m) \<Rightarrow> (0, m))"

definition Socket_connect ::
    "'k net_api \<Rightarrow> SockAddress option \<Rightarrow> Socket \<Rightarrow> ('cb, 'k) io_manager \<Rightarrow> (TcpConnection option \<times> ('cb, 'k) io_manager) res" where
  "Socket_connect napi peer s m =
     (if sock_fd s = - 1 then Ok (None, m)
      else case peer of
             None \<Rightarrow> Ok (None, m)
           | Some a \<Rightarrow>
               res_bind (asserted (n_connect napi (sock_fd s) (getAddr a) (getAddrLen a)) m) (\<lambda>(_, m).
                 Ok (Some (TcpConnection_new s (Some a)), m)))"

definition stopRead :: "'k kernel_api \<Rightarrow> Socket \<Rightarrow> ('cb, 'k) io_manager \<Rightarrow> ('cb, 'k) io_manager res" where
  "stopRead api s m = removeEvent api (sock_fd s) Read m"

definition stopWrite :: "'k kernel_api \<Rightarrow> Socket \<Rightarrow> ('cb, 'k) io_manager \<Rightarrow> ('cb, 'k) io_manager res" where
  "stopWrite api s m = removeEvent api (sock_fd s) Write m"

definition Socket_shutdownWrite ::
    "'k kernel_api \<Rightarrow> 'k net_api \<Rightarrow> Socket \<Rightarrow> ('cb, 'k) io_manager \<Rightarrow> ('cb, 'k) io_manager res" where
  "Socket_shutdownWrite api napi s m = res_bind (sockopt_shutdownWrite napi (sock_fd s) m) (stopWrite api s)"

definition Socket_setTcpNoDelay :: "'k net_api \<Rightarrow> bool \<Rightarrow> Socket \<Rightarrow> ('cb, 'k) io_manager \<Rightarrow> ('cb, 'k) io_manager res" where
  "Socket_setTcpNoDelay napi on s m = sockopt_setTcpNoDelay napi (sock_fd s) True m"

definition Socket_setReuseAddr :: "'k net_api \<Rightarrow> bool \<Rightarrow> Socket \<Rightarrow> ('cb, 'k) io_manager \<Rightarrow> ('cb, 'k) io_manager res" where
  "Socket_setReuseAddr napi on s m = sockopt_setReuseAddr napi (sock_fd s) on m"

definition Socket_setReusePort :: "'k net_api \<Rightarrow> bool \<Rightarrow> Socket \<Rightarrow> ('cb, 'k) io_manager \<Rightarrow> ('cb, 'k) io_manager res" where
  "Socket_setReusePort napi on s m = sockopt_setReusePort napi (sock_fd s) on m"

definition Socket_setKeepAlive :: "'k net_api \<Rightarrow> bool \<Rightarrow> Socket \<Rightarrow> ('cb, 'k) io_manager \<Rightarrow> ('cb, 'k) io_manager res" where
  "Socket_setKeepAlive napi on s m = sockopt_setKeepAlive napi (sock_fd s) on m"

definition Socket_close :: "'k net_api \<Rightarrow> Socket \<Rightarrow> ('cb, 'k) io_manager \<Rightarrow> Socket \<times> ('cb, 'k) io_manager" where
  "Socket_close napi s m = (s\<lparr>sock_fd := - 1\<rparr>, snd (call_net (n_close napi (sock_fd s)) m))"

definition Socket_setOption ::
    "'k net_api \<Rightarrow> int \<Rightarrow> int \<Rightarrow> u8 list \<Rightarrow> Socket \<Rightarrow> ('cb, 'k) io_manager \<Rightarrow> bool \<times> ('cb, 'k) io_manager" where
  "Socket_setOption napi level option value s m =
     (case call_net (n_setsockopt napi (sock_fd s) level option value) m of (r, m) \<Rightarrow> (\<not> isl r, m))"

section \<open>connection.cpp\<close>

definition conn_send :: "'k net_api \<Rightarrow> TcpConnection \<Rightarrow> u8 list \<Rightarrow> int \<Rightarrow> ('cb, 'k) io_manager \<Rightarrow> nat sys \<times> ('cb, 'k) io_manager" where
  "conn_send napi c buffer flgs = call_net (n_send napi (sock_fd (conn_socket c)) buffer flgs)"

definition conn_send_piece :: "'k net_api \<Rightarrow> TcpConnection \<Rightarrow> u8 list \<Rightarrow> int \<Rightarrow> ('cb, 'k) io_manager \<Rightarrow> nat sys \<times> ('cb, 'k) io_manager" where
  "conn_send_piece napi c message flgs = sockopt_send napi (sock_fd (conn_socket c)) message flgs"

definition conn_sendv ::
    "'k net_api \<Rightarrow> TcpConnection \<Rightarrow> u8 list list \<Rightarrow> nat \<Rightarrow> int \<Rightarrow> ('cb, 'k) io_manager \<Rightarrow> nat sys \<times> ('cb, 'k) io_manager" where
  "conn_sendv napi c buffers len flgs = sockopt_sendv napi (sock_fd (conn_socket c)) buffers len flgs"

definition conn_recv ::
    "'k net_api \<Rightarrow> TcpConnection \<Rightarrow> nat \<Rightarrow> int \<Rightarrow> ('cb, 'k) io_manager \<Rightarrow> u8 list sys \<times> ('cb, 'k) io_manager" where
  "conn_recv napi c len flgs = call_net (n_recv napi (sock_fd (conn_socket c)) len flgs)"

definition conn_recvv ::
    "'k net_api \<Rightarrow> TcpConnection \<Rightarrow> u8 list list \<Rightarrow> nat \<Rightarrow> int \<Rightarrow> ('cb, 'k) io_manager
       \<Rightarrow> (nat \<times> msghdr) sys \<times> ('cb, 'k) io_manager" where
  "conn_recvv napi c buffers len flgs = sockopt_recvv napi (sock_fd (conn_socket c)) buffers len flgs"

section \<open>Accepting\<close>

lemmas accept_defs = Socket_accept_def sockopt_accept_family_def address_for_def asserted_def TcpConnection_new_def Socket_of_def

text \<open>
  \<open>Socket::accept\<close> branch by branch: without a descriptor or without a local address there is
  no connection and nothing is called; a local address of an unknown family is an invalid
  argument; otherwise the kernel gets an address object of the family of the local address, and
  on success the connection has the kernel's descriptor, the listening socket's local address and
  the peer's address. A failing \<open>accept\<close> ends in the assertion, not in the null pointer the
  interface promises.
\<close>

theorem socket_accept_cases:
  "(sock_fd s = - 1 \<or> local_address s = None \<longrightarrow> Socket_accept napi s m = Ok (None, m))
   \<and> (sock_fd s \<noteq> - 1 \<longrightarrow> local_address s = Some a \<longrightarrow> getFamily a \<notin> {AF_INET, AF_INET6, AF_UNIX}
        \<longrightarrow> Socket_accept napi s m = Err InvalidArgument)
   \<and> (sock_fd s \<noteq> - 1 \<longrightarrow> local_address s = Some a \<longrightarrow> address_for (getFamily a) = Ok b
        \<longrightarrow> n_accept napi (sock_fd s) b (kern m) = (Inr (i, peer), k)
        \<longrightarrow> Socket_accept napi s m =
              Ok (Some \<lparr>connected = True, conn_socket = \<lparr>sock_fd = i, local_address = Some a\<rparr>, peer_addr = Some peer\<rparr>, m\<lparr>kern := k\<rparr>))
   \<and> (sock_fd s \<noteq> - 1 \<longrightarrow> local_address s = Some a \<longrightarrow> address_for (getFamily a) = Ok b
        \<longrightarrow> n_accept napi (sock_fd s) b (kern m) = (Inl e, k) \<longrightarrow> Socket_accept napi s m = Err AssertFailed)"
proof (intro conjI impI)
  assume "sock_fd s = - 1 \<or> local_address s = None"
  then show "Socket_accept napi s m = Ok (None, m)" by (auto simp: Socket_accept_def split: option.splits)
next
  assume "sock_fd s \<noteq> - 1" "local_address s = Some a" "getFamily a \<notin> {AF_INET, AF_INET6, AF_UNIX}"
  then show "Socket_accept napi s m = Err InvalidArgument" by (simp add: accept_defs)
next
  assume "sock_fd s \<noteq> - 1" "local_address s = Some a" "address_for (getFamily a) = Ok b"
    "n_accept napi (sock_fd s) b (kern m) = (Inr (i, peer), k)"
  then show "Socket_accept napi s m =
      Ok (Some \<lparr>connected = True, conn_socket = \<lparr>sock_fd = i, local_address = Some a\<rparr>, peer_addr = Some peer\<rparr>, m\<lparr>kern := k\<rparr>)"
    by (simp add: Socket_accept_def sockopt_accept_family_def asserted_def TcpConnection_new_def Socket_of_def)
next
  assume "sock_fd s \<noteq> - 1" "local_address s = Some a" "address_for (getFamily a) = Ok b"
    "n_accept napi (sock_fd s) b (kern m) = (Inl e, k)"
  then show "Socket_accept napi s m = Err AssertFailed"
    by (simp add: Socket_accept_def sockopt_accept_family_def asserted_def)
qed

text \<open>
  A kernel for the witnesses: every call succeeds, \<open>accept\<close> hands out descriptor 20 and leaves the
  address object as it is, \<open>SO_TYPE\<close> is \<open>SOCK_STREAM\<close>.
\<close>

definition demo_napi :: "(fd \<Rightarrow> u32 option) net_api" where
  "demo_napi =
     \<lparr>n_socket = (\<lambda>_ _ _ k. (Inr 10, k)), n_bind = (\<lambda>_ _ _ k. (Inr (), k)), n_listen = (\<lambda>_ _ k. (Inr (), k)),
      n_accept = (\<lambda>_ a k. (Inr (20, a), k)), n_connect = (\<lambda>_ _ _ k. (Inr (), k)), n_shutdown = (\<lambda>_ _ k. (Inr (), k)),
      n_close = (\<lambda>_ k. (Inr (), k)), n_setsockopt = (\<lambda>_ _ _ _ k. (Inr (), k)), n_getsockopt = (\<lambda>_ _ _ _ k. (Inr [1, 0, 0, 0], k)),
      n_send = (\<lambda>_ b _ k. (Inr (length b), k)), n_sendto = (\<lambda>_ b _ _ _ k. (Inr (length b), k)), n_sendmsg = (\<lambda>_ _ _ k. (Inr 0, k)),
      n_recv = (\<lambda>_ _ _ k. (Inr [], k)), n_recvfrom = (\<lambda>_ _ _ a _ k. (Inr ([], a), k)), n_recvmsg = (\<lambda>_ h _ k. (Inr (0, h), k))\<rparr>"

lemma demo_napi_calls [simp]:
  "n_socket demo_napi d t q k = (Inr 10, k)" "n_bind demo_napi i b n k = (Inr (), k)" "n_listen demo_napi i l k = (Inr (), k)"
  "n_accept demo_napi i a k = (Inr (20, a), k)" "n_shutdown demo_napi i h k = (Inr (), k)" "n_close demo_napi i k = (Inr (), k)"
  "n_getsockopt demo_napi i l t n k = (Inr [1, 0, 0, 0], k)"
  by (simp_all add: demo_napi_def)

definition demo_addr :: SockAddress where
  "demo_addr = IPV4Address (IPV4Address_default\<lparr>sin_family := AF_INET\<rparr>)"

theorem socket_accept_cases_witness:
  "\<exists>m. demo_io = Ok m \<and> Socket_accept demo_napi \<lparr>sock_fd = 10, local_address = Some demo_addr\<rparr> m =
     Ok (Some \<lparr>connected = True, conn_socket = \<lparr>sock_fd = 20, local_address = Some demo_addr\<rparr>,
               peer_addr = Some (IPV4Address IPV4Address_default)\<rparr>, m)"
proof -
  obtain m where m: "demo_io = Ok m" using demo_io_ok by blast
  let ?s = "\<lparr>sock_fd = 10, local_address = Some demo_addr\<rparr>"
  have "address_for (getFamily demo_addr) = Ok (IPV4Address IPV4Address_default)"
    by (simp add: address_for_def demo_addr_def)
  moreover have "n_accept demo_napi (sock_fd ?s) (IPV4Address IPV4Address_default) (kern m)
      = (Inr (20, IPV4Address IPV4Address_default), kern m)"
    by simp
  ultimately show ?thesis
    using socket_accept_cases [of ?s demo_napi m demo_addr "IPV4Address IPV4Address_default" 20] m by auto
qed

text \<open>
  The overload of \<open>accept\<close> without a family asks the socket for its type and takes the answer
  for a family: for a stream socket (\<open>SOCK_STREAM\<close> is \<open>AF_UNIX\<close>) the kernel is always given a
  \<open>UnixAddress\<close>, for a datagram socket an \<open>IPV4Address\<close>, whatever the socket's own family.
\<close>

theorem accept_takes_type_for_family:
  assumes "n_getsockopt napi i SOL_SOCKET SO_TYPE 4 (kern m) = (Inr [t, 0, 0, 0], k)" and "t = 1 \<or> t = 2"
  shows "sockopt_accept napi garbage i m =
    res_bind (asserted (n_accept napi i
        (if t = 1 then UnixAddress UnixAddress_default else IPV4Address IPV4Address_default)) (m\<lparr>kern := k\<rparr>))
      (\<lambda>((ret, result), m). Ok ((result, ret), m))"
  using assms
  by (auto simp: sockopt_accept_def call_net_def sockopt_accept_family_def address_for_def AF_UNIX_def AF_INET_def AF_INET6_def)

theorem accept_takes_type_for_family_witness:
  "\<exists>m. demo_io = Ok m \<and> sockopt_accept demo_napi 0 10 m = Ok ((UnixAddress UnixAddress_default, 20), m)"
proof -
  obtain m where m: "demo_io = Ok m" using demo_io_ok by blast
  have "n_getsockopt demo_napi 10 SOL_SOCKET SO_TYPE 4 (kern m) = (Inr [1, 0, 0, 0], kern m)" by simp
  from accept_takes_type_for_family [OF this, of 0] show ?thesis using m by (auto simp: asserted_def)
qed

end
