(* ===== verification/Tcp_Server.thy ===== *)
theory Tcp_Server
  imports Net_Socket Balancers
begin

text \<open>
  include/net/tcp/tcp_server.h and src/net/tcp/tcp_server.cpp. A server lives on the thread of an
  \<open>IOManager\<close>; the closures it hands to executors are the constructors of \<open>server_cb\<close>, and
  \<open>accept_loop\<close>, \<open>stop_sockets\<close> are what they run. The balancer enters by its \<open>schedule\<close> function on
  the state of the thread's manager and a state of its own.
\<close>

section \<open>State\<close>

datatype 'u server_cb =
    AcceptLoop Socket
  | StopSockets
  | OnConnection TcpConnection
  | OtherCallback 'u

type_synonym ('u, 'k) server_io = "('u server_cb, 'k) io_manager"

record ('u, 'k) tcp_server =
  serving :: bool
  listen_sockets :: "Socket list"
  socket_initer :: "(Socket \<Rightarrow> ('u, 'k) server_io \<Rightarrow> (Socket \<times> ('u, 'k) server_io) res) option"

definition TcpServer_new :: "('u, 'k) tcp_server" where
  "TcpServer_new = \<lparr>serving = False, listen_sockets = [], socket_initer = None\<rparr>"

definition setSocketIniter ::
    "(Socket \<Rightarrow> ('u, 'k) server_io \<Rightarrow> (Socket \<times> ('u, 'k) server_io) res) option \<Rightarrow> ('u, 'k) tcp_server \<Rightarrow> ('u, 'k) tcp_server" where
  "setSocketIniter f srv = srv\<lparr>socket_initer := f\<rparr>"

section \<open>Binding\<close>

definition run_initer ::
    "('u, 'k) tcp_server \<Rightarrow> Socket \<Rightarrow> ('u, 'k) server_io \<Rightarrow> (Socket \<times> ('u, 'k) server_io) res" where
  "run_initer srv s m = (case socket_initer srv of None \<Rightarrow> Ok (s, m) | Some f \<Rightarrow> f s m)"

definition bindOne ::
    "'k net_api \<Rightarrow> SockAddress option \<Rightarrow> ('u, 'k) tcp_server \<times> ('u, 'k) server_io
       \<Rightarrow> (bool \<times> ('u, 'k) tcp_server \<times> ('u, 'k) server_io) res" where
  "bindOne napi addr st =
     (let (srv, m) = st
      in case addr of
           None \<Rightarrow> Err NullDeref
         | Some a \<Rightarrow>
             (case call_net (n_socket napi (uint (getFamily a)) SOCK_STREAM 0) m of
                (Inl e, m) \<Rightarrow> Ok (False, srv, m)
              | (Inr i, m) \<Rightarrow>
                  res_bind (run_initer srv (Socket_of i) m) (\<lambda>(s, m).
                    let (bind_ret, s, m) = Socket_bind napi addr s m
                    in if bind_ret = - 1 then Ok (False, srv, m)
                       else let (listen_ret, m) = Socket_listen napi SOMAXCONN s m
                            in if listen_ret = - 1 then Ok (False, srv, m)
                               else Ok (True, srv\<lparr>listen_sockets := listen_sockets srv @ [s]\<rparr>, m))))"

definition server_bind ::
    "'k net_api \<Rightarrow> SockAddress option \<Rightarrow> ('u, 'k) tcp_server \<times> ('u, 'k) server_io
       \<Rightarrow> (bool \<times> ('u, 'k) tcp_server \<times> ('u, 'k) server_io) res" where
  "server_bind napi addr st =
     (if listen_sockets (fst st) = [] then bindOne napi addr st else Ok (False, st))"

text \<open>The loop of the list version collects in \<open>bind_failed_addresses\<close>.\<close>

fun bind_loop ::
    "'k net_api \<Rightarrow> SockAddress option list \<Rightarrow> SockAddress option list \<Rightarrow> ('u, 'k) tcp_server \<times> ('u, 'k) server_io
       \<Rightarrow> (SockAddress option list \<times> ('u, 'k) tcp_server \<times> ('u, 'k) server_io) res" where
  "bind_loop napi bind_failed_addresses [] st = Ok (bind_failed_addresses, st)"
| "bind_loop napi bind_failed_addresses (a # as) st =
     res_bind (bindOne napi a st) (\<lambda>(ok, st).
       if ok then bind_loop napi (bind_failed_addresses @ [a]) as st else Ok (bind_failed_addresses, st))"

definition server_bind_list ::
    "'k net_api \<Rightarrow> SockAddress option list \<Rightarrow> ('u, 'k) tcp_server \<times> ('u, 'k) server_io
       \<Rightarrow> (SockAddress option list option \<times> ('u, 'k) tcp_server \<times> ('u, 'k) server_io) res" where
  "server_bind_list napi local_addresses st =
     (if listen_sockets (fst st) = []
      then res_bind (bind_loop napi [] local_addresses st) (\<lambda>(failed, st).
             Ok (if failed = [] then None else Some failed, st))
      else Ok (Some local_addresses, st))"

definition addBindAddr ::
    "'k net_api \<Rightarrow> SockAddress option \<Rightarrow> ('u, 'k) tcp_server \<times> ('u, 'k) server_io
       \<Rightarrow> (bool \<times> ('u, 'k) tcp_server \<times> ('u, 'k) server_io) res" where
  "addBindAddr napi addr st = bindOne napi addr st"

section \<open>Serving\<close>

text \<open>
  \<open>addExecutor(std::make_shared<Executor>(...))\<close>: an executor the scheduler does not take dies with
  the argument.
\<close>

definition spawn :: "('cb thread \<Rightarrow> eptr) \<Rightarrow> 'cb \<Rightarrow> ('cb, 'k) io_manager \<Rightarrow> ('cb, 'k) io_manager res" where
  "spawn alloc cb m =
     (let w = io_world m; p = alloc (thr w)
      in res_bind (Executor_callback p (Some cb) DefaultStackSize (thr w)) (\<lambda>th.
           let (ok, s) = addExecutor (Some p) (sch w)
           in Ok (m\<lparr>io_world := w\<lparr>thr := (if ok then th else destroy_executor p th), sch := s\<rparr>\<rparr>)))"

definition startServe ::
    "('u server_cb thread \<Rightarrow> eptr) \<Rightarrow> ('u, 'k) tcp_server \<times> ('u, 'k) server_io
       \<Rightarrow> (bool \<times> ('u, 'k) tcp_server \<times> ('u, 'k) server_io) res" where
  "startServe alloc st =
     (let (srv, m) = st
      in if serving srv then Ok (True, srv, m)
         else res_bind (fold_res (\<lambda>s. spawn alloc (AcceptLoop s)) (listen_sockets srv) m) (\<lambda>m.
                Ok (True, srv\<lparr>serving := True\<rparr>, m)))"

definition stopServe ::
    "('u server_cb thread \<Rightarrow> eptr) \<Rightarrow> ('u, 'k) tcp_server \<times> ('u, 'k) server_io
       \<Rightarrow> (bool \<times> ('u, 'k) tcp_server \<times> ('u, 'k) server_io) res" where
  "stopServe alloc st =
     (let (srv, m) = st
      in if \<not> serving srv then Ok (True, srv, m)
         else res_bind (spawn alloc StopSockets m) (\<lambda>m. Ok (True, srv\<lparr>serving := False\<rparr>, m)))"

text \<open>The closure of \<open>stopServe\<close>, one socket and all of them.\<close>

definition stop_socket ::
    "'k kernel_api \<Rightarrow> 'k net_api \<Rightarrow> Socket \<Rightarrow> ('cb, 'k) io_manager \<Rightarrow> (Socket \<times> ('cb, 'k) io_manager) res" where
  "stop_socket api napi s m =
     res_bind (Socket_shutdownWrite api napi s m) (\<lambda>m.
     res_bind (stopRead api s m) (\<lambda>m. Ok (Socket_close napi s m)))"

fun stop_sockets ::
    "'k kernel_api \<Rightarrow> 'k net_api \<Rightarrow> Socket list \<Rightarrow> ('cb, 'k) io_manager \<Rightarrow> (Socket list \<times> ('cb, 'k) io_manager) res" where
  "stop_sockets api napi [] m = Ok ([], m)"
| "stop_sockets api napi (s # ss) m =
     res_bind (stop_socket api napi s m) (\<lambda>(s, m).
     res_bind (stop_sockets api napi ss m) (\<lambda>(ss, m). Ok (s # ss, m)))"

definition run_StopSockets ::
    "'k kernel_api \<Rightarrow> 'k net_api \<Rightarrow> ('u, 'k) tcp_server \<times> ('u, 'k) server_io \<Rightarrow> (('u, 'k) tcp_server \<times> ('u, 'k) server_io) res" where
  "run_StopSockets api napi st =
     (let (srv, m) = st
      in res_bind (stop_sockets api napi (listen_sockets srv) m) (\<lambda>(ss, m). Ok (srv\<lparr>listen_sockets := ss\<rparr>, m)))"

text \<open>\<open>onAccept\<close>: the handler of the connection becomes an executor and goes to the balancer.\<close>

definition onAccept ::
    "('u server_cb thread \<Rightarrow> eptr) \<Rightarrow> (eptr \<Rightarrow> ('u, 'k) server_io \<times> 'b \<Rightarrow> (('u, 'k) server_io \<times> 'b) res)
       \<Rightarrow> TcpConnection \<Rightarrow> ('u, 'k) server_io \<times> 'b \<Rightarrow> (('u, 'k) server_io \<times> 'b) res" where
  "onAccept alloc schedule connection st =
     (let (m, b) = st; w = io_world m; p = alloc (thr w)
      in res_bind (Executor_callback p (Some (OnConnection connection)) DefaultStackSize (thr w)) (\<lambda>th.
           schedule p (m\<lparr>io_world := w\<lparr>thr := th\<rparr>\<rparr>, b)))"

text \<open>
  One round of the loop an accepting coroutine runs: \<open>False\<close> means that the loop is left. The
  warning of a failed round dereferences the local address.
\<close>

definition accept_iter ::
    "'k net_api \<Rightarrow> ('u server_cb thread \<Rightarrow> eptr) \<Rightarrow> (eptr \<Rightarrow> ('u, 'k) server_io \<times> 'b \<Rightarrow> (('u, 'k) server_io \<times> 'b) res)
       \<Rightarrow> Socket \<Rightarrow> ('u, 'k) tcp_server \<Rightarrow> ('u, 'k) server_io \<times> 'b \<Rightarrow> (bool \<times> ('u, 'k) server_io \<times> 'b) res" where
  "accept_iter napi alloc schedule socket srv st =
     (if \<not> serving srv then Ok (False, st)
      else let (m, b) = st
           in res_bind (Socket_accept napi socket m) (\<lambda>(connection, m).
                case connection of
                  Some c \<Rightarrow> res_bind (onAccept alloc schedule c (m, b)) (\<lambda>st. Ok (True, st))
                | None \<Rightarrow> if local_address socket = None then Err NullDeref else Ok (True, m, b)))"

definition TcpServer_destroy ::
    "'k net_api \<Rightarrow> ('u, 'k) tcp_server \<times> ('u, 'k) server_io \<Rightarrow> ('u, 'k) server_io res" where
  "TcpServer_destroy napi st =
     (let (srv, m) = st
      in if serving srv then Err BadWeakPtr
         else Ok (fold (\<lambda>s m. snd (Socket_close napi s m)) (listen_sockets srv) m))"

section \<open>Lemmas\<close>

lemma bindOne_cases:
  assumes "bindOne napi a (srv, m) = Ok (ok, srv', m')"
  shows "if ok then \<exists>s. srv' = srv\<lparr>listen_sockets := listen_sockets srv @ [s]\<rparr> \<and> local_address s = a else srv' = srv"
  using assms
  by (auto simp: bindOne_def Socket_bind_def Let_def split: option.splits prod.splits sum.splits if_splits)

lemma bind_loop_prefix:
  assumes "bind_loop napi acc as (srv, m) = Ok (failed, srv', m')"
  shows "\<exists>n \<le> length as. failed = acc @ take n as
    \<and> map local_address (listen_sockets srv') = map local_address (listen_sockets srv) @ take n as
    \<and> (n < length as \<longrightarrow> (\<exists>srv1 m1. bindOne napi (as ! n) (srv1, m1) = Ok (False, srv', m')))
    \<and> serving srv' = serving srv"
  using assms
proof (induction as arbitrary: acc srv m)
  case (Cons a as)
  from Cons.prems obtain ok srv1 m1 where b: "bindOne napi a (srv, m) = Ok (ok, srv1, m1)"
    and r: "(if ok then bind_loop napi (acc @ [a]) as (srv1, m1) else Ok (acc, srv1, m1)) = Ok (failed, srv', m')"
    by auto
  show ?case
  proof (cases ok)
    case False
    then have "failed = acc" "srv' = srv" "m' = m1" "bindOne napi a (srv, m) = Ok (False, srv', m')"
      using r b bindOne_cases [OF b] by auto
    then show ?thesis by (intro exI [of _ 0]) (simp, blast)
  next
    case True
    then obtain s where s: "srv1 = srv\<lparr>listen_sockets := listen_sockets srv @ [s]\<rparr>" "local_address s = a"
      using bindOne_cases [OF b] by auto
    from Cons.IH [of "acc @ [a]" srv1 m1] r True obtain n where n: "n \<le> length as" "failed = acc @ a # take n as"
      "map local_address (listen_sockets srv') = map local_address (listen_sockets srv1) @ take n as"
      "n < length as \<longrightarrow> (\<exists>srv1 m1. bindOne napi (as ! n) (srv1, m1) = Ok (False, srv', m'))" "serving srv' = serving srv1"
      by auto
    then show ?thesis using s by (intro exI [of _ "Suc n"]) auto
  qed
qed auto

text \<open>
  Binding a list of addresses binds a prefix of it, up to the first address that fails, one
  listening socket per address in order. What it returns is that prefix: the addresses that were
  bound, where the interface announces the ones that failed, so \<open>nullopt\<close> ("success") is returned
  exactly when nothing was bound. A server that already has sockets is left alone and the
  whole list is returned.
\<close>

theorem bind_list_returns_successes:
  assumes "server_bind_list napi as (srv, m) = Ok (result, srv', m')"
  shows "if listen_sockets srv = []
    then \<exists>n \<le> length as. result = (if n = 0 then None else Some (take n as))
      \<and> map local_address (listen_sockets srv') = take n as
      \<and> (n < length as \<longrightarrow> (\<exists>srv1 m1. bindOne napi (as ! n) (srv1, m1) = Ok (False, srv', m')))
    else result = Some as \<and> srv' = srv \<and> m' = m"
proof (cases "listen_sockets srv = []")
  case True
  from assms True obtain failed where f: "bind_loop napi [] as (srv, m) = Ok (failed, srv', m')"
    "result = (if failed = [] then None else Some failed)"
    by (auto simp: server_bind_list_def)
  from bind_loop_prefix [OF f(1)] obtain n where n: "n \<le> length as" "failed = take n as"
    "map local_address (listen_sockets srv') = take n as"
    "n < length as \<longrightarrow> (\<exists>srv1 m1. bindOne napi (as ! n) (srv1, m1) = Ok (False, srv', m'))"
    using True by (simp only: append_Nil list.map) blast
  then have "result = (if n = 0 then None else Some (take n as))" using f(2) by (cases as) auto
  then show ?thesis using n True by auto
qed (use assms in \<open>auto simp: server_bind_list_def\<close>)

definition demo_server :: "(unit, fd \<Rightarrow> u32 option) tcp_server" where
  "demo_server = \<lparr>serving = False, listen_sockets = [\<lparr>sock_fd = 10, local_address = Some demo_addr\<rparr>], socket_initer = None\<rparr>"

theorem bind_list_returns_successes_witness:
  "\<forall>m. server_bind_list demo_napi [Some demo_addr] (TcpServer_new, m) = Ok (Some [Some demo_addr], demo_server, m)
     \<and> map local_address (listen_sockets demo_server) = [Some demo_addr]"
proof
  fix m :: "(unit server_cb, fd \<Rightarrow> u32 option) io_manager"
  have e: "server_bind_list demo_napi [Some demo_addr] (TcpServer_new, m) = Ok (Some [Some demo_addr], demo_server, m)"
    by (simp add: server_bind_list_def bindOne_def TcpServer_new_def run_initer_def call_net_def Socket_bind_def
        Socket_listen_def Socket_of_def demo_server_def)
  from bind_list_returns_successes [OF e] obtain n where "n \<le> 1" "Some [Some demo_addr] = (if n = 0 then None else Some (take n [Some demo_addr]))"
    "map local_address (listen_sockets demo_server) = take n [Some demo_addr]"
    by (auto simp: TcpServer_new_def)
  then have "map local_address (listen_sockets demo_server) = [Some demo_addr]" by (simp split: if_splits)
  with e show "server_bind_list demo_napi [Some demo_addr] (TcpServer_new, m) = Ok (Some [Some demo_addr], demo_server, m)
     \<and> map local_address (listen_sockets demo_server) = [Some demo_addr]" by simp
qed

lemma spawn_ok:
  assumes "alloc_ok alloc" and "\<not> stopping (io_sch m)" and "finite (dom (heap (thr (io_world m))))"
  shows "\<exists>m' p. spawn alloc cb m = Ok m'
    \<and> io_sch m' = (io_sch m)\<lparr>ready_executors := ready_executors (io_sch m) @ [Some p]\<rparr> \<and> kern m' = kern m
    \<and> new_task (thr (io_world m')) p (Some cb) \<and> heap (thr (io_world m)) p = None
    \<and> heap (thr (io_world m')) = (heap (thr (io_world m)))(p := heap (thr (io_world m')) p)"
proof -
  let ?p = "alloc (thr (io_world m))"
  obtain th e where th: "Executor_callback ?p (Some cb) DefaultStackSize (thr (io_world m)) = Ok th"
    "heap th = (heap (thr (io_world m)))(?p \<mapsto> e)" "ex_is_call_back_type e" "ex_state e = Init" "ex_callback e = Some cb"
    by (auto simp: Executor_callback_def idGenerate_def createUpdateData_def Let_def)
  have "heap (thr (io_world m)) ?p = None" using assms(1,3) by (simp add: alloc_ok_def)
  then show ?thesis
    using th assms(2) by (auto simp: spawn_def Let_def addExecutor_def ready_push_def io_sch_def new_task_def)
qed

lemma spawn_all_ok:
  fixes m :: "('cb, 'k) io_manager"
  assumes "alloc_ok alloc" and "\<not> stopping (io_sch m)" and "finite (dom (heap (thr (io_world m))))"
  shows "\<exists>m' ps. fold_res (\<lambda>x. spawn alloc (f x)) xs m = Ok m'
    \<and> io_sch m' = (io_sch m)\<lparr>ready_executors := ready_executors (io_sch m) @ map Some ps\<rparr> \<and> kern m' = kern m
    \<and> list_all2 (\<lambda>p x. new_task (thr (io_world m')) p (Some (f x))) ps xs \<and> distinct ps
    \<and> (\<forall>p \<in> set ps. heap (thr (io_world m)) p = None)
    \<and> (\<forall>p e. heap (thr (io_world m)) p = Some e \<longrightarrow> heap (thr (io_world m')) p = Some e)"
  using assms(2,3)
proof (induction xs arbitrary: m)
  case (Cons x xs)
  from spawn_ok [OF assms(1) Cons.prems, of "f x"] obtain m1 p where m1: "spawn alloc (f x) m = Ok m1"
    "io_sch m1 = (io_sch m)\<lparr>ready_executors := ready_executors (io_sch m) @ [Some p]\<rparr>" "kern m1 = kern m"
    "new_task (thr (io_world m1)) p (Some (f x))" "heap (thr (io_world m)) p = None"
    "heap (thr (io_world m1)) = (heap (thr (io_world m)))(p := heap (thr (io_world m1)) p)"
    by auto
  have "\<not> stopping (io_sch m1)" using Cons.prems(1) m1(2) by simp
  moreover have "finite (dom (heap (thr (io_world m1))))"
    using Cons.prems(2) by (subst m1(6)) (auto intro: finite_subset [of _ "insert p (dom (heap (thr (io_world m))))"] split: if_splits)
  ultimately obtain m' ps where m': "fold_res (\<lambda>x. spawn alloc (f x)) xs m1 = Ok m'"
    "io_sch m' = (io_sch m1)\<lparr>ready_executors := ready_executors (io_sch m1) @ map Some ps\<rparr>" "kern m' = kern m1"
    "list_all2 (\<lambda>p x. new_task (thr (io_world m')) p (Some (f x))) ps xs" "distinct ps"
    "\<forall>p \<in> set ps. heap (thr (io_world m1)) p = None"
    "\<forall>p e. heap (thr (io_world m1)) p = Some e \<longrightarrow> heap (thr (io_world m')) p = Some e"
    using Cons.IH by blast
  have keep: "\<forall>q e. heap (thr (io_world m)) q = Some e \<longrightarrow> heap (thr (io_world m1)) q = Some e"
    using m1(5,6) by (metis fun_upd_other option.distinct(1))
  have "new_task (thr (io_world m')) p (Some (f x))" using m1(4) m'(7) by (auto simp: new_task_def split: option.splits)
  moreover have "p \<notin> set ps" using m1(4) m'(6) by (auto simp: new_task_def)
  moreover have "\<forall>q \<in> set ps. heap (thr (io_world m)) q = None" using m'(6) keep by (metis not_None_eq)
  ultimately show ?case
    using m1 m' keep by (intro exI [of _ m'] exI [of _ "p # ps"]) auto
qed (auto intro!: exI [of _ "[]"])

text \<open>
  \<open>startServe\<close> puts one new coroutine per listening socket at the end of the ready queue, in the
  order of the sockets, each running the accept loop on its own socket, and turns the server on;
  no existing executor is touched. A second \<open>startServe\<close> changes nothing.
\<close>

theorem startServe_spawns:
  assumes "alloc_ok alloc" and "\<not> stopping (io_sch m)" and "finite (dom (heap (thr (io_world m))))" and "\<not> serving srv"
  shows "\<exists>m' ps. startServe alloc (srv, m) = Ok (True, srv\<lparr>serving := True\<rparr>, m')
    \<and> io_sch m' = (io_sch m)\<lparr>ready_executors := ready_executors (io_sch m) @ map Some ps\<rparr>
    \<and> list_all2 (\<lambda>p s. new_task (thr (io_world m')) p (Some (AcceptLoop s))) ps (listen_sockets srv) \<and> distinct ps
    \<and> (\<forall>p e. heap (thr (io_world m)) p = Some e \<longrightarrow> heap (thr (io_world m')) p = Some e)
    \<and> startServe alloc (srv\<lparr>serving := True\<rparr>, m') = Ok (True, srv\<lparr>serving := True\<rparr>, m')"
proof -
  obtain m' ps where m': "fold_res (\<lambda>s. spawn alloc (AcceptLoop s)) (listen_sockets srv) m = Ok m'"
    "io_sch m' = (io_sch m)\<lparr>ready_executors := ready_executors (io_sch m) @ map Some ps\<rparr>"
    "list_all2 (\<lambda>p s. new_task (thr (io_world m')) p (Some (AcceptLoop s))) ps (listen_sockets srv)" "distinct ps"
    "\<forall>p e. heap (thr (io_world m)) p = Some e \<longrightarrow> heap (thr (io_world m')) p = Some e"
    using spawn_all_ok [OF assms(1-3), of AcceptLoop] by blast
  then show ?thesis
    using assms(4) by (intro exI [of _ m'] exI [of _ ps]) (simp add: startServe_def)
qed

theorem startServe_spawns_witness:
  "\<exists>m m' p. IOManager_new demo_api 2 3 (OtherCallback ()) (fresh_thread 2) (\<lambda>_. None) = Ok m
     \<and> startServe (\<lambda>th. LEAST p. heap th p = None) (demo_server, m) = Ok (True, demo_server\<lparr>serving := True\<rparr>, m')
     \<and> ready_executors (io_sch m') = [Some p]
     \<and> new_task (thr (io_world m')) p (Some (AcceptLoop \<lparr>sock_fd = 10, local_address = Some demo_addr\<rparr>))"
proof -
  obtain m where m: "IOManager_new demo_api 2 3 (OtherCallback ()) (fresh_thread 2) (\<lambda>_. None) = Ok m"
    "\<not> stopping (io_sch m)" "ready_executors (io_sch m) = []" "finite (dom (heap (thr (io_world m))))"
    using demo_new_ok [of "OtherCallback ()"] by auto
  have "\<not> serving demo_server" by (simp add: demo_server_def)
  from startServe_spawns [OF least_alloc_ok m(2,4) this] obtain m' ps where
    m': "startServe (\<lambda>th. LEAST p. heap th p = None) (demo_server, m) = Ok (True, demo_server\<lparr>serving := True\<rparr>, m')"
    "io_sch m' = (io_sch m)\<lparr>ready_executors := ready_executors (io_sch m) @ map Some ps\<rparr>"
    "list_all2 (\<lambda>p s. new_task (thr (io_world m')) p (Some (AcceptLoop s))) ps (listen_sockets demo_server)"
    by auto
  then obtain p where "ps = [p]" "new_task (thr (io_world m')) p (Some (AcceptLoop \<lparr>sock_fd = 10, local_address = Some demo_addr\<rparr>))"
    by (auto simp: demo_server_def list_all2_Cons2)
  then show ?thesis using m m' by auto
qed

section \<open>Connections and their balancer\<close>

fun accept_rounds ::
    "'k net_api \<Rightarrow> ('u server_cb thread \<Rightarrow> eptr) \<Rightarrow> (eptr \<Rightarrow> ('u, 'k) server_io \<times> 'b \<Rightarrow> (('u, 'k) server_io \<times> 'b) res)
       \<Rightarrow> Socket \<Rightarrow> ('u, 'k) tcp_server \<Rightarrow> nat \<Rightarrow> ('u, 'k) server_io \<times> 'b \<Rightarrow> (('u, 'k) server_io \<times> 'b) res" where
  "accept_rounds napi alloc schedule s srv 0 st = Ok st"
| "accept_rounds napi alloc schedule s srv (Suc n) st =
     res_bind (accept_iter napi alloc schedule s srv st) (\<lambda>(go, st).
       if go then accept_rounds napi alloc schedule s srv n st else Ok st)"

text \<open>The connections the kernel hands out in \<open>n\<close> calls of \<open>accept\<close>; shorter when a call fails.\<close>

fun connections :: "'k net_api \<Rightarrow> Socket \<Rightarrow> nat \<Rightarrow> ('cb, 'k) io_manager \<Rightarrow> TcpConnection list" where
  "connections napi s 0 m = []"
| "connections napi s (Suc n) m =
     (case Socket_accept napi s m of Inr (Some c, m') \<Rightarrow> c # connections napi s n m' | _ \<Rightarrow> [])"

text \<open>One new executor per connection, each with the handler of its own.\<close>

definition handlers :: "'u server_cb thread \<Rightarrow> eptr list \<Rightarrow> TcpConnection list \<Rightarrow> bool" where
  "handlers th ps cs \<longleftrightarrow> distinct ps \<and> list_all2 (\<lambda>p c. new_task th p (Some (OnConnection c))) ps cs"

lemma Socket_accept_kern:
  assumes "Socket_accept napi s m = Ok (c, m1)" and "kern m2 = kern m"
  shows "Socket_accept napi s m2 = Ok (c, m2\<lparr>kern := kern m1\<rparr>)" and "io_world m1 = io_world m"
  using assms by (auto simp: accept_defs split: option.splits if_splits prod.splits sum.splits)

lemma connections_kern: "kern m2 = kern m \<Longrightarrow> connections napi s n m2 = connections napi s n m"
proof (induction n arbitrary: m m2)
  case (Suc n)
  show ?case
  proof (cases "Socket_accept napi s m")
    case (Inl e)
    then have "Socket_accept napi s m2 = Err e"
      using Suc.prems by (auto simp: accept_defs split: option.splits if_splits prod.splits sum.splits)
    with Inl show ?thesis by simp
  next
    case (Inr r)
    obtain c m1 where r: "r = (c, m1)" by (cases r)
    from Socket_accept_kern(1) [OF Inr [unfolded r] Suc.prems] Inr r
    show ?thesis using Suc.IH [of "m2\<lparr>kern := kern m1\<rparr>" m1] by (simp split: option.splits)
  qed
qed simp

text \<open>
  What the accept loop needs of a balancer: the contract on the state of the thread's manager and
  the balancer's own, where the waiting tasks do not depend on the executors' memory or on the
  kernel, and scheduling touches neither.
\<close>

locale server_balancer = serving_balancer schedule pending accepts serves
  for schedule :: "eptr \<Rightarrow> ('u, 'k) server_io \<times> 'b \<Rightarrow> (('u, 'k) server_io \<times> 'b) res"
    and pending :: "('u, 'k) server_io \<times> 'b \<Rightarrow> eptr multiset"
    and accepts :: "('u, 'k) server_io \<times> 'b \<Rightarrow> bool" and serves :: "('u, 'k) server_io \<times> 'b \<Rightarrow> bool" +
  assumes frame: "io_sch m' = io_sch m \<Longrightarrow>
      pending (m', b) = pending (m, b) \<and> accepts (m', b) = accepts (m, b) \<and> serves (m', b) = serves (m, b)"
    and keeps: "schedule p (m, b) = Ok (m', b') \<Longrightarrow> kern m' = kern m \<and> thr (io_world m') = thr (io_world m)"
begin

lemma accept_iter_handles:
  assumes "accepts (m, b)" and "serves (m, b)" and "serving srv" and "alloc_ok alloc" and "finite (dom (heap (thr (io_world m))))"
    and "Socket_accept napi s m = Ok (Some c, m1)"
  obtains m' b' p where "accept_iter napi alloc schedule s srv (m, b) = Ok (True, m', b')" "accepts (m', b')" "serves (m', b')"
    "kern m' = kern m1" "pending (m', b') = add_mset p (pending (m, b))" "heap (thr (io_world m)) p = None"
    "new_task (thr (io_world m')) p (Some (OnConnection c))"
    "heap (thr (io_world m')) = (heap (thr (io_world m)))(p := heap (thr (io_world m')) p)"
proof -
  let ?p = "alloc (thr (io_world m))"
  obtain th e where th: "Executor_callback ?p (Some (OnConnection c)) DefaultStackSize (thr (io_world m)) = Ok th"
    "heap th = (heap (thr (io_world m)))(?p \<mapsto> e)" "ex_is_call_back_type e" "ex_state e = Init" "ex_callback e = Some (OnConnection c)"
    by (auto simp: Executor_callback_def idGenerate_def createUpdateData_def Let_def)
  have w: "io_world m1 = io_world m" by (rule Socket_accept_kern(2) [OF assms(6) refl])
  let ?m = "m1\<lparr>io_world := (io_world m)\<lparr>thr := th\<rparr>\<rparr>"
  have "io_sch ?m = io_sch m" by (simp add: io_sch_def)
  note f = frame [OF this, of b]
  obtain m' b' where s: "schedule ?p (?m, b) = Ok (m', b')" "serves (m', b')"
    using schedule_returns [of "(?m, b)" ?p] f assms(2) by auto
  moreover have "accept_iter napi alloc schedule s srv (m, b) = Ok (True, m', b')"
    using assms(3,6) th(1) s(1) w by (simp add: accept_iter_def onAccept_def Let_def)
  moreover have "accepts (m', b')" "pending (m', b') = add_mset ?p (pending (m, b))"
    using schedule_accepts [OF _ s(1)] schedule_adds [OF _ s(1)] f assms(1) by auto
  moreover have "kern m' = kern m1" "thr (io_world m') = th" using keeps [OF s(1)] by simp_all
  moreover have "heap (thr (io_world m)) ?p = None" using assms(4,5) by (simp add: alloc_ok_def)
  ultimately show thesis using that [of m' b' ?p] th(2-5) by (simp add: new_task_def)
qed

text \<open>Several rounds of the accept loop.\<close>

lemma accept_rounds_handle:
  assumes "serving srv" and "alloc_ok alloc"
  shows "accepts (m, b) \<Longrightarrow> serves (m, b) \<Longrightarrow> finite (dom (heap (thr (io_world m)))) \<Longrightarrow> length (connections napi s n m) = n \<Longrightarrow>
    \<exists>m' b' ps. accept_rounds napi alloc schedule s srv n (m, b) = Ok (m', b') \<and> pending (m', b') = mset ps + pending (m, b)
      \<and> handlers (thr (io_world m')) ps (connections napi s n m)
      \<and> (\<forall>p \<in> set ps. heap (thr (io_world m)) p = None)
      \<and> (\<forall>p e. heap (thr (io_world m)) p = Some e \<longrightarrow> heap (thr (io_world m')) p = Some e)"
proof (induction n arbitrary: m b)
  case (Suc n)
  obtain c m1 where c: "Socket_accept napi s m = Ok (Some c, m1)" "length (connections napi s n m1) = n"
    using Suc.prems(4) by (auto split: sum.splits option.splits)
  obtain m2 b2 p where r: "accept_iter napi alloc schedule s srv (m, b) = Ok (True, m2, b2)" "accepts (m2, b2)" "serves (m2, b2)"
    "kern m2 = kern m1" "pending (m2, b2) = add_mset p (pending (m, b))" "heap (thr (io_world m)) p = None"
    "new_task (thr (io_world m2)) p (Some (OnConnection c))"
    "heap (thr (io_world m2)) = (heap (thr (io_world m)))(p := heap (thr (io_world m2)) p)"
    by (rule accept_iter_handles [OF Suc.prems(1,2) assms Suc.prems(3) c(1)])
  have k: "connections napi s n m2 = connections napi s n m1" by (rule connections_kern [OF r(4)])
  have "finite (dom (heap (thr (io_world m2))))"
    using Suc.prems(3) by (subst r(8)) (auto intro: finite_subset [of _ "insert p (dom (heap (thr (io_world m))))"] split: if_splits)
  then obtain m' b' ps where i: "accept_rounds napi alloc schedule s srv n (m2, b2) = Ok (m', b')"
    "pending (m', b') = mset ps + pending (m2, b2)" "handlers (thr (io_world m')) ps (connections napi s n m1)"
    "\<forall>p \<in> set ps. heap (thr (io_world m2)) p = None"
    "\<forall>p e. heap (thr (io_world m2)) p = Some e \<longrightarrow> heap (thr (io_world m')) p = Some e"
    using Suc.IH [OF r(2,3)] c(2) k by auto
  have keep: "heap (thr (io_world m2)) q = Some e" if "heap (thr (io_world m)) q = Some e" for q e
    using r(6,8) that by (metis fun_upd_other option.distinct(1))
  have "p \<notin> set ps" using r(7) i(4) by (auto simp: new_task_def)
  moreover have "new_task (thr (io_world m')) p (Some (OnConnection c))"
    using r(7) i(5) by (auto simp: new_task_def split: option.splits)
  ultimately have "handlers (thr (io_world m')) (p # ps) (c # connections napi s n m1)" using i(3) by (simp add: handlers_def)
  moreover have "\<forall>q \<in> set (p # ps). heap (thr (io_world m)) q = None" using i(4) r(6) keep by (metis not_None_eq set_ConsD)
  ultimately show ?case
    using r(1,5) i(1,2,5) c(1) keep by (intro exI [of _ m'] exI [of _ b'] exI [of _ "p # ps"]) simp
qed (auto simp: handlers_def intro!: exI [of _ "[]"])

end

text \<open>A balancer on the thread's own manager, and one with managers of its own.\<close>

definition on_manager ::
    "(eptr \<Rightarrow> 'm \<Rightarrow> 'm res) \<Rightarrow> eptr \<Rightarrow> 'm \<times> 'b \<Rightarrow> ('m \<times> 'b) res" where
  "on_manager f p st = res_bind (f p (fst st)) (\<lambda>m. Ok (m, snd st))"

definition on_balancer ::
    "(eptr \<Rightarrow> 'b \<Rightarrow> 'b res) \<Rightarrow> eptr \<Rightarrow> 'm \<times> 'b \<Rightarrow> ('m \<times> 'b) res" where
  "on_balancer f p st = res_bind (f p (snd st)) (\<lambda>b. Ok (fst st, b))"

lemma on_balancer_returns: "\<exists>b'. f p (snd st) = Ok b' \<and> Q b' \<Longrightarrow> \<exists>st'. on_balancer f p st = Ok st' \<and> Q (snd st')"
  by (auto simp: on_balancer_def)

interpretation simple_srv: server_balancer "on_manager Simple_schedule" "\<lambda>st. mgr_pending (fst st)"
    "\<lambda>st. \<not> stopping (io_sch (fst st))" "\<lambda>_. True"
  by unfold_locales
    (auto simp: on_manager_def mgr_pending_def Simple_schedule_def io_addExecutor_def upd_sch_def
      dest: simple.schedule_adds [simplified mgr_pending_def Simple_schedule_def]
        simple.schedule_accepts [simplified Simple_schedule_def])

interpretation random_srv: server_balancer "on_balancer (Random_schedule rand api threads)" "\<lambda>st. group_pending (snd st)"
    "\<lambda>_. True" "\<lambda>st. rand_in_range rand \<and> complete api threads (snd st)" for rand api threads
proof (unfold_locales, goal_cases)
  case (3 st p)
  then show ?case using Random_returns by (intro on_balancer_returns) blast
qed (auto simp: on_balancer_def dest: random.schedule_adds [simplified])

interpretation sequence_srv: server_balancer "on_balancer (Sequence_schedule api threads)" "\<lambda>st. group_pending (snd (snd st))"
    "\<lambda>_. True" "\<lambda>st. complete api threads (snd (snd st))" for api threads
proof (unfold_locales, goal_cases)
  case (3 st p)
  then show ?case using Sequence_returns by (intro on_balancer_returns) blast
qed (auto simp: on_balancer_def dest: sequence.schedule_adds [simplified])

interpretation prio_srv: server_balancer "on_balancer (Prio_schedule rand api (Some prio))" "\<lambda>st. levels_pending (snd st)"
    "\<lambda>_. True" "\<lambda>st. levels_serve rand api prio (snd st)" for rand api prio
proof (unfold_locales, goal_cases)
  case (3 st p)
  then show ?case using levels_serve_returns by (intro on_balancer_returns) blast
qed (auto simp: on_balancer_def dest: prio.schedule_adds [simplified])

text \<open>
  C27. Every accepted connection gets exactly one coroutine, and that coroutine runs the handler on this
  connection. When the kernel gives the accept loop of a serving server \<open>n\<close> connections, \<open>n\<close> rounds of it
  return; the tasks waiting in the managers behind the balancer are those from before and \<open>n\<close> new executors, all different,
  whose callbacks are \<open>on_connection\<close> of the first, the second, \<dots> connection. This is so for the default
  balancer while the thread's scheduler takes tasks, for the random and the sequential one when every thread has
  entered its manager, and for the priority one when its lowest level has a worker: \<open>onAccept\<close> gives it priority 0.
\<close>

theorem accepted_connections_get_handlers:
  fixes m :: "('u, 'k) server_io"
  assumes "serving srv" and "alloc_ok alloc" and "finite (dom (heap (thr (io_world m))))"
    and "length (connections napi s n m) = n"
  shows "(\<not> stopping (io_sch m) \<longrightarrow>
        (\<exists>m' ps. accept_rounds napi alloc (on_manager Simple_schedule) s srv n (m, ()) = Ok (m', ())
           \<and> mgr_pending m' = mset ps + mgr_pending m \<and> handlers (thr (io_world m')) ps (connections napi s n m)))
    \<and> (rand_in_range rand \<and> complete api threads ms \<longrightarrow>
        (\<exists>m' ms' ps. accept_rounds napi alloc (on_balancer (Random_schedule rand api threads)) s srv n (m, ms) = Ok (m', ms')
           \<and> group_pending ms' = mset ps + group_pending ms \<and> handlers (thr (io_world m')) ps (connections napi s n m)))
    \<and> (complete api threads ms \<longrightarrow>
        (\<exists>m' c' ms' ps. accept_rounds napi alloc (on_balancer (Sequence_schedule api threads)) s srv n (m, (c, ms)) = Ok (m', (c', ms'))
           \<and> group_pending ms' = mset ps + group_pending ms \<and> handlers (thr (io_world m')) ps (connections napi s n m)))
    \<and> (levels_serve rand api 0 ws \<longrightarrow>
        (\<exists>m' ws' ps. accept_rounds napi alloc (on_balancer (Prio_schedule rand api (Some 0))) s srv n (m, ws) = Ok (m', ws')
           \<and> levels_pending ws' = mset ps + levels_pending ws \<and> handlers (thr (io_world m')) ps (connections napi s n m)))"
proof (intro conjI impI)
  assume "\<not> stopping (io_sch m)"
  then show "\<exists>m' ps. accept_rounds napi alloc (on_manager Simple_schedule) s srv n (m, ()) = Ok (m', ())
       \<and> mgr_pending m' = mset ps + mgr_pending m \<and> handlers (thr (io_world m')) ps (connections napi s n m)"
    using simple_srv.accept_rounds_handle [OF assms(1,2), of m "()", OF _ _ assms(3,4)] by fastforce
next
  assume "rand_in_range rand \<and> complete api threads ms"
  then show "\<exists>m' ms' ps. accept_rounds napi alloc (on_balancer (Random_schedule rand api threads)) s srv n (m, ms) = Ok (m', ms')
       \<and> group_pending ms' = mset ps + group_pending ms \<and> handlers (thr (io_world m')) ps (connections napi s n m)"
    using random_srv.accept_rounds_handle [OF assms(1,2) TrueI _ assms(3,4), of rand api threads ms] by fastforce
next
  assume "complete api threads ms"
  then show "\<exists>m' c' ms' ps. accept_rounds napi alloc (on_balancer (Sequence_schedule api threads)) s srv n (m, (c, ms)) = Ok (m', (c', ms'))
       \<and> group_pending ms' = mset ps + group_pending ms \<and> handlers (thr (io_world m')) ps (connections napi s n m)"
    using sequence_srv.accept_rounds_handle [OF assms(1,2) TrueI _ assms(3,4), of api threads "(c, ms)"] by fastforce
next
  assume "levels_serve rand api 0 ws"
  then show "\<exists>m' ws' ps. accept_rounds napi alloc (on_balancer (Prio_schedule rand api (Some 0))) s srv n (m, ws) = Ok (m', ws')
       \<and> levels_pending ws' = mset ps + levels_pending ws \<and> handlers (thr (io_world m')) ps (connections napi s n m)"
    using prio_srv.accept_rounds_handle [OF assms(1,2) TrueI _ assms(3,4), of rand api 0 ws] by fastforce
qed

theorem accepted_connections_get_handlers_witness:
  "\<exists>m m' p q. IOManager_new demo_api 2 3 (OtherCallback ()) (fresh_thread 2) (\<lambda>_. None) = Ok m
     \<and> accept_rounds demo_napi (\<lambda>th. LEAST p. heap th p = None) (on_manager Simple_schedule) \<lparr>sock_fd = 10, local_address = Some demo_addr\<rparr>
         (demo_server\<lparr>serving := True\<rparr>) 2 (m, ()) = Ok (m', ())
     \<and> mgr_pending m' = {#p, q#} + mgr_pending m
     \<and> handlers (thr (io_world m')) [p, q] (connections demo_napi \<lparr>sock_fd = 10, local_address = Some demo_addr\<rparr> 2 m)"
proof -
  obtain m where m: "IOManager_new demo_api 2 3 (OtherCallback ()) (fresh_thread 2) (\<lambda>_. None) = Ok m"
    "\<not> stopping (io_sch m)" "finite (dom (heap (thr (io_world m))))" using demo_new_ok [of "OtherCallback ()"] by auto
  let ?s = "\<lparr>sock_fd = 10, local_address = Some demo_addr\<rparr>"
  obtain c where "Socket_accept demo_napi ?s m = Ok (Some c, m)" by (auto simp: accept_defs demo_addr_def)
  then have l: "length (connections demo_napi ?s 2 m) = 2" by (simp add: numeral_2_eq_2)
  have "serving (demo_server\<lparr>serving := True\<rparr>)" by simp
  from accepted_connections_get_handlers [OF this least_alloc_ok m(3) l] m(2)
  obtain m' ps where "accept_rounds demo_napi (\<lambda>th. LEAST p. heap th p = None) (on_manager Simple_schedule) ?s
      (demo_server\<lparr>serving := True\<rparr>) 2 (m, ()) = Ok (m', ())" "mgr_pending m' = mset ps + mgr_pending m"
    "handlers (thr (io_world m')) ps (connections demo_napi ?s 2 m)" by blast
  moreover then obtain p q where "ps = [p, q]" using l by (auto simp: handlers_def numeral_2_eq_2 length_Suc_conv dest!: list_all2_lengthD)
  ultimately show ?thesis using m(1) by (intro exI [of _ m] exI [of _ m'] exI [of _ p] exI [of _ q]) simp
qed

section \<open>Stopping\<close>

text \<open>
  The closure of \<open>stopServe\<close> strands an acceptor: when a coroutine of the manager waits for the
  listening descriptor to become readable, the closure shuts the socket down, takes the
  descriptor out of the kernel's interest list and drops the waiting executor without putting it
  into the ready queue, then closes the descriptor; the server's socket is marked closed and the
  queues of the scheduler are what they were.
\<close>

theorem stop_strands_acceptor:
  fixes m :: "('u, 'k) server_io"
  assumes "epoll_ctl_ok api interest usable" and "watch_ok interest m"
    and "\<And>i k. \<exists>k'. n_shutdown napi i SHUT_WR k = (Inr (), k') \<and> interest k' = interest k"
    and "listen_sockets srv = [s]" and "0 \<le> sock_fd s" and "sock_fd s < int (length (fd_events m))"
    and "sock_fd s \<noteq> fst (wakeup_pipe_fd m)"
    and "hasEvent (sock_fd s) Read m = Ok True" and "hasEvent (sock_fd s) Write m = Ok False"
    and "read_executor (events_at m (sock_fd s)) = Some acceptor"
  shows "\<exists>m' m''. run_StopSockets api napi (srv, m) = Ok (srv\<lparr>listen_sockets := [s\<lparr>sock_fd := - 1\<rparr>]\<rparr>, m'')
    \<and> m'' = m'\<lparr>kern := snd (n_close napi (sock_fd s) (kern m'))\<rparr>
    \<and> interest (kern m') (sock_fd s) = None \<and> read_executor (events_at m'' (sock_fd s)) = None
    \<and> io_world m'' = io_world m"
proof -
  let ?i = "sock_fd s"
  obtain k where k: "n_shutdown napi ?i SHUT_WR (kern m) = (Inr (), k)" "interest k = interest (kern m)" using assms(3) by blast
  let ?m = "m\<lparr>kern := k\<rparr>"
  have ev: "events_at ?m ?i = events_at m ?i" by (rule events_at_cong) simp
  have w: "watch_ok interest ?m" using assms(2) k(2) by (subst watch_ok_cong [of _ m]) simp_all
  have r: "hasEvent ?i Read ?m = Ok True" using assms(5,8) ev by (simp add: hasEvent_eq)
  have "registered_events (events_at ?m ?i) AND Write = 0" using assms(5,9) ev by (simp add: hasEvent_eq)
  then have nw: "removeEvent api ?i Write ?m = Ok ?m"
    using assms(5,6) by (simp add: removeEvent_def vec_get_events)
  obtain m' where m': "removeEvent api ?i Read ?m = Ok m'" "interest (kern m') ?i = None"
    "events_at m' ?i = (events_at ?m ?i)\<lparr>read_executor := None, write_executor := None\<rparr>" "io_world m' = io_world ?m"
    using removeEvent_drops [OF assms(1) w assms(5) _ _ _ r] assms(6,7) by auto
  let ?m2 = "m'\<lparr>kern := snd (n_close napi ?i (kern m'))\<rparr>"
  have "run_StopSockets api napi (srv, m) = Ok (srv\<lparr>listen_sockets := [s\<lparr>sock_fd := - 1\<rparr>]\<rparr>, ?m2)"
    using assms(4) k(1) nw m'(1)
    by (simp add: run_StopSockets_def stop_socket_def Socket_shutdownWrite_def sockopt_shutdownWrite_def asserted_def
        stopWrite_def stopRead_def Socket_close_def call_net_def split: prod.split)
  moreover have "events_at ?m2 ?i = events_at m' ?i" by (rule events_at_cong) simp
  ultimately show ?thesis using m' by (intro exI [of _ m'] exI [of _ ?m2]) simp
qed

theorem stop_strands_acceptor_witness:
  "\<exists>m m1 m2. IOManager_new demo_api 2 3 (OtherCallback ()) (fresh_thread 2) (\<lambda>_. None) = Ok m
     \<and> registerEvent demo_api 10 Read (Some 9) True m = Ok (True, m1)
     \<and> run_StopSockets demo_api demo_napi (demo_server, m1) =
         Ok (demo_server\<lparr>listen_sockets := [\<lparr>sock_fd = - 1, local_address = Some demo_addr\<rparr>]\<rparr>, m2)
     \<and> read_executor (events_at m2 10) = None \<and> ready_executors (io_sch m2) = []"
proof -
  obtain m :: "(unit, fd \<Rightarrow> u32 option) server_io" where m: "IOManager_new demo_api 2 3 (OtherCallback ()) (fresh_thread 2) (\<lambda>_. None) = Ok m"
    "watch_ok (\<lambda>k. k) m" "\<not> io_stopped m" "wakeup_pipe_fd m = (4, 5)" "fd_events m = []" "ready_executors (io_sch m) = []"
    using demo_new_ok [of "OtherCallback ()"] by auto
  from registerEvent_events [OF demo_api_ok m(2,3), of 10 Read "Some 9" True] m(4) obtain m1 where
    m1: "registerEvent demo_api 10 Read (Some 9) True m = Ok (True, m1)" "watch_ok (\<lambda>k. k) m1"
      "wakeup_pipe_fd m1 = (4, 5)" "io_world m1 = io_world m" "10 < int (length (fd_events m1))"
      "events_at m1 10 = (set_side Read (Some 9) True (events_at m 10))\<lparr>registered_events := registered_events (events_at m 10) OR Read\<rparr>"
    by auto
  have e: "events_at m1 10 = \<lparr>registered_events = Read, read_call_once = True, write_call_once = True,
      read_executor = Some 9, write_executor = None\<rparr>"
    using m1(6) m(5) by (simp add: set_side_def events_at_def FdEvents_default_def)
  let ?s = "\<lparr>sock_fd = 10, local_address = Some demo_addr\<rparr>"
  have "\<exists>k'. n_shutdown demo_napi i SHUT_WR k = (Inr (), k') \<and> k' = k" for i k by simp
  moreover have "listen_sockets demo_server = [?s]" by (simp add: demo_server_def)
  moreover have "hasEvent (sock_fd ?s) Read m1 = Ok True" "hasEvent (sock_fd ?s) Write m1 = Ok False"
    using e by (simp_all add: hasEvent_eq Read_def Write_def epoll_bits)
  ultimately obtain m' m2 where "run_StopSockets demo_api demo_napi (demo_server, m1) = Ok (demo_server\<lparr>listen_sockets := [?s\<lparr>sock_fd := - 1\<rparr>]\<rparr>, m2)"
    "read_executor (events_at m2 10) = None" "io_world m2 = io_world m1"
    using stop_strands_acceptor [OF demo_api_ok m1(2), of demo_napi demo_server ?s 9] m1(3,5) e by auto
  then show ?thesis using m(1,6) m1(1,4) by (auto simp: io_sch_def)
qed

end
