(* ===== verification/File_Writer.thy ===== *)
theory File_Writer
  imports Sys_Calls
begin

text \<open>
  include/base/file.h: \<open>WritableFile\<close>, a file opened for appending behind a buffer of 65535 bytes,
  and \<open>createDir\<close>. The system calls are the record \<open>file_api\<close>; the part of the buffer array below
  \<open>pos_\<close> is the list \<open>buf\<close>. The locale \<open>byte_sink\<close> is the contract the log flushers build on.
\<close>

section \<open>State and operations\<close>

definition G_FileBufferSize :: nat where
  "G_FileBufferSize = 65535"

record WritableFile =
  buf :: string
  wfd :: fd
  file_name :: string

record 'k file_api =
  f_open :: "string \<Rightarrow> ('k, fd) syscall"
  f_write :: "fd \<Rightarrow> string \<Rightarrow> ('k, nat) syscall"
  f_close :: "fd \<Rightarrow> ('k, unit) syscall"
  f_stat :: "string \<Rightarrow> ('k, unit) syscall"
  f_mkdir :: "string \<Rightarrow> ('k, unit) syscall"

partial_function (option) write_loop :: "(string \<Rightarrow> ('k, nat) syscall) \<Rightarrow> string \<Rightarrow> 'k \<Rightarrow> (bool \<times> 'k) option" where
  "write_loop wr data k =
     (if data = [] then Some (True, k)
      else case wr data k of
             (Inl e, k') \<Rightarrow> if e = EINTR then write_loop wr data k' else Some (False, k')
           | (Inr n, k') \<Rightarrow> write_loop wr (drop n data) k')"

definition file_write :: "'k file_api \<Rightarrow> string \<Rightarrow> WritableFile \<Rightarrow> 'k \<Rightarrow> (bool \<times> 'k) res" where
  "file_write api data f k = (case write_loop (f_write api (wfd f)) data k of None \<Rightarrow> Err NoReturn | Some r \<Rightarrow> Ok r)"

definition flushBuffer :: "'k file_api \<Rightarrow> WritableFile \<times> 'k \<Rightarrow> (bool \<times> WritableFile \<times> 'k) res" where
  "flushBuffer api s =
     (let (f, k) = s
      in res_bind (file_write api (buf f) f k) (\<lambda>(result, k). Ok (result, f\<lparr>buf := []\<rparr>, k)))"

definition append_file :: "'k file_api \<Rightarrow> string \<Rightarrow> WritableFile \<times> 'k \<Rightarrow> (bool \<times> WritableFile \<times> 'k) res" where
  "append_file api str s =
     (let (f, k) = s;
          copy_size = min (length str) (G_FileBufferSize - length (buf f));
          f = f\<lparr>buf := buf f @ take copy_size str\<rparr>;
          write_data = drop copy_size str
      in if write_data = [] then Ok (True, f, k)
         else res_bind (flushBuffer api (f, k)) (\<lambda>(ok, f, k).
           if \<not> ok then Ok (False, f, k)
           else if length write_data < G_FileBufferSize then Ok (True, f\<lparr>buf := write_data\<rparr>, k)
           else res_bind (file_write api write_data f k) (\<lambda>(result, k). Ok (result, f, k))))"

definition closeFile :: "'k file_api \<Rightarrow> WritableFile \<times> 'k \<Rightarrow> (bool \<times> WritableFile \<times> 'k) res" where
  "closeFile api s =
     res_bind (flushBuffer api s) (\<lambda>(result, f, k).
       case f_close api (wfd f) k of (r, k) \<Rightarrow> Ok (if isl r then False else result, f, k))"

definition WritableFile_default :: WritableFile where
  "WritableFile_default = \<lparr>buf = [], wfd = - 1, file_name = []\<rparr>"

definition WritableFile_new :: "'k file_api \<Rightarrow> string \<Rightarrow> 'k \<Rightarrow> (WritableFile \<times> 'k) res" where
  "WritableFile_new api name k =
     (case f_open api name k of
        (Inl e, k) \<Rightarrow> Err ExecFailed
      | (Inr i, k) \<Rightarrow> Ok (\<lparr>buf = [], wfd = i, file_name = name\<rparr>, k))"

text \<open>
  Move construction and move assignment give the new object and the one moved from, whose
  descriptor is gone and whose buffer stays; assignment forgets the target's own descriptor.
\<close>

definition WritableFile_move :: "WritableFile \<Rightarrow> WritableFile \<times> WritableFile" where
  "WritableFile_move other = (other, other\<lparr>wfd := - 1, file_name := []\<rparr>)"

definition WritableFile_assign :: "WritableFile \<Rightarrow> WritableFile \<Rightarrow> WritableFile \<times> WritableFile" where
  "WritableFile_assign this other = (other, other\<lparr>wfd := - 1, file_name := []\<rparr>)"

definition WritableFile_destroy :: "'k file_api \<Rightarrow> WritableFile \<times> 'k \<Rightarrow> 'k res" where
  "WritableFile_destroy api s =
     (if wfd (fst s) \<ge> 0 then res_bind (closeFile api s) (\<lambda>(_, _, k). Ok k) else Ok (snd s))"

definition createDir :: "'k file_api \<Rightarrow> string \<Rightarrow> 'k \<Rightarrow> unit sys \<times> 'k" where
  "createDir api dirname k =
     (case f_stat api dirname k of (Inl e, k) \<Rightarrow> f_mkdir api dirname k | (Inr _, k) \<Rightarrow> (Inr (), k))"

section \<open>The contract of a sink\<close>

text \<open>
  A sink takes texts; a call that reports success has appended the whole text to the sink's
  contents. \<open>good\<close> is the sink's invariant.
\<close>

locale byte_sink =
  fixes put :: "string \<Rightarrow> 's \<Rightarrow> (bool \<times> 's) res" and content :: "'s \<Rightarrow> string" and good :: "'s \<Rightarrow> bool"
  assumes put_good: "good s \<Longrightarrow> put x s = Ok (r, s') \<Longrightarrow> good s'"
    and put_appends: "good s \<Longrightarrow> put x s = Ok (True, s') \<Longrightarrow> content s' = content s @ x"

text \<open>Several texts, with the conjunction of the reports.\<close>

fun put_all :: "(string \<Rightarrow> 's \<Rightarrow> (bool \<times> 's) res) \<Rightarrow> string list \<Rightarrow> 's \<Rightarrow> (bool \<times> 's) res" where
  "put_all put [] s = Ok (True, s)"
| "put_all put (x # xs) s =
     res_bind (put x s) (\<lambda>(r, s). res_bind (put_all put xs s) (\<lambda>(r', s). Ok (r \<and> r', s)))"

context byte_sink
begin

lemma put_all_appends:
  "good s \<Longrightarrow> put_all put xs s = Ok (r, s') \<Longrightarrow> good s' \<and> (r \<longrightarrow> content s' = content s @ concat xs)"
proof (induction xs arbitrary: s r)
  case (Cons x xs)
  from Cons.prems(2) obtain r1 s1 r2 where s1: "put x s = Ok (r1, s1)" "put_all put xs s1 = Ok (r2, s')" "r = (r1 \<and> r2)"
    by auto
  then show ?case using Cons.IH put_good [OF Cons.prems(1) s1(1)] put_appends [OF Cons.prems(1)] by fastforce
qed auto

end

section \<open>The file as a sink\<close>

text \<open>
  What is used of \<open>write(2)\<close> on a file opened with \<open>O_APPEND\<close>: a call that succeeds appends the
  reported number of leading bytes, at most all of them, to that file and to no other; one that
  fails appends nothing.
\<close>

definition write_appends :: "'k file_api \<Rightarrow> ('k \<Rightarrow> fd \<Rightarrow> string) \<Rightarrow> bool" where
  "write_appends api contents \<longleftrightarrow>
     (\<forall>i data k. case f_write api i data k of
        (Inr n, k') \<Rightarrow> n \<le> length data \<and> contents k' = (contents k)(i := contents k i @ take n data)
      | (Inl e, k') \<Rightarrow> contents k' = contents k)"

text \<open>Progress: a call for at least one byte transfers something or fails for good.\<close>

definition write_progresses :: "'k file_api \<Rightarrow> bool" where
  "write_progresses api \<longleftrightarrow>
     (\<forall>i data k. data \<noteq> [] \<longrightarrow> (case f_write api i data k of (Inr n, _) \<Rightarrow> 0 < n | (Inl e, _) \<Rightarrow> e \<noteq> EINTR))"

lemma write_loop_appends:
  assumes "write_appends api contents" and "write_loop (f_write api i) data k = Some y"
  shows "\<exists>n \<le> length data. contents (snd y) = (contents k)(i := contents k i @ take n data) \<and> (fst y \<longrightarrow> n = length data)"
proof -
  have "wr = f_write api i \<longrightarrow>
      (\<exists>n \<le> length data. contents (snd y) = (contents k)(i := contents k i @ take n data) \<and> (fst y \<longrightarrow> n = length data))"
    if "write_loop wr data k = Some y" for wr data k y
  proof (rule write_loop.raw_induct [OF _ that], intro impI)
    fix loop wr data k y
    assume IH: "\<And>wr data k y. loop wr data k = Some y \<Longrightarrow> wr = f_write api i \<longrightarrow>
        (\<exists>n \<le> length data. contents (snd y) = (contents k)(i := contents k i @ take n data) \<and> (fst y \<longrightarrow> n = length data))"
      and wr: "wr = f_write api i"
      and eq: "(if data = [] then Some (True, k)
         else case wr data k of
                (Inl e, k') \<Rightarrow> if e = EINTR then loop wr data k' else Some (False, k')
              | (Inr n, k') \<Rightarrow> loop wr (drop n data) k') = Some y"
    have w: "case f_write api i data k of
        (Inr n, k') \<Rightarrow> n \<le> length data \<and> contents k' = (contents k)(i := contents k i @ take n data)
      | (Inl e, k') \<Rightarrow> contents k' = contents k"
      using assms(1) by (simp add: write_appends_def)
    obtain r k1 where o: "f_write api i data k = (r, k1)" by (cases "f_write api i data k")
    show "\<exists>n \<le> length data. contents (snd y) = (contents k)(i := contents k i @ take n data) \<and> (fst y \<longrightarrow> n = length data)"
    proof (cases "data = []")
      case False
      show ?thesis
      proof (cases r)
        case (Inl e)
        then have c: "contents k1 = contents k" using w o by simp
        show ?thesis
        proof (cases "e = EINTR")
          case True
          then have "loop wr data k1 = Some y" using eq False wr o Inl by simp
          from IH [OF this] show ?thesis using wr c by simp
        next
          case f: False
          then have "y = (False, k1)" using eq False wr o Inl by simp
          then show ?thesis using c by (intro exI [of _ 0]) simp
        qed
      next
        case (Inr n)
        then have n: "n \<le> length data" "contents k1 = (contents k)(i := contents k i @ take n data)" using w o by auto
        have "loop wr (drop n data) k1 = Some y" using eq False wr o Inr by simp
        from IH [OF this] wr obtain j where j: "j \<le> length (drop n data)"
          "contents (snd y) = (contents k1)(i := contents k1 i @ take j (drop n data))" "fst y \<longrightarrow> j = length (drop n data)" by blast
        then show ?thesis using n by (intro exI [of _ "n + j"]) (auto simp: take_add)
      qed
    qed (use eq in auto)
  qed
  from this [OF assms(2)] show ?thesis by simp
qed

lemma write_loop_returns:
  assumes "write_progresses api"
  shows "\<exists>y. write_loop (f_write api i) data k = Some y"
proof (induction "length data" arbitrary: data k rule: less_induct)
  case less
  show ?case
  proof (cases "data = []")
    case False
    then have w: "case f_write api i data k of (Inr n, _) \<Rightarrow> 0 < n | (Inl e, _) \<Rightarrow> e \<noteq> EINTR"
      using assms by (simp add: write_progresses_def)
    obtain r k1 where o: "f_write api i data k = (r, k1)" by (cases "f_write api i data k")
    show ?thesis
    proof (cases r)
      case (Inl e)
      then show ?thesis using False w o by (subst write_loop.simps) auto
    next
      case (Inr n)
      then have "length (drop n data) < length data" using w o False by simp
      from less [OF this] show ?thesis using False o Inr by (subst write_loop.simps) simp
    qed
  qed (subst write_loop.simps, auto)
qed
text \<open>The text a file stands for: what the kernel has, then what is still buffered.\<close>

definition file_text :: "('k \<Rightarrow> fd \<Rightarrow> string) \<Rightarrow> WritableFile \<times> 'k \<Rightarrow> string" where
  "file_text contents s = contents (snd s) (wfd (fst s)) @ buf (fst s)"

definition file_ok :: "'k file_api \<Rightarrow> ('k \<Rightarrow> fd \<Rightarrow> string) \<Rightarrow> WritableFile \<times> 'k \<Rightarrow> bool" where
  "file_ok api contents s \<longleftrightarrow> write_appends api contents \<and> length (buf (fst s)) \<le> G_FileBufferSize"

lemma file_write_appends:
  assumes "write_appends api contents" and "file_write api data f k = Ok (r, k')"
  obtains n where "n \<le> length data" and "contents k' = (contents k)(wfd f := contents k (wfd f) @ take n data)"
    and "r \<Longrightarrow> n = length data"
  using assms(2) write_loop_appends [OF assms(1), of "wfd f" data k "(r, k')"]
  by (auto simp: file_write_def split: option.splits)

lemma flushBuffer_appends:
  assumes "write_appends api contents" and "flushBuffer api (f, k) = Ok (r, f', k')"
  obtains n where "n \<le> length (buf f)" and "contents k' = (contents k)(wfd f := contents k (wfd f) @ take n (buf f))"
    and "r \<Longrightarrow> n = length (buf f)" and "f' = f\<lparr>buf := []\<rparr>"
  using assms by (auto simp: flushBuffer_def elim!: file_write_appends [OF assms(1)])

lemma file_write_returns: "write_progresses api \<Longrightarrow> \<exists>r k'. file_write api data f k = Ok (r, k')"
  using write_loop_returns [of api "wfd f" data k] by (auto simp: file_write_def)

lemma flushBuffer_returns: "write_progresses api \<Longrightarrow> \<exists>r k'. flushBuffer api (f, k) = Ok (r, f\<lparr>buf := []\<rparr>, k')"
  using file_write_returns [of api "buf f" f k] by (auto simp: flushBuffer_def)

lemma append_file_eq:
  assumes "c = min (length x) (G_FileBufferSize - length (buf f))"
  shows "append_file api x (f, k) =
    (if drop c x = [] then Ok (True, f\<lparr>buf := buf f @ take c x\<rparr>, k)
     else res_bind (flushBuffer api (f\<lparr>buf := buf f @ take c x\<rparr>, k)) (\<lambda>(ok, f, k).
       if \<not> ok then Ok (False, f, k)
       else if length (drop c x) < G_FileBufferSize then Ok (True, f\<lparr>buf := drop c x\<rparr>, k)
       else res_bind (file_write api (drop c x) f k) (\<lambda>(result, k). Ok (result, f, k))))"
  unfolding assms append_file_def Let_def prod.case ..

lemma append_file_returns:
  assumes "write_progresses api"
  shows "\<exists>r f' k'. append_file api x (f, k) = Ok (r, f', k')"
proof -
  define c where "c = min (length x) (G_FileBufferSize - length (buf f))"
  let ?f = "f\<lparr>buf := buf f @ take c x\<rparr>"
  obtain r k1 where "flushBuffer api (?f, k) = Ok (r, ?f\<lparr>buf := []\<rparr>, k1)" using flushBuffer_returns [OF assms] by blast
  moreover obtain r2 k2 where "file_write api (drop c x) (?f\<lparr>buf := []\<rparr>) k1 = Ok (r2, k2)" using file_write_returns [OF assms] by blast
  ultimately show ?thesis
    unfolding append_file_eq [OF c_def] by (cases "drop c x = []"; cases r) auto
qed

lemma append_file_cases:
  assumes "write_appends api contents" and "length (buf f) \<le> G_FileBufferSize" and "append_file api x (f, k) = Ok (r, f', k')"
  shows "length (buf f') \<le> G_FileBufferSize \<and> wfd f' = wfd f
    \<and> (\<exists>n \<le> length (buf f @ x). contents k' = (contents k)(wfd f := contents k (wfd f) @ take n (buf f @ x))
         \<and> (if r then buf f' = drop n (buf f @ x) else buf f' = []))"
proof -
  define c where "c = min (length x) (G_FileBufferSize - length (buf f))"
  let ?f = "f\<lparr>buf := buf f @ take c x\<rparr>"
  have c: "c \<le> length x" "length (buf f) + c \<le> G_FileBufferSize" using assms(2) by (auto simp: c_def)
  have x: "buf f @ x = (buf f @ take c x) @ drop c x" by simp
  show ?thesis
  proof (cases "drop c x = []")
    case True
    then have "r" "f' = ?f" "k' = k" using assms(3) unfolding append_file_eq [OF c_def] by auto
    then show ?thesis using c True by (intro conjI exI [of _ 0]) auto
  next
    case False
    from assms(3) [unfolded append_file_eq [OF c_def]] False obtain r1 f1 k1 where fl: "flushBuffer api (?f, k) = Ok (r1, f1, k1)" and
      rest: "(if \<not> r1 then Ok (False, f1, k1) else if length (drop c x) < G_FileBufferSize then Ok (True, f1\<lparr>buf := drop c x\<rparr>, k1)
        else res_bind (file_write api (drop c x) f1 k1) (\<lambda>(result, k). Ok (result, f1, k))) = Ok (r, f', k')"
      by auto
    from flushBuffer_appends [OF assms(1) fl] obtain n where n: "n \<le> length (buf ?f)"
      "contents k1 = (contents k)(wfd f := contents k (wfd f) @ take n (buf ?f))" "r1 \<Longrightarrow> n = length (buf ?f)" "f1 = ?f\<lparr>buf := []\<rparr>"
      by auto
    show ?thesis
    proof (cases "r1 \<and> G_FileBufferSize \<le> length (drop c x)")
      case True
      then obtain w: "file_write api (drop c x) f1 k1 = Ok (r, k')" and f': "f' = f1" using rest by (auto split: if_splits)
      from file_write_appends [OF assms(1) w] obtain j where j: "j \<le> length (drop c x)"
        "contents k' = (contents k1)(wfd f1 := contents k1 (wfd f1) @ take j (drop c x))" "r \<Longrightarrow> j = length (drop c x)" by blast
      have "contents k' = (contents k)(wfd f := contents k (wfd f) @ take (length (buf ?f) + j) (buf f @ x))"
        using j(2) n True c(1) by (simp add: x [symmetric] take_add min_absorb2)
      then show ?thesis using j n(4) f' c by (intro conjI exI [of _ "length (buf ?f) + j"]) auto
    next
      case False
      then have "if r then n = length (buf ?f) \<and> f' = f1\<lparr>buf := drop c x\<rparr> else f' = f1" "k' = k1" "length (drop c x) \<le> G_FileBufferSize \<or> \<not> r"
        using rest n(3) by (auto split: if_splits)
      then show ?thesis using n c by (intro conjI exI [of _ n]) (auto simp: x simp del: append_assoc append_take_drop_id split: if_splits)
    qed
  qed
qed

lemma append_file_keeps:
  assumes "file_ok api contents s" and "append_file api x s = Ok (r, s')"
  shows "file_ok api contents s'" and "r \<Longrightarrow> file_text contents s' = file_text contents s @ x"
proof -
  obtain f k f' k' where s: "s = (f, k)" "s' = (f', k')" by (cases s, cases s')
  with assms obtain n where n: "length (buf f') \<le> G_FileBufferSize" "wfd f' = wfd f"
    "contents k' = (contents k)(wfd f := contents k (wfd f) @ take n (buf f @ x))"
    "if r then buf f' = drop n (buf f @ x) else buf f' = []"
    using append_file_cases [of api contents f x k r f' k'] by (auto simp: file_ok_def)
  show "file_ok api contents s'" using assms(1) n(1) s by (simp add: file_ok_def)
  show "file_text contents s' = file_text contents s @ x" if r
    using n that s by (simp add: file_text_def del: take_append drop_append)
qed

interpretation file_sink: byte_sink "append_file api" "file_text contents" "file_ok api contents" for api contents
  by unfold_locales (auto intro: append_file_keeps)

section \<open>Properties\<close>

text \<open>
  C28. Appending to a file refines appending to a text: when \<open>append\<close> reports success, what the file
  stands for (kernel contents, then buffer) has grown by exactly the given text, in order,
  whether it went to the buffer, through it, or past it. When it reports failure, the kernel
  has received a prefix of buffer and text, in order, and the rest is gone: the buffer is empty.
  The buffer never exceeds its 65535 bytes, and no other file changes.
\<close>

theorem file_append_refines:
  assumes "write_appends api contents" and "length (buf f) \<le> G_FileBufferSize" and "append_file api x (f, k) = Ok (r, f', k')"
  shows "length (buf f') \<le> G_FileBufferSize \<and> (\<forall>i. i \<noteq> wfd f \<longrightarrow> contents k' i = contents k i)
    \<and> (if r then file_text contents (f', k') = file_text contents (f, k) @ x
       else buf f' = [] \<and> (\<exists>n. contents k' (wfd f) = contents k (wfd f) @ take n (buf f @ x)))"
proof -
  obtain n where n: "length (buf f') \<le> G_FileBufferSize" "wfd f' = wfd f"
    "contents k' = (contents k)(wfd f := contents k (wfd f) @ take n (buf f @ x))"
    "if r then buf f' = drop n (buf f @ x) else buf f' = []"
    using append_file_cases [OF assms] by blast
  show ?thesis
  proof (cases r)
    case True
    then have "file_text contents (f', k') = file_text contents (f, k) @ x"
      using append_file_keeps(2) [of api contents "(f, k)" x r "(f', k')"] assms by (simp add: file_ok_def)
    then show ?thesis using n True by simp
  next
    case False
    then show ?thesis using n by auto
  qed
qed

text \<open>A kernel for the witnesses: its state is the contents of the files, every write takes at most 3 bytes.\<close>

definition demo_files :: "(fd \<Rightarrow> string) file_api" where
  "demo_files =
     \<lparr>f_open = (\<lambda>_ k. (Inr 3, k)), f_write = (\<lambda>i d k. (Inr (min 3 (length d)), k(i := k i @ take 3 d))),
      f_close = (\<lambda>_ k. (Inr (), k)), f_stat = (\<lambda>_ k. (Inr (), k)), f_mkdir = (\<lambda>_ k. (Inr (), k))\<rparr>"

lemma demo_files_ok: "write_appends demo_files (\<lambda>k. k)" "write_progresses demo_files"
  by (simp_all add: write_appends_def write_progresses_def demo_files_def min_def)

theorem file_append_refines_witness:
  "append_file demo_files ''abc'' (\<lparr>buf = ''xy'', wfd = 3, file_name = []\<rparr>, \<lambda>_. [])
     = Ok (True, \<lparr>buf = ''xyabc'', wfd = 3, file_name = []\<rparr>, \<lambda>_. [])
   \<and> file_text (\<lambda>k. k) (\<lparr>buf = ''xyabc'', wfd = 3, file_name = []\<rparr>, \<lambda>_. []) = ''xyabc''"
proof -
  let ?f = "\<lparr>buf = ''xy'', wfd = 3, file_name = []\<rparr>"
  have e: "append_file demo_files ''abc'' (?f, \<lambda>_. []) = Ok (True, \<lparr>buf = ''xyabc'', wfd = 3, file_name = []\<rparr>, \<lambda>_. [])"
    by (simp add: append_file_def G_FileBufferSize_def)
  have "length (buf ?f) \<le> G_FileBufferSize" by (simp add: G_FileBufferSize_def)
  from file_append_refines [OF demo_files_ok(1) this e] show ?thesis using e by (simp add: file_text_def)
qed

lemma append_all_returns:
  assumes "write_progresses api"
  shows "\<exists>r f' k'. put_all (append_file api) xs (f, k) = Ok (r, f', k')"
proof (induction xs arbitrary: f k)
  case (Cons x xs)
  obtain r f1 k1 where "append_file api x (f, k) = Ok (r, f1, k1)" using append_file_returns [OF assms] by blast
  moreover obtain r2 f2 k2 where "put_all (append_file api) xs (f1, k1) = Ok (r2, f2, k2)" using Cons.IH by blast
  ultimately show ?case by simp
qed auto

lemma append_all_wfd:
  assumes "write_appends api contents"
  shows "length (buf f) \<le> G_FileBufferSize \<Longrightarrow> put_all (append_file api) xs (f, k) = Ok (r, f', k') \<Longrightarrow> wfd f' = wfd f"
proof (induction xs arbitrary: f k r)
  case (Cons x xs)
  from Cons.prems(2) obtain r1 f1 k1 r2 where s1: "append_file api x (f, k) = Ok (r1, f1, k1)"
    "put_all (append_file api) xs (f1, k1) = Ok (r2, f', k')" by auto
  then show ?case using append_file_cases [OF assms Cons.prems(1) s1(1)] Cons.IH [of f1 k1 r2] by simp
qed auto

text \<open>
  C29. Everything that was reported written is in the file once it is closed. For a file just opened,
  any number of \<open>append\<close> calls followed by \<open>closeFile\<close> return (the kernel makes progress), and
  if all of them report success the file holds what it held at opening followed by the
  texts in order, nothing lost, nothing twice.
\<close>

theorem file_close_writes_all:
  assumes "write_appends api contents" and "write_progresses api" and "\<And>i k. contents (snd (f_close api i k)) = contents k"
    and "WritableFile_new api name k = Ok (f, k0)"
  shows "\<exists>r f1 k1 c f2 k2. put_all (append_file api) xs (f, k0) = Ok (r, f1, k1) \<and> closeFile api (f1, k1) = Ok (c, f2, k2)
    \<and> (r \<and> c \<longrightarrow> contents k2 (wfd f) = contents k0 (wfd f) @ concat xs)"
proof -
  have f: "buf f = []" using assms(4) by (auto simp: WritableFile_new_def split: prod.splits sum.splits)
  have ok: "file_ok api contents (f, k0)" using assms(1) f by (simp add: file_ok_def)
  obtain r f1 k1 where a: "put_all (append_file api) xs (f, k0) = Ok (r, f1, k1)" using append_all_returns [OF assms(2)] by blast
  have t: "r \<longrightarrow> file_text contents (f1, k1) = contents k0 (wfd f) @ concat xs"
    using file_sink.put_all_appends [OF ok a] f by (simp add: file_text_def)
  have w: "wfd f1 = wfd f" using append_all_wfd [OF assms(1) _ a] f by simp
  obtain c k2 where fl: "flushBuffer api (f1, k1) = Ok (c, f1\<lparr>buf := []\<rparr>, k2)" using flushBuffer_returns [OF assms(2)] by blast
  obtain cr k3 where cl: "f_close api (wfd f1) k2 = (cr, k3)" by (cases "f_close api (wfd f1) k2")
  have "closeFile api (f1, k1) = Ok (if isl cr then False else c, f1\<lparr>buf := []\<rparr>, k3)"
    using fl cl by (simp add: closeFile_def)
  moreover have "c \<longrightarrow> contents k3 (wfd f) = file_text contents (f1, k1)"
  proof -
    obtain n where "contents k2 = (contents k1)(wfd f1 := contents k1 (wfd f1) @ take n (buf f1))" "c \<Longrightarrow> n = length (buf f1)"
      using flushBuffer_appends [OF assms(1) fl] by metis
    moreover have "contents k3 = contents k2" using assms(3) [of "wfd f1" k2] cl by simp
    ultimately show ?thesis using w by (simp add: file_text_def)
  qed
  ultimately show ?thesis
    using a t by (intro exI [of _ r] exI [of _ f1] exI [of _ k1] exI [of _ "if isl cr then False else c"]
        exI [of _ "f1\<lparr>buf := []\<rparr>"] exI [of _ k3]) simp
qed

theorem file_close_writes_all_witness:
  "\<exists>r f1 k1 c f2 k2. put_all (append_file demo_files) [''ab'', ''cde''] (\<lparr>buf = [], wfd = 3, file_name = ''log''\<rparr>, \<lambda>_. [])
       = Ok (r, f1, k1) \<and> closeFile demo_files (f1, k1) = Ok (c, f2, k2) \<and> (r \<and> c \<longrightarrow> k2 3 = ''abcde'')"
proof -
  let ?f = "\<lparr>buf = [], wfd = 3, file_name = ''log''\<rparr>"
  have n: "WritableFile_new demo_files ''log'' (\<lambda>_. []) = Ok (?f, \<lambda>_. [])" by (simp add: WritableFile_new_def demo_files_def)
  have c: "snd (f_close demo_files i k) = k" for i k by (simp add: demo_files_def)
  from file_close_writes_all [OF demo_files_ok c n, of "[''ab'', ''cde'']"] show ?thesis by (simp del: put_all.simps)
qed

end
