(* ===== verification/Log_Pattern.thy ===== *)
theory Log_Pattern
  imports Net_Prelude
begin

text \<open>
  src/base/string\_parsers.h (\<open>logPatternParse\<close>) and src/logging/logger\_filename.cpp: patterns such as
  \<open>%d{%Y-%m-%d}%T[%p] %m%n\<close>. The indexed loops walk the pattern once from the left; they are
  written as recursions on what is left of it. An item is \<open>(key or text, format, is it a key)\<close>.
\<close>

section \<open>Parsing\<close>

type_synonym item = "string \<times> string \<times> nat"

text \<open>\<open>isalpha\<close> in the "C" locale.\<close>

definition isalpha :: "char \<Rightarrow> bool" where
  "isalpha c \<longleftrightarrow> (let n = of_char c :: nat in 65 \<le> n \<and> n \<le> 90 \<or> 97 \<le> n \<and> n \<le> 122)"

text \<open>
  The inner loop behind a percent sign, in its two states: in front of an opening brace
  (\<open>fmt_status = 0\<close>), with the characters passed so far, and behind it (\<open>fmt_status = 1\<close>), with
  the key and the characters of the format. The results are key, format, final status, and
  what follows position \<open>n\<close>.
\<close>

fun scan_fmt :: "string \<Rightarrow> string \<Rightarrow> string \<Rightarrow> string \<times> string \<times> nat \<times> string" where
  "scan_fmt str fmt [] = (str, [], 1, [])"
| "scan_fmt str fmt (c # cs) = (if c = CHR ''}'' then (str, fmt, 0, cs) else scan_fmt str (fmt @ [c]) cs)"

fun scan_key :: "string \<Rightarrow> string \<Rightarrow> string \<times> string \<times> nat \<times> string" where
  "scan_key passed [] = (passed, [], 0, [])"
| "scan_key passed (c # cs) =
     (if \<not> isalpha c \<and> c \<noteq> CHR ''{'' \<and> c \<noteq> CHR ''}'' then (passed, [], 0, c # cs)
      else if c = CHR ''{'' then scan_fmt passed [] cs
      else scan_key (passed @ [c]) cs)"

lemma scan_fmt_rest: "scan_fmt str fmt cs = (a, b, n, rest) \<Longrightarrow> length rest \<le> length cs"
  by (induction str fmt cs rule: scan_fmt.induct) (auto split: if_splits)

lemma scan_key_rest: "scan_key passed cs = (a, b, n, rest) \<Longrightarrow> length rest \<le> length cs"
  by (induction passed cs rule: scan_key.induct) (auto split: if_splits dest: scan_fmt_rest)

definition flush_nstr :: "string \<Rightarrow> item list" where
  "flush_nstr nstr = (if nstr = [] then [] else [(nstr, [], 0)])"

text \<open>The outer loop; \<open>nstr\<close> is the pending plain text. On a broken format the position stays behind the percent sign.\<close>

function pattern_loop :: "string \<Rightarrow> item list \<Rightarrow> string \<Rightarrow> item list" where
  "pattern_loop nstr vec [] = vec @ flush_nstr nstr"
| "pattern_loop nstr vec (c # cs) =
     (if c \<noteq> CHR ''%'' then pattern_loop (nstr @ [c]) vec cs
      else if cs \<noteq> [] \<and> hd cs = CHR ''%'' then pattern_loop (nstr @ ''%'') vec cs
      else case scan_key [] cs of
             (str, fmt, status, rest) \<Rightarrow>
               if status = 0 then pattern_loop [] (vec @ flush_nstr nstr @ [(str, fmt, 1)]) rest
               else pattern_loop nstr (vec @ [(''<<pattern_error>>'', fmt, 0)]) cs)"
  by pat_completeness auto
termination
  by (relation "measure (\<lambda>(_, _, cs). length cs)") (auto simp: less_Suc_eq_le dest!: sym [of _ "scan_key [] _"] scan_key_rest)

definition logPatternParse :: "string \<Rightarrow> item list" where
  "logPatternParse formatter_pattern = pattern_loop [] [] formatter_pattern"

section \<open>File names\<close>

record LogFilenameData =
  prefix :: string
  postfix :: string
  dateTime :: string

text \<open>
  The loop over the items: \<open>(in_pre, prefix, postfix, dateTime)\<close>; host name and process id come from
  the system.
\<close>

definition add_name :: "string \<Rightarrow> bool \<times> LogFilenameData \<Rightarrow> bool \<times> LogFilenameData" where
  "add_name x s =
     (case s of (in_pre, d) \<Rightarrow>
        if in_pre then (in_pre, d\<lparr>prefix := prefix d @ x\<rparr>) else (in_pre, d\<lparr>postfix := postfix d @ x\<rparr>))"

definition name_item :: "string \<Rightarrow> nat \<Rightarrow> item \<Rightarrow> bool \<times> LogFilenameData \<Rightarrow> (bool \<times> LogFilenameData) res" where
  "name_item host pid i s =
     (case i of (str, fmt, is_key) \<Rightarrow>
        if is_key = 0 then Ok (add_name str s)
        else if str = [] then Err AssertFailed
        else if hd str = CHR ''d'' then Ok (False, (snd s)\<lparr>dateTime := dateTime (snd s) @ fmt\<rparr>)
        else if hd str = CHR ''H'' then Ok (add_name host s)
        else if hd str = CHR ''P'' then Ok (add_name (dec_str pid) s)
        else Ok (add_name ''_error_pattern_'' s))"

definition logFileNameParse :: "string \<Rightarrow> nat \<Rightarrow> string \<Rightarrow> LogFilenameData res" where
  "logFileNameParse host pid pattern =
     res_bind (fold_res (name_item host pid) (logPatternParse pattern) (True, \<lparr>prefix = [], postfix = [], dateTime = []\<rparr>))
       (\<lambda>(_, d). Ok d)"

text \<open>
  \<open>strftime\<close> of the current local time into a buffer of 32 bytes is a parameter; \<open>None\<close> is its
  failure (the result does not fit), after which the buffer holds no defined text.
\<close>

definition logFileNameGenerate :: "(string \<Rightarrow> string option) \<Rightarrow> LogFilenameData \<Rightarrow> string option" where
  "logFileNameGenerate strftime d =
     (case strftime (dateTime d) of None \<Rightarrow> None | Some timebuf \<Rightarrow> Some (prefix d @ timebuf @ postfix d))"

section \<open>Printing patterns\<close>

text \<open>A pattern as its items, and the text one writes for them.\<close>

datatype part = PText string | PKey string | PKeyFmt string string

fun show_part :: "part \<Rightarrow> string" where
  "show_part (PText t) = t"
| "show_part (PKey k) = CHR ''%'' # k"
| "show_part (PKeyFmt k f) = CHR ''%'' # k @ CHR ''{'' # f @ ''}''"

fun item_of :: "part \<Rightarrow> item" where
  "item_of (PText t) = (t, [], 0)"
| "item_of (PKey k) = (k, [], 1)"
| "item_of (PKeyFmt k f) = (k, f, 1)"

definition key_char :: "char \<Rightarrow> bool" where
  "key_char c \<longleftrightarrow> isalpha c \<or> c = CHR ''{'' \<or> c = CHR ''}''"

text \<open>
  Well-formed sequences: texts are non-empty, contain no percent sign and do not follow one another;
  keys are letters, at least one; a format has no closing brace; a text behind a key without a
  format does not continue the key.
\<close>

fun parts_ok :: "part list \<Rightarrow> bool" where
  "parts_ok [] \<longleftrightarrow> True"
| "parts_ok (PText t # ps) \<longleftrightarrow>
     t \<noteq> [] \<and> CHR ''%'' \<notin> set t \<and> (case ps of PText _ # _ \<Rightarrow> False | _ \<Rightarrow> True) \<and> parts_ok ps"
| "parts_ok (PKey k # ps) \<longleftrightarrow>
     k \<noteq> [] \<and> list_all isalpha k \<and> (case ps of PText t # _ \<Rightarrow> \<not> key_char (hd t) | _ \<Rightarrow> True) \<and> parts_ok ps"
| "parts_ok (PKeyFmt k f # ps) \<longleftrightarrow> k \<noteq> [] \<and> list_all isalpha k \<and> CHR ''}'' \<notin> set f \<and> parts_ok ps"

definition show_parts :: "part list \<Rightarrow> string" where
  "show_parts ps = concat (map show_part ps)"

section \<open>Lemmas\<close>

lemma isalpha_chars [simp]: "\<not> isalpha CHR ''%''" "\<not> isalpha CHR ''{''" "\<not> isalpha CHR ''}''"
  by (simp_all add: isalpha_def)

lemma scan_fmt_until: "CHR ''}'' \<notin> set f \<Longrightarrow> scan_fmt str g (f @ CHR ''}'' # rest) = (str, g @ f, 0, rest)"
  by (induction f arbitrary: g) auto

lemma scan_key_letters: "list_all isalpha k \<Longrightarrow> scan_key p (k @ rest) = scan_key (p @ k) rest"
  by (induction k arbitrary: p) auto

lemma scan_key_stop: "rest = [] \<or> \<not> key_char (hd rest) \<Longrightarrow> scan_key p rest = (p, [], 0, rest)"
  by (cases rest) (auto simp: key_char_def)

lemma pattern_loop_text: "CHR ''%'' \<notin> set t \<Longrightarrow> pattern_loop n v (t @ rest) = pattern_loop (n @ t) v rest"
  by (induction t arbitrary: n) auto

lemma key_not_percent: "list_all isalpha k \<Longrightarrow> k \<noteq> [] \<Longrightarrow> hd (k @ rest) \<noteq> CHR ''%''"
  by (cases k) (auto simp: isalpha_def)

lemma pattern_loop_key:
  assumes "list_all isalpha k" and "k \<noteq> []" and "scan_key k rest = (k, f, 0, rest')"
  shows "pattern_loop n v (CHR ''%'' # k @ rest) = pattern_loop [] (v @ flush_nstr n @ [(k, f, 1)]) rest'"
  using assms key_not_percent [OF assms(1,2), of rest] scan_key_letters [OF assms(1), of "[]" rest] by simp

lemma show_parts_Cons [simp]: "show_parts (p # ps) = show_part p @ show_parts ps"
  by (simp add: show_parts_def)

lemma show_parts_Nil [simp]: "show_parts [] = []"
  by (simp add: show_parts_def)

lemma behind_key:
  assumes "parts_ok (PKey k # ps)"
  shows "show_parts ps = [] \<or> \<not> key_char (hd (show_parts ps))"
  using assms by (cases ps rule: parts_ok.cases) (auto simp: key_char_def hd_append)

lemma pattern_loop_parts:
  "parts_ok ps \<Longrightarrow> (n = [] \<or> (case ps of PText _ # _ \<Rightarrow> False | _ \<Rightarrow> True))
    \<Longrightarrow> pattern_loop n v (show_parts ps) = v @ flush_nstr n @ map item_of ps"
proof (induction ps arbitrary: n v rule: parts_ok.induct)
  case (2 t ps)
  then have "n = []" by simp
  moreover have "pattern_loop t v (show_parts ps) = v @ flush_nstr t @ map item_of ps" using 2 by simp
  ultimately show ?case using 2 pattern_loop_text [of t "[]" v "show_parts ps"] by (simp add: flush_nstr_def)
next
  case (3 k ps)
  have "scan_key k (show_parts ps) = (k, [], 0, show_parts ps)" by (rule scan_key_stop) (rule behind_key [OF 3(2)])
  then have "pattern_loop n v (CHR ''%'' # k @ show_parts ps) = pattern_loop [] (v @ flush_nstr n @ [(k, [], 1)]) (show_parts ps)"
    using 3(2) by (intro pattern_loop_key) auto
  then show ?case using 3 by (simp add: flush_nstr_def)
next
  case (4 k f ps)
  have "scan_key k (CHR ''{'' # f @ CHR ''}'' # show_parts ps) = (k, f, 0, show_parts ps)"
    using 4(2) by (simp add: scan_fmt_until)
  then have "pattern_loop n v (CHR ''%'' # k @ CHR ''{'' # f @ CHR ''}'' # show_parts ps)
      = pattern_loop [] (v @ flush_nstr n @ [(k, f, 1)]) (show_parts ps)"
    using 4(2) by (intro pattern_loop_key) auto
  then show ?case using 4 by (simp add: flush_nstr_def)
qed simp

lemma logPatternParse_parts: "parts_ok ps \<Longrightarrow> logPatternParse (show_parts ps) = map item_of ps"
  unfolding logPatternParse_def by (subst pattern_loop_parts) (auto simp: flush_nstr_def)

section \<open>Properties\<close>

text \<open>
  C30. Parsing reads back what the pattern was written from: for every well-formed sequence of plain
  texts, keys and keys with a format, the parser applied to its text gives exactly the items of
  the sequence, in order.
\<close>

theorem pattern_parse_roundtrip:
  "parts_ok ps \<Longrightarrow> logPatternParse (show_parts ps) = map item_of ps"
  by (rule logPatternParse_parts)

theorem pattern_parse_roundtrip_witness:
  "logPatternParse ''%d{%Y-%m}%T[%p]%n'' =
     [(''d'', ''%Y-%m'', 1), (''T'', [], 1), (''['', [], 0), (''p'', [], 1), ('']'', [], 0), (''n'', [], 1)]"
proof -
  let ?ps = "[PKeyFmt ''d'' ''%Y-%m'', PKey ''T'', PText ''['', PKey ''p'', PText '']'', PKey ''n'']"
  have "parts_ok ?ps" by (simp add: isalpha_def key_char_def)
  from pattern_parse_roundtrip [OF this] show ?thesis by simp
qed

text \<open>
  A doubled percent sign is not an escape: the first one becomes text, the second one opens a key
  again, so the pattern \<open>%%\<close> ends in an item with an empty key, which both users of the parser
  reject with their assertion.
\<close>

theorem doubled_percent_opens_key:
  "logPatternParse (''%%'' @ cs) =
     pattern_loop ''%'' [] (CHR ''%'' # cs) \<and> logPatternParse ''%%'' = [(''%'', [], 0), ([], [], 1)]
   \<and> logFileNameParse host pid ''%%'' = Err AssertFailed"
  by (simp add: logPatternParse_def flush_nstr_def logFileNameParse_def name_item_def add_name_def)

end
