(* ===== verification/Log_Flushers.thy ===== *)
theory Log_Flushers
  imports File_Writer Log_Pattern
begin

text \<open>
  include/logging/logger\_flusher.h: where log texts go. The first part has the flushers that write
  at once and the queue of the asynchronous ones; the second part has the thread of an
  asynchronous flusher as a state machine over its mutex and condition variable; the third has
  the table of flusher makers.
\<close>

section \<open>Flushers\<close>

record FileFlusher =
  ff_file :: WritableFile
  ff_name :: LogFilenameData

text \<open>
  \<open>AsyncFile\<close> carries whether its thread was started; the thread itself is in the second part.
\<close>

datatype flusher =
    SimpleStdoutFlusher
  | ProtectedStdoutFlusher
  | AsyncStdoutLogFlusher "string list"
  | SimpleFileFlusher FileFlusher
  | ProtectedFileFlusher FileFlusher
  | AsyncFileLogFlusher FileFlusher "string list" bool
  | StringFlusher string

record 'k outside =
  out_text :: string \<comment> \<open>what was written to the standard output\<close>
  out_kern :: 'k

definition file_flush :: "'k file_api \<Rightarrow> string \<Rightarrow> FileFlusher \<times> 'k outside \<Rightarrow> (bool \<times> FileFlusher \<times> 'k outside) res" where
  "file_flush api str s =
     (case s of (ff, w) \<Rightarrow>
        res_bind (append_file api str (ff_file ff, out_kern w)) (\<lambda>(r, f, k). Ok (r, ff\<lparr>ff_file := f\<rparr>, w\<lparr>out_kern := k\<rparr>)))"

text \<open>\<open>std::cout << str\<close>, and \<open>AsyncFlusher::flush\<close>: the text is queued under the lock.\<close>

definition stdout_put :: "string \<Rightarrow> 'k outside \<Rightarrow> 'k outside" where
  "stdout_put str w = w\<lparr>out_text := out_text w @ str\<rparr>"

definition async_push :: "string \<Rightarrow> string list \<Rightarrow> string list" where
  "async_push str log_pool = log_pool @ [str]"

fun flush :: "'k file_api \<Rightarrow> string \<Rightarrow> flusher \<times> 'k outside \<Rightarrow> (flusher \<times> 'k outside) res" where
  "flush api str (SimpleStdoutFlusher, w) = Ok (SimpleStdoutFlusher, stdout_put str w)"
| "flush api str (ProtectedStdoutFlusher, w) = Ok (ProtectedStdoutFlusher, stdout_put str w)"
| "flush api str (AsyncStdoutLogFlusher pool, w) = Ok (AsyncStdoutLogFlusher (async_push str pool), w)"
| "flush api str (SimpleFileFlusher ff, w) =
     res_bind (file_flush api str (ff, w)) (\<lambda>(_, ff, w). Ok (SimpleFileFlusher ff, w))"
| "flush api str (ProtectedFileFlusher ff, w) =
     res_bind (file_flush api str (ff, w)) (\<lambda>(_, ff, w). Ok (ProtectedFileFlusher ff, w))"
| "flush api str (AsyncFileLogFlusher ff pool started, w) = Ok (AsyncFileLogFlusher ff (async_push str pool) started, w)"
| "flush api str (StringFlusher log, w) = Ok (StringFlusher (log @ str), w)"

text \<open>\<open>doFlush\<close> of the two asynchronous flushers: the queue is drained under the lock.\<close>

fun doFlush_stdout :: "string list \<Rightarrow> 'k outside \<Rightarrow> string list \<times> 'k outside" where
  "doFlush_stdout [] w = ([], w)"
| "doFlush_stdout (x # pool) w = doFlush_stdout pool (stdout_put x w)"

fun doFlush_file :: "'k file_api \<Rightarrow> string list \<Rightarrow> FileFlusher \<times> 'k outside \<Rightarrow> (string list \<times> FileFlusher \<times> 'k outside) res" where
  "doFlush_file api [] s = Ok ([], s)"
| "doFlush_file api (x # pool) s = res_bind (file_flush api x s) (\<lambda>(_, s). doFlush_file api pool s)"

subsection \<open>Files of a flusher\<close>

text \<open>
  \<open>fullfilename.substr(0, find_last_of('/'))\<close>: without a slash \<open>find_last_of\<close> is \<open>npos\<close> and the
  result is the whole name.
\<close>

definition dir_of :: "string \<Rightarrow> string" where
  "dir_of name =
     (if CHR ''/'' \<in> set name then rev (tl (dropWhile (\<lambda>c. c \<noteq> CHR ''/'') (rev name))) else name)"

text \<open>\<open>FileFlusher(const char*)\<close> and \<open>FileFlusher(const String&)\<close>.\<close>

definition FileFlusher_name :: "'k file_api \<Rightarrow> string \<Rightarrow> 'k outside \<Rightarrow> (FileFlusher \<times> 'k outside) res" where
  "FileFlusher_name api filename w =
     (case createDir api (dir_of filename) (out_kern w) of
        (_, k) \<Rightarrow> res_bind (WritableFile_new api filename k) (\<lambda>(f, k).
          Ok (\<lparr>ff_file = f, ff_name = \<lparr>prefix = [], postfix = [], dateTime = []\<rparr>\<rparr>, w\<lparr>out_kern := k\<rparr>)))"

definition FileFlusher_pattern ::
    "'k file_api \<Rightarrow> string \<Rightarrow> nat \<Rightarrow> (string \<Rightarrow> string option) \<Rightarrow> string \<Rightarrow> 'k outside \<Rightarrow> (FileFlusher \<times> 'k outside) res" where
  "FileFlusher_pattern api host pid strftime pattern w =
     res_bind (logFileNameParse host pid pattern) (\<lambda>d.
       case logFileNameGenerate strftime d of
         None \<Rightarrow> Err OutOfBounds
       | Some filename \<Rightarrow>
           (case createDir api (dir_of filename) (out_kern w) of
              (_, k) \<Rightarrow> res_bind (WritableFile_new api filename k) (\<lambda>(f, k).
                Ok (\<lparr>ff_file = f, ff_name = d\<rparr>, w\<lparr>out_kern := k\<rparr>))))"

text \<open>
  \<open>setFileName\<close> (move assignment from a new file; the temporary owns nothing afterwards and its destructor
  does nothing) and \<open>setFilePattern\<close>, which reads the pattern and opens nothing.
\<close>

definition FileFlusher_setFileName :: "'k file_api \<Rightarrow> string \<Rightarrow> FileFlusher \<times> 'k outside \<Rightarrow> (FileFlusher \<times> 'k outside) res" where
  "FileFlusher_setFileName api filename s =
     (case s of (ff, w) \<Rightarrow>
        res_bind (WritableFile_new api filename (out_kern w)) (\<lambda>(f, k).
          let (this, tmp) = WritableFile_assign (ff_file ff) f
          in res_bind (WritableFile_destroy api (tmp, k)) (\<lambda>k. Ok (ff\<lparr>ff_file := this\<rparr>, w\<lparr>out_kern := k\<rparr>))))"

definition FileFlusher_setFilePattern :: "string \<Rightarrow> nat \<Rightarrow> string \<Rightarrow> FileFlusher \<Rightarrow> FileFlusher res" where
  "FileFlusher_setFilePattern host pid pattern ff =
     res_bind (logFileNameParse host pid pattern) (\<lambda>d. Ok (ff\<lparr>ff_name := d\<rparr>))"

fun setFilePattern :: "string \<Rightarrow> nat \<Rightarrow> string \<Rightarrow> flusher \<Rightarrow> flusher res" where
  "setFilePattern host pid pattern (SimpleFileFlusher ff) =
     res_bind (FileFlusher_setFilePattern host pid pattern ff) (\<lambda>ff. Ok (SimpleFileFlusher ff))"
| "setFilePattern host pid pattern (ProtectedFileFlusher ff) =
     res_bind (FileFlusher_setFilePattern host pid pattern ff) (\<lambda>ff. Ok (ProtectedFileFlusher ff))"
| "setFilePattern host pid pattern (AsyncFileLogFlusher ff pool started) =
     res_bind (FileFlusher_setFilePattern host pid pattern ff) (\<lambda>ff. Ok (AsyncFileLogFlusher ff pool started))"
| "setFilePattern host pid pattern f = Ok f"

text \<open>\<open>AsyncFlusher::size\<close>, and the two constructors of the asynchronous file flusher: only the first starts the thread.\<close>

fun flusher_size :: "flusher \<Rightarrow> nat option" where
  "flusher_size (AsyncStdoutLogFlusher pool) = Some (length pool)"
| "flusher_size (AsyncFileLogFlusher ff pool started) = Some (length pool)"
| "flusher_size _ = None"

definition AsyncFileLogFlusher_name :: "'k file_api \<Rightarrow> string \<Rightarrow> 'k outside \<Rightarrow> (flusher \<times> 'k outside) res" where
  "AsyncFileLogFlusher_name api filename w =
     res_bind (FileFlusher_name api filename w) (\<lambda>(ff, w). Ok (AsyncFileLogFlusher ff [] True, w))"

definition AsyncFileLogFlusher_pattern ::
    "'k file_api \<Rightarrow> string \<Rightarrow> nat \<Rightarrow> (string \<Rightarrow> string option) \<Rightarrow> string \<Rightarrow> 'k outside \<Rightarrow> (flusher \<times> 'k outside) res" where
  "AsyncFileLogFlusher_pattern api host pid strftime pattern w =
     res_bind (FileFlusher_pattern api host pid strftime pattern w) (\<lambda>(ff, w). Ok (AsyncFileLogFlusher ff [] False, w))"

text \<open>
  The destructors, given that the thread of an asynchronous flusher has ended: joining a thread that
  was never started throws out of the destructor. What is left in a queue is gone.
\<close>

fun flusher_destroy :: "'k file_api \<Rightarrow> flusher \<times> 'k outside \<Rightarrow> 'k outside res" where
  "flusher_destroy api (SimpleFileFlusher ff, w) =
     res_bind (WritableFile_destroy api (ff_file ff, out_kern w)) (\<lambda>k. Ok (w\<lparr>out_kern := k\<rparr>))"
| "flusher_destroy api (ProtectedFileFlusher ff, w) =
     res_bind (WritableFile_destroy api (ff_file ff, out_kern w)) (\<lambda>k. Ok (w\<lparr>out_kern := k\<rparr>))"
| "flusher_destroy api (AsyncFileLogFlusher ff pool started, w) =
     (if started then res_bind (WritableFile_destroy api (ff_file ff, out_kern w)) (\<lambda>k. Ok (w\<lparr>out_kern := k\<rparr>))
      else Err Terminated)"
| "flusher_destroy api (_, w) = Ok w"

section \<open>The asynchronous thread\<close>

text \<open>
  Where the thread of an asynchronous flusher stands: at the test of \<open>stop_\<close>, in front of the lock
  and the wait, in the wait, woken, in front of \<open>doFlush\<close>, or past the loop. A notification wakes
  the thread if it waits and is lost otherwise; a wait may also end by itself.
\<close>

datatype worker = AtTest | ToWait | Waiting | Woken | ToFlush | Ended

text \<open>The sink is what \<open>doFlush\<close> writes to: the standard output, or the flusher's file and the kernel.\<close>

record 'w async =
  stop_flag :: bool
  log_pool :: "string list"
  sink :: 'w
  worker :: worker
  notifies :: nat \<comment> \<open>calls of \<open>notify_one\<close> still to come: each push and the destructor make one\<close>
  accepted :: "string list" \<comment> \<open>the texts pushed so far\<close>

definition async_new :: "'w \<Rightarrow> 'w async" where
  "async_new w = \<lparr>stop_flag = False, log_pool = [], sink = w, worker = AtTest, notifies = 0, accepted = []\<rparr>"

text \<open>\<open>doFlush\<close> holds the lock that pushing takes, so it is one step.\<close>

inductive async_step :: "(string list \<Rightarrow> 'w \<Rightarrow> (string list \<times> 'w) res) \<Rightarrow> 'w async \<Rightarrow> 'w async \<Rightarrow> bool" for doFlush where
  push: "async_step doFlush s (s\<lparr>log_pool := async_push x (log_pool s), notifies := Suc (notifies s), accepted := accepted s @ [x]\<rparr>)"
| notify: "notifies s = Suc n \<Longrightarrow>
     async_step doFlush s (s\<lparr>worker := (if worker s = Waiting then Woken else worker s), notifies := n\<rparr>)"
| destroy: "\<not> stop_flag s \<Longrightarrow> async_step doFlush s (s\<lparr>stop_flag := True, notifies := Suc (notifies s)\<rparr>)"
| test: "worker s = AtTest \<Longrightarrow> async_step doFlush s (s\<lparr>worker := (if stop_flag s then Ended else ToWait)\<rparr>)"
| wait: "worker s = ToWait \<Longrightarrow> async_step doFlush s (s\<lparr>worker := Waiting\<rparr>)"
| spurious: "worker s = Waiting \<Longrightarrow> async_step doFlush s (s\<lparr>worker := ToFlush\<rparr>)"
| wake: "worker s = Woken \<Longrightarrow> async_step doFlush s (s\<lparr>worker := ToFlush\<rparr>)"
| do_flush: "worker s = ToFlush \<Longrightarrow> doFlush (log_pool s) (sink s) = Ok (pool, w) \<Longrightarrow>
     async_step doFlush s (s\<lparr>log_pool := pool, sink := w, worker := AtTest\<rparr>)"

inductive async_reach :: "(string list \<Rightarrow> 'w \<Rightarrow> (string list \<times> 'w) res) \<Rightarrow> 'w \<Rightarrow> 'w async \<Rightarrow> bool" for doFlush w where
  start: "async_reach doFlush w (async_new w)"
| step: "async_reach doFlush w s \<Longrightarrow> async_step doFlush s s' \<Longrightarrow> async_reach doFlush w s'"

inductive_cases async_stepE: "async_step doFlush s s'"

text \<open>The two flushers' threads.\<close>

definition stdout_thread :: "'k outside \<Rightarrow> 'k outside async \<Rightarrow> bool" where
  "stdout_thread = async_reach (\<lambda>pool w. Ok (doFlush_stdout pool w))"

definition file_thread :: "'k file_api \<Rightarrow> FileFlusher \<times> 'k outside \<Rightarrow> (FileFlusher \<times> 'k outside) async \<Rightarrow> bool" where
  "file_thread api = async_reach (doFlush_file api)"

section \<open>Makers\<close>

text \<open>\<open>::toupper\<close> in the "C" locale.\<close>

definition toupper :: "char \<Rightarrow> char" where
  "toupper c = (let n = of_char c :: nat in if 97 \<le> n \<and> n \<le> 122 then char_of (n - 32) else c)"

datatype 'u maker =
    MkSimpleFile | MkProtectedFile | MkAsyncFile | MkSimpleStdout | MkProtectedStdout | MkAsyncStdout | MkUser 'u

type_synonym 'u makers = "string \<Rightarrow> 'u maker option"

text \<open>\<open>rigisterFlushMaker\<close>: the key is looked up as given and entered in upper case; \<open>emplace\<close> keeps an entry that is there.\<close>

definition rigisterFlushMaker :: "string \<Rightarrow> 'u maker \<Rightarrow> 'u makers \<Rightarrow> bool \<times> 'u makers" where
  "rigisterFlushMaker key func m =
     (if m key \<noteq> None then (False, m)
      else let convert = map toupper key in (True, if m convert = None then m(convert \<mapsto> func) else m))"

definition LogFlusherManager_new :: "'u makers" where
  "LogFlusherManager_new =
     fold (\<lambda>(key, func) m. snd (rigisterFlushMaker key func m))
       [(''SimpleFileFlusher'', MkSimpleFile), (''ProtectedFileFlusher'', MkProtectedFile), (''AsyncFileLogFlusher'', MkAsyncFile),
        (''SimpleStdoutFlusher'', MkSimpleStdout), (''ProtectedStdoutFlusher'', MkProtectedStdout), (''AsyncStdoutLogFlusher'', MkAsyncStdout)]
       (\<lambda>_. None)"

definition find_maker :: "string \<Rightarrow> 'u makers \<Rightarrow> 'u maker option" where
  "find_maker key m = m (map toupper key)"

text \<open>
  The makers: \<open>file\<close> is the construction of a \<open>FileFlusher\<close> from the pattern, \<open>user\<close> runs a maker
  registered from outside.
\<close>

fun run_maker ::
    "(string \<Rightarrow> 'k outside \<Rightarrow> (FileFlusher \<times> 'k outside) res) \<Rightarrow> ('u \<Rightarrow> string \<Rightarrow> 'k outside \<Rightarrow> (flusher \<times> 'k outside) res)
       \<Rightarrow> 'u maker \<Rightarrow> string \<Rightarrow> 'k outside \<Rightarrow> (flusher \<times> 'k outside) res" where
  "run_maker file user MkSimpleFile pattern w = res_bind (file pattern w) (\<lambda>(ff, w). Ok (SimpleFileFlusher ff, w))"
| "run_maker file user MkProtectedFile pattern w = res_bind (file pattern w) (\<lambda>(ff, w). Ok (ProtectedFileFlusher ff, w))"
| "run_maker file user MkAsyncFile pattern w = res_bind (file pattern w) (\<lambda>(ff, w). Ok (AsyncFileLogFlusher ff [] False, w))"
| "run_maker file user MkSimpleStdout pattern w = Ok (SimpleStdoutFlusher, w)"
| "run_maker file user MkProtectedStdout pattern w = Ok (ProtectedStdoutFlusher, w)"
| "run_maker file user MkAsyncStdout pattern w = Ok (AsyncStdoutLogFlusher [], w)"
| "run_maker file user (MkUser u) pattern w = user u pattern w"

definition getLogFlusher ::
    "(string \<Rightarrow> 'k outside \<Rightarrow> (FileFlusher \<times> 'k outside) res) \<Rightarrow> ('u \<Rightarrow> string \<Rightarrow> 'k outside \<Rightarrow> (flusher \<times> 'k outside) res)
       \<Rightarrow> 'u makers \<Rightarrow> string \<Rightarrow> string \<Rightarrow> 'k outside \<Rightarrow> (flusher option \<times> 'k outside) res" where
  "getLogFlusher file user m key pattern w =
     (case find_maker key m of
        None \<Rightarrow> Ok (None, w)
      | Some mk \<Rightarrow> res_bind (run_maker file user mk pattern w) (\<lambda>(f, w). Ok (Some f, w)))"

section \<open>Lemmas\<close>

interpretation stdout_sink: byte_sink "\<lambda>x w. Ok (True, stdout_put x w)" out_text "\<lambda>_. True"
  by unfold_locales (auto simp: stdout_put_def)

interpretation flusher_file: byte_sink "file_flush api" "\<lambda>(ff, w). file_text contents (ff_file ff, out_kern w)"
    "\<lambda>(ff, w). file_ok api contents (ff_file ff, out_kern w)" for api contents
  by unfold_locales (auto simp: file_flush_def dest: file_sink.put_good file_sink.put_appends)

lemma doFlush_stdout_writes: "doFlush_stdout pool w = ([], stdout_put (concat pool) w)"
  by (induction pool arbitrary: w) (auto simp: stdout_put_def)

lemma doFlush_file_put_all:
  "doFlush_file api pool s = res_bind (put_all (file_flush api) pool s) (\<lambda>(_, s). Ok ([], s))"
proof (induction pool arbitrary: s)
  case (Cons x pool)
  show ?case
  proof (cases "file_flush api x s")
    case (Inr r)
    then show ?thesis using Cons.IH [of "snd r"] by (cases "put_all (file_flush api) pool (snd r)") (auto simp: split_def)
  qed simp
qed simp

text \<open>What the thread of an asynchronous flusher needs of its \<open>doFlush\<close>: it empties the queue into the sink, in order.\<close>

definition in_order :: "('w \<Rightarrow> string) \<Rightarrow> 'w \<Rightarrow> 'w async \<Rightarrow> bool" where
  "in_order text_of w s \<longleftrightarrow>
     (\<exists>n \<le> length (accepted s). log_pool s = drop n (accepted s) \<and> text_of (sink s) = text_of w @ concat (take n (accepted s)))"

locale async_sink =
  fixes doFlush :: "string list \<Rightarrow> 'w \<Rightarrow> (string list \<times> 'w) res" and text_of :: "'w \<Rightarrow> string" and good :: "'w \<Rightarrow> bool"
  assumes drains: "good w \<Longrightarrow> doFlush pool w = Ok (pool', w') \<Longrightarrow> good w' \<and> pool' = [] \<and> text_of w' = text_of w @ concat pool"
begin

lemma step_in_order:
  assumes "async_step doFlush s s'" and "good (sink s)" and "in_order text_of w s"
  shows "good (sink s') \<and> in_order text_of w s'"
proof -
  obtain n where n: "n \<le> length (accepted s)" "log_pool s = drop n (accepted s)" "text_of (sink s) = text_of w @ concat (take n (accepted s))"
    using assms(3) by (auto simp: in_order_def)
  from assms(1) show ?thesis
  proof cases
    case (push x)
    then show ?thesis using n assms(2) by (auto simp: in_order_def async_push_def intro!: exI [of _ n])
  next
    case (do_flush pool w')
    then have "good w'" "pool = []" "text_of w' = text_of (sink s) @ concat (log_pool s)" using drains [OF assms(2)] by auto
    then show ?thesis using do_flush(1) n by (auto simp: in_order_def simp flip: concat_append intro!: exI [of _ "length (accepted s)"])
  qed (use assms(2,3) in \<open>auto simp: in_order_def\<close>)
qed

lemma reach_in_order: "async_reach doFlush w s \<Longrightarrow> good w \<Longrightarrow> in_order text_of w s"
proof -
  assume r: "async_reach doFlush w s" and "good w"
  from r have "good (sink s) \<and> in_order text_of w s"
  proof induction
    case start
    then show ?case using \<open>good w\<close> by (simp add: in_order_def async_new_def)
  next
    case (step s s')
    then show ?case using step_in_order by blast
  qed
  then show ?thesis ..
qed

end

interpretation stdout_async: async_sink "\<lambda>pool w. Ok (doFlush_stdout pool w)" out_text "\<lambda>_. True"
  by unfold_locales (auto simp: doFlush_stdout_writes stdout_put_def)

text \<open>A kernel that never refuses a write: no full disk, no closed descriptor.\<close>

definition write_never_fails :: "'k file_api \<Rightarrow> bool" where
  "write_never_fails api \<longleftrightarrow>
     (\<forall>i data k. data \<noteq> [] \<longrightarrow> (case f_write api i data k of (Inr n, _) \<Rightarrow> 0 < n | (Inl e, _) \<Rightarrow> False))"

lemma write_loop_succeeds:
  assumes "write_never_fails api"
  shows "\<exists>k'. write_loop (f_write api i) data k = Some (True, k')"
proof (induction "length data" arbitrary: data k rule: less_induct)
  case less
  show ?case
  proof (cases "data = []")
    case False
    have "case f_write api i data k of (Inr n, _) \<Rightarrow> 0 < n | (Inl e, _) \<Rightarrow> False"
      using assms False by (simp add: write_never_fails_def)
    then obtain n k1 where w: "f_write api i data k = (Inr n, k1)" "0 < n" by (auto split: prod.splits sum.splits)
    then have "length (drop n data) < length data" using False by simp
    from less [OF this, of k1] show ?thesis using False w by (subst write_loop.simps) simp
  qed (subst write_loop.simps, simp)
qed

lemma append_file_succeeds: "write_never_fails api \<Longrightarrow> append_file api x s = Ok (r, s') \<Longrightarrow> r"
proof -
  assume w: "write_never_fails api" and a: "append_file api x s = Ok (r, s')"
  have "\<exists>k'. file_write api data f k = Ok (True, k')" for data f k
    using write_loop_succeeds [OF w, of "wfd f" data k] by (auto simp: file_write_def)
  then have f: "file_write api data f k = Ok (b, k') \<Longrightarrow> b" for data f k b k' by (metis prod.inject sum.inject(2))
  show r using a f by (auto simp: append_file_def flushBuffer_def Let_def split: prod.splits if_splits)
qed

lemma put_all_succeeds: "write_never_fails api \<Longrightarrow> put_all (file_flush api) pool s = Ok (r, s') \<Longrightarrow> r"
proof (induction pool arbitrary: s r)
  case (Cons x pool)
  from Cons.prems(2) obtain r1 s1 r2 where p: "file_flush api x s = Ok (r1, s1)" "put_all (file_flush api) pool s1 = Ok (r2, s')" "r = (r1 \<and> r2)"
    by auto
  moreover have r1 using p(1) append_file_succeeds [OF Cons.prems(1)] by (auto simp: file_flush_def split: prod.splits)
  ultimately show ?case using Cons.IH [OF Cons.prems(1)] by blast
qed simp

interpretation file_async: async_sink "doFlush_file api" "\<lambda>(ff, w). file_text contents (ff_file ff, out_kern w)"
    "\<lambda>(ff, w). write_never_fails api \<and> file_ok api contents (ff_file ff, out_kern w)" for api contents
proof unfold_locales
  fix s pool pool' s'
  assume g: "case s of (ff, w) \<Rightarrow> write_never_fails api \<and> file_ok api contents (ff_file ff, out_kern w)"
    and d: "doFlush_file api pool s = Ok (pool', s')"
  from d obtain r where p: "put_all (file_flush api) pool s = Ok (r, s')" "pool' = []" by (auto simp: doFlush_file_put_all)
  have n: "write_never_fails api" and ok: "case s of (ff, w) \<Rightarrow> file_ok api contents (ff_file ff, out_kern w)" using g by auto
  from flusher_file.put_all_appends [OF ok p(1)] put_all_succeeds [OF n p(1)] p(2) n
  show "(case s' of (ff, w) \<Rightarrow> write_never_fails api \<and> file_ok api contents (ff_file ff, out_kern w)) \<and> pool' = []
    \<and> (case s' of (ff, w) \<Rightarrow> file_text contents (ff_file ff, out_kern w)) =
        (case s of (ff, w) \<Rightarrow> file_text contents (ff_file ff, out_kern w)) @ concat pool" by auto
qed

section \<open>Properties\<close>

text \<open>
  C31. An asynchronous flusher keeps the order and loses nothing while it works: in every state its
  threads can reach, the sink has received the first \<open>n\<close> of the texts accepted so far, in order and each once, and the queue
  holds the others, in order. For the standard output the sink's text is what was printed; for a file it is what the
  file stands for (contents and buffer), as long as the kernel does not refuse a write: \<open>doFlush\<close> ignores the
  result of \<open>append\<close>. (What is lost at the end, with the thread asleep or gone, is another theorem.)
\<close>

theorem async_flusher_fifo:
  shows "(stdout_thread w s \<longrightarrow> in_order out_text w s)
    \<and> (write_appends api contents \<and> write_never_fails api \<and> length (buf (ff_file ff)) \<le> G_FileBufferSize \<longrightarrow>
        file_thread api (ff, w) t \<longrightarrow> in_order (\<lambda>(ff, w). file_text contents (ff_file ff, out_kern w)) (ff, w) t)"
proof (intro conjI impI)
  show "in_order out_text w s" if "stdout_thread w s"
    using that unfolding stdout_thread_def by (rule stdout_async.reach_in_order) simp
  assume "write_appends api contents \<and> write_never_fails api \<and> length (buf (ff_file ff)) \<le> G_FileBufferSize"
  then have "case (ff, w) of (ff, w) \<Rightarrow> write_never_fails api \<and> file_ok api contents (ff_file ff, out_kern w)"
    by (simp add: file_ok_def)
  moreover assume "file_thread api (ff, w) t"
  ultimately show "in_order (\<lambda>(ff, w). file_text contents (ff_file ff, out_kern w)) (ff, w) t"
    unfolding file_thread_def by (intro file_async.reach_in_order)
qed

theorem async_flusher_fifo_witness:
  "\<exists>s :: unit outside async. stdout_thread \<lparr>out_text = [], out_kern = ()\<rparr> s \<and> accepted s = [''a'', ''b''] \<and> log_pool s = [''b'']
     \<and> out_text (sink s) = ''a''"
proof -
  let ?D = "\<lambda>pool (w :: unit outside). Ok (doFlush_stdout pool w)" and ?w = "\<lparr>out_text = [], out_kern = ()\<rparr>"
  note n = async_new_def async_push_def stdout_put_def
  let ?s = "\<lparr>stop_flag = False, log_pool = [''b''], sink = \<lparr>out_text = ''a'', out_kern = ()\<rparr>, worker = AtTest, notifies = 1,
    accepted = [''a'', ''b'']\<rparr>"
  have "async_reach ?D ?w (async_new ?w)" by (rule async_reach.start)
  from async_reach.step [OF this test] have "async_reach ?D ?w ((async_new ?w)\<lparr>worker := ToWait\<rparr>)" by (simp add: n)
  from async_reach.step [OF this wait] have "async_reach ?D ?w ((async_new ?w)\<lparr>worker := Waiting\<rparr>)" by (simp add: n)
  from async_reach.step [OF this push [of _ _ "''a''"]]
  have "async_reach ?D ?w ((async_new ?w)\<lparr>worker := Waiting, log_pool := [''a''], notifies := 1, accepted := [''a'']\<rparr>)" by (simp add: n)
  from async_reach.step [OF this notify [of _ 0]]
  have "async_reach ?D ?w ((async_new ?w)\<lparr>worker := Woken, log_pool := [''a''], accepted := [''a'']\<rparr>)" by (simp add: n)
  from async_reach.step [OF this wake]
  have "async_reach ?D ?w ((async_new ?w)\<lparr>worker := ToFlush, log_pool := [''a''], accepted := [''a'']\<rparr>)" by (simp add: n)
  from async_reach.step [OF this do_flush]
  have "async_reach ?D ?w ((async_new ?w)\<lparr>sink := \<lparr>out_text = ''a'', out_kern = ()\<rparr>, accepted := [''a'']\<rparr>)" by (simp add: n)
  from async_reach.step [OF this push [of _ _ "''b''"]] have s: "stdout_thread ?w ?s" by (simp add: n stdout_thread_def)
  then have "in_order out_text ?w ?s" using async_flusher_fifo by blast
  then show ?thesis using s by (intro exI [of _ ?s]) simp
qed

text \<open>
  The condition variable is waited for without its condition, so notifications are lost. Three
  states can be reached: the thread sleeps with a text in the queue and no notification to come;
  the thread has ended with a text in the queue; and the destructor has asked the thread to stop,
  has notified it, and the thread sleeps, so the join does not return. From the last state on,
  as long as no text is pushed, nothing but a spurious wake-up moves the thread.
\<close>

theorem async_flusher_loses_wakeups:
  "(\<exists>s. async_reach D w s \<and> worker s = Waiting \<and> log_pool s = [x] \<and> notifies s = 0 \<and> \<not> stop_flag s)
   \<and> (\<exists>s. async_reach D w s \<and> worker s = Ended \<and> log_pool s = [x])
   \<and> (\<exists>s. async_reach D w s \<and> worker s = Waiting \<and> notifies s = 0 \<and> stop_flag s
        \<and> \<not> (\<exists>s'. async_step D s s' \<and> worker s' \<noteq> ToFlush \<and> accepted s' = accepted s))"
proof (intro conjI)
  let ?n = "async_new w"
  note n = async_new_def async_push_def
  have p: "async_reach D w (?n\<lparr>log_pool := [x], notifies := 1, accepted := [x]\<rparr>)"
    using async_reach.step [OF start push [of D ?n x]] by (simp add: n)
  have "async_reach D w (?n\<lparr>log_pool := [x], notifies := 0, accepted := [x]\<rparr>)"
    using async_reach.step [OF p notify [of _ 0]] by (simp add: n)
  from async_reach.step [OF this test] have "async_reach D w (?n\<lparr>log_pool := [x], worker := ToWait, notifies := 0, accepted := [x]\<rparr>)"
    by (simp add: n)
  from async_reach.step [OF this wait] have "async_reach D w (?n\<lparr>log_pool := [x], worker := Waiting, notifies := 0, accepted := [x]\<rparr>)"
    by (simp add: n)
  then show "\<exists>s. async_reach D w s \<and> worker s = Waiting \<and> log_pool s = [x] \<and> notifies s = 0 \<and> \<not> stop_flag s"
    by (intro exI [of _ "?n\<lparr>log_pool := [x], worker := Waiting, notifies := 0, accepted := [x]\<rparr>"]) (simp add: n)
  have "async_reach D w (?n\<lparr>stop_flag := True, log_pool := [x], notifies := 2, accepted := [x]\<rparr>)"
    using async_reach.step [OF p destroy] by (simp add: n numeral_2_eq_2)
  from async_reach.step [OF this test] have "async_reach D w (?n\<lparr>stop_flag := True, log_pool := [x], worker := Ended, notifies := 2, accepted := [x]\<rparr>)"
    by (simp add: n)
  then show "\<exists>s. async_reach D w s \<and> worker s = Ended \<and> log_pool s = [x]"
    by (intro exI [of _ "?n\<lparr>stop_flag := True, log_pool := [x], worker := Ended, notifies := 2, accepted := [x]\<rparr>"]) (simp add: n)
  have "async_reach D w (?n\<lparr>worker := ToWait\<rparr>)" using async_reach.step [OF start test] by (simp add: n)
  from async_reach.step [OF this destroy] have "async_reach D w (?n\<lparr>stop_flag := True, worker := ToWait, notifies := 1\<rparr>)" by (simp add: n)
  from async_reach.step [OF this notify [of _ 0]] have "async_reach D w (?n\<lparr>stop_flag := True, worker := ToWait, notifies := 0\<rparr>)" by (simp add: n)
  from async_reach.step [OF this wait] have "async_reach D w (?n\<lparr>stop_flag := True, worker := Waiting, notifies := 0\<rparr>)" by (simp add: n)
  moreover have "\<not> (\<exists>s'. async_step D (?n\<lparr>stop_flag := True, worker := Waiting, notifies := 0\<rparr>) s' \<and> worker s' \<noteq> ToFlush
      \<and> accepted s' = accepted ?n)"
    by (auto simp: n elim!: async_stepE)
  ultimately show "\<exists>s. async_reach D w s \<and> worker s = Waiting \<and> notifies s = 0 \<and> stop_flag s
      \<and> \<not> (\<exists>s'. async_step D s s' \<and> worker s' \<noteq> ToFlush \<and> accepted s' = accepted s)"
    by (intro exI [of _ "?n\<lparr>stop_flag := True, worker := Waiting, notifies := 0\<rparr>"]) (simp add: n)
qed

text \<open>
  One round of \<open>doFlush\<close> empties the queue into the sink in order: the standard output receives
  exactly the queued texts; for a file the call returns, and if no append failed the file stands
  for its old text followed by the queued ones.
\<close>

theorem doFlush_drains_queue:
  assumes "write_appends api contents" and "write_progresses api" and "length (buf (ff_file ff)) \<le> G_FileBufferSize"
  shows "doFlush_stdout pool w = ([], w\<lparr>out_text := out_text w @ concat pool\<rparr>)
    \<and> (\<exists>r ff' w'. put_all (file_flush api) pool (ff, w) = Ok (r, ff', w') \<and> doFlush_file api pool (ff, w) = Ok ([], ff', w')
        \<and> length (buf (ff_file ff')) \<le> G_FileBufferSize
        \<and> (r \<longrightarrow> file_text contents (ff_file ff', out_kern w') = file_text contents (ff_file ff, out_kern w) @ concat pool))"
proof (intro conjI)
  show "doFlush_stdout pool w = ([], w\<lparr>out_text := out_text w @ concat pool\<rparr>)"
    by (simp add: doFlush_stdout_writes stdout_put_def)
  have "\<exists>r ff' w'. put_all (file_flush api) pool (ff, w) = Ok (r, ff', w')"
  proof (induction pool arbitrary: ff w)
    case (Cons x pool)
    obtain r f k where "append_file api x (ff_file ff, out_kern w) = Ok (r, f, k)" using append_file_returns [OF assms(2)] by blast
    then have "file_flush api x (ff, w) = Ok (r, ff\<lparr>ff_file := f\<rparr>, w\<lparr>out_kern := k\<rparr>)" by (simp add: file_flush_def)
    moreover obtain r2 ff2 w2 where "put_all (file_flush api) pool (ff\<lparr>ff_file := f\<rparr>, w\<lparr>out_kern := k\<rparr>) = Ok (r2, ff2, w2)"
      using Cons.IH by blast
    ultimately show ?case by simp
  qed auto
  then obtain r ff' w' where p: "put_all (file_flush api) pool (ff, w) = Ok (r, ff', w')" by blast
  have "case (ff, w) of (ff, w) \<Rightarrow> file_ok api contents (ff_file ff, out_kern w)" using assms(1,3) by (simp add: file_ok_def)
  from flusher_file.put_all_appends [OF this p] have "length (buf (ff_file ff')) \<le> G_FileBufferSize"
    "r \<longrightarrow> file_text contents (ff_file ff', out_kern w') = file_text contents (ff_file ff, out_kern w) @ concat pool"
    by (auto simp: file_ok_def)
  then show "\<exists>r ff' w'. put_all (file_flush api) pool (ff, w) = Ok (r, ff', w') \<and> doFlush_file api pool (ff, w) = Ok ([], ff', w')
      \<and> length (buf (ff_file ff')) \<le> G_FileBufferSize
      \<and> (r \<longrightarrow> file_text contents (ff_file ff', out_kern w') = file_text contents (ff_file ff, out_kern w) @ concat pool)"
    using p by (intro exI [of _ r] exI [of _ ff'] exI [of _ w']) (simp add: doFlush_file_put_all)
qed

theorem doFlush_drains_queue_witness:
  "\<exists>ff' w'. doFlush_file demo_files [''ab'', ''c'']
     (\<lparr>ff_file = \<lparr>buf = [], wfd = 3, file_name = ''log''\<rparr>, ff_name = \<lparr>prefix = [], postfix = [], dateTime = []\<rparr>\<rparr>,
      \<lparr>out_text = [], out_kern = \<lambda>_. []\<rparr>) = Ok ([], ff', w')"
proof -
  let ?ff = "\<lparr>ff_file = \<lparr>buf = [], wfd = 3, file_name = ''log''\<rparr>, ff_name = \<lparr>prefix = [], postfix = [], dateTime = []\<rparr>\<rparr>"
  have "length (buf (ff_file ?ff)) \<le> G_FileBufferSize" by simp
  from doFlush_drains_queue [OF demo_files_ok this, of "[''ab'', ''c'']" "\<lparr>out_text = [], out_kern = \<lambda>_. []\<rparr>"]
  show ?thesis by (simp del: doFlush_file.simps doFlush_stdout.simps put_all.simps) blast
qed

text \<open>
  A log file given without a directory cannot be opened: the directory made for it carries the
  file's own name, and opening a directory for writing fails, so the constructor throws. (The
  default file pattern of the log configuration has no directory.)
\<close>

theorem plain_log_file_name_fails:
  assumes "CHR ''/'' \<notin> set name" and "f_stat api name (out_kern w) = (Inl e, k)" and "f_mkdir api name k = (Inr (), k')"
    and "f_open api name k' = (Inl e', k'')"
  shows "dir_of name = name \<and> FileFlusher_name api name w = Err ExecFailed"
  using assms by (simp add: dir_of_def FileFlusher_name_def createDir_def WritableFile_new_def)

text \<open>A kernel that only knows directories: its state is the set of their names.\<close>

definition demo_dirs :: "string set file_api" where
  "demo_dirs =
     \<lparr>f_open = (\<lambda>n k. if n \<in> k then (Inl (OtherErrno 21), k) else (Inr 3, k)), f_write = (\<lambda>i d k. (Inr (length d), k)),
      f_close = (\<lambda>_ k. (Inr (), k)), f_stat = (\<lambda>n k. if n \<in> k then (Inr (), k) else (Inl (OtherErrno 2), k)),
      f_mkdir = (\<lambda>n k. (Inr (), insert n k))\<rparr>"

theorem plain_log_file_name_fails_witness:
  "FileFlusher_name demo_dirs ''host.log'' \<lparr>out_text = [], out_kern = {}\<rparr> = Err ExecFailed"
proof -
  have "CHR ''/'' \<notin> set ''host.log''" by simp
  from plain_log_file_name_fails [OF this, of demo_dirs "\<lparr>out_text = [], out_kern = {}\<rparr>" "OtherErrno 2" "{}" "{''host.log''}"
      "OtherErrno 21" "{''host.log''}"]
  show ?thesis by (simp add: demo_dirs_def)
qed

text \<open>
  Registering a maker: a new name is found afterwards in every spelling that differs in case only.
  A name that is taken in upper case is reported as registered unless it was given in upper
  case, while the old maker stays.
\<close>

theorem register_maker_cases:
  assumes "m key = None"
  shows "fst (rigisterFlushMaker key func m)
    \<and> (m (map toupper key) = None \<longrightarrow> map toupper key' = map toupper key
         \<longrightarrow> find_maker key' (snd (rigisterFlushMaker key func m)) = Some func)
    \<and> (m (map toupper key) = Some old \<longrightarrow> snd (rigisterFlushMaker key func m) = m)"
  using assms by (simp add: rigisterFlushMaker_def find_maker_def Let_def)

theorem register_maker_cases_witness:
  "find_maker ''fLUSH'' (snd (rigisterFlushMaker ''Flush'' (MkUser ()) (\<lambda>_. None))) = Some (MkUser ())"
proof -
  have "map toupper ''fLUSH'' = map toupper ''Flush''" by code_simp
  then show ?thesis using register_maker_cases [of "\<lambda>_. None" "''Flush''" "MkUser ()" "''fLUSH''"] by simp
qed

text \<open>
  A flusher for files that the manager makes by the asynchronous kind has no thread: whatever is flushed only
  fills its queue, nothing outside changes, and its destructor joins a thread that does not exist,
  which ends the program. The constructor that takes a file name does start the thread.
\<close>

lemma unstarted_flushes:
  "fold_res (flush api) texts (AsyncFileLogFlusher ff pool st, w) = Ok (AsyncFileLogFlusher ff (pool @ texts) st, w)"
  by (induction texts arbitrary: pool) (simp_all add: async_push_def)

theorem managed_async_file_never_writes:
  assumes "find_maker key m = Some MkAsyncFile" and "getLogFlusher (FileFlusher_pattern api host pid strftime) user m key pattern w = Ok (Some f, w')"
  shows "\<exists>f'. fold_res (flush api) texts (f, w') = Ok (f', w') \<and> flusher_size f' = Some (length texts) \<and> flusher_destroy api (f', w') = Err Terminated"
  using assms by (auto simp: getLogFlusher_def unstarted_flushes)

text \<open>
  Renaming a flusher's file drops what it had: the new file is opened and takes the place of the old one, whose
  descriptor is not closed and whose buffered text is never written.
\<close>

theorem setFileName_forgets_file:
  assumes "f_open api name (out_kern w) = (Inr i, k)"
  shows "FileFlusher_setFileName api name (ff, w) =
     Ok (ff\<lparr>ff_file := \<lparr>buf = [], wfd = i, file_name = name\<rparr>\<rparr>, w\<lparr>out_kern := k\<rparr>)"
  using assms by (simp add: FileFlusher_setFileName_def WritableFile_new_def WritableFile_assign_def WritableFile_destroy_def)

text \<open>Setting a pattern only remembers it; the file that is open stays in use.\<close>

theorem setFilePattern_opens_nothing:
  assumes "setFilePattern host pid pattern (SimpleFileFlusher ff) = Ok f"
  shows "\<exists>d. logFileNameParse host pid pattern = Ok d \<and> f = SimpleFileFlusher (ff\<lparr>ff_name := d\<rparr>)"
  using assms by (auto simp: FileFlusher_setFilePattern_def)

end
