(* ===== verification/Logger_Core.thy ===== *)
theory Logger_Core
  imports Log_Flushers
begin

text \<open>
  include/logger.h, src/logger.cpp, src/logging/logger\_formatters.cpp and
  include/logging/LogSStream.h, src/logging/LogSStream.cpp: levels, the stream a log line is put
  together in, the formatters a pattern is compiled to, and \<open>Logger::log\<close>.
\<close>

section \<open>Levels\<close>

datatype Level = DEBUG | INFO | WARN | ERROR | FATAL | SIZE

text \<open>The enumerators' values give the order the macros compare with.\<close>

fun level_num :: "Level \<Rightarrow> nat" where
  "level_num DEBUG = 0"
| "level_num INFO = 1"
| "level_num WARN = 2"
| "level_num ERROR = 3"
| "level_num FATAL = 4"
| "level_num SIZE = 5"

instantiation Level :: linorder
begin

definition less_eq_Level :: "Level \<Rightarrow> Level \<Rightarrow> bool" where
  "less_eq_Level a b \<longleftrightarrow> level_num a \<le> level_num b"

definition less_Level :: "Level \<Rightarrow> Level \<Rightarrow> bool" where
  "less_Level a b \<longleftrightarrow> level_num a < level_num b"

instance
proof
  fix x y :: Level
  show "x \<le> y \<Longrightarrow> y \<le> x \<Longrightarrow> x = y"
    by (cases x; cases y) (simp_all add: less_eq_Level_def)
qed (auto simp: less_eq_Level_def less_Level_def)

end

definition levelToString :: "Level \<Rightarrow> string res" where
  "levelToString l =
     (case l of DEBUG \<Rightarrow> Ok ''DEBUG'' | INFO \<Rightarrow> Ok ''INFO'' | WARN \<Rightarrow> Ok ''WARN'' | ERROR \<Rightarrow> Ok ''ERROR'' | FATAL \<Rightarrow> Ok ''FATAL''
      | SIZE \<Rightarrow> Err AssertFailed)"

definition levelFromString :: "string \<Rightarrow> Level" where
  "levelFromString str =
     (let str_upper = map toupper str
      in if str_upper = ''DEBUG'' then DEBUG else if str_upper = ''INFO'' then INFO else if str_upper = ''WARN'' then WARN
         else if str_upper = ''ERROR'' then ERROR else if str_upper = ''FATAL'' then FATAL else SIZE)"

section \<open>The stream\<close>

text \<open>
  \<open>LogSStream\<close> writes into a thread-local block of 5 K; the stream is the text below \<open>pos_\<close>.
  \<open>append(char)\<close> asserts that there is room, \<open>append(const char*, size_t)\<close> and the number
  conversion do not look, so a text that does not fit is written past the block.
\<close>

definition LogBufferMaxLen :: nat where
  "LogBufferMaxLen = 5 * 1024"

definition stream_char :: "char \<Rightarrow> string \<Rightarrow> string res" where
  "stream_char c b = (if length b < LogBufferMaxLen then Ok (b @ [c]) else Err AssertFailed)"

definition stream_str :: "string \<Rightarrow> string \<Rightarrow> string res" where
  "stream_str s b = (if length b + length s \<le> LogBufferMaxLen then Ok (b @ s) else Err OutOfBounds)"

definition digits :: string where
  "digits = ''9876543210123456789''"

text \<open>\<open>i % 10\<close> and \<open>i / 10\<close> of C++, which round towards zero.\<close>

definition rem10 :: "int \<Rightarrow> int" where
  "rem10 i = (if 0 \<le> i then i mod 10 else - ((- i) mod 10))"

definition quot10 :: "int \<Rightarrow> int" where
  "quot10 i = (if 0 \<le> i then i div 10 else - ((- i) div 10))"

lemma quot10_0 [simp]: "quot10 0 = 0"
  by (simp add: quot10_def)

lemma quot10_smaller: "quot10 i \<noteq> 0 \<Longrightarrow> \<bar>quot10 i\<bar> < \<bar>i\<bar>"
  by (auto simp: quot10_def)

function convert_loop :: "int \<Rightarrow> string" where
  "convert_loop i =
     (digits ! nat (9 + rem10 i)) # (if quot10 i \<noteq> 0 then convert_loop (quot10 i) else [])"
  by pat_completeness auto
termination by (relation "measure (\<lambda>i. nat \<bar>i\<bar>)") (auto simp: quot10_smaller)

declare convert_loop.simps [simp del]

definition convert :: "int \<Rightarrow> string" where
  "convert value = rev (convert_loop value @ (if value < 0 then ''-'' else []))"

text \<open>The conversion writes a final NUL behind the digits.\<close>

definition stream_int :: "int \<Rightarrow> string \<Rightarrow> string res" where
  "stream_int n b =
     (if length b + length (convert n) + 1 \<le> LogBufferMaxLen then Ok (b @ convert n) else Err OutOfBounds)"

section \<open>Events and formatters\<close>

record LogEvent =
  ev_file_name :: string
  ev_line :: int
  ev_level :: Level
  ev_thread_id :: u32
  ev_elapsed_ms :: u32
  ev_executor_id :: u64
  ev_logger_name :: string
  ev_datetime_pattern :: string
  ev_content :: string
  ev_time :: int

datatype formatter =
    messageFormatter | levelFormatter | elapsedFormatter | nameFormatter | threadIdFormatter | newlineFormatter
  | dateTimeFormatter | filenameFormatter | lineNumberFormatter | executorIdFormatter | tabFormatter
  | StringLogFormatter string

text \<open>
  \<open>strftime\<close> of the event's local time into a buffer of 64 bytes is a parameter; when it fails the
  buffer holds no text and is read on.
\<close>

fun run_formatter :: "(string \<Rightarrow> int \<Rightarrow> string option) \<Rightarrow> formatter \<Rightarrow> LogEvent \<Rightarrow> string \<Rightarrow> string res" where
  "run_formatter strftime messageFormatter ev b = stream_str (ev_content ev) b"
| "run_formatter strftime levelFormatter ev b = res_bind (levelToString (ev_level ev)) (\<lambda>s. stream_str s b)"
| "run_formatter strftime elapsedFormatter ev b = stream_int (uint (ev_elapsed_ms ev)) b"
| "run_formatter strftime nameFormatter ev b = stream_str (ev_logger_name ev) b"
| "run_formatter strftime threadIdFormatter ev b = stream_int (uint (ev_thread_id ev)) b"
| "run_formatter strftime newlineFormatter ev b = stream_str [CHR 0x0D, CHR 0x0A] b"
| "run_formatter strftime dateTimeFormatter ev b =
     (case strftime (ev_datetime_pattern ev) (ev_time ev) of None \<Rightarrow> Err OutOfBounds | Some t \<Rightarrow> stream_str t b)"
| "run_formatter strftime filenameFormatter ev b = stream_str (ev_file_name ev) b"
| "run_formatter strftime lineNumberFormatter ev b = stream_int (ev_line ev) b"
| "run_formatter strftime executorIdFormatter ev b = stream_int (uint (ev_executor_id ev)) b"
| "run_formatter strftime tabFormatter ev b = stream_char (CHR 0x09) b"
| "run_formatter strftime (StringLogFormatter s) ev b = stream_str s b"

definition getFormatter :: "char \<Rightarrow> formatter option" where
  "getFormatter keyword =
     (if keyword = CHR ''m'' then Some messageFormatter else if keyword = CHR ''p'' then Some levelFormatter
      else if keyword = CHR ''r'' then Some elapsedFormatter else if keyword = CHR ''c'' then Some nameFormatter
      else if keyword = CHR ''t'' then Some threadIdFormatter else if keyword = CHR ''n'' then Some newlineFormatter
      else if keyword = CHR ''d'' then Some dateTimeFormatter else if keyword = CHR ''f'' then Some filenameFormatter
      else if keyword = CHR ''l'' then Some lineNumberFormatter else if keyword = CHR ''E'' then Some executorIdFormatter
      else if keyword = CHR ''T'' then Some tabFormatter else None)"

section \<open>Loggers\<close>

definition flusher_max :: nat where
  "flusher_max = 10"

text \<open>\<open>flushers\<close> are the used slots of the array, \<open>flusher_count_\<close> their number.\<close>

record Logger =
  level :: Level
  name :: string
  datetime_pattern :: string
  flushers :: "flusher list"
  formatters :: "formatter list"

definition Logger_new :: "string \<Rightarrow> Logger" where
  "Logger_new n = \<lparr>level = DEBUG, name = n, datetime_pattern = [], flushers = [], formatters = []\<rparr>"

definition setLevel :: "Level \<Rightarrow> Logger \<Rightarrow> Logger" where
  "setLevel l lg = lg\<lparr>level := l\<rparr>"

definition addOneFlusher :: "flusher option \<Rightarrow> Logger \<Rightarrow> Logger res" where
  "addOneFlusher f lg =
     (case f of
        None \<Rightarrow> Ok lg
      | Some f \<Rightarrow> if length (flushers lg) < flusher_max then Ok (lg\<lparr>flushers := flushers lg @ [f]\<rparr>) else Err OutOfBounds)"

definition addOneFormatter :: "formatter \<Rightarrow> Logger \<Rightarrow> Logger" where
  "addOneFormatter f lg = lg\<lparr>formatters := formatters lg @ [f]\<rparr>"

definition set_item :: "item \<Rightarrow> Logger \<Rightarrow> Logger res" where
  "set_item i lg =
     (case i of (str, fmt, is_key) \<Rightarrow>
        if is_key = 0 then Ok (addOneFormatter (StringLogFormatter str) lg)
        else if str = [] then Err AssertFailed
        else let lg = (if hd str = CHR ''d'' then lg\<lparr>datetime_pattern := (if fmt = [] then ''%Y-%m-%d %H:%M:%S'' else fmt)\<rparr> else lg)
             in case getFormatter (hd str) of
                  None \<Rightarrow> Ok (addOneFormatter (StringLogFormatter (''<<error_format%'' @ str @ ''>>'')) lg)
                | Some f \<Rightarrow> Ok (addOneFormatter f lg))"

definition setFormatters :: "string \<Rightarrow> Logger \<Rightarrow> Logger res" where
  "setFormatters formatter_pattern lg =
     fold_res set_item (logPatternParse formatter_pattern) (lg\<lparr>formatters := []\<rparr>)"

fun run_formatters :: "(string \<Rightarrow> int \<Rightarrow> string option) \<Rightarrow> formatter list \<Rightarrow> LogEvent \<Rightarrow> string \<Rightarrow> string res" where
  "run_formatters strftime [] ev b = Ok b"
| "run_formatters strftime (f # fs) ev b = res_bind (run_formatter strftime f ev b) (run_formatters strftime fs ev)"

fun flush_all :: "'k file_api \<Rightarrow> string \<Rightarrow> flusher list \<Rightarrow> 'k outside \<Rightarrow> (flusher list \<times> 'k outside) res" where
  "flush_all api str [] w = Ok ([], w)"
| "flush_all api str (f # fs) w =
     res_bind (flush api str (f, w)) (\<lambda>(f, w). res_bind (flush_all api str fs w) (\<lambda>(fs, w). Ok (f # fs, w)))"

definition log_ev ::
    "(string \<Rightarrow> int \<Rightarrow> string option) \<Rightarrow> 'k file_api \<Rightarrow> LogEvent \<Rightarrow> Logger \<times> 'k outside \<Rightarrow> (Logger \<times> 'k outside) res" where
  "log_ev strftime api ev s =
     (case s of (lg, w) \<Rightarrow>
        let ev = ev\<lparr>ev_logger_name := name lg, ev_datetime_pattern := datetime_pattern lg\<rparr>
        in res_bind (run_formatters strftime (formatters lg) ev []) (\<lambda>text.
           res_bind (flush_all api text (flushers lg) w) (\<lambda>(fs, w). Ok (lg\<lparr>flushers := fs\<rparr>, w))))"

text \<open>The destructor of \<open>LogWrapper\<close> logs what was streamed into it and aborts on \<open>FATAL\<close>; the macro tests the level first.\<close>

definition LogWrapper_destroy ::
    "(string \<Rightarrow> int \<Rightarrow> string option) \<Rightarrow> 'k file_api \<Rightarrow> string \<Rightarrow> LogEvent \<Rightarrow> Logger \<times> 'k outside \<Rightarrow> (Logger \<times> 'k outside) res" where
  "LogWrapper_destroy strftime api stream ev s =
     res_bind (log_ev strftime api (ev\<lparr>ev_content := stream\<rparr>) s) (\<lambda>s.
       if ev_level ev = FATAL then Err Terminated else Ok s)"

definition LON_LOG ::
    "(string \<Rightarrow> int \<Rightarrow> string option) \<Rightarrow> 'k file_api \<Rightarrow> string \<Rightarrow> LogEvent \<Rightarrow> Logger \<times> 'k outside \<Rightarrow> (Logger \<times> 'k outside) res" where
  "LON_LOG strftime api stream ev s =
     (if level (fst s) \<le> ev_level ev then LogWrapper_destroy strftime api stream ev s else Ok s)"

section \<open>Lemmas\<close>

lemma digits_mirror: "0 \<le> r \<Longrightarrow> r < 10 \<Longrightarrow> digits ! nat (9 + r) = digit_char (nat r) \<and> digits ! nat (9 - r) = digit_char (nat r)"
proof -
  assume "0 \<le> r" "r < 10"
  then have "r \<in> {0, 1, 2, 3, 4, 5, 6, 7, 8, 9}" unfolding insert_iff empty_iff by presburger
  then show ?thesis by (auto simp: digits_def digit_char_def)
qed

lemma convert_loop_neg: "convert_loop (- i) = convert_loop i"
proof (induction i rule: convert_loop.induct)
  case (1 i)
  have r: "digits ! nat (9 + rem10 (- i)) = digits ! nat (9 + rem10 i)"
    using digits_mirror [of "i mod 10"] digits_mirror [of "(- i) mod 10"] by (auto simp: rem10_def)
  have q: "quot10 (- i) = - quot10 i" by (auto simp: quot10_def)
  show ?case using 1 r q by (simp add: convert_loop.simps [of i] convert_loop.simps [of "- i"])
qed

lemma convert_loop_nat: "convert_loop (int n) = rev (dec_str n)"
proof (induction n rule: dec_str.induct)
  case (1 n)
  have d: "digits ! nat (9 + rem10 (int n)) = digit_char (n mod 10)"
    using digits_mirror [of "int n mod 10"] by (simp add: rem10_def nat_mod_distrib)
  have q: "quot10 (int n) = int (n div 10)" by (simp add: quot10_def zdiv_int)
  show ?case using 1 d q by (subst convert_loop.simps, subst dec_str.simps) auto
qed

text \<open>What a formatter contributes to the line, as a text; \<open>None\<close> where there is none.\<close>

fun piece :: "(string \<Rightarrow> int \<Rightarrow> string option) \<Rightarrow> LogEvent \<Rightarrow> formatter \<Rightarrow> string option" where
  "piece strftime ev messageFormatter = Some (ev_content ev)"
| "piece strftime ev levelFormatter = (case levelToString (ev_level ev) of Inl _ \<Rightarrow> None | Inr s \<Rightarrow> Some s)"
| "piece strftime ev elapsedFormatter = Some (dec_str (unat (ev_elapsed_ms ev)))"
| "piece strftime ev nameFormatter = Some (ev_logger_name ev)"
| "piece strftime ev threadIdFormatter = Some (dec_str (unat (ev_thread_id ev)))"
| "piece strftime ev newlineFormatter = Some [CHR 0x0D, CHR 0x0A]"
| "piece strftime ev dateTimeFormatter = strftime (ev_datetime_pattern ev) (ev_time ev)"
| "piece strftime ev filenameFormatter = Some (ev_file_name ev)"
| "piece strftime ev lineNumberFormatter = Some (decimal (ev_line ev))"
| "piece strftime ev executorIdFormatter = Some (dec_str (unat (ev_executor_id ev)))"
| "piece strftime ev tabFormatter = Some [CHR 0x09]"
| "piece strftime ev (StringLogFormatter s) = Some s"

lemma convert_eq_decimal: "convert v = decimal v"
proof (cases "0 \<le> v")
  case True
  then show ?thesis using convert_loop_nat [of "nat v"] by (simp add: convert_def decimal_def)
next
  case False
  then show ?thesis using convert_loop_nat [of "nat (- v)"] convert_loop_neg [of v] by (simp add: convert_def decimal_def)
qed

lemma stream_int_fits: "length b + length (decimal n) < LogBufferMaxLen \<Longrightarrow> stream_int n b = Ok (b @ decimal n)"
  by (simp add: stream_int_def convert_eq_decimal)

lemma run_formatter_fits:
  "piece strftime ev f = Some s \<Longrightarrow> length b + length s < LogBufferMaxLen \<Longrightarrow> run_formatter strftime f ev b = Ok (b @ s)"
  by (cases f) (auto simp: stream_str_def stream_char_def stream_int_fits decimal_uint split: sum.splits option.splits)

lemma run_formatter_Ok:
  "run_formatter strftime f ev b = Ok b' \<Longrightarrow> length b \<le> LogBufferMaxLen
     \<Longrightarrow> \<exists>s. piece strftime ev f = Some s \<and> b' = b @ s \<and> length b' \<le> LogBufferMaxLen"
  by (cases f) (auto simp: stream_str_def stream_char_def stream_int_def convert_eq_decimal decimal_uint split: sum.splits option.splits if_splits)

lemma run_formatters_fits:
  "map (piece strftime ev) fs = map Some ss \<Longrightarrow> length b + length (concat ss) < LogBufferMaxLen
     \<Longrightarrow> run_formatters strftime fs ev b = Ok (b @ concat ss)"
proof (induction fs arbitrary: ss b)
  case (Cons f fs)
  then obtain s ss' where ss: "ss = s # ss'" by (cases ss) auto
  with Cons.prems have "run_formatter strftime f ev b = Ok (b @ s)" by (intro run_formatter_fits) auto
  then show ?case using Cons.IH [of ss' "b @ s"] Cons.prems ss by simp
qed simp

lemma run_formatters_Ok:
  "run_formatters strftime fs ev b = Ok b' \<Longrightarrow> length b \<le> LogBufferMaxLen
     \<Longrightarrow> \<exists>ss. map (piece strftime ev) fs = map Some ss \<and> b' = b @ concat ss \<and> length b' \<le> LogBufferMaxLen"
proof (induction fs arbitrary: b)
  case (Cons f fs)
  from Cons.prems(1) obtain b1 where b1: "run_formatter strftime f ev b = Ok b1" "run_formatters strftime fs ev b1 = Ok b'" by auto
  from run_formatter_Ok [OF b1(1) Cons.prems(2)] obtain s where s: "piece strftime ev f = Some s" "b1 = b @ s" "length b1 \<le> LogBufferMaxLen"
    by blast
  from Cons.IH [OF b1(2) s(3)] obtain ss where "map (piece strftime ev) fs = map Some ss" "b' = b1 @ concat ss" "length b' \<le> LogBufferMaxLen"
    by blast
  then show ?case using s by (intro exI [of _ "s # ss"]) simp
qed auto

text \<open>What \<open>setFormatters\<close> makes of a part of a pattern.\<close>

definition key_formatter :: "string \<Rightarrow> formatter" where
  "key_formatter k = (case getFormatter (hd k) of None \<Rightarrow> StringLogFormatter (''<<error_format%'' @ k @ ''>>'') | Some f \<Rightarrow> f)"

fun part_formatter :: "part \<Rightarrow> formatter" where
  "part_formatter (PText t) = StringLogFormatter t"
| "part_formatter (PKey k) = key_formatter k"
| "part_formatter (PKeyFmt k f) = key_formatter k"

fun part_datetime :: "part \<Rightarrow> string \<Rightarrow> string" where
  "part_datetime (PText t) d = d"
| "part_datetime (PKey k) d = (if hd k = CHR ''d'' then ''%Y-%m-%d %H:%M:%S'' else d)"
| "part_datetime (PKeyFmt k f) d = (if hd k = CHR ''d'' then if f = [] then ''%Y-%m-%d %H:%M:%S'' else f else d)"

fun part_key_ok :: "part \<Rightarrow> bool" where
  "part_key_ok (PText t) \<longleftrightarrow> True"
| "part_key_ok (PKey k) \<longleftrightarrow> k \<noteq> []"
| "part_key_ok (PKeyFmt k f) \<longleftrightarrow> k \<noteq> []"

lemma parts_ok_keys: "parts_ok ps \<Longrightarrow> list_all part_key_ok ps"
  by (induction ps rule: parts_ok.induct) auto

lemma set_item_part:
  "part_key_ok p \<Longrightarrow> set_item (item_of p) lg =
     Ok (lg\<lparr>datetime_pattern := part_datetime p (datetime_pattern lg), formatters := formatters lg @ [part_formatter p]\<rparr>)"
  by (cases p) (auto simp: set_item_def addOneFormatter_def key_formatter_def split: option.splits)

lemma set_items_parts:
  "list_all part_key_ok ps \<Longrightarrow> fold_res set_item (map item_of ps) lg =
     Ok (lg\<lparr>datetime_pattern := fold part_datetime ps (datetime_pattern lg), formatters := formatters lg @ map part_formatter ps\<rparr>)"
proof (induction ps arbitrary: lg)
  case (Cons p ps)
  then show ?case by (simp add: set_item_part)
qed simp

lemma setFormatters_parts:
  "parts_ok ps \<Longrightarrow> setFormatters (show_parts ps) lg =
     Ok (lg\<lparr>datetime_pattern := fold part_datetime ps (datetime_pattern lg), formatters := map part_formatter ps\<rparr>)"
  using set_items_parts [OF parts_ok_keys, of ps "lg\<lparr>formatters := []\<rparr>"]
  by (simp add: setFormatters_def logPatternParse_parts)

section \<open>Properties\<close>

text \<open>
  C33. The stream's number conversion, which counts down by truncating division and a table of digits
  mirrored around zero, prints every integer (the most negative one included) as its ordinary
  decimal text: it is equivalent to the recursive definition of decimal notation.
\<close>

theorem convert_is_decimal:
  "convert v = (if v < 0 then CHR ''-'' # dec_str (nat (- v)) else dec_str (nat v))"
  by (simp add: convert_eq_decimal decimal_def)

text \<open>
  Level names: every level prints as a name that reads back as that level in any mixture of upper
  and lower case, \<open>SIZE\<close> is what every other text reads as and has no name, and the levels are
  ordered from \<open>DEBUG\<close> up to \<open>FATAL\<close>.
\<close>

theorem level_names_roundtrip:
  "(levelToString l = Ok s \<longrightarrow> map toupper t = map toupper s \<longrightarrow> levelFromString t = l)
   \<and> (levelToString l = Err AssertFailed \<longleftrightarrow> l = SIZE)
   \<and> (levelFromString t \<noteq> SIZE \<longrightarrow> levelToString (levelFromString t) = Ok (map toupper t))
   \<and> DEBUG < INFO \<and> INFO < WARN \<and> WARN < ERROR \<and> ERROR < FATAL \<and> FATAL < SIZE"
proof (intro conjI impI)
  have u: "map toupper ''DEBUG'' = ''DEBUG''" "map toupper ''INFO'' = ''INFO''" "map toupper ''WARN'' = ''WARN''"
    "map toupper ''ERROR'' = ''ERROR''" "map toupper ''FATAL'' = ''FATAL''" by code_simp+
  {
    assume "levelToString l = Ok s" "map toupper t = map toupper s"
    then show "levelFromString t = l"
      by (cases l) (auto simp: levelToString_def levelFromString_def u simp del: list.map)
  }
  show "levelToString l = Err AssertFailed \<longleftrightarrow> l = SIZE" by (cases l) (simp_all add: levelToString_def)
  show "levelFromString t \<noteq> SIZE \<Longrightarrow> levelToString (levelFromString t) = Ok (map toupper t)"
    by (auto simp: levelFromString_def levelToString_def Let_def split: if_splits)
qed (simp_all add: less_Level_def)

theorem level_names_roundtrip_witness: "levelFromString ''Warn'' = WARN"
proof -
  have "levelToString WARN = Ok ''WARN''" by (simp add: levelToString_def)
  moreover have "map toupper ''Warn'' = map toupper ''WARN''" by code_simp
  ultimately show ?thesis using level_names_roundtrip [of WARN "''WARN''" "''Warn''"] by simp
qed

text \<open>
  C34. A log line is the concatenation of what its formatters contribute when it is shorter than the
  5 K of the stream's block; a longer line never comes out, because the texts are copied without
  a look at the room left (or the assertion of the single-character case fails).
\<close>

theorem log_line_fits_or_overflows:
  assumes "map (piece strftime ev) fs = map Some ss"
  shows "(length (concat ss) < LogBufferMaxLen \<longrightarrow> run_formatters strftime fs ev [] = Ok (concat ss))
    \<and> (LogBufferMaxLen < length (concat ss) \<longrightarrow> \<not> is_ok (run_formatters strftime fs ev []))"
proof (intro conjI impI)
  assume "length (concat ss) < LogBufferMaxLen"
  then show "run_formatters strftime fs ev [] = Ok (concat ss)" using run_formatters_fits [OF assms, of "[]"] by simp
next
  assume l: "LogBufferMaxLen < length (concat ss)"
  show "\<not> is_ok (run_formatters strftime fs ev [])"
  proof
    assume "is_ok (run_formatters strftime fs ev [])"
    then obtain b where "run_formatters strftime fs ev [] = Ok b" by (cases "run_formatters strftime fs ev []") auto
    from run_formatters_Ok [OF this] obtain ss' where "map (piece strftime ev) fs = map Some ss'" "length (concat ss') \<le> LogBufferMaxLen"
      by auto
    then show False using assms l by (metis inj_Some list.inj_map_strong option.inject leD)
  qed
qed

definition demo_event :: LogEvent where
  "demo_event = \<lparr>ev_file_name = ''a.cpp'', ev_line = - 7, ev_level = WARN, ev_thread_id = 5, ev_elapsed_ms = 0, ev_executor_id = 2,
     ev_logger_name = [], ev_datetime_pattern = [], ev_content = ''hi'', ev_time = 0\<rparr>"

theorem log_line_fits_or_overflows_witness:
  "run_formatters (\<lambda>_ _. None) [levelFormatter, tabFormatter, lineNumberFormatter, messageFormatter] demo_event []
     = Ok (''WARN'' @ CHR 0x09 # ''-7hi'')"
proof -
  have d: "decimal (- 7) = ''-7''" by (simp add: decimal_def dec_str.simps [of 7] digit_char_def)
  have "map (piece (\<lambda>_ _. None) demo_event) [levelFormatter, tabFormatter, lineNumberFormatter, messageFormatter]
      = map Some [''WARN'', [CHR 0x09], ''-7'', ''hi'']"
    by (simp add: demo_event_def levelToString_def d)
  from log_line_fits_or_overflows [OF this] show ?thesis by (simp add: LogBufferMaxLen_def)
qed

text \<open>
  C35. From pattern to output. A logger whose pattern is the text of a well-formed sequence of parts
  and which writes to the standard output prints, for an event at or above its level (and below
  \<open>FATAL\<close>), exactly the texts of the parts in order: plain texts as they are, keys as the field
  of the event they stand for, unknown keys as an error mark; nothing else changes. An event below
  the level prints nothing.
\<close>

theorem pattern_line_logged:
  assumes "parts_ok ps" and "flushers old = [SimpleStdoutFlusher]"
    and "lg = old\<lparr>datetime_pattern := fold part_datetime ps (datetime_pattern old), formatters := map part_formatter ps\<rparr>"
    and "ev' = ev\<lparr>ev_logger_name := name old, ev_datetime_pattern := datetime_pattern lg, ev_content := msg\<rparr>"
    and "map (piece strftime ev' \<circ> part_formatter) ps = map Some ss" and "length (concat ss) < LogBufferMaxLen"
    and "ev_level ev < FATAL"
  shows "setFormatters (show_parts ps) old = Ok lg
    \<and> LON_LOG strftime api msg ev (lg, w) =
        Ok (lg, if level old \<le> ev_level ev then w\<lparr>out_text := out_text w @ concat ss\<rparr> else w)"
proof
  show "setFormatters (show_parts ps) old = Ok lg" using assms(1,3) by (simp add: setFormatters_parts)
  have "run_formatters strftime (formatters lg) ev' [] = Ok (concat ss)"
    using run_formatters_fits [of strftime ev' "map part_formatter ps" ss "[]"] assms(3,5,6) by simp
  moreover have "ev_level ev \<noteq> FATAL" using assms(7) by auto
  moreover have "(ev\<lparr>ev_content := msg\<rparr>)\<lparr>ev_logger_name := name lg, ev_datetime_pattern := datetime_pattern lg\<rparr> = ev'"
    using assms(3,4) by simp
  ultimately show "LON_LOG strftime api msg ev (lg, w) =
      Ok (lg, if level old \<le> ev_level ev then w\<lparr>out_text := out_text w @ concat ss\<rparr> else w)"
    using assms(2,3) by (simp add: LON_LOG_def LogWrapper_destroy_def log_ev_def stdout_put_def)
qed

theorem pattern_line_logged_witness:
  "setFormatters ''[%p] %m'' (Logger_new ''x''\<lparr>flushers := [SimpleStdoutFlusher]\<rparr>)
       = Ok (Logger_new ''x''\<lparr>flushers := [SimpleStdoutFlusher],
           formatters := [StringLogFormatter ''['', levelFormatter, StringLogFormatter ''] '', messageFormatter]\<rparr>)
   \<and> LON_LOG (\<lambda>_ _. None) demo_files ''hi'' demo_event
       (Logger_new ''x''\<lparr>flushers := [SimpleStdoutFlusher],
           formatters := [StringLogFormatter ''['', levelFormatter, StringLogFormatter ''] '', messageFormatter]\<rparr>,
        \<lparr>out_text = [], out_kern = \<lambda>_. []\<rparr>)
     = Ok (Logger_new ''x''\<lparr>flushers := [SimpleStdoutFlusher],
             formatters := [StringLogFormatter ''['', levelFormatter, StringLogFormatter ''] '', messageFormatter]\<rparr>,
           \<lparr>out_text = ''[WARN] hi'', out_kern = \<lambda>_. []\<rparr>)"
proof -
  let ?ps = "[PText ''['', PKey ''p'', PText ''] '', PKey ''m'']"
  let ?old = "Logger_new ''x''\<lparr>flushers := [SimpleStdoutFlusher]\<rparr>"
  let ?lg = "?old\<lparr>formatters := [StringLogFormatter ''['', levelFormatter, StringLogFormatter ''] '', messageFormatter]\<rparr>"
  let ?ev = "demo_event\<lparr>ev_logger_name := name ?old, ev_datetime_pattern := datetime_pattern ?lg, ev_content := ''hi''\<rparr>"
  have ok: "parts_ok ?ps" by (simp add: isalpha_def key_char_def)
  have fl: "flushers ?old = [SimpleStdoutFlusher]" by simp
  have lg: "?lg = ?old\<lparr>datetime_pattern := fold part_datetime ?ps (datetime_pattern ?old), formatters := map part_formatter ?ps\<rparr>"
    by (simp add: Logger_new_def key_formatter_def getFormatter_def)
  have pc: "map (piece (\<lambda>_ _. None) ?ev \<circ> part_formatter) ?ps = map Some [''['', ''WARN'', ''] '', ''hi'']"
    by (simp add: demo_event_def levelToString_def key_formatter_def getFormatter_def)
  have l: "length (concat [''['', ''WARN'', ''] '', ''hi'']) < LogBufferMaxLen" by (simp add: LogBufferMaxLen_def)
  have "ev_level demo_event < FATAL" by (simp add: demo_event_def less_Level_def)
  note pattern_line_logged [OF ok fl lg refl pc l this, of demo_files "\<lparr>out_text = [], out_kern = \<lambda>_. []\<rparr>"]
  moreover have "level ?old \<le> ev_level demo_event" by (simp add: Logger_new_def demo_event_def less_eq_Level_def)
  ultimately show ?thesis by simp
qed

end
