(* ===== verification/Log_Stream.thy ===== *)
theory Log_Stream
  imports Logger_Core
begin

text \<open>
  include/logging/LogSStream.h and src/logging/LogSStream.cpp byte by byte: the thread's block of
  5 K and the position in it, the operators that write into it, the two number conversions, and the
  fact that all streams of a thread use the one block. \<open>Logger_Core\<close> sees a stream as the text
  written so far; the block refines that view.
\<close>

section \<open>The block\<close>

record LogSStreamBuf =
  sb_buf :: string
  sb_pos :: nat

abbreviation NUL :: char where
  "NUL \<equiv> CHR 0x00"

text \<open>\<open>alloc\<close> says whether \<open>malloc\<close> finds memory; its result is cleared without a test.\<close>

definition LogSStreamBuf_new :: "(nat \<Rightarrow> bool) \<Rightarrow> LogSStreamBuf res" where
  "LogSStreamBuf_new alloc =
     (if alloc LogBufferMaxLen then Ok \<lparr>sb_buf = replicate LogBufferMaxLen NUL, sb_pos = 0\<rparr> else Err NullDeref)"

definition buf_free :: "LogSStreamBuf \<Rightarrow> LogSStreamBuf" where
  "buf_free s = s\<lparr>sb_pos := 0\<rparr>"

text \<open>Bytes written from an index on; behind the block the write is undefined.\<close>

definition memcpy_at :: "nat \<Rightarrow> string \<Rightarrow> string \<Rightarrow> string res" where
  "memcpy_at i s b = (if i + length s \<le> length b then Ok (take i b @ s @ drop (i + length s) b) else Err OutOfBounds)"

definition append_char :: "char \<Rightarrow> LogSStreamBuf \<Rightarrow> LogSStreamBuf res" where
  "append_char c s =
     (if sb_pos s < LogBufferMaxLen
      then res_bind (memcpy_at (sb_pos s) [c] (sb_buf s)) (\<lambda>b. Ok (s\<lparr>sb_buf := b, sb_pos := sb_pos s + 1\<rparr>))
      else Err AssertFailed)"

definition append_bytes :: "string \<Rightarrow> LogSStreamBuf \<Rightarrow> LogSStreamBuf res" where
  "append_bytes str s = res_bind (memcpy_at (sb_pos s) str (sb_buf s)) (\<lambda>b. Ok (s\<lparr>sb_buf := b, sb_pos := sb_pos s + length str\<rparr>))"

section \<open>Conversions in place\<close>

text \<open>\<open>std::reverse\<close> of the bytes from \<open>i\<close> up to \<open>j\<close>.\<close>

definition reverse_range :: "nat \<Rightarrow> nat \<Rightarrow> string \<Rightarrow> string" where
  "reverse_range i j b = take i b @ rev (take (j - i) (drop i b)) @ drop j b"

text \<open>The digits are written backwards, then the sign and a NUL, and the digits are reversed.\<close>

definition convert_at :: "nat \<Rightarrow> int \<Rightarrow> string \<Rightarrow> (nat \<times> string) res" where
  "convert_at p value b =
     (let ds = convert_loop value @ (if value < 0 then ''-'' else [])
      in res_bind (memcpy_at p (ds @ [NUL]) b) (\<lambda>b. Ok (length ds, reverse_range p (p + length ds) b)))"

definition digitsHex :: string where
  "digitsHex = ''0123456789ABCDEF''"

lemma div_16_smaller: "i div 16 \<noteq> 0 \<Longrightarrow> unat (i div 16) < unat (i :: u64)"
proof -
  assume "i div 16 \<noteq> 0"
  then have "0 < unat i" by (cases "i = 0") (auto simp: unat_gt_0)
  then show ?thesis by (simp add: unat_div_distrib)
qed

function hex_loop :: "u64 \<Rightarrow> string" where
  "hex_loop i = digitsHex ! unat (i mod 16) # (if i div 16 \<noteq> 0 then hex_loop (i div 16) else [])"
  by pat_completeness auto
termination by (relation "measure unat") (auto simp: div_16_smaller)

declare hex_loop.simps [simp del]

definition convertHex :: "nat \<Rightarrow> u64 \<Rightarrow> string \<Rightarrow> (nat \<times> string) res" where
  "convertHex p value b =
     (let ds = hex_loop value
      in res_bind (memcpy_at p (ds @ [NUL]) b) (\<lambda>b. Ok (length ds, reverse_range p (p + length ds) b)))"

section \<open>Operators\<close>

definition sstream_int :: "int \<Rightarrow> LogSStreamBuf \<Rightarrow> LogSStreamBuf res" where
  "sstream_int n s = res_bind (convert_at (sb_pos s) n (sb_buf s)) (\<lambda>(k, b). Ok (s\<lparr>sb_buf := b, sb_pos := sb_pos s + k\<rparr>))"

definition sstream_str :: "string \<Rightarrow> LogSStreamBuf \<Rightarrow> LogSStreamBuf res" where
  "sstream_str str s = append_bytes str s"

definition sstream_piece :: "string \<Rightarrow> LogSStreamBuf \<Rightarrow> LogSStreamBuf res" where
  "sstream_piece sv s = append_bytes sv s"

text \<open>\<open>sprintf\<close>'s text of a number, a parameter, is followed by a NUL.\<close>

definition sstream_double :: "('d \<Rightarrow> string) \<Rightarrow> 'd \<Rightarrow> LogSStreamBuf \<Rightarrow> LogSStreamBuf res" where
  "sstream_double fmt_f n s =
     res_bind (memcpy_at (sb_pos s) (fmt_f n @ [NUL]) (sb_buf s)) (\<lambda>b. Ok (s\<lparr>sb_buf := b, sb_pos := sb_pos s + length (fmt_f n)\<rparr>))"

definition sstream_char :: "char \<Rightarrow> LogSStreamBuf \<Rightarrow> LogSStreamBuf res" where
  "sstream_char c s = append_char c s"

text \<open>The view made of a \<open>const char*\<close> ends before the first NUL.\<close>

definition sstream_cstr :: "string \<Rightarrow> LogSStreamBuf \<Rightarrow> LogSStreamBuf res" where
  "sstream_cstr str s = sstream_piece (takeWhile (\<lambda>c. c \<noteq> NUL) str) s"

definition sstream_text :: "LogSStreamBuf \<Rightarrow> string" where
  "sstream_text s = take (sb_pos s) (sb_buf s)"

definition getSlice :: "LogSStreamBuf \<Rightarrow> string" where
  "getSlice s = take (sb_pos s) (sb_buf s)"

definition LogSStream_destroy :: "LogSStreamBuf \<Rightarrow> LogSStreamBuf" where
  "LogSStream_destroy s = buf_free s"

datatype 'd put = PutChar char | PutInt int | PutString string | PutPiece string | PutCStr string | PutDouble 'd

fun shift_left :: "('d \<Rightarrow> string) \<Rightarrow> 'd put \<Rightarrow> LogSStreamBuf \<Rightarrow> LogSStreamBuf res" where
  "shift_left fmt_f (PutChar c) s = sstream_char c s"
| "shift_left fmt_f (PutInt n) s = sstream_int n s"
| "shift_left fmt_f (PutString str) s = sstream_str str s"
| "shift_left fmt_f (PutPiece str) s = sstream_piece str s"
| "shift_left fmt_f (PutCStr str) s = sstream_cstr str s"
| "shift_left fmt_f (PutDouble d) s = sstream_double fmt_f d s"

section \<open>The text of a stream\<close>

definition block_ok :: "LogSStreamBuf \<Rightarrow> bool" where
  "block_ok s \<longleftrightarrow> length (sb_buf s) = LogBufferMaxLen \<and> sb_pos s \<le> LogBufferMaxLen"

text \<open>The specification: a stream is its text, and each operand has a text.\<close>

fun put_text :: "('d \<Rightarrow> string) \<Rightarrow> 'd put \<Rightarrow> string" where
  "put_text fmt_f (PutChar c) = [c]"
| "put_text fmt_f (PutInt n) = decimal n"
| "put_text fmt_f (PutString str) = str"
| "put_text fmt_f (PutPiece str) = str"
| "put_text fmt_f (PutCStr str) = takeWhile (\<lambda>c. c \<noteq> NUL) str"
| "put_text fmt_f (PutDouble d) = fmt_f d"

text \<open>Numbers need a byte more than their text.\<close>

fun put_room :: "'d put \<Rightarrow> nat" where
  "put_room (PutInt n) = 1"
| "put_room (PutDouble d) = 1"
| "put_room _ = 0"

fun put_error :: "'d put \<Rightarrow> lon_error" where
  "put_error (PutChar c) = AssertFailed"
| "put_error _ = OutOfBounds"

definition text_put :: "('d \<Rightarrow> string) \<Rightarrow> 'd put \<Rightarrow> string \<Rightarrow> string res" where
  "text_put fmt_f x t =
     (if length t + length (put_text fmt_f x) + put_room x \<le> LogBufferMaxLen then Ok (t @ put_text fmt_f x) else Err (put_error x))"

text \<open>What a stream promises whoever writes into it.\<close>

locale text_stream =
  fixes put :: "'i \<Rightarrow> 's \<Rightarrow> 's res"
    and ok :: "'s \<Rightarrow> bool"
    and text_of :: "'s \<Rightarrow> string"
    and operand :: "'i \<Rightarrow> string"
  assumes put_fits: "ok s \<Longrightarrow> length (text_of s) + length (operand i) < LogBufferMaxLen \<Longrightarrow> is_ok (put i s)"
    and put_Ok: "ok s \<Longrightarrow> put i s = Ok s' \<Longrightarrow> ok s' \<and> text_of s' = text_of s @ operand i"
begin

lemma put_all_Ok:
  "ok s \<Longrightarrow> fold_res put is s = Ok s' \<Longrightarrow> ok s' \<and> text_of s' = text_of s @ concat (map operand is)"
proof (induction "is" arbitrary: s)
  case (Cons i "is")
  then obtain s1 where "put i s = Ok s1" "fold_res put is s1 = Ok s'" by auto
  with Cons.IH [of s1] put_Ok [OF Cons.prems(1)] show ?case by auto
qed simp

lemma put_all_fits:
  "ok s \<Longrightarrow> length (text_of s) + length (concat (map operand is)) < LogBufferMaxLen
     \<Longrightarrow> \<exists>s'. fold_res put is s = Ok s' \<and> ok s' \<and> text_of s' = text_of s @ concat (map operand is)"
proof (induction "is" arbitrary: s)
  case (Cons i "is")
  then have "is_ok (put i s)" by (intro put_fits) auto
  then obtain s1 where s1: "put i s = Ok s1" by (cases "put i s") auto
  from put_Ok [OF Cons.prems(1) this] have "ok s1" "text_of s1 = text_of s @ operand i" by auto
  with Cons.IH [of s1] Cons.prems(2) s1 show ?case by auto
qed simp

end

section \<open>Lemmas\<close>

lemma memcpy_at_take: "memcpy_at i s b = Ok b' \<Longrightarrow> take (i + length s) b' = take i b @ s \<and> length b' = length b"
  by (auto simp: memcpy_at_def split: if_splits)

lemma reverse_range_written:
  "i \<le> length b \<Longrightarrow> reverse_range i (i + length s) (take i b @ (s @ t) @ u) = take i b @ (rev s @ t) @ u"
  by (simp add: reverse_range_def min_def)

lemma convert_in_place:
  assumes "block_ok s"
  shows "res_bind (memcpy_at (sb_pos s) (ds @ [NUL]) (sb_buf s)) (\<lambda>b. Ok (length ds, reverse_range (sb_pos s) (sb_pos s + length ds) b)) =
    (if sb_pos s + length ds + 1 \<le> LogBufferMaxLen
     then Ok (length ds, take (sb_pos s) (sb_buf s) @ (rev ds @ [NUL]) @ drop (sb_pos s + length ds + 1) (sb_buf s)) else Err OutOfBounds)"
  using assms reverse_range_written [of "sb_pos s" "sb_buf s" ds "[NUL]" "drop (sb_pos s + length ds + 1) (sb_buf s)"]
  by (auto simp: memcpy_at_def block_ok_def)

lemma sstream_int_eq:
  assumes "block_ok s"
  shows "sstream_int n s = (if sb_pos s + length (decimal n) + 1 \<le> LogBufferMaxLen
    then Ok (s\<lparr>sb_buf := take (sb_pos s) (sb_buf s) @ (decimal n @ [NUL]) @ drop (sb_pos s + length (decimal n) + 1) (sb_buf s),
      sb_pos := sb_pos s + length (decimal n)\<rparr>) else Err OutOfBounds)"
proof -
  have c: "rev (convert_loop n @ (if n < 0 then ''-'' else [])) = decimal n"
    using convert_eq_decimal [of n] by (simp only: convert_def)
  have l: "length (convert_loop n @ (if n < 0 then ''-'' else [])) = length (decimal n)"
    unfolding c [symmetric] length_rev ..
  show ?thesis unfolding sstream_int_def convert_at_def Let_def convert_in_place [OF assms] c l by simp
qed

lemma shift_left_refines:
  assumes "block_ok s"
  shows "map_sum id sstream_text (shift_left fmt_f x s) = text_put fmt_f x (sstream_text s)"
    and "shift_left fmt_f x s = Ok s' \<Longrightarrow> block_ok s'"
proof -
  have b: "length (sb_buf s) = LogBufferMaxLen" "sb_pos s \<le> LogBufferMaxLen" using assms by (simp_all add: block_ok_def)
  note defs = sstream_char_def append_char_def sstream_str_def sstream_piece_def sstream_cstr_def append_bytes_def sstream_double_def
    sstream_int_eq [OF assms] memcpy_at_def sstream_text_def text_put_def
  show "map_sum id sstream_text (shift_left fmt_f x s) = text_put fmt_f x (sstream_text s)"
    using b by (cases x) (auto simp: defs)
  show "shift_left fmt_f x s = Ok s' \<Longrightarrow> block_ok s'"
    using b by (cases x) (auto simp: defs block_ok_def split: if_splits)
qed

lemma shift_left_Ok:
  assumes "block_ok s" and "shift_left fmt_f x s = Ok s'"
  shows "block_ok s' \<and> sstream_text s' = sstream_text s @ put_text fmt_f x"
  using shift_left_refines [OF assms(1), of fmt_f x] assms(2) by (auto simp: text_put_def split: if_splits)

text \<open>Both views keep the promise of a stream: the block, and the text alone.\<close>

interpretation block: text_stream "shift_left fmt_f" block_ok sstream_text "put_text fmt_f"
proof unfold_locales
  fix s and i :: "'a put"
  assume "block_ok s" "length (sstream_text s) + length (put_text fmt_f i) < LogBufferMaxLen"
  moreover have "put_room i \<le> 1" by (cases i) simp_all
  ultimately have "is_ok (map_sum id sstream_text (shift_left fmt_f i s))"
    by (simp add: shift_left_refines(1) text_put_def)
  then show "is_ok (shift_left fmt_f i s)" by (cases "shift_left fmt_f i s") simp_all
qed (use shift_left_Ok in blast)

interpretation plain: text_stream "text_put fmt_f" "\<lambda>t. True" "\<lambda>t. t" "put_text fmt_f"
proof unfold_locales
  fix s :: string and i :: "'a put"
  assume "length s + length (put_text fmt_f i) < LogBufferMaxLen"
  moreover have "put_room i \<le> 1" by (cases i) simp_all
  ultimately show "is_ok (text_put fmt_f i s)" by (simp add: text_put_def)
qed (auto simp: text_put_def split: if_splits)

lemma shift_all_refines:
  "block_ok s \<Longrightarrow> map_sum id sstream_text (fold_res (shift_left fmt_f) xs s) = fold_res (text_put fmt_f) xs (sstream_text s)"
proof (induction xs arbitrary: s)
  case (Cons x xs)
  note r = shift_left_refines [OF Cons.prems, of fmt_f x]
  show ?case
  proof (cases "shift_left fmt_f x s")
    case (Inl e)
    with r(1) show ?thesis by (cases "text_put fmt_f x (sstream_text s)") simp_all
  next
    case (Inr s1)
    with r(1) have "text_put fmt_f x (sstream_text s) = Ok (sstream_text s1)" by (cases "text_put fmt_f x (sstream_text s)") simp_all
    with Inr Cons.IH [OF r(2) [OF Inr]] show ?thesis by simp
  qed
qed simp

lemma new_block: "alloc LogBufferMaxLen \<Longrightarrow> \<exists>s. LogSStreamBuf_new alloc = Ok s \<and> block_ok s \<and> sstream_text s = []"
  by (simp add: LogSStreamBuf_new_def block_ok_def sstream_text_def)

section \<open>Hexadecimal\<close>

text \<open>The ordinary hexadecimal text of a number and the number a text stands for.\<close>

fun hex_str :: "nat \<Rightarrow> string" where
  "hex_str n = (if n < 16 then [digitsHex ! n] else hex_str (n div 16) @ [digitsHex ! (n mod 16)])"

declare hex_str.simps [simp del]

lemma hex_loop_eq: "hex_loop i = rev (hex_str (unat i))"
proof (induction i rule: hex_loop.induct)
  case (1 i)
  have m: "unat (i mod 16) = unat i mod 16" and d: "unat (i div 16) = unat i div 16"
    by (simp_all add: unat_mod_distrib unat_div_distrib)
  have z: "i div 16 = 0 \<longleftrightarrow> unat i < 16" using d by (metis div_eq_0_iff unsigned_eq_0_iff zero_neq_numeral)
  show ?case using 1 m d z by (subst hex_loop.simps, subst hex_str.simps) auto
qed

lemma convertHex_eq:
  assumes "block_ok s"
  shows "convertHex (sb_pos s) v (sb_buf s) = (if sb_pos s + length (hex_str (unat v)) + 1 \<le> LogBufferMaxLen
    then Ok (length (hex_str (unat v)), take (sb_pos s) (sb_buf s) @ (hex_str (unat v) @ [NUL]) @ drop (sb_pos s + length (hex_str (unat v)) + 1) (sb_buf s))
    else Err OutOfBounds)"
  unfolding convertHex_def Let_def convert_in_place [OF assms] hex_loop_eq rev_rev_ident length_rev ..

section \<open>Properties\<close>

text \<open>
  C32. The log stream refines a text. Whatever sequence of characters, numbers, strings and views is
  streamed into a block in order, the byte-level code (digits written backwards and reversed in place,
  NULs written behind numbers, positions advanced) fails exactly when, and the way, the specification
  that only appends the operands' texts fails: an operand that does not fit fails the assertion when it is a
  character, and is written behind the end of the block when it is anything else (\<open>append\<close> does not
  check). A run that succeeds leaves the block well formed, with the specification's text in it, and
  operands that fit together with a terminating NUL are always accepted.
\<close>

theorem log_stream_refines_text:
  assumes "block_ok s"
  shows "map_sum id sstream_text (fold_res (shift_left fmt_f) xs s) = fold_res (text_put fmt_f) xs (sstream_text s)
    \<and> (\<forall>s'. fold_res (shift_left fmt_f) xs s = Ok s' \<longrightarrow>
         block_ok s' \<and> sstream_text s' = sstream_text s @ concat (map (put_text fmt_f) xs) \<and> getSlice s' = sstream_text s')
    \<and> (length (sstream_text s) + length (concat (map (put_text fmt_f) xs)) < LogBufferMaxLen
         \<longrightarrow> is_ok (fold_res (shift_left fmt_f) xs s))"
proof (intro conjI allI impI)
  show "map_sum id sstream_text (fold_res (shift_left fmt_f) xs s) = fold_res (text_put fmt_f) xs (sstream_text s)"
    by (rule shift_all_refines [OF assms])
  show "is_ok (fold_res (shift_left fmt_f) xs s)"
    if "length (sstream_text s) + length (concat (map (put_text fmt_f) xs)) < LogBufferMaxLen"
    using block.put_all_fits [OF assms that] by auto
qed (use block.put_all_Ok [OF assms, of fmt_f xs] in \<open>auto simp: getSlice_def sstream_text_def\<close>)

theorem log_stream_refines_text_witness:
  "\<exists>s s'. LogSStreamBuf_new (\<lambda>_. True) = Ok s
     \<and> fold_res (shift_left (\<lambda>_ :: unit. ''7.800000'')) [PutInt 1, PutInt (- 2), PutChar (CHR ''3''), PutCStr ''456'', PutDouble ()] s = Ok s'
     \<and> sstream_text s' = ''1-234567.800000''"
proof -
  obtain s where s: "LogSStreamBuf_new (\<lambda>_. True) = Ok s" "block_ok s" "sstream_text s = []"
    using new_block [of "\<lambda>_. True"] by auto
  let ?f = "\<lambda>_ :: unit. ''7.800000''" and ?xs = "[PutInt 1, PutInt (- 2), PutChar (CHR ''3''), PutCStr ''456'', PutDouble ()]"
  have "dec_str 1 = ''1''" "dec_str 2 = ''2''" by (subst dec_str.simps, simp add: digit_char_def)+
  then have t: "concat (map (put_text ?f) ?xs) = ''1-234567.800000''" by (simp add: decimal_def)
  have "is_ok (fold_res (shift_left ?f) ?xs s)"
    using log_stream_refines_text [OF s(2), of ?f ?xs] unfolding t s(3) by (simp add: LogBufferMaxLen_def)
  then obtain s' where r: "fold_res (shift_left ?f) ?xs s = Ok s'" by (cases "fold_res (shift_left ?f) ?xs s") auto
  then have "sstream_text s' = ''1-234567.800000''" using log_stream_refines_text [OF s(2), of ?f ?xs] unfolding t s(3) by simp
  with r s(1) show ?thesis by blast
qed

text \<open>
  Hexadecimal conversion in place: the bytes at the position become the ordinary hexadecimal text of
  the 64-bit number and a NUL, everything else stays, and the returned length is that of the text.
\<close>

theorem convertHex_is_hex:
  assumes "block_ok s" and "sb_pos s + length (hex_str (unat v)) + 1 \<le> LogBufferMaxLen"
  shows "\<exists>b. convertHex (sb_pos s) v (sb_buf s) = Ok (length (hex_str (unat v)), b)
    \<and> take (sb_pos s + length (hex_str (unat v))) b = sstream_text s @ hex_str (unat v) \<and> length b = LogBufferMaxLen
    \<and> drop (sb_pos s + length (hex_str (unat v)) + 1) b = drop (sb_pos s + length (hex_str (unat v)) + 1) (sb_buf s)"
  using assms by (auto simp: convertHex_eq [OF assms(1)] sstream_text_def block_ok_def)

text \<open>
  All streams of a thread are one. While a stream with the text \<open>t\<close> is alive, a second stream of the
  same thread starts behind \<open>t\<close> instead of empty, and its end empties the first one as well.
\<close>

theorem streams_of_a_thread_share_the_block:
  assumes "block_ok s" and "fold_res (shift_left fmt_f) xs s = Ok s1"
  shows "sstream_text s1 = sstream_text s @ concat (map (put_text fmt_f) xs)" and "sstream_text (LogSStream_destroy s1) = []"
  using block.put_all_Ok [OF assms] by (simp_all add: LogSStream_destroy_def buf_free_def sstream_text_def)

end
