(* ===== verification/Configs.thy ===== *)
theory Configs
  imports Text_Util
begin

text \<open>
  include/config.h: reading typed values from a JSON or YAML document under a dotted key, with
  defaults that are remembered. The JSON and YAML libraries are parameters: what the code calls of
  them is the record \<open>json_api\<close> resp. \<open>yaml_api\<close>. A template argument \<open>T\<close> is a type tag \<open>'t\<close>
  and its values are of the common type \<open>'v\<close>; a \<open>std::any\<close> is a tag with a value.
\<close>

section \<open>The libraries\<close>

text \<open>
  What a conversion to \<open>T\<close> ends in: a value, the library's conversion error
  (\<open>nlohmann::detail::type_error\<close>, \<open>YAML::BadConversion\<close>), or another exception.
\<close>

datatype 'v conv = Got 'v | TypeError | OtherError

text \<open>\<open>find\<close> is the end iterator for a missing key and for a document that is no object.\<close>

record ('j, 't, 'v) json_api =
  jfind :: "'j \<Rightarrow> string \<Rightarrow> 'j option"
  jget :: "'t \<Rightarrow> 'j \<Rightarrow> 'v conv"

text \<open>
  Subscripting a constant node gives a node, or an invalid node whose next use throws
  \<open>InvalidNode\<close>, or throws \<open>BadSubscript\<close> (on a scalar).
\<close>

datatype 'y subscript = YNode 'y | YInvalid | YBadSubscript

record ('y, 't, 'v) yaml_api =
  ysub :: "'y \<Rightarrow> string \<Rightarrow> 'y subscript"
  yIsNull :: "'y \<Rightarrow> bool"
  yas :: "'t \<Rightarrow> 'y \<Rightarrow> 'v conv"

section \<open>Configurations\<close>

type_synonym ('t, 'v) any = "'t \<times> 'v"

definition any_cast :: "'t \<Rightarrow> ('t, 'v) any \<Rightarrow> 'v res" where
  "any_cast t a = (if fst a = t then Ok (snd a) else Err BadAnyCast)"

record ('d, 't, 'v) config =
  doc :: 'd \<comment> \<open>\<open>json_object_\<close> or \<open>node_\<close>\<close>
  miss_map :: "string \<Rightarrow> ('t, 'v) any option"

text \<open>A configuration over a parsed document.\<close>

definition config_new :: "'d \<Rightarrow> ('d, 't, 'v) config" where
  "config_new d = \<lparr>doc = d, miss_map = Map.empty\<rparr>"

text \<open>
  The constructors read a file; \<open>parse\<close> is \<open>None\<close> when the library throws. The program's main
  configuration falls back to a default constructed one, whose document is \<open>null\<close>.
\<close>

definition JsonConfig_new :: "(string \<Rightarrow> 'j option) \<Rightarrow> string \<Rightarrow> ('j, 't, 'v) config res" where
  "JsonConfig_new parse filename = (case parse filename of None \<Rightarrow> Err LibraryError | Some j \<Rightarrow> Ok (config_new j))"

definition YamlConfig_new :: "(string \<Rightarrow> 'y option) \<Rightarrow> string \<Rightarrow> ('y, 't, 'v) config res" where
  "YamlConfig_new LoadFile filename = (case LoadFile filename of None \<Rightarrow> Err LibraryError | Some y \<Rightarrow> Ok (config_new y))"

text \<open>The private constructors over a text, and the two structures of src/config.cpp that call them.\<close>

definition JsonConfig_text :: "(string \<Rightarrow> 'j option) \<Rightarrow> string \<Rightarrow> ('j, 't, 'v) config res" where
  "JsonConfig_text parse str = (case parse str of None \<Rightarrow> Err LibraryError | Some j \<Rightarrow> Ok (config_new j))"

definition YamlConfig_text :: "(string \<Rightarrow> 'y option) \<Rightarrow> string \<Rightarrow> ('y, 't, 'v) config res" where
  "YamlConfig_text Load str = (case Load str of None \<Rightarrow> Err LibraryError | Some y \<Rightarrow> Ok (config_new y))"

definition JsonConfigLoader_new :: "(string \<Rightarrow> 'j option) \<Rightarrow> string \<Rightarrow> ('j, 't, 'v) config res" where
  "JsonConfigLoader_new parse str = JsonConfig_text parse str"

definition YamlConfigLoader_new :: "(string \<Rightarrow> 'y option) \<Rightarrow> string \<Rightarrow> ('y, 't, 'v) config res" where
  "YamlConfigLoader_new Load str = YamlConfig_text Load str"

definition BaseMainConfig_getInstance :: "(string \<Rightarrow> 'j option) \<Rightarrow> 'j \<Rightarrow> ('j, 't, 'v) config" where
  "BaseMainConfig_getInstance parse null =
     (case JsonConfig_new parse ''conf/main.json'' of Inr c \<Rightarrow> c | Inl _ \<Rightarrow> config_new null)"

text \<open>\<open>JsonConfig::get\<close>: the loop follows the document, then the value is converted.\<close>

fun json_walk :: "('j, 't, 'v) json_api \<Rightarrow> string \<Rightarrow> piece list \<Rightarrow> 'j \<Rightarrow> 'j res" where
  "json_walk api key [] j = Ok j"
| "json_walk api key (p # ps) j =
     res_bind (piece_str key p) (\<lambda>k.
       case jfind api j k of Some j' \<Rightarrow> json_walk api key ps j' | None \<Rightarrow> Err KeyNotFound)"

definition converted :: "'v conv \<Rightarrow> 'v res" where
  "converted r = (case r of Got v \<Rightarrow> Ok v | TypeError \<Rightarrow> Err ConvertFailed | OtherError \<Rightarrow> Err LibraryError)"

definition JsonConfig_get :: "('j, 't, 'v) json_api \<Rightarrow> 't \<Rightarrow> string \<Rightarrow> ('j, 't, 'v) config \<Rightarrow> 'v res" where
  "JsonConfig_get api t key c =
     (case miss_map c key of
        Some a \<Rightarrow> any_cast t a
      | None \<Rightarrow> res_bind (json_walk api key (splitStringPiece key ''.'') (doc c)) (\<lambda>j. converted (jget api t j)))"

definition JsonConfig_getIfExists ::
    "('j, 't, 'v) json_api \<Rightarrow> 't \<Rightarrow> string \<Rightarrow> 'v \<Rightarrow> ('j, 't, 'v) config \<Rightarrow> ('v \<times> ('j, 't, 'v) config) res" where
  "JsonConfig_getIfExists api t key default_value c =
     (case JsonConfig_get api t key c of
        Inr v \<Rightarrow> Ok (v, c)
      | Inl KeyNotFound \<Rightarrow>
          let c' = c\<lparr>miss_map := (miss_map c)(key \<mapsto> (t, default_value))\<rparr>
          in res_bind (any_cast t (the (miss_map c' key))) (\<lambda>v. Ok (v, c'))
      | Inl e \<Rightarrow> Err e)"

text \<open>
  \<open>YamlConfig::get\<close>: the chain of subscripts of one case of the switch, and the switch. An invalid
  node throws at its next subscript or when it is assigned, both inside the \<open>try\<close>; a
  \<open>BadSubscript\<close> is not caught. The default case leaves the new node, which is null.
\<close>

fun yaml_chain :: "('y, 't, 'v) yaml_api \<Rightarrow> string \<Rightarrow> piece list \<Rightarrow> 'y \<Rightarrow> 'y res" where
  "yaml_chain api key [] y = Ok y"
| "yaml_chain api key (p # ps) y =
     res_bind (piece_str key p) (\<lambda>k.
       case ysub api y k of YNode y' \<Rightarrow> yaml_chain api key ps y' | YInvalid \<Rightarrow> Err KeyNotFound | YBadSubscript \<Rightarrow> Err LibraryError)"

definition yaml_node :: "('y, 't, 'v) yaml_api \<Rightarrow> string \<Rightarrow> 'y \<Rightarrow> 'y option res" where
  "yaml_node api key root =
     (let keys = splitStringPiece key ''.''
      in if length keys = 0 then Err KeyNotFound
         else if length keys = 1
           then (case ysub api root key of YNode y \<Rightarrow> Ok (Some y) | YInvalid \<Rightarrow> Err KeyNotFound | YBadSubscript \<Rightarrow> Err LibraryError)
         else if length keys \<le> 5 then res_bind (yaml_chain api key keys root) (\<lambda>y. Ok (Some y))
         else Ok None)"

definition YamlConfig_get :: "('y, 't, 'v) yaml_api \<Rightarrow> 't \<Rightarrow> string \<Rightarrow> ('y, 't, 'v) config \<Rightarrow> 'v res" where
  "YamlConfig_get api t key c =
     (case miss_map c key of
        Some a \<Rightarrow> any_cast t a
      | None \<Rightarrow> res_bind (yaml_node api key (doc c)) (\<lambda>node.
          case node of
            None \<Rightarrow> Err KeyNotFound
          | Some y \<Rightarrow> if yIsNull api y then Err KeyNotFound else converted (yas api t y)))"

definition YamlConfig_getIfExists ::
    "('y, 't, 'v) yaml_api \<Rightarrow> 't \<Rightarrow> string \<Rightarrow> 'v \<Rightarrow> ('y, 't, 'v) config \<Rightarrow> ('v \<times> ('y, 't, 'v) config) res" where
  "YamlConfig_getIfExists api t key default_value c =
     (case YamlConfig_get api t key c of
        Inr v \<Rightarrow> Ok (v, c)
      | Inl KeyNotFound \<Rightarrow>
          let c' = c\<lparr>miss_map := (miss_map c)(key \<mapsto> (t, default_value))\<rparr>
          in res_bind (any_cast t (the (miss_map c' key))) (\<lambda>v. Ok (v, c'))
      | Inl e \<Rightarrow> Err e)"

section \<open>Containers from YAML\<close>

text \<open>
  include/config/yaml\_convert\_def.h: \<open>as\<close> is the conversion of one element, \<open>items\<close> are
  \<open>node[0]\<close>, \<dots>, \<open>node[size() - 1]\<close> resp. the entries the iteration visits. A scalar has
  none of either. A failing element conversion throws out of the decoder.
\<close>

fun decode_set :: "('y \<Rightarrow> 'a conv) \<Rightarrow> 'y list \<Rightarrow> 'a set \<Rightarrow> 'a set conv" where
  "decode_set as [] rhs = Got rhs"
| "decode_set as (y # ys) rhs =
     (case as y of Got a \<Rightarrow> decode_set as ys (insert a rhs) | TypeError \<Rightarrow> TypeError | OtherError \<Rightarrow> OtherError)"

text \<open>\<open>rhs[it->first.as<K>()] = it->second.as<V>()\<close>: C++17 evaluates the right-hand side first.\<close>

fun decode_unordered_map ::
    "('y \<Rightarrow> 'k conv) \<Rightarrow> ('y \<Rightarrow> 'a conv) \<Rightarrow> ('y \<times> 'y) list \<Rightarrow> ('k \<Rightarrow> 'a option) \<Rightarrow> ('k \<Rightarrow> 'a option) conv" where
  "decode_unordered_map ask asv [] rhs = Got rhs"
| "decode_unordered_map ask asv ((yk, yv) # ys) rhs =
     (case asv yv of
        Got v \<Rightarrow> (case ask yk of Got k \<Rightarrow> decode_unordered_map ask asv ys (rhs(k \<mapsto> v)) | TypeError \<Rightarrow> TypeError | OtherError \<Rightarrow> OtherError)
      | TypeError \<Rightarrow> TypeError
      | OtherError \<Rightarrow> OtherError)"

fun decode_unordered_set :: "('y \<Rightarrow> 'a conv) \<Rightarrow> 'y list \<Rightarrow> 'a set \<Rightarrow> 'a set conv" where
  "decode_unordered_set as [] rhs = Got rhs"
| "decode_unordered_set as (y # ys) rhs =
     (case as y of Got a \<Rightarrow> decode_unordered_set as ys (insert a rhs) | TypeError \<Rightarrow> TypeError | OtherError \<Rightarrow> OtherError)"

text \<open>The encoders make a node and return it as it is; \<open>null\<close> is a new node.\<close>

definition encode_set :: "'y \<Rightarrow> 'a set \<Rightarrow> 'y" where
  "encode_set null rhs = null"

definition encode_unordered_set :: "'y \<Rightarrow> 'a set \<Rightarrow> 'y" where
  "encode_unordered_set null rhs = null"

definition encode_unordered_map :: "'y \<Rightarrow> ('k \<Rightarrow> 'a option) \<Rightarrow> 'y" where
  "encode_unordered_map null rhs = null"

text \<open>
  Every element ends up in the container; of entries with equal keys the last one stays. In
  particular a scalar decodes to the empty container without an error.
\<close>

lemma decode_set_elements: "map as ys = map Got vs \<Longrightarrow> decode_set as ys rhs = Got (rhs \<union> set vs)"
  by (induction ys arbitrary: vs rhs) auto

lemma decode_unordered_map_entries:
  "map (\<lambda>(k, v). (ask k, asv v)) ys = map (\<lambda>(k, v). (Got k, Got v)) kvs \<Longrightarrow>
     decode_unordered_map ask asv ys rhs = Got (rhs ++ map_of (rev kvs))"
  by (induction ys arbitrary: kvs rhs) auto

lemma decode_unordered_set_elements: "map as ys = map Got vs \<Longrightarrow> decode_unordered_set as ys rhs = Got (rhs \<union> set vs)"
  by (induction ys arbitrary: vs rhs) auto

text \<open>So encoding a container and decoding the node gives the empty container, whatever it held (a new node has no elements).\<close>

theorem encode_loses_elements:
  assumes "items null = []" and "entries null = []"
  shows "decode_set as (items (encode_set null X)) {} = Got {}"
    and "decode_unordered_set as (items (encode_unordered_set null X)) {} = Got {}"
    and "decode_unordered_map ask asv (entries (encode_unordered_map null M)) Map.empty = Got Map.empty"
  using assms by (simp_all add: encode_set_def encode_unordered_set_def encode_unordered_map_def)

section \<open>What a configuration promises\<close>

text \<open>
  A sequence of \<open>getIfExists\<close> calls and what they answer; a call that throws leaves the
  configuration as it is.
\<close>

type_synonym ('t, 'v) request = "'t \<times> string \<times> 'v"

fun answers :: "('t \<Rightarrow> string \<Rightarrow> 'v \<Rightarrow> 'c \<Rightarrow> ('v \<times> 'c) res) \<Rightarrow> ('t, 'v) request list \<Rightarrow> 'c \<Rightarrow> 'v res list" where
  "answers getIfExists [] c = []"
| "answers getIfExists ((t, key, d) # rs) c =
     (case getIfExists t key d c of
        Inr (v, c') \<Rightarrow> Ok v # answers getIfExists rs c'
      | Inl e \<Rightarrow> Err e # answers getIfExists rs c)"

text \<open>
  The specification needs no state: the answer of the document stands, and for a key the document
  does not have, the first request for the key decides type and value.
\<close>

definition first_request :: "('t, 'v) request list \<Rightarrow> string \<Rightarrow> ('t, 'v) any option" where
  "first_request rs = map_of (map (\<lambda>(t, key, d). (key, (t, d))) rs)"

definition answer_spec :: "('t \<Rightarrow> string \<Rightarrow> 'v res) \<Rightarrow> ('t, 'v) request list \<Rightarrow> ('t, 'v) request \<Rightarrow> 'v res" where
  "answer_spec lookup earlier r =
     (case r of (t, key, d) \<Rightarrow>
        if lookup t key = Err KeyNotFound
        then (case first_request earlier key of None \<Rightarrow> Ok d | Some a \<Rightarrow> any_cast t a)
        else lookup t key)"

locale config_reader =
  fixes get :: "'t \<Rightarrow> string \<Rightarrow> ('d, 't, 'v) config \<Rightarrow> 'v res"
    and getIfExists :: "'t \<Rightarrow> string \<Rightarrow> 'v \<Rightarrow> ('d, 't, 'v) config \<Rightarrow> ('v \<times> ('d, 't, 'v) config) res"
  assumes get_remembered: "miss_map c key = Some a \<Longrightarrow> get t key c = any_cast t a"
    and get_document: "miss_map c key = None \<Longrightarrow> get t key c = get t key (config_new (doc c))"
    and missing_for_all: "get t key (config_new D) = Err KeyNotFound \<Longrightarrow> get t' key (config_new D) = Err KeyNotFound"
    and exists: "get t key c = Ok v \<Longrightarrow> getIfExists t key d c = Ok (v, c)"
    and missing: "get t key c = Err KeyNotFound \<Longrightarrow>
      getIfExists t key d c = Ok (d, c\<lparr>miss_map := (miss_map c)(key \<mapsto> (t, d))\<rparr>)"
    and fails: "get t key c = Err e \<Longrightarrow> e \<noteq> KeyNotFound \<Longrightarrow> getIfExists t key d c = Err e"
begin

definition lookup :: "'d \<Rightarrow> 't \<Rightarrow> string \<Rightarrow> 'v res" where
  "lookup D t key = get t key (config_new D)"

text \<open>The remembered defaults are those of the first requests for keys the document does not have.\<close>

definition remembers :: "('t, 'v) request list \<Rightarrow> ('d, 't, 'v) config \<Rightarrow> bool" where
  "remembers rs c \<longleftrightarrow>
     (\<forall>key. (\<forall>t. lookup (doc c) t key = Err KeyNotFound) \<and> miss_map c key = first_request rs key
          \<or> (\<forall>t. lookup (doc c) t key \<noteq> Err KeyNotFound) \<and> miss_map c key = None)"

lemma missing_dichotomy:
  "(\<forall>t. lookup D t key = Err KeyNotFound) \<or> (\<forall>t. lookup D t key \<noteq> Err KeyNotFound)"
  using missing_for_all by (auto simp: lookup_def)

lemma remembers_new: "remembers [] (config_new D)"
  using missing_dichotomy [of D] by (auto simp: remembers_def first_request_def config_new_def)

lemma first_request_snoc:
  "first_request (rs @ [(t, key, d)]) k =
     (case first_request rs k of None \<Rightarrow> if k = key then Some (t, d) else None | Some a \<Rightarrow> Some a)"
  by (simp add: first_request_def map_add_def split: option.split)

lemma remembers_at: "remembers rs c \<Longrightarrow>
   (\<forall>t. lookup (doc c) t k = Err KeyNotFound) \<and> miss_map c k = first_request rs k
   \<or> (\<forall>t. lookup (doc c) t k \<noteq> Err KeyNotFound) \<and> miss_map c k = None"
  by (simp add: remembers_def)

lemma remembers_known:
  assumes "remembers rs c" and "lookup (doc c) t key \<noteq> Err KeyNotFound \<or> first_request rs key \<noteq> None"
  shows "remembers (rs @ [(t, key, d)]) c"
  unfolding remembers_def
proof
  fix k
  show "(\<forall>t. lookup (doc c) t k = Err KeyNotFound) \<and> miss_map c k = first_request (rs @ [(t, key, d)]) k
      \<or> (\<forall>t. lookup (doc c) t k \<noteq> Err KeyNotFound) \<and> miss_map c k = None"
    using remembers_at [OF assms(1), of k] assms(2)
    by (cases "k = key") (auto simp: first_request_snoc split: option.splits)
qed

lemma remembers_missing:
  assumes "remembers rs c" and "lookup (doc c) t key = Err KeyNotFound" and "first_request rs key = None"
  shows "remembers (rs @ [(t, key, d)]) (c\<lparr>miss_map := (miss_map c)(key \<mapsto> (t, d))\<rparr>)" (is "remembers _ ?c")
  unfolding remembers_def
proof
  fix k
  show "(\<forall>t. lookup (doc ?c) t k = Err KeyNotFound) \<and> miss_map ?c k = first_request (rs @ [(t, key, d)]) k
      \<or> (\<forall>t. lookup (doc ?c) t k \<noteq> Err KeyNotFound) \<and> miss_map ?c k = None"
    using remembers_at [OF assms(1), of k] assms(2,3)
    by (cases "k = key") (auto simp: first_request_snoc split: option.split)
qed

text \<open>A call that does not have to remember its default answers what \<open>get\<close> answers and changes nothing.\<close>

lemma request_known:
  assumes "remembers rs c" and "lookup (doc c) t key \<noteq> Err KeyNotFound \<or> first_request rs key \<noteq> None"
  shows "get t key c = answer_spec (lookup (doc c)) rs (t, key, d) \<and> get t key c \<noteq> Err KeyNotFound"
proof (cases "lookup (doc c) t key = Err KeyNotFound")
  case False
  then have "miss_map c key = None" using remembers_at [OF assms(1), of key] by auto
  then show ?thesis using False by (simp add: lookup_def get_document answer_spec_def)
next
  case True
  then obtain a where "first_request rs key = Some a" and "miss_map c key = Some a"
    using remembers_at [OF assms(1), of key] assms(2) by auto
  then show ?thesis using True by (simp add: get_remembered answer_spec_def any_cast_def)
qed

lemma request_step:
  assumes "remembers rs c"
  shows "\<exists>c'. remembers (rs @ [(t, key, d)]) c' \<and> doc c' = doc c
    \<and> (case getIfExists t key d c of Inr (v, c'') \<Rightarrow> c'' = c' \<and> answer_spec (lookup (doc c)) rs (t, key, d) = Ok v
       | Inl e \<Rightarrow> c' = c \<and> answer_spec (lookup (doc c)) rs (t, key, d) = Err e)"
proof (cases "lookup (doc c) t key \<noteq> Err KeyNotFound \<or> first_request rs key \<noteq> None")
  case True
  note g = request_known [OF assms True, of d]
  show ?thesis
  proof (cases "get t key c")
    case (Inl e)
    then show ?thesis using g fails [OF Inl, of d] remembers_known [OF assms True] by (intro exI [of _ c]) auto
  next
    case (Inr v)
    then show ?thesis using g exists [OF Inr, of d] remembers_known [OF assms True] by (intro exI [of _ c]) auto
  qed
next
  case False
  then have k: "lookup (doc c) t key = Err KeyNotFound" and f: "first_request rs key = None" by (simp_all only: de_Morgan_disj not_not)
  then have "miss_map c key = None" using remembers_at [OF assms, of key] by metis
  then have "getIfExists t key d c = Ok (d, c\<lparr>miss_map := (miss_map c)(key \<mapsto> (t, d))\<rparr>)"
    using k get_document [of c key t] by (intro missing) (simp add: lookup_def)
  then show ?thesis using k f remembers_missing [OF assms k f, of d]
    by (intro exI [of _ "c\<lparr>miss_map := (miss_map c)(key \<mapsto> (t, d))\<rparr>"]) (simp add: answer_spec_def)
qed

lemma answers_from:
  "remembers rs c \<Longrightarrow>
     answers getIfExists qs c = map (\<lambda>i. answer_spec (lookup (doc c)) (rs @ take i qs) (qs ! i)) [0..<length qs]"
proof (induction qs arbitrary: rs c)
  case (Cons q qs)
  obtain t key d where q: "q = (t, key, d)" by (cases q)
  obtain c' where c': "remembers (rs @ [q]) c'" "doc c' = doc c"
    and s: "case getIfExists t key d c of Inr (v, c'') \<Rightarrow> c'' = c' \<and> answer_spec (lookup (doc c)) rs q = Ok v
       | Inl e \<Rightarrow> c' = c \<and> answer_spec (lookup (doc c)) rs q = Err e"
    using request_step [OF Cons.prems, of t key d] unfolding q by blast
  have "answers getIfExists (q # qs) c = answer_spec (lookup (doc c)) rs q # answers getIfExists qs c'"
    using s unfolding q by (auto split: sum.splits)
  also have "\<dots> = map (\<lambda>i. answer_spec (lookup (doc c)) (rs @ take i (q # qs)) ((q # qs) ! i)) [0..<length (q # qs)]"
    using Cons.IH [OF c'(1)] c'(2) by (simp add: upt_conv_Cons map_Suc_upt [symmetric] del: upt_Suc)
  finally show ?case .
qed simp

lemma answers_specified:
  "answers getIfExists qs (config_new D) = map (\<lambda>i. answer_spec (lookup D) (take i qs) (qs ! i)) [0..<length qs]"
  using answers_from [OF remembers_new, of qs D] by (simp add: config_new_def)

end

lemma converted_not_missing [simp]: "converted r \<noteq> Err KeyNotFound"
  by (simp add: converted_def split: conv.splits)

lemma json_missing: "res_bind m (\<lambda>j. converted (f j)) = Err KeyNotFound \<longleftrightarrow> m = Err KeyNotFound"
  by (cases m) simp_all

interpretation json: config_reader "JsonConfig_get api" "JsonConfig_getIfExists api" for api
proof
  fix t t' key D
  assume "JsonConfig_get api t key (config_new D) = Err KeyNotFound"
  then show "JsonConfig_get api t' key (config_new D) = Err KeyNotFound"
    by (simp add: JsonConfig_get_def config_new_def json_missing)
qed (auto simp: JsonConfig_get_def JsonConfig_getIfExists_def any_cast_def config_new_def split: lon_error.split)

lemma yaml_missing:
  "(if n then Err KeyNotFound else converted r) = Err KeyNotFound \<longleftrightarrow> n"
  by simp

interpretation yaml: config_reader "YamlConfig_get api" "YamlConfig_getIfExists api" for api
proof
  fix t t' key D
  assume "YamlConfig_get api t key (config_new D) = Err KeyNotFound"
  then show "YamlConfig_get api t' key (config_new D) = Err KeyNotFound"
    by (cases "yaml_node api key D") (auto simp: YamlConfig_get_def config_new_def yaml_missing split: option.splits if_splits)
qed (auto simp: YamlConfig_get_def YamlConfig_getIfExists_def any_cast_def config_new_def split: lon_error.split)

section \<open>Paths\<close>

text \<open>What a dotted key means: the successive members of the document.\<close>

fun path :: "('d \<Rightarrow> string \<Rightarrow> 'd option) \<Rightarrow> string list \<Rightarrow> 'd \<Rightarrow> 'd option" where
  "path sub [] d = Some d"
| "path sub (k # ks) d = (case sub d k of None \<Rightarrow> None | Some d' \<Rightarrow> path sub ks d')"

text \<open>The node a path stops at because it does not have the next member.\<close>

fun stops_at :: "('d \<Rightarrow> string \<Rightarrow> 'd option) \<Rightarrow> string list \<Rightarrow> 'd \<Rightarrow> 'd option" where
  "stops_at sub [] d = None"
| "stops_at sub (k # ks) d = (case sub d k of None \<Rightarrow> Some d | Some d' \<Rightarrow> stops_at sub ks d')"

lemma path_stops: "path sub ks d = None \<longleftrightarrow> stops_at sub ks d \<noteq> None"
  by (induction ks arbitrary: d) (auto split: option.splits)

text \<open>
  The two libraries on documents of the same shape. Members of an object are found by both under the same
  name. Nothing is found in an array or null, where a subscript of yaml-cpp is an invalid node, nor in a
  scalar, where it throws \<open>BadSubscript\<close>. What is null and what converts to which type is left open.
\<close>

definition same_shape :: "('d \<Rightarrow> bool) \<Rightarrow> ('d, 't, 'v) json_api \<Rightarrow> ('d, 't, 'v) yaml_api \<Rightarrow> bool" where
  "same_shape scalar japi yapi \<longleftrightarrow> (\<forall>d k.
     (scalar d \<longrightarrow> jfind japi d k = None)
     \<and> ysub yapi d k = (if scalar d then YBadSubscript else case jfind japi d k of Some d' \<Rightarrow> YNode d' | None \<Rightarrow> YInvalid))"

lemma same_shape_sub:
  "same_shape scalar japi yapi \<Longrightarrow> ysub yapi d k =
     (case jfind japi d k of Some d' \<Rightarrow> YNode d' | None \<Rightarrow> if scalar d then YBadSubscript else YInvalid)"
  by (auto simp: same_shape_def split: option.splits)

text \<open>What the YAML reader makes of a path.\<close>

definition yaml_reached :: "('d \<Rightarrow> bool) \<Rightarrow> ('d, 't, 'v) json_api \<Rightarrow> string list \<Rightarrow> 'd \<Rightarrow> 'd res" where
  "yaml_reached scalar japi ks d =
     (case stops_at (jfind japi) ks d of
        None \<Rightarrow> Ok (the (path (jfind japi) ks d))
      | Some d' \<Rightarrow> if scalar d' then Err LibraryError else Err KeyNotFound)"

lemma json_walk_path:
  "map (piece_str key) ps = map Ok ks \<Longrightarrow>
     json_walk api key ps j = (case path (jfind api) ks j of None \<Rightarrow> Err KeyNotFound | Some j \<Rightarrow> Ok j)"
  by (induction ps arbitrary: ks j) (auto split: option.splits)

lemma yaml_chain_path:
  "same_shape scalar japi yapi \<Longrightarrow> map (piece_str key) ps = map Ok ks \<Longrightarrow> yaml_chain yapi key ps y = yaml_reached scalar japi ks y"
proof (induction ps arbitrary: ks y)
  case (Cons p ps)
  then obtain k ks' where "ks = k # ks'" by (cases ks) auto
  then show ?case
    using Cons by (cases "jfind japi y k") (auto simp: same_shape_sub [OF Cons.prems(1)] yaml_reached_def split: option.splits)
qed (simp add: yaml_reached_def)

lemma split_pieces:
  assumes "length key < 2 ^ 64"
  shows "map (piece_str key) (splitStringPiece key [c]) = map Ok (split_ref c key)"
  using split_loop_char [OF assms, of c 0] by (simp add: splitStringPiece_def)

lemma length_pieces: "length key < 2 ^ 64 \<Longrightarrow> length (splitStringPiece key [c]) = length (split_ref c key)"
  using split_pieces [of key c] by (metis length_map)

lemma JsonConfig_get_path:
  "length key < 2 ^ 64 \<Longrightarrow> JsonConfig_get api t key (config_new J) =
     (case path (jfind api) (split_ref CHR ''.'' key) J of None \<Rightarrow> Err KeyNotFound | Some j \<Rightarrow> converted (jget api t j))"
  by (simp add: JsonConfig_get_def config_new_def json_walk_path [OF split_pieces] split: option.splits)

lemma split_ref_single: "key \<noteq> [] \<Longrightarrow> last key \<noteq> c \<Longrightarrow> length (split_ref c key) = 1 \<Longrightarrow> split_ref c key = [key]"
  using join_split_ref [of key c] by (auto simp: length_Suc_conv)

lemma yaml_node_path:
  assumes "length key < 2 ^ 64" and "key \<noteq> []" and "last key \<noteq> CHR ''.''" and "same_shape scalar japi yapi"
    and "length (split_ref CHR ''.'' key) \<le> 5"
  shows "yaml_node yapi key D = res_bind (yaml_reached scalar japi (split_ref CHR ''.'' key) D) (\<lambda>y. Ok (Some y))"
proof (cases "length (split_ref CHR ''.'' key) = 1")
  case True
  then have "split_ref CHR ''.'' key = [key]" using assms(2,3) by (intro split_ref_single)
  then show ?thesis using True length_pieces [OF assms(1), of "CHR ''.''"]
    by (cases "jfind japi D key") (auto simp: yaml_node_def yaml_reached_def same_shape_sub [OF assms(4)] Let_def)
next
  case False
  moreover have "split_ref CHR ''.'' key \<noteq> []" using assms(2) by (rule split_ref_nonempty)
  ultimately show ?thesis using assms(5) length_pieces [OF assms(1), of "CHR ''.''"]
      yaml_chain_path [OF assms(4) split_pieces [OF assms(1), of "CHR ''.''"], of D]
    by (auto simp: yaml_node_def Let_def)
qed

section \<open>Properties\<close>

text \<open>
  C36. Any sequence of \<open>getIfExists\<close> calls on a new configuration answers as the document says,
  and for a key the document does not have, as the first call for that key says: later calls with
  the same type get the first default, calls with another type end in \<open>std::bad_any_cast\<close>. This
  holds for the JSON and for the YAML reader alike.
\<close>

theorem config_answers_refine:
  "answers (JsonConfig_getIfExists japi) qs (config_new J)
     = map (\<lambda>i. answer_spec (\<lambda>t key. JsonConfig_get japi t key (config_new J)) (take i qs) (qs ! i)) [0..<length qs]
   \<and> answers (YamlConfig_getIfExists yapi) rs (config_new Y)
     = map (\<lambda>i. answer_spec (\<lambda>t key. YamlConfig_get yapi t key (config_new Y)) (take i rs) (rs ! i)) [0..<length rs]"
  using json.answers_specified [of japi qs J] yaml.answers_specified [of yapi rs Y]
  unfolding json.lookup_def yaml.lookup_def by simp

text \<open>
  C37. What a dotted key (not empty, not ending in a dot) means to the two readers, on documents of the same shape. The
  JSON reader follows it member by member and converts the value there; a missing member is \<open>KeyNotFound\<close>, wherever the
  path stops. The YAML reader does the same down to five members, with two differences: a null value counts as
  missing, and a path that runs into a scalar ends in the library's \<open>BadSubscript\<close>, which \<open>get\<close> does not
  catch, instead of \<open>KeyNotFound\<close>. A key with more than five members is never found in YAML, whatever the document has there.
\<close>

theorem config_readers_compared:
  assumes "length key < 2 ^ 64" and "key \<noteq> []" and "last key \<noteq> CHR ''.''" and "same_shape scalar japi yapi"
  shows "JsonConfig_get japi t key (config_new D) =
       (case path (jfind japi) (split_ref CHR ''.'' key) D of None \<Rightarrow> Err KeyNotFound | Some d \<Rightarrow> converted (jget japi t d))
     \<and> YamlConfig_get yapi t key (config_new D) =
       (if 5 < length (split_ref CHR ''.'' key) then Err KeyNotFound
        else case path (jfind japi) (split_ref CHR ''.'' key) D of
            Some d \<Rightarrow> if yIsNull yapi d then Err KeyNotFound else converted (yas yapi t d)
          | None \<Rightarrow> if scalar (the (stops_at (jfind japi) (split_ref CHR ''.'' key) D)) then Err LibraryError else Err KeyNotFound)"
proof (intro conjI JsonConfig_get_path [OF assms(1)])
  let ?ks = "split_ref CHR ''.'' key"
  show "YamlConfig_get yapi t key (config_new D) =
       (if 5 < length ?ks then Err KeyNotFound
        else case path (jfind japi) ?ks D of
            Some d \<Rightarrow> if yIsNull yapi d then Err KeyNotFound else converted (yas yapi t d)
          | None \<Rightarrow> if scalar (the (stops_at (jfind japi) ?ks D)) then Err LibraryError else Err KeyNotFound)"
  proof (cases "5 < length ?ks")
    case True
    then show ?thesis using length_pieces [OF assms(1), of "CHR ''.''"]
      by (auto simp: YamlConfig_get_def config_new_def yaml_node_def Let_def)
  next
    case False
    then have n: "yaml_node yapi key D = res_bind (yaml_reached scalar japi ?ks D) (\<lambda>y. Ok (Some y))"
      by (intro yaml_node_path [OF assms]) simp
    show ?thesis
      using False path_stops [of "jfind japi" ?ks D]
      by (cases "path (jfind japi) ?ks D") (auto simp: YamlConfig_get_def config_new_def n yaml_reached_def)
  qed
qed

text \<open>A document with a scalar, a null and six nested objects.\<close>

datatype demo_doc = Scalar nat | Null | Object "(string \<times> demo_doc) list"

fun demo_find :: "demo_doc \<Rightarrow> string \<Rightarrow> demo_doc option" where
  "demo_find (Object ms) k = map_of ms k"
| "demo_find d k = None"

fun demo_get :: "unit \<Rightarrow> demo_doc \<Rightarrow> nat conv" where
  "demo_get _ (Scalar n) = Got n"
| "demo_get _ d = TypeError"

definition demo_json :: "(demo_doc, unit, nat) json_api" where
  "demo_json = \<lparr>jfind = demo_find, jget = demo_get\<rparr>"

definition demo_yaml :: "(demo_doc, unit, nat) yaml_api" where
  "demo_yaml = \<lparr>ysub = \<lambda>d k. case d of Scalar n \<Rightarrow> YBadSubscript | _ \<Rightarrow> (case demo_find d k of Some d' \<Rightarrow> YNode d' | None \<Rightarrow> YInvalid),
     yIsNull = \<lambda>d. d = Null, yas = demo_get\<rparr>"

definition demo_doc :: demo_doc where
  "demo_doc = (let p = (\<lambda>d. Object [(''p'', d)])
     in Object [(''a'', Object [(''b'', Scalar 7)]), (''n'', Null), (''p'', p (p (p (p (p (Scalar 8))))))])"

lemma demo_shape: "same_shape (\<lambda>d. \<exists>n. d = Scalar n) demo_json demo_yaml"
  unfolding same_shape_def
proof (intro allI conjI)
  fix d k
  show "(\<exists>n. d = Scalar n) \<longrightarrow> jfind demo_json d k = None" by (auto simp: demo_json_def)
  show "ysub demo_yaml d k = (if \<exists>n. d = Scalar n then YBadSubscript
      else case jfind demo_json d k of Some d' \<Rightarrow> YNode d' | None \<Rightarrow> YInvalid)"
    by (cases d) (simp_all add: demo_json_def demo_yaml_def)
qed

theorem config_readers_compared_witness:
  "let j = (\<lambda>key. JsonConfig_get demo_json () key (config_new demo_doc)); y = (\<lambda>key. YamlConfig_get demo_yaml () key (config_new demo_doc))
   in j ''a.b'' = Ok 7 \<and> y ''a.b'' = Ok 7 \<and> j ''a.x'' = Err KeyNotFound \<and> y ''a.x'' = Err KeyNotFound
    \<and> j ''a.b.c'' = Err KeyNotFound \<and> y ''a.b.c'' = Err LibraryError \<and> j ''n'' = Err ConvertFailed \<and> y ''n'' = Err KeyNotFound
    \<and> j ''p.p.p.p.p.p'' = Ok 8 \<and> y ''p.p.p.p.p.p'' = Err KeyNotFound"
proof -
  note r = config_readers_compared [OF _ _ _ demo_shape, of _ "()" demo_doc]
  note s = demo_doc_def demo_json_def demo_yaml_def split_ref.simps converted_def
  have "JsonConfig_get demo_json () ''a.b'' (config_new demo_doc) = Ok 7 \<and> YamlConfig_get demo_yaml () ''a.b'' (config_new demo_doc) = Ok 7"
    using r [of "''a.b''"] by (simp add: s)
  moreover have "JsonConfig_get demo_json () ''a.x'' (config_new demo_doc) = Err KeyNotFound
      \<and> YamlConfig_get demo_yaml () ''a.x'' (config_new demo_doc) = Err KeyNotFound"
    using r [of "''a.x''"] by (simp add: s)
  moreover have "JsonConfig_get demo_json () ''a.b.c'' (config_new demo_doc) = Err KeyNotFound
      \<and> YamlConfig_get demo_yaml () ''a.b.c'' (config_new demo_doc) = Err LibraryError"
    using r [of "''a.b.c''"] by (simp add: s)
  moreover have "JsonConfig_get demo_json () ''n'' (config_new demo_doc) = Err ConvertFailed
      \<and> YamlConfig_get demo_yaml () ''n'' (config_new demo_doc) = Err KeyNotFound"
    using r [of "''n''"] by (simp add: s)
  moreover have "JsonConfig_get demo_json () ''p.p.p.p.p.p'' (config_new demo_doc) = Ok 8
      \<and> YamlConfig_get demo_yaml () ''p.p.p.p.p.p'' (config_new demo_doc) = Err KeyNotFound"
    using r [of "''p.p.p.p.p.p''"] by (simp add: s)
  ultimately show ?thesis by (simp add: Let_def)
qed

end
