(* ===== verification/Log_Manager.thy ===== *)
theory Log_Manager
  imports Logger_Core Configs
begin

text \<open>
  include/logging/logger\_data\_convert.h and \<open>_LogManager\<close> of include/logger.h and src/logger.cpp: the
  loggers described by the configuration. The manager keeps shared pointers; the model keeps the
  logger objects in a list and the pointers are positions in it, so that two names of one logger
  stay two names of one logger.
\<close>

section \<open>Configuration data\<close>

record LogFlusherConfigData =
  fc_type :: string
  fc_name_pattern :: string

text \<open>\<open>lc_level\<close> is \<open>None\<close> as long as nothing was assigned to the member.\<close>

record LogConfigData =
  lc_name :: string
  lc_level :: "Level option"
  lc_formatter :: string
  lc_flushers :: "LogFlusherConfigData list"

definition flusher_data :: LogFlusherConfigData where
  "flusher_data = \<lparr>fc_type = [], fc_name_pattern = []\<rparr>"

definition config_data :: LogConfigData where
  "config_data = \<lparr>lc_name = [], lc_level = None, lc_formatter = [], lc_flushers = []\<rparr>"

definition conv_bind :: "'a conv \<Rightarrow> ('a \<Rightarrow> 'b conv) \<Rightarrow> 'b conv" where
  "conv_bind m f = (case m of Got x \<Rightarrow> f x | TypeError \<Rightarrow> TypeError | OtherError \<Rightarrow> OtherError)"

lemma conv_bind_simps [simp]:
  "conv_bind (Got x) f = f x" "conv_bind TypeError f = TypeError" "conv_bind OtherError f = OtherError"
  by (simp_all add: conv_bind_def)

fun conv_map :: "('a \<Rightarrow> 'b conv) \<Rightarrow> 'a list \<Rightarrow> 'b list conv" where
  "conv_map f [] = Got []"
| "conv_map f (x # xs) = conv_bind (f x) (\<lambda>y. conv_bind (conv_map f xs) (\<lambda>ys. Got (y # ys)))"

lemma conv_map_Got: "map f xs = map Got ys \<Longrightarrow> conv_map f xs = Got ys"
  by (induction xs arbitrary: ys) auto

subsection \<open>From JSON\<close>

text \<open>
  What the conversions call of the library: \<open>find\<close>, \<open>get<String>\<close> and the elements of an array
  (\<open>get<std::vector<T>>\<close> converts them in order, each into a new object).
\<close>

record 'j json_lib =
  jl_find :: "'j \<Rightarrow> string \<Rightarrow> 'j option"
  jl_string :: "'j \<Rightarrow> string conv"
  jl_array :: "'j \<Rightarrow> 'j list conv"

definition from_json_flusher :: "'j json_lib \<Rightarrow> 'j \<Rightarrow> LogFlusherConfigData \<Rightarrow> LogFlusherConfigData conv" where
  "from_json_flusher lib j rhs =
     (case jl_find lib j ''type'' of
        None \<Rightarrow> Got rhs
      | Some jt \<Rightarrow> conv_bind (jl_string lib jt) (\<lambda>s.
          let rhs = rhs\<lparr>fc_type := s\<rparr>
          in case jl_find lib j ''pattern'' of
               None \<Rightarrow> Got (rhs\<lparr>fc_name_pattern := ''%H-%p.log''\<rparr>)
             | Some jp \<Rightarrow> conv_bind (jl_string lib jp) (\<lambda>s. Got (rhs\<lparr>fc_name_pattern := s\<rparr>))))"

definition from_json_log :: "'j json_lib \<Rightarrow> 'j \<Rightarrow> LogConfigData \<Rightarrow> LogConfigData conv" where
  "from_json_log lib j rhs =
     (case jl_find lib j ''name'' of
        None \<Rightarrow> Got rhs
      | Some jn \<Rightarrow> conv_bind (jl_string lib jn) (\<lambda>s. let rhs = rhs\<lparr>lc_name := s\<rparr> in
        conv_bind
          (case jl_find lib j ''level'' of
             Some jv \<Rightarrow> conv_bind (jl_string lib jv) (\<lambda>s. Got (rhs\<lparr>lc_level := Some (levelFromString s)\<rparr>))
           | None \<Rightarrow> Got (rhs\<lparr>lc_level := Some DEBUG\<rparr>)) (\<lambda>rhs.
        conv_bind
          (case jl_find lib j ''formatter'' of
             Some jf \<Rightarrow> conv_bind (jl_string lib jf) (\<lambda>s. Got (rhs\<lparr>lc_formatter := s\<rparr>))
           | None \<Rightarrow> Got rhs) (\<lambda>rhs.
        case jl_find lib j ''flusher'' of
          Some ja \<Rightarrow> conv_bind (jl_array lib ja) (\<lambda>js.
            conv_bind (conv_map (\<lambda>j. from_json_flusher lib j flusher_data) js) (\<lambda>fs. Got (rhs\<lparr>lc_flushers := fs\<rparr>)))
        | None \<Rightarrow> Got rhs))))"

text \<open>\<open>get<std::vector<LogConfigData>>\<close>.\<close>

definition json_logs :: "'j json_lib \<Rightarrow> 'j \<Rightarrow> LogConfigData list conv" where
  "json_logs lib j = conv_bind (jl_array lib j) (conv_map (\<lambda>j. from_json_log lib j config_data))"

subsection \<open>From YAML\<close>

text \<open>
  \<open>yl_sub\<close> is \<open>node[key]\<close>, \<open>None\<close> when the result is not defined; on a scalar the subscript throws.
  A decoder that returns false makes \<open>as\<close> throw \<open>BadConversion\<close>.
\<close>

record 'y yaml_lib =
  yl_sub :: "'y \<Rightarrow> string \<Rightarrow> 'y option conv"
  yl_string :: "'y \<Rightarrow> string conv"
  yl_array :: "'y \<Rightarrow> 'y list conv"

definition decode_flusher :: "'y yaml_lib \<Rightarrow> 'y \<Rightarrow> LogFlusherConfigData \<Rightarrow> LogFlusherConfigData conv" where
  "decode_flusher lib node rhs =
     conv_bind (yl_sub lib node ''type'') (\<lambda>yt.
       case yt of
         None \<Rightarrow> TypeError
       | Some yt \<Rightarrow> conv_bind (yl_string lib yt) (\<lambda>s.
           let rhs = rhs\<lparr>fc_name_pattern := s\<rparr>
           in conv_bind (yl_sub lib node ''pattern'') (\<lambda>yp.
                case yp of
                  None \<Rightarrow> Got (rhs\<lparr>fc_name_pattern := ''%H-%p.log''\<rparr>)
                | Some yp \<Rightarrow> conv_bind (yl_string lib yp) (\<lambda>s. Got (rhs\<lparr>fc_name_pattern := s\<rparr>)))))"

definition decode_log :: "'y yaml_lib \<Rightarrow> 'y \<Rightarrow> LogConfigData \<Rightarrow> LogConfigData conv" where
  "decode_log lib node rhs =
     conv_bind (yl_sub lib node ''name'') (\<lambda>yn.
       case yn of
         None \<Rightarrow> TypeError
       | Some yn \<Rightarrow> conv_bind (yl_string lib yn) (\<lambda>s. let rhs = rhs\<lparr>lc_name := s\<rparr> in
         conv_bind (yl_sub lib node ''level'') (\<lambda>yv. conv_bind
           (case yv of
              None \<Rightarrow> Got (rhs\<lparr>lc_level := Some DEBUG\<rparr>)
            | Some yv \<Rightarrow> conv_bind (yl_string lib yv) (\<lambda>s. Got (rhs\<lparr>lc_level := Some (levelFromString s)\<rparr>))) (\<lambda>rhs.
         conv_bind (yl_sub lib node ''formatter'') (\<lambda>yf. conv_bind
           (case yf of
              Some yf \<Rightarrow> conv_bind (yl_string lib yf) (\<lambda>s. Got (rhs\<lparr>lc_formatter := s\<rparr>))
            | None \<Rightarrow> Got rhs) (\<lambda>rhs.
         conv_bind (yl_sub lib node ''flusher'') (\<lambda>ya.
           case ya of
             Some ya \<Rightarrow> conv_bind (yl_array lib ya) (\<lambda>ys.
               conv_bind (conv_map (\<lambda>y. decode_flusher lib y flusher_data) ys) (\<lambda>fs. Got (rhs\<lparr>lc_flushers := fs\<rparr>)))
           | None \<Rightarrow> Got rhs)))))))"

section \<open>The manager\<close>

record LogManager =
  objs :: "Logger list"
  default_logger :: "nat option"
  loggers :: "string \<Rightarrow> nat option"

definition LogManager_empty :: LogManager where
  "LogManager_empty = \<lparr>objs = [], default_logger = None, loggers = Map.empty\<rparr>"

definition getLogger :: "string \<Rightarrow> LogManager \<Rightarrow> nat option" where
  "getLogger key m = loggers m key"

definition getDefault :: "LogManager \<Rightarrow> nat option" where
  "getDefault m = default_logger m"

text \<open>\<open>mk\<close> is the flusher manager's \<open>getLogFlusher\<close>; \<open>insert\<close> keeps an entry that is there.\<close>

type_synonym 'k flusher_source = "string \<Rightarrow> string \<Rightarrow> 'k outside \<Rightarrow> (flusher option \<times> 'k outside) res"

definition map_insert :: "string \<Rightarrow> 'a \<Rightarrow> (string \<Rightarrow> 'a option) \<Rightarrow> string \<Rightarrow> 'a option" where
  "map_insert k v m = (if m k = None then m(k \<mapsto> v) else m)"

definition default_pattern :: string where
  "default_pattern = ''%d{%Y-%m-%d %H:%M:%S}%T%t%T%E%T[%p]%T[%c]%T<%f:%l>%T%m%n''"

definition initDefaultLogger :: "'k flusher_source \<Rightarrow> LogManager \<times> 'k outside \<Rightarrow> (LogManager \<times> 'k outside) res" where
  "initDefaultLogger mk s =
     (case s of (m, w) \<Rightarrow>
        res_bind (setFormatters default_pattern (Logger_new ''root'')) (\<lambda>p.
        res_bind (mk ''ProtectedStdoutFlusher'' [] w) (\<lambda>(f, w).
        res_bind (addOneFlusher f p) (\<lambda>p.
        res_bind (mk ''ProtectedFileFlusher'' ''./logs/%H-root-%P.log'' w) (\<lambda>(f, w).
        res_bind (addOneFlusher f p) (\<lambda>p.
          let p = setLevel DEBUG p; r = length (objs m)
          in Ok (m\<lparr>objs := objs m @ [p], default_logger := Some r,
                   loggers := map_insert ''system'' r (map_insert ''root'' r (loggers m))\<rparr>, w)))))))"

definition add_flusher :: "'k flusher_source \<Rightarrow> LogFlusherConfigData \<Rightarrow> Logger \<times> 'k outside \<Rightarrow> (Logger \<times> 'k outside) res" where
  "add_flusher mk fl s =
     (case s of (p, w) \<Rightarrow>
        res_bind (mk (fc_type fl) (fc_name_pattern fl) w) (\<lambda>(f, w).
          case f of
            Some _ \<Rightarrow> res_bind (addOneFlusher f p) (\<lambda>p. Ok (p, w))
          | None \<Rightarrow> Ok (p, w)))"

definition init_item :: "'k flusher_source \<Rightarrow> LogConfigData \<Rightarrow> LogManager \<times> 'k outside \<Rightarrow> (LogManager \<times> 'k outside) res" where
  "init_item mk item s =
     (case s of (m, w) \<Rightarrow>
        res_bind (setFormatters (lc_formatter item) (Logger_new (lc_name item))) (\<lambda>p.
        res_bind (fold_res (add_flusher mk) (lc_flushers item) (p, w)) (\<lambda>(p, w).
          let r = length (objs m);
              m = m\<lparr>objs := objs m @ [p], loggers := (loggers m)(lc_name item \<mapsto> r)\<rparr>
          in Ok (if lc_name item = ''root'' then m\<lparr>default_logger := Some r\<rparr> else m, w))))"

text \<open>
  The configuration is the JSON one, which the program uses for values of other types as well:
  \<open>TLogs\<close> is the tag of \<open>std::vector<LogConfigData>\<close>, the others are the program's own.
\<close>

datatype 't ctype = TLogs | TUser 't
datatype 'v cvalue = VLogs "LogConfigData list" | VUser 'v

type_synonym ('j, 't, 'v) main_config = "('j, 't ctype, 'v cvalue) config"

fun main_get :: "'j json_lib \<Rightarrow> ('t \<Rightarrow> 'j \<Rightarrow> 'v conv) \<Rightarrow> 't ctype \<Rightarrow> 'j \<Rightarrow> 'v cvalue conv" where
  "main_get lib user TLogs j = conv_bind (json_logs lib j) (\<lambda>l. Got (VLogs l))"
| "main_get lib user (TUser t) j = conv_bind (user t j) (\<lambda>v. Got (VUser v))"

definition log_request ::
    "'j json_lib \<Rightarrow> ('t \<Rightarrow> 'j \<Rightarrow> 'v conv) \<Rightarrow> ('j, 't, 'v) main_config \<Rightarrow> (LogConfigData list \<times> ('j, 't, 'v) main_config) res" where
  "log_request lib user c =
     res_bind (JsonConfig_getIfExists \<lparr>jfind = jl_find lib, jget = main_get lib user\<rparr> TLogs ''logs'' (VLogs []) c)
       (\<lambda>(v, c). case v of VLogs l \<Rightarrow> Ok (l, c) | VUser _ \<Rightarrow> Err BadAnyCast)"

definition initLoggerFromConfig ::
    "'k flusher_source \<Rightarrow> 'j json_lib \<Rightarrow> ('t \<Rightarrow> 'j \<Rightarrow> 'v conv) \<Rightarrow> ('j, 't, 'v) main_config \<Rightarrow> LogManager \<times> 'k outside
       \<Rightarrow> ((LogManager \<times> 'k outside) \<times> ('j, 't, 'v) main_config) res" where
  "initLoggerFromConfig mk lib user c s =
     res_bind (log_request lib user c) (\<lambda>(log_data, c). res_bind (fold_res (init_item mk) log_data s) (\<lambda>s. Ok (s, c)))"

definition LogManager_new ::
    "'k flusher_source \<Rightarrow> 'j json_lib \<Rightarrow> ('t \<Rightarrow> 'j \<Rightarrow> 'v conv) \<Rightarrow> ('j, 't, 'v) main_config \<Rightarrow> 'k outside
       \<Rightarrow> ((LogManager \<times> 'k outside) \<times> ('j, 't, 'v) main_config) res" where
  "LogManager_new mk lib user c w =
     res_bind (initDefaultLogger mk (LogManager_empty, w)) (initLoggerFromConfig mk lib user c)"

section \<open>Lemmas\<close>

lemma set_item_keeps: "set_item i lg = Ok lg' \<Longrightarrow> (name lg', level lg', flushers lg') = (name lg, level lg, flushers lg)"
  by (auto simp: set_item_def addOneFormatter_def Let_def split: prod.splits if_splits option.splits)

lemma setFormatters_keeps:
  assumes "setFormatters pat lg = Ok lg'"
  shows "name lg' = name lg" and "level lg' = level lg" and "flushers lg' = flushers lg"
  using fold_res_keeps [of set_item "\<lambda>l. (name l, level l, flushers l)", OF set_item_keeps] assms
  by (fastforce simp: setFormatters_def)+

lemma add_flusher_keeps: "add_flusher mk fl s = Ok s' \<Longrightarrow> (fst s')\<lparr>flushers := []\<rparr> = (fst s)\<lparr>flushers := []\<rparr>"
  by (auto simp: add_flusher_def addOneFlusher_def split: prod.splits option.splits if_splits)

lemma add_flushers_keep:
  assumes "fold_res (add_flusher mk) fls (p, w) = Ok (p', w')"
  shows "p'\<lparr>flushers := []\<rparr> = p\<lparr>flushers := []\<rparr>"
  using fold_res_keeps [of "add_flusher mk" "\<lambda>s. (fst s)\<lparr>flushers := []\<rparr>", OF add_flusher_keeps assms] by simp

lemma add_flushers_count:
  "fold_res (add_flusher mk) fls s = Ok s' \<Longrightarrow> length (flushers (fst s)) \<le> flusher_max \<Longrightarrow>
     length (flushers (fst s')) \<le> min flusher_max (length (flushers (fst s)) + length fls)"
proof (induction fls arbitrary: s)
  case (Cons fl fls)
  then obtain s1 where s1: "add_flusher mk fl s = Ok s1" "fold_res (add_flusher mk) fls s1 = Ok s'" by auto
  then have "length (flushers (fst s1)) \<le> flusher_max \<and> length (flushers (fst s1)) \<le> Suc (length (flushers (fst s)))"
    using Cons.prems(2) by (auto simp: add_flusher_def addOneFlusher_def split: prod.splits option.splits if_splits)
  then show ?case using Cons.IH [OF s1(2)] by auto
qed auto

text \<open>What a configured logger is: its level is the default one, whatever the configuration says.\<close>

definition described :: "LogConfigData \<Rightarrow> Logger \<Rightarrow> bool" where
  "described item p \<longleftrightarrow>
     name p = lc_name item \<and> level p = DEBUG \<and> length (flushers p) \<le> min flusher_max (length (lc_flushers item))
     \<and> setFormatters (lc_formatter item) (Logger_new (lc_name item)) = Ok (p\<lparr>flushers := []\<rparr>)"

lemma init_item_Ok:
  assumes "init_item mk item (m, w) = Ok (m', w')"
  obtains p where "described item p" and "objs m' = objs m @ [p]"
    and "loggers m' = (loggers m)(lc_name item \<mapsto> length (objs m))"
    and "default_logger m' = (if lc_name item = ''root'' then Some (length (objs m)) else default_logger m)"
proof -
  from assms obtain q p where q: "setFormatters (lc_formatter item) (Logger_new (lc_name item)) = Ok q"
    and p: "fold_res (add_flusher mk) (lc_flushers item) (q, w) = Ok (p, w')"
    and m': "m' = (let r = length (objs m); m = m\<lparr>objs := objs m @ [p], loggers := (loggers m)(lc_name item \<mapsto> r)\<rparr>
                   in if lc_name item = ''root'' then m\<lparr>default_logger := Some r\<rparr> else m)"
    by (auto simp: init_item_def Let_def)
  have q0: "name q = lc_name item" "level q = DEBUG" "flushers q = []"
    using setFormatters_keeps [OF q] by (simp_all add: Logger_new_def)
  have pq: "p\<lparr>flushers := []\<rparr> = q" using add_flushers_keep [OF p] q0(3) by (cases q) simp
  then have "name p = name q" and "level p = level q" by auto
  moreover have "length (flushers p) \<le> min flusher_max (length (lc_flushers item))"
    using add_flushers_count [OF p] q0(3) by simp
  ultimately have "described item p" using q q0 pq by (simp add: described_def)
  then show ?thesis using that [of p] m' by (simp add: Let_def)
qed

definition last_named :: "string \<Rightarrow> LogConfigData list \<Rightarrow> LogConfigData option" where
  "last_named k items = map_of (rev (map (\<lambda>i. (lc_name i, i)) items)) k"

lemma last_named_snoc: "last_named k (items @ [i]) = (if lc_name i = k then Some i else last_named k items)"
  by (simp add: last_named_def)

lemma last_named_Nil [simp]: "last_named k [] = None"
  by (simp add: last_named_def)

text \<open>
  The manager built from a list of items: a name leads to the logger of the last item with it, and
  only without one to the built-in logger, which is at position 0.
\<close>

definition finds :: "LogConfigData list \<Rightarrow> LogManager \<Rightarrow> string \<Rightarrow> bool" where
  "finds items m k \<longleftrightarrow>
     (case last_named k items of
        None \<Rightarrow> getLogger k m = (if k = ''root'' \<or> k = ''system'' then Some 0 else None)
      | Some item \<Rightarrow> \<exists>r < length (objs m). getLogger k m = Some r \<and> described item (objs m ! r))"

definition manages :: "LogConfigData list \<Rightarrow> LogManager \<Rightarrow> bool" where
  "manages items m \<longleftrightarrow>
     (\<forall>k. finds items m k) \<and> objs m \<noteq> [] \<and> getDefault m = getLogger ''root'' m \<and> list_all (\<lambda>p. level p = DEBUG) (objs m)"

lemma finds_other:
  assumes "finds items m k" and "lc_name item \<noteq> k" and "getLogger k m' = getLogger k m" and "objs m' = objs m @ [p]"
  shows "finds (items @ [item]) m' k"
proof (cases "last_named k items")
  case None
  then show ?thesis using assms(1-3) by (simp add: finds_def last_named_snoc)
next
  case (Some i)
  then obtain r where "r < length (objs m)" "getLogger k m = Some r" "described i (objs m ! r)"
    using assms(1) by (auto simp: finds_def)
  then show ?thesis using Some assms(2-4) by (auto simp: finds_def last_named_snoc nth_append intro!: exI [of _ r])
qed

lemma init_item_manages:
  assumes "init_item mk item (m, w) = Ok (m', w')" and "manages items m"
  shows "manages (items @ [item]) m'"
proof -
  obtain p where p: "described item p" and o: "objs m' = objs m @ [p]"
    and l: "loggers m' = (loggers m)(lc_name item \<mapsto> length (objs m))"
    and d: "default_logger m' = (if lc_name item = ''root'' then Some (length (objs m)) else default_logger m)"
    by (rule init_item_Ok [OF assms(1)])
  have "finds (items @ [item]) m' k" for k
  proof (cases "lc_name item = k")
    case True
    then show ?thesis using p o l by (simp add: finds_def last_named_snoc getLogger_def)
  next
    case False
    then show ?thesis using assms(2) o l by (intro finds_other [of _ m _ _ _ p]) (simp_all add: manages_def getLogger_def)
  qed
  moreover have "level p = DEBUG" using p by (simp add: described_def)
  ultimately show ?thesis using assms(2) o l d by (simp add: manages_def getDefault_def getLogger_def)
qed

lemma init_items_manage:
  "fold_res (init_item mk) items (m, w) = Ok (m', w') \<Longrightarrow> manages done m \<Longrightarrow> manages (done @ items) m'"
proof (induction items arbitrary: m w "done")
  case (Cons item items)
  then obtain m1 w1 where "init_item mk item (m, w) = Ok (m1, w1)" "fold_res (init_item mk) items (m1, w1) = Ok (m', w')"
    by auto
  then show ?case using Cons.IH [of m1 w1 "done @ [item]"] init_item_manages Cons.prems(2) by fastforce
qed simp

lemma initDefaultLogger_Ok:
  assumes "initDefaultLogger mk (m, w) = Ok (m', w')"
  obtains p where "m' = m\<lparr>objs := objs m @ [setLevel DEBUG p], default_logger := Some (length (objs m)),
    loggers := map_insert ''system'' (length (objs m)) (map_insert ''root'' (length (objs m)) (loggers m))\<rparr>"
  using assms unfolding initDefaultLogger_def Let_def split_def fst_conv snd_conv
  by (elim res_bind_OkE) (rule that, simp only: sum.inject prod.inject, erule conjunct1 [THEN sym])

lemma initDefaultLogger_manages: "initDefaultLogger mk (LogManager_empty, w) = Ok (m, w') \<Longrightarrow> manages [] m"
  by (erule initDefaultLogger_Ok)
    (simp add: LogManager_empty_def manages_def finds_def getLogger_def getDefault_def map_insert_def setLevel_def)

section \<open>Properties\<close>

text \<open>
  C38. The manager is what the configuration describes: \<open>getLogger\<close> of a name that is configured
  gives a logger of that name with the formatters compiled from the pattern of the last entry of
  that name and at most its flushers (at most ten); \<open>root\<close> and \<open>system\<close> give the built-in logger
  unless they are configured, other names give nothing; the default logger is the one named
  \<open>root\<close>. The configured level has no influence: every logger logs from \<open>DEBUG\<close> on.
\<close>

theorem log_manager_as_configured:
  assumes "log_request lib user c = Ok (items, c')" and "LogManager_new mk lib user c w = Ok ((m, w'), c'')"
  shows "manages items m"
proof -
  from assms obtain m1 w1 where "initDefaultLogger mk (LogManager_empty, w) = Ok (m1, w1)"
    and i: "fold_res (init_item mk) items (m1, w1) = Ok (m, w')"
    by (auto simp: LogManager_new_def initLoggerFromConfig_def)
  then have "manages [] m1" by (intro initDefaultLogger_manages)
  from init_items_manage [OF i this] show ?thesis by simp
qed

datatype demo_json = JStr string | JArr "demo_json list" | JObj "(string \<times> demo_json) list"

definition demo_json_lib :: "demo_json json_lib" where
  "demo_json_lib =
     \<lparr>jl_find = \<lambda>j k. case j of JObj kvs \<Rightarrow> map_of kvs k | _ \<Rightarrow> None,
      jl_string = \<lambda>j. case j of JStr s \<Rightarrow> Got s | _ \<Rightarrow> TypeError,
      jl_array = \<lambda>j. case j of JArr js \<Rightarrow> Got js | _ \<Rightarrow> TypeError\<rparr>"

definition demo_user :: "unit \<Rightarrow> demo_json \<Rightarrow> unit conv" where
  "demo_user t j = TypeError"

definition demo_doc :: demo_json where
  "demo_doc = JObj [(''logs'', JArr [JObj [(''name'', JStr ''root''), (''level'', JStr ''error''), (''formatter'', JStr ''%m'')]])]"

theorem log_manager_as_configured_witness:
  "\<exists>m w c. LogManager_new (\<lambda>_ _ w. Ok (None, w)) demo_json_lib demo_user (config_new demo_doc)
             \<lparr>out_text = [], out_kern = ()\<rparr> = Ok ((m, w), c)
     \<and> manages [\<lparr>lc_name = ''root'', lc_level = Some ERROR, lc_formatter = ''%m'', lc_flushers = []\<rparr>] m"
proof -
  let ?l = "log_request demo_json_lib demo_user (config_new demo_doc)"
  let ?n = "LogManager_new (\<lambda>_ _ w. Ok (None, w)) demo_json_lib demo_user (config_new demo_doc) \<lparr>out_text = [], out_kern = ()\<rparr>"
  have "is_ok ?n" by code_simp
  then obtain m w c where n: "?n = Ok ((m, w), c)" by (cases ?n) auto
  have "map_sum id fst ?l = Ok [\<lparr>lc_name = ''root'', lc_level = Some ERROR, lc_formatter = ''%m'', lc_flushers = []\<rparr>]" by code_simp
  then obtain c' where "?l = Ok ([\<lparr>lc_name = ''root'', lc_level = Some ERROR, lc_formatter = ''%m'', lc_flushers = []\<rparr>], c')"
    by (cases ?l) auto
  from log_manager_as_configured [OF this n] show ?thesis using n by blast
qed

text \<open>
  Flushers described in the configuration go wrong: the YAML decoder never sets the type of a
  flusher, whatever the document has, and no maker is registered under the empty type; and the
  file name pattern both decoders fall back to contains \<open>%p\<close>, which file names do not know, so
  that every process writes to the same file with the error text in its name.
\<close>

theorem log_flusher_config_defects:
  "\<not> (\<exists>d. decode_flusher lib node flusher_data = Got d \<and> fc_type d \<noteq> [])
   \<and> find_maker [] LogFlusherManager_new = None
   \<and> logFileNameParse host pid ''%H-%p.log'' = Ok \<lparr>prefix = host @ ''-_error_pattern_.log'', postfix = [], dateTime = []\<rparr>"
proof (intro conjI)
  show "\<not> (\<exists>d. decode_flusher lib node flusher_data = Got d \<and> fc_type d \<noteq> [])"
    by (auto simp: decode_flusher_def flusher_data_def conv_bind_def Let_def split: conv.splits option.splits)
  have "logPatternParse ''%H-%p.log'' = [(''H'', [], 1), (''-'', [], 0), (''p'', [], 1), (''.log'', [], 0)]" by code_simp
  then show "logFileNameParse host pid ''%H-%p.log'' = Ok \<lparr>prefix = host @ ''-_error_pattern_.log'', postfix = [], dateTime = []\<rparr>"
    by (simp add: logFileNameParse_def name_item_def add_name_def)
qed (simp add: LogFlusherManager_new_def rigisterFlushMaker_def find_maker_def toupper_def)

end
