(* ===== verification/Debug_Print.thy ===== *)
theory Debug_Print
  imports Net_Prelude
begin

text \<open>
  include/base/print\_helper.h and include/base/chrono\_helper.h: printing of values and containers,
  case markers, counted fields, and time measurement. The templates are resolved at compile time, so
  the model has the C++ types the overloads are chosen by beside the values; what is printed is a text.
\<close>

section \<open>Types and values\<close>

text \<open>
  \<open>TEnum\<close> is a scoped enumeration, \<open>TEntry k v\<close> the \<open>pair<const k, v>\<close> that is an element of a map. \<open>TVector\<close> is
  \<open>std::vector\<close>; the other classes with a \<open>value_type\<close> differ in what the templates use of them: \<open>TBidir\<close> has \<open>empty()\<close> and
  iterators that step back (list, deque, set, map), \<open>TForward\<close> has iterators that only step forward (forward\_list,
  unordered\_set, unordered\_map), \<open>TNoIter\<close> has none (optional, stack).
\<close>

datatype ctype =
    TInt | TBool | TChar | TEnum | TString | TPair ctype ctype | TEntry ctype ctype
  | TVector ctype | TBidir ctype | TForward ctype | TNoIter ctype

datatype cval = VInt int | VBool bool | VChar char | VEnum int | VString string | VPair cval cval | VSeq "cval list"

primrec has_type :: "ctype \<Rightarrow> cval \<Rightarrow> bool" where
  "has_type TInt v \<longleftrightarrow> (\<exists>i. v = VInt i)"
| "has_type TBool v \<longleftrightarrow> (\<exists>b. v = VBool b)"
| "has_type TChar v \<longleftrightarrow> (\<exists>c. v = VChar c)"
| "has_type TEnum v \<longleftrightarrow> (\<exists>i. v = VEnum i)"
| "has_type TString v \<longleftrightarrow> (\<exists>s. v = VString s)"
| "has_type (TPair a b) v \<longleftrightarrow> (\<exists>x y. v = VPair x y \<and> has_type a x \<and> has_type b y)"
| "has_type (TEntry a b) v \<longleftrightarrow> (\<exists>x y. v = VPair x y \<and> has_type a x \<and> has_type b y)"
| "has_type (TVector t) v \<longleftrightarrow> (\<exists>vs. v = VSeq vs \<and> (\<forall>x \<in> set vs. has_type t x))"
| "has_type (TBidir t) v \<longleftrightarrow> (\<exists>vs. v = VSeq vs \<and> (\<forall>x \<in> set vs. has_type t x))"
| "has_type (TForward t) v \<longleftrightarrow> (\<exists>vs. v = VSeq vs \<and> (\<forall>x \<in> set vs. has_type t x))"
| "has_type (TNoIter t) v \<longleftrightarrow> (\<exists>vs. v = VSeq vs \<and> (\<forall>x \<in> set vs. has_type t x))"

text \<open>\<open>typename T::value_type\<close>; a \<open>std::string\<close> is a container of characters.\<close>

fun value_type :: "ctype \<Rightarrow> ctype option" where
  "value_type TString = Some TChar"
| "value_type (TVector t) = Some t"
| "value_type (TBidir t) = Some t"
| "value_type (TForward t) = Some t"
| "value_type (TNoIter t) = Some t"
| "value_type _ = None"

fun elements :: "cval \<Rightarrow> cval list" where
  "elements (VString s) = map VChar s"
| "elements (VSeq vs) = vs"
| "elements _ = []"

text \<open>
  What the bodies of the templates use: \<open>begin()\<close> and \<open>end()\<close> in the loops of \<open>printContainer\<close>; \<open>empty()\<close> and \<open>--end_it\<close>
  besides in \<open>doPrint\<close>.
\<close>

definition iterates :: "ctype \<Rightarrow> bool" where
  "iterates t \<longleftrightarrow> value_type t \<noteq> None \<and> (\<forall>u. t \<noteq> TNoIter u)"

definition steps_back :: "ctype \<Rightarrow> bool" where
  "steps_back t \<longleftrightarrow> iterates t \<and> (\<forall>u. t \<noteq> TForward u)"

text \<open>
  \<open>IsCoutable\<close>: the specialisation for pairs does not match a constant pair, so the first component of
  a map's element counts only when the first template accepts it, as a scalar or a string. A scoped
  enumeration is a scalar.
\<close>

definition scalar_or_string :: "ctype \<Rightarrow> bool" where
  "scalar_or_string t \<longleftrightarrow> t \<in> {TInt, TBool, TChar, TEnum, TString}"

primrec IsCoutable :: "ctype \<Rightarrow> bool" where
  "IsCoutable TInt \<longleftrightarrow> True"
| "IsCoutable TBool \<longleftrightarrow> True"
| "IsCoutable TChar \<longleftrightarrow> True"
| "IsCoutable TEnum \<longleftrightarrow> True"
| "IsCoutable TString \<longleftrightarrow> True"
| "IsCoutable (TPair a b) \<longleftrightarrow> IsCoutable a \<and> IsCoutable b"
| "IsCoutable (TEntry a b) \<longleftrightarrow> scalar_or_string a \<and> IsCoutable b"
| "IsCoutable (TVector t) \<longleftrightarrow> False"
| "IsCoutable (TBidir t) \<longleftrightarrow> False"
| "IsCoutable (TForward t) \<longleftrightarrow> False"
| "IsCoutable (TNoIter t) \<longleftrightarrow> False"

text \<open>Whether \<open>std::cout << v\<close> compiles for a coutable type: a scoped enumeration has no operator.\<close>

primrec streams :: "ctype \<Rightarrow> bool" where
  "streams TInt \<longleftrightarrow> True"
| "streams TBool \<longleftrightarrow> True"
| "streams TChar \<longleftrightarrow> True"
| "streams TEnum \<longleftrightarrow> False"
| "streams TString \<longleftrightarrow> True"
| "streams (TPair a b) \<longleftrightarrow> IsCoutable a \<and> IsCoutable b \<and> streams a \<and> streams b"
| "streams (TEntry a b) \<longleftrightarrow> scalar_or_string a \<and> IsCoutable b \<and> streams a \<and> streams b"
| "streams (TVector t) \<longleftrightarrow> False"
| "streams (TBidir t) \<longleftrightarrow> False"
| "streams (TForward t) \<longleftrightarrow> False"
| "streams (TNoIter t) \<longleftrightarrow> False"

section \<open>Printing\<close>

text \<open>
  \<open>std::cout << v\<close> with the operator for pairs of \<open>print_container\<close>; \<open>None\<close> for a value the
  selected operator does not have.
\<close>

fun stream_out :: "cval \<Rightarrow> string option" where
  "stream_out (VInt i) = Some (decimal i)"
| "stream_out (VBool b) = Some (if b then ''1'' else ''0'')"
| "stream_out (VChar c) = Some [c]"
| "stream_out (VString s) = Some s"
| "stream_out (VPair x y) =
     (case stream_out x of
        None \<Rightarrow> None
      | Some a \<Rightarrow> (case stream_out y of None \<Rightarrow> None | Some b \<Rightarrow> Some (''['' @ a @ '','' @ b @ ''] '')))"
| "stream_out (VEnum i) = None"
| "stream_out (VSeq vs) = None"

text \<open>The operator for vectors of \<open>print_container\<close>.\<close>

fun lines_out :: "char \<Rightarrow> cval list \<Rightarrow> string option" where
  "lines_out divider [] = Some []"
| "lines_out divider (x # xs) =
     (case stream_out x of
        None \<Rightarrow> None
      | Some a \<Rightarrow> (case lines_out divider xs of None \<Rightarrow> None | Some b \<Rightarrow> Some (a @ [divider] @ b)))"

definition vector_out :: "cval \<Rightarrow> string option" where
  "vector_out v = lines_out (CHR 0x0A) (elements v)"

text \<open>
  Which \<open>doPrint\<close> a call selects. \<open>doPrint(Type&&)\<close> needs a coutable type and
  \<open>doPrint(const ContainerType&)\<close> a container. For a constant lvalue of a type that has both (a
  string) the second is the more specialised one; for any other argument the first binds better.
\<close>

datatype overload = ByStream | ByElements

definition pick_doPrint :: "bool \<Rightarrow> ctype \<Rightarrow> overload option" where
  "pick_doPrint is_const t =
     (if value_type t \<noteq> None \<and> (is_const \<or> \<not> IsCoutable t) then Some ByElements
      else if IsCoutable t then Some ByStream else None)"

primrec type_rank :: "ctype \<Rightarrow> nat" where
  "type_rank TInt = 0"
| "type_rank TBool = 0"
| "type_rank TChar = 0"
| "type_rank TEnum = 0"
| "type_rank TString = 1"
| "type_rank (TPair a b) = 0"
| "type_rank (TEntry a b) = 0"
| "type_rank (TVector t) = Suc (type_rank t)"
| "type_rank (TBidir t) = Suc (type_rank t)"
| "type_rank (TForward t) = Suc (type_rank t)"
| "type_rank (TNoIter t) = Suc (type_rank t)"

lemma value_type_rank: "value_type t = Some u \<Longrightarrow> type_rank u < type_rank t"
  by (cases t) auto

lemma pick_elements: "pick_doPrint c t = Some ByElements \<Longrightarrow> type_rank (the (value_type t)) < type_rank t"
  by (auto simp: pick_doPrint_def dest: value_type_rank split: if_splits)

text \<open>The loop over all elements but the last, and the last one behind it.\<close>

fun comma_list :: "string list \<Rightarrow> string" where
  "comma_list [] = []"
| "comma_list [s] = s"
| "comma_list (s # t # ss) = s @ '','' @ comma_list (t # ss)"

text \<open>
  Whether the templates can be instantiated, decided by the type alone: overload resolution finds a
  candidate, and what its body uses exists.
\<close>

function doPrint_compiles :: "bool \<Rightarrow> ctype \<Rightarrow> bool" where
  "doPrint_compiles is_const t \<longleftrightarrow>
     (case pick_doPrint is_const t of
        None \<Rightarrow> False
      | Some ByStream \<Rightarrow> streams t
      | Some ByElements \<Rightarrow> steps_back t \<and> doPrint_compiles True (the (value_type t)))"
  by pat_completeness auto
termination
  by (relation "measure (type_rank \<circ> snd)") (auto dest: pick_elements)

declare doPrint_compiles.simps [simp del]

function doPrint :: "bool \<Rightarrow> ctype \<Rightarrow> cval \<Rightarrow> string option" where
  "doPrint is_const t v =
     (case pick_doPrint is_const t of
        None \<Rightarrow> None
      | Some ByStream \<Rightarrow> stream_out v
      | Some ByElements \<Rightarrow>
          (case those (map (doPrint True (the (value_type t))) (elements v)) of
             None \<Rightarrow> None
           | Some ss \<Rightarrow> Some (''{'' @ comma_list ss @ ''}'')))"
  by pat_completeness auto
termination
  by (relation "measure (\<lambda>(c, t, v). type_rank t)") (auto dest: pick_elements)

declare doPrint.simps [simp del]

definition doPrintContainer :: "ctype \<Rightarrow> cval \<Rightarrow> string option" where
  "doPrintContainer t v = map_option (\<lambda>s. s @ [CHR 0x0A]) (doPrint True t v)"

text \<open>
  The two overloads of \<open>printContainer\<close>: any container of coutable elements, and vectors of
  containers of coutable elements, the more specialised one.
\<close>

datatype container_overload = Flat | Nested

definition pick_printContainer :: "ctype \<Rightarrow> container_overload option" where
  "pick_printContainer t =
     (let coutable_elements = (\<lambda>t. case value_type t of None \<Rightarrow> False | Some u \<Rightarrow> IsCoutable u)
      in if (case t of TVector u \<Rightarrow> coutable_elements u | _ \<Rightarrow> False) then Some Nested
         else if coutable_elements t then Some Flat else None)"

lemma pick_nested: "pick_printContainer t = Some Nested \<Longrightarrow> \<exists>u. t = TVector u"
  by (auto simp: pick_printContainer_def Let_def split: if_splits ctype.splits)

function printContainer_compiles :: "ctype \<Rightarrow> bool" where
  "printContainer_compiles t \<longleftrightarrow>
     (case pick_printContainer t of
        None \<Rightarrow> False
      | Some Flat \<Rightarrow> iterates t \<and> streams (the (value_type t))
      | Some Nested \<Rightarrow> printContainer_compiles (the (value_type t)))"
  by pat_completeness auto
termination
  by (relation "measure type_rank") (auto dest!: pick_nested)

declare printContainer_compiles.simps [simp del]

function printContainer :: "char \<Rightarrow> ctype \<Rightarrow> cval \<Rightarrow> string option" where
  "printContainer divider t v =
     (case pick_printContainer t of
        None \<Rightarrow> None
      | Some Flat \<Rightarrow> lines_out divider (elements v)
      | Some Nested \<Rightarrow>
          map_option (\<lambda>ss. concat (map (\<lambda>s. s @ [divider]) ss))
            (those (map (printContainer (CHR '' '') (the (value_type t))) (elements v))))"
  by pat_completeness auto
termination
  by (relation "measure (\<lambda>(d, t, v). type_rank t)") (auto dest!: pick_nested)

declare printContainer.simps [simp del]

section \<open>Dividing lines, counted fields, case markers\<close>

text \<open>The console and the two function-local counters.\<close>

record console =
  printed :: string
  construct_time :: int
  marker_time :: int

definition put_out :: "string \<Rightarrow> console \<Rightarrow> console" where
  "put_out s k = k\<lparr>printed := printed k @ s\<rparr>"

abbreviation newline :: string where
  "newline \<equiv> [CHR 0x0A]"

definition printDividing :: "console \<Rightarrow> console" where
  "printDividing = put_out (replicate 39 (CHR ''='') @ newline)"

definition printDividing_text :: "string \<Rightarrow> console \<Rightarrow> console" where
  "printDividing_text s = put_out (replicate 10 (CHR ''='') @ s @ replicate 10 (CHR ''='') @ newline)"

definition BaseField_new :: "console \<Rightarrow> int \<times> console" where
  "BaseField_new k =
     (let n = construct_time k + 1
      in (n, put_out (''BaseField Ctor--'' @ decimal n @ newline) (k\<lparr>construct_time := n\<rparr>)))"

definition BaseField_destroy :: "int \<Rightarrow> console \<Rightarrow> console" where
  "BaseField_destroy n = put_out (''BaseField Dtor--'' @ decimal n @ newline)"

definition IntField_new :: "int \<Rightarrow> console \<Rightarrow> (int \<times> int) \<times> console" where
  "IntField_new var k = (let (n, k) = BaseField_new k in ((n, var), k))"

definition IntField_print :: "int \<times> int \<Rightarrow> console \<Rightarrow> console" where
  "IntField_print f = put_out (''Int Field:'' @ decimal (snd f) @ newline)"

text \<open>A marker made with a text leaves \<open>time_\<close> uninitialised; it is then never read.\<close>

record CaseMarker =
  time_no :: "int option"
  sub_counter :: int
  marker :: string

definition CaseMarker_new :: "console \<Rightarrow> CaseMarker \<times> console" where
  "CaseMarker_new k =
     (let n = marker_time k + 1
      in (\<lparr>time_no = Some n, sub_counter = 0, marker = []\<rparr>,
          printDividing_text (''run case'' @ decimal n) (k\<lparr>marker_time := n\<rparr>)))"

definition CaseMarker_named :: "string \<Rightarrow> console \<Rightarrow> (CaseMarker \<times> console) res" where
  "CaseMarker_named m k =
     (if m = [] then Err InvalidArgument
      else Ok (\<lparr>time_no = None, sub_counter = 0, marker = m\<rparr>, printDividing_text (''run case '' @ m) k))"

definition printSub_text :: "string \<Rightarrow> CaseMarker \<times> console \<Rightarrow> (CaseMarker \<times> console) res" where
  "printSub_text sub s =
     (case s of (c, k) \<Rightarrow>
        if sub = [] then Err InvalidArgument
        else let n = sub_counter c + 1
             in Ok (c\<lparr>sub_counter := n\<rparr>, put_out (''--- '' @ decimal n @ '':'' @ sub @ '' ---'' @ newline) k))"

definition printSub :: "CaseMarker \<times> console \<Rightarrow> CaseMarker \<times> console" where
  "printSub s =
     (case s of (c, k) \<Rightarrow>
        let n = sub_counter c + 1
        in (c\<lparr>sub_counter := n\<rparr>, put_out (''--- '' @ decimal n @ '' ---'' @ newline) k))"

definition CaseMarker_destroy :: "CaseMarker \<Rightarrow> console \<Rightarrow> console res" where
  "CaseMarker_destroy c k =
     (if marker c = []
      then (case time_no c of
              None \<Rightarrow> Err OutOfBounds
            | Some n \<Rightarrow> Ok (put_out newline (printDividing_text (''end case'' @ decimal n) k)))
      else Ok (put_out newline (printDividing_text (''end case '' @ marker c) k)))"

section \<open>Time spans\<close>

text \<open>Clock readings are nanoseconds; \<open>duration_cast\<close> rounds towards zero.\<close>

definition getTimeSpanMs :: "int \<Rightarrow> int \<Rightarrow> int" where
  "getTimeSpanMs time_point_begin time_point_end =
     (let d = time_point_end - time_point_begin
      in if 0 \<le> d then d div 1000000 else - (- d div 1000000))"

definition TimeSpan_destroy :: "string \<Rightarrow> int \<Rightarrow> int \<Rightarrow> console \<Rightarrow> console" where
  "TimeSpan_destroy case_name begin_time now =
     put_out (case_name @ '' cost: '' @ decimal (getTimeSpanMs begin_time now) @ newline)"

definition GetTimeSpan_destroy :: "int \<Rightarrow> int \<Rightarrow> u64" where
  "GetTimeSpan_destroy begin_time now = word_of_int (getTimeSpanMs begin_time now)"

text \<open>
  \<open>now\<close> reads the clock off the state \<open>func\<close> changes. When \<open>func\<close> throws, the span is still
  written by the destructor but nobody reads it.
\<close>

definition invokeAndMeasure :: "('s \<Rightarrow> int) \<Rightarrow> ('s \<Rightarrow> 's res) \<Rightarrow> 's \<Rightarrow> (int \<times> 's) res" where
  "invokeAndMeasure now func s =
     (let begin_time = now s
      in res_bind (func s) (\<lambda>s. Ok (sint (GetTimeSpan_destroy begin_time (now s)), s)))"

section \<open>Lemmas\<close>

lemma stream_out_total: "streams t \<Longrightarrow> has_type t v \<Longrightarrow> \<exists>s. stream_out v = Some s"
  by (induction t arbitrary: v) fastforce+

lemma lines_out_total: "(\<And>x. x \<in> set xs \<Longrightarrow> \<exists>s. stream_out x = Some s) \<Longrightarrow> \<exists>s. lines_out d xs = Some s"
proof (induction xs)
  case (Cons x xs)
  then obtain a b where "stream_out x = Some a" "lines_out d xs = Some b" by (metis list.set_intros)
  then show ?case by simp
qed simp

lemma those_total: "(\<And>x. x \<in> set xs \<Longrightarrow> \<exists>y. f x = Some y) \<Longrightarrow> \<exists>ys. those (map f xs) = Some ys"
proof (induction xs)
  case (Cons x xs)
  then obtain a b where "f x = Some a" "those (map f xs) = Some b" by (metis list.set_intros)
  then show ?case by simp
qed simp

lemma those_map: "\<forall>x \<in> set xs. f x = Some (g x) \<Longrightarrow> those (map f xs) = Some (map g xs)"
  by (induction xs) simp_all

lemma elements_typed: "value_type t = Some u \<Longrightarrow> has_type t v \<Longrightarrow> x \<in> set (elements v) \<Longrightarrow> has_type u x"
  by (cases t) auto

text \<open>
  The types that can be printed: numbers, characters, strings, pairs of what can be streamed (in a map, with a key that
  is no pair), and containers that can be walked backwards of printable types.
\<close>

primrec streamable :: "ctype \<Rightarrow> bool" where
  "streamable TInt \<longleftrightarrow> True"
| "streamable TBool \<longleftrightarrow> True"
| "streamable TChar \<longleftrightarrow> True"
| "streamable TEnum \<longleftrightarrow> False"
| "streamable TString \<longleftrightarrow> True"
| "streamable (TPair a b) \<longleftrightarrow> streamable a \<and> streamable b"
| "streamable (TEntry a b) \<longleftrightarrow> a \<in> {TInt, TBool, TChar, TString} \<and> streamable b"
| "streamable (TVector t) \<longleftrightarrow> False"
| "streamable (TBidir t) \<longleftrightarrow> False"
| "streamable (TForward t) \<longleftrightarrow> False"
| "streamable (TNoIter t) \<longleftrightarrow> False"

fun printable :: "ctype \<Rightarrow> bool" where
  "printable (TVector t) \<longleftrightarrow> printable t"
| "printable (TBidir t) \<longleftrightarrow> printable t"
| "printable t \<longleftrightarrow> streamable t"

text \<open>For \<open>printContainer\<close>: containers of streamable elements that can be iterated over, and vectors of these.\<close>

definition container_printable :: "ctype \<Rightarrow> bool" where
  "container_printable t \<longleftrightarrow> (\<exists>u. value_type t = Some u \<and> iterates t \<and> streamable u)
     \<or> (\<exists>u e. t = TVector u \<and> value_type u = Some e \<and> iterates u \<and> streamable e)"

lemma streams_iff: "streams t \<longleftrightarrow> streamable t"
  and streamable_coutable: "streamable t \<Longrightarrow> IsCoutable t"
  by (induction t) (auto simp: scalar_or_string_def)

lemma compiles_plain: "value_type t = None \<Longrightarrow> doPrint_compiles c t \<longleftrightarrow> streamable t"
  by (subst doPrint_compiles.simps) (auto simp: pick_doPrint_def streams_iff dest: streamable_coutable)

lemma compiles_container:
  "value_type t = Some u \<Longrightarrow> \<not> IsCoutable t \<Longrightarrow> doPrint_compiles c t \<longleftrightarrow> steps_back t \<and> doPrint_compiles True u"
  by (subst doPrint_compiles.simps) (simp add: pick_doPrint_def)

lemma compiles_iff_printable: "doPrint_compiles c t \<longleftrightarrow> printable t"
proof (induction t arbitrary: c)
  case TString
  show ?case
    by (subst doPrint_compiles.simps) (simp add: pick_doPrint_def steps_back_def iterates_def compiles_plain)
qed (simp_all add: compiles_plain compiles_container steps_back_def iterates_def)

lemma doPrint_total: "doPrint_compiles c t \<Longrightarrow> has_type t v \<Longrightarrow> \<exists>s. doPrint c t v = Some s"
proof (induction c t v rule: doPrint.induct)
  case (1 c t v)
  show ?case
  proof (cases "pick_doPrint c t")
    case None
    with 1 show ?thesis by (simp add: doPrint_compiles.simps [of c t])
  next
    case (Some ov)
    show ?thesis
    proof (cases ov)
      case ByStream
      with Some 1 have "streams t" by (simp add: doPrint_compiles.simps [of c t])
      with stream_out_total 1 Some ByStream show ?thesis by (simp add: doPrint.simps [of c t])
    next
      case ByElements
      with Some obtain u where u: "value_type t = Some u" by (auto simp: pick_doPrint_def split: if_splits)
      have "\<exists>s. doPrint True u x = Some s" if "x \<in> set (elements v)" for x
        using 1 Some ByElements u that elements_typed [OF u] by (simp add: doPrint_compiles.simps [of c t])
      with those_total [of "elements v" "doPrint True u"] show ?thesis
        using Some ByElements u by (auto simp: doPrint.simps [of c t])
    qed
  qed
qed

lemma container_compiles_iff: "printContainer_compiles t \<longleftrightarrow> container_printable t"
proof (induction t rule: printContainer_compiles.induct)
  case (1 t)
  consider (nested) u e where "t = TVector u" "value_type u = Some e" "IsCoutable e"
    | (flat) u where "value_type t = Some u" "IsCoutable u" "\<forall>w e. t = TVector w \<longrightarrow> value_type w = Some e \<longrightarrow> \<not> IsCoutable e"
    | (none) "\<forall>u. value_type t = Some u \<longrightarrow> \<not> IsCoutable u" "\<forall>w e. t = TVector w \<longrightarrow> value_type w = Some e \<longrightarrow> \<not> IsCoutable e"
    by blast
  then show ?case
  proof cases
    case nested
    then have p: "pick_printContainer t = Some Nested" by (simp add: pick_printContainer_def)
    then have "printContainer_compiles t \<longleftrightarrow> container_printable u"
      using "1.IH" [OF p] nested(1) by (subst printContainer_compiles.simps) simp
    also have "\<dots> \<longleftrightarrow> container_printable t"
      using nested by (cases u; cases e) (auto simp: container_printable_def iterates_def)
    finally show ?thesis .
  next
    case flat
    then have "pick_printContainer t = Some Flat" by (auto simp: pick_printContainer_def Let_def split: ctype.splits option.splits)
    then show ?thesis using flat by (auto simp: printContainer_compiles.simps [of t] container_printable_def streams_iff dest: streamable_coutable)
  next
    case none
    then have "pick_printContainer t = None" by (auto simp: pick_printContainer_def Let_def split: ctype.splits option.splits)
    then show ?thesis using none by (auto simp: printContainer_compiles.simps [of t] container_printable_def dest: streamable_coutable)
  qed
qed

lemma printContainer_total:
  assumes "printContainer_compiles t" and "has_type t v"
  shows "\<exists>s. printContainer d t v = Some s"
proof -
  have flat: "\<exists>s. lines_out d (elements v) = Some s" if "value_type t = Some u" "streams u" "has_type t v" for d t u v
    using that elements_typed stream_out_total by (intro lines_out_total) blast
  show ?thesis using assms
  proof (induction d t v rule: printContainer.induct)
    case (1 d t v)
    show ?case
    proof (cases "pick_printContainer t = Some Nested")
      case True
      then obtain u where u: "t = TVector u" using pick_nested by blast
      then have "printContainer_compiles u" using "1.prems"(1) True by (subst (asm) printContainer_compiles.simps) simp
      then have "\<exists>s. printContainer (CHR '' '') u x = Some s" if "x \<in> set (elements v)" for x
        using 1 True u that elements_typed [of t u v x] by simp
      with those_total [of "elements v" "printContainer (CHR '' '') u"] show ?thesis
        using True u by (auto simp: printContainer.simps [of d "TVector u"])
    next
      case False
      have "pick_printContainer t \<noteq> None" using "1.prems"(1) by (auto simp: printContainer_compiles.simps [of t] split: option.splits)
      with False have p: "pick_printContainer t = Some Flat" by (metis container_overload.exhaust option.exhaust)
      then obtain u where "value_type t = Some u"
        by (auto simp: pick_printContainer_def Let_def split: if_splits option.splits)
      moreover from this p "1.prems"(1) have "streams u" by (simp add: printContainer_compiles.simps [of t])
      ultimately show ?thesis using flat "1.prems"(2) p by (simp add: printContainer.simps [of d t])
    qed
  qed
qed

section \<open>Numbers in nested containers\<close>

primrec number_tree :: "ctype \<Rightarrow> bool" where
  "number_tree TInt \<longleftrightarrow> True"
| "number_tree TBool \<longleftrightarrow> False"
| "number_tree TChar \<longleftrightarrow> False"
| "number_tree TEnum \<longleftrightarrow> False"
| "number_tree TString \<longleftrightarrow> False"
| "number_tree (TPair a b) \<longleftrightarrow> False"
| "number_tree (TEntry a b) \<longleftrightarrow> False"
| "number_tree (TVector t) \<longleftrightarrow> number_tree t"
| "number_tree (TBidir t) \<longleftrightarrow> number_tree t"
| "number_tree (TForward t) \<longleftrightarrow> False"
| "number_tree (TNoIter t) \<longleftrightarrow> False"

fun tree_text :: "cval \<Rightarrow> string" where
  "tree_text (VInt i) = decimal i"
| "tree_text (VSeq vs) = ''{'' @ comma_list (map tree_text vs) @ ''}''"
| "tree_text _ = []"

lemma doPrint_tree: "number_tree t \<Longrightarrow> has_type t v \<Longrightarrow> doPrint c t v = Some (tree_text v)"
proof (induction t arbitrary: c v)
  case TInt
  then show ?case by (auto simp: doPrint.simps pick_doPrint_def)
next
  case (TVector t)
  then obtain vs where vs: "v = VSeq vs" "\<forall>x \<in> set vs. has_type t x" by auto
  then have "those (map (doPrint True t) vs) = Some (map tree_text vs)" using TVector by (intro those_map) simp
  then show ?case using vs(1) by (simp add: doPrint.simps [of c] pick_doPrint_def)
next
  case (TBidir t)
  then obtain vs where vs: "v = VSeq vs" "\<forall>x \<in> set vs. has_type t x" by auto
  then have "those (map (doPrint True t) vs) = Some (map tree_text vs)" using TBidir by (intro those_map) simp
  then show ?case using vs(1) by (simp add: doPrint.simps [of c] pick_doPrint_def)
qed simp_all

text \<open>What can follow a printed element.\<close>

definition closes :: "string \<Rightarrow> bool" where
  "closes r \<longleftrightarrow> r = [] \<or> hd r = CHR '','' \<or> hd r = CHR ''}''"

definition readable :: "cval set \<Rightarrow> bool" where
  "readable V \<longleftrightarrow> (\<forall>v \<in> V. \<forall>w \<in> V. \<forall>r r'. closes r \<longrightarrow> closes r' \<longrightarrow> tree_text v @ r = tree_text w @ r' \<longrightarrow> v = w \<and> r = r')"

lemma readableD:
  "readable V \<Longrightarrow> v \<in> V \<Longrightarrow> w \<in> V \<Longrightarrow> closes r \<Longrightarrow> closes r' \<Longrightarrow> tree_text v @ r = tree_text w @ r' \<Longrightarrow> v = w \<and> r = r'"
  unfolding readable_def by blast

definition starts_well :: "cval set \<Rightarrow> bool" where
  "starts_well V \<longleftrightarrow> (\<forall>v \<in> V. tree_text v \<noteq> [] \<and> hd (tree_text v) \<noteq> CHR ''}'')"

lemma comma_list_Cons: "comma_list (s # ss) = s @ (if ss = [] then [] else CHR '','' # comma_list ss)"
  by (cases ss) simp_all

lemma comma_list_readable:
  assumes "readable V" and "starts_well V"
  shows "set vs \<subseteq> V \<Longrightarrow> set ws \<subseteq> V \<Longrightarrow>
    comma_list (map tree_text vs) @ CHR ''}'' # r = comma_list (map tree_text ws) @ CHR ''}'' # r' \<Longrightarrow> vs = ws \<and> r = r'"
proof (induction vs arbitrary: ws)
  case Nil
  show ?case
  proof (cases ws)
    case (Cons w ws')
    with Nil assms(2) have "tree_text w \<noteq> []" "hd (tree_text w) \<noteq> CHR ''}''" by (auto simp: starts_well_def)
    with Nil(3) Cons show ?thesis by (cases "tree_text w") (simp_all add: comma_list_Cons)
  qed (use Nil in simp)
next
  case (Cons v vs)
  show ?case
  proof (cases ws)
    case Nil
    with Cons.prems assms(2) have "tree_text v \<noteq> []" "hd (tree_text v) \<noteq> CHR ''}''" by (auto simp: starts_well_def)
    with Cons.prems(3) Nil show ?thesis by (cases "tree_text v") (simp_all add: comma_list_Cons)
  next
    case ws: (Cons w ws')
    let ?tail = "\<lambda>xs q. (if xs = [] then [] else CHR '','' # comma_list (map tree_text xs)) @ CHR ''}'' # q"
    have "tree_text v @ ?tail vs r = tree_text w @ ?tail ws' r'"
      using Cons.prems(3) ws by (simp add: comma_list_Cons)
    moreover have "closes (?tail vs r)" "closes (?tail ws' r')" by (simp_all add: closes_def)
    moreover have "v \<in> V" "w \<in> V" using Cons.prems(1,2) ws by simp_all
    ultimately have "v = w \<and> ?tail vs r = ?tail ws' r'" by (rule_tac readableD [OF assms(1)])
    then show ?thesis using Cons.IH [of ws'] Cons.prems(1,2) ws by (auto split: if_splits)
  qed
qed

lemma seq_readable:
  assumes "readable V" and "starts_well V"
  shows "readable {VSeq vs | vs. set vs \<subseteq> V}"
  unfolding readable_def
proof (intro ballI allI impI)
  fix v w r r'
  assume "v \<in> {VSeq vs | vs. set vs \<subseteq> V}" "w \<in> {VSeq vs | vs. set vs \<subseteq> V}" and e: "tree_text v @ r = tree_text w @ r'"
  then obtain vs ws where "v = VSeq vs" "w = VSeq ws" "set vs \<subseteq> V" "set ws \<subseteq> V" by auto
  then show "v = w \<and> r = r'" using comma_list_readable [OF assms, of vs ws r r'] e by simp
qed

lemma tree_readable: "number_tree t \<Longrightarrow> readable {v. has_type t v} \<and> starts_well {v. has_type t v}"
proof (induction t)
  case TInt
  have "closes r \<Longrightarrow> r = [] \<or> \<not> num_char (hd r)" for r by (auto simp: closes_def num_char_def is_digit_def)
  then have "i = j \<and> r = r'" if "closes r" "closes r'" "decimal i @ r = decimal j @ r'" for i j r r'
    using that by (intro decimal_append_inject) auto
  then have "readable {v. has_type TInt v}" unfolding readable_def by auto
  moreover have "hd (decimal i) \<noteq> CHR ''}''" for i
    using decimal_chars [OF hd_in_set [OF decimal_nonempty], of i] by (auto simp: num_char_def is_digit_def)
  then have "starts_well {v. has_type TInt v}" by (auto simp: starts_well_def)
  ultimately show ?case ..
next
  case (TVector t)
  have "{v. has_type (TVector t) v} = {VSeq vs | vs. set vs \<subseteq> {v. has_type t v}}" by auto
  then show ?case using seq_readable TVector by (auto simp: starts_well_def)
next
  case (TBidir t)
  have "{v. has_type (TBidir t) v} = {VSeq vs | vs. set vs \<subseteq> {v. has_type t v}}" by auto
  then show ?case using seq_readable TBidir by (auto simp: starts_well_def)
qed simp_all

section \<open>Case markers\<close>

text \<open>The numbered lines \<open>printSub\<close> writes, from the counter's value on.\<close>

fun sub_lines :: "int \<Rightarrow> string list \<Rightarrow> string" where
  "sub_lines n [] = []"
| "sub_lines n (m # ms) = ''--- '' @ decimal (n + 1) @ '':'' @ m @ '' ---'' @ newline @ sub_lines (n + 1) ms"

lemma put_out_append [simp]: "put_out t (put_out s k) = put_out (s @ t) k"
  by (simp add: put_out_def)

lemma put_out_Nil [simp]: "put_out [] k = k"
  by (simp add: put_out_def)

lemma printSubs:
  "[] \<notin> set ms \<Longrightarrow> fold_res printSub_text ms (c, k) =
     Ok (c\<lparr>sub_counter := sub_counter c + int (length ms)\<rparr>, put_out (sub_lines (sub_counter c) ms) k)"
proof (induction ms arbitrary: c k)
  case (Cons m ms)
  let ?c = "c\<lparr>sub_counter := sub_counter c + 1\<rparr>"
  let ?k = "put_out (''--- '' @ decimal (sub_counter c + 1) @ '':'' @ m @ '' ---'' @ newline) k"
  have "printSub_text m (c, k) = Ok (?c, ?k)" using Cons.prems by (auto simp: printSub_text_def Let_def)
  then show ?case using Cons.IH [of ?c ?k] Cons.prems by simp
qed simp

section \<open>Properties\<close>

text \<open>
  C39. Type safety of the printing templates. A call of \<open>doPrint\<close> can be instantiated, overload resolution and bodies
  together, exactly for the printable types, whatever the kind of argument: numbers, characters, strings, pairs of
  such, and containers of printable types, to any depth, that have \<open>empty()\<close> and iterators that step back. So not for scoped
  enumerations (which \<open>IsCoutable\<close> accepts), unordered containers, forward lists, optionals, and maps whose keys are pairs.
  \<open>printContainer\<close> can be instantiated exactly for containers of streamable elements that can be iterated over and for vectors
  of these. And for every value of such a type the selected overloads produce a text.
\<close>

theorem print_templates_type_safe:
  "(doPrint_compiles c t \<longleftrightarrow> printable t)
   \<and> (printable t \<longrightarrow> has_type t v \<longrightarrow> (\<exists>s. doPrint c t v = Some s))
   \<and> (printContainer_compiles t \<longleftrightarrow> container_printable t)
   \<and> (container_printable t \<longrightarrow> has_type t v \<longrightarrow> (\<exists>s. printContainer d t v = Some s))"
  using compiles_iff_printable [of c t] doPrint_total [of c t v] container_compiles_iff [of t] printContainer_total [of t v d] by blast

theorem print_templates_type_safe_witness:
  "(\<exists>s. doPrint True (TVector (TBidir (TEntry TInt TString))) (VSeq [VSeq [VPair (VInt 1) (VString ''a'')], VSeq []]) = Some s)
     \<and> (\<exists>s. printContainer (CHR 0x0A) (TVector TString) (VSeq [VString ''ab'']) = Some s)
     \<and> \<not> doPrint_compiles True (TForward TInt) \<and> \<not> doPrint_compiles False (TBidir (TEntry (TPair TInt TInt) TInt))
     \<and> \<not> printContainer_compiles (TVector TEnum)"
proof (intro conjI)
  show "\<exists>s. doPrint True (TVector (TBidir (TEntry TInt TString))) (VSeq [VSeq [VPair (VInt 1) (VString ''a'')], VSeq []]) = Some s"
    using print_templates_type_safe [of True "TVector (TBidir (TEntry TInt TString))" "VSeq [VSeq [VPair (VInt 1) (VString ''a'')], VSeq []]"] by simp
  have "container_printable (TVector TString)" by (simp add: container_printable_def iterates_def)
  then show "\<exists>s. printContainer (CHR 0x0A) (TVector TString) (VSeq [VString ''ab'']) = Some s"
    using print_templates_type_safe [of True "TVector TString" "VSeq [VString ''ab'']" "CHR 0x0A"] by simp
  show "\<not> doPrint_compiles True (TForward TInt)" using print_templates_type_safe [of True "TForward TInt"] by simp
  show "\<not> doPrint_compiles False (TBidir (TEntry (TPair TInt TInt) TInt))"
    using print_templates_type_safe [of False "TBidir (TEntry (TPair TInt TInt) TInt)"] by simp
  show "\<not> printContainer_compiles (TVector TEnum)"
    using print_templates_type_safe [of True "TVector TEnum"] by (simp add: container_printable_def)
qed

text \<open>
  Printed number structures can be read back. For containers of containers of numbers, of any depth
  and with empty containers at any level, \<open>doPrintContainer\<close> prints different values of a type as different texts.
\<close>

theorem printed_numbers_unambiguous:
  assumes "number_tree t" and "has_type t v" and "has_type t w"
  shows "doPrintContainer t v = doPrintContainer t w \<longleftrightarrow> v = w"
proof
  assume "doPrintContainer t v = doPrintContainer t w"
  then have "tree_text v @ [] = tree_text w @ []" using assms by (simp add: doPrintContainer_def doPrint_tree)
  then show "v = w" using tree_readable [OF assms(1)] readableD [of _ v w "[]" "[]"] assms(2,3) by (auto simp: closes_def)
qed simp

theorem printed_numbers_unambiguous_witness:
  "doPrintContainer (TVector (TVector TInt)) (VSeq [VSeq [VInt 1], VSeq []]) \<noteq> doPrintContainer (TVector (TVector TInt)) (VSeq [VSeq [], VSeq [VInt 1]])"
  using printed_numbers_unambiguous [of "TVector (TVector TInt)" "VSeq [VSeq [VInt 1], VSeq []]" "VSeq [VSeq [], VSeq [VInt 1]]"] by auto

text \<open>
  Strings in containers are taken apart: as a constant lvalue a string is printed as a container of
  characters, so a vector of strings prints braces around every string and commas between its letters,
  and \<open>printContainer\<close> separates the letters by spaces.
\<close>

lemma doPrint_string_chars: "doPrint True TString (VString s) = Some (''{'' @ comma_list (map (\<lambda>c. [c]) s) @ ''}'')"
proof -
  have "doPrint True TChar (VChar c) = Some [c]" for c by (simp add: doPrint.simps [of True TChar] pick_doPrint_def)
  then have "those (map (doPrint True TChar) (map VChar s)) = Some (map (\<lambda>c. [c]) s)" by (induction s) simp_all
  then show ?thesis by (simp add: doPrint.simps [of True TString] pick_doPrint_def)
qed

lemma lines_out_chars: "lines_out d (map VChar s) = Some (concat (map (\<lambda>c. [c, d]) s))"
  by (induction s) simp_all

theorem strings_in_containers_are_taken_apart:
  "doPrint False TString (VString s) = Some s"
  "doPrint c (TVector TString) (VSeq (map VString ss)) =
     Some (''{'' @ comma_list (map (\<lambda>s. ''{'' @ comma_list (map (\<lambda>c. [c]) s) @ ''}'') ss) @ ''}'')"
  "printContainer d (TVector TString) (VSeq (map VString ss)) =
     Some (concat (map (\<lambda>s. concat (map (\<lambda>c. [c, CHR '' '']) s) @ [d]) ss))"
proof -
  show "doPrint False TString (VString s) = Some s" by (simp add: doPrint.simps pick_doPrint_def)
  have "those (map (doPrint True TString) (map VString ss)) = Some (map (\<lambda>s. ''{'' @ comma_list (map (\<lambda>c. [c]) s) @ ''}'') ss)"
    by (induction ss) (simp_all add: doPrint_string_chars)
  then show "doPrint c (TVector TString) (VSeq (map VString ss)) =
      Some (''{'' @ comma_list (map (\<lambda>s. ''{'' @ comma_list (map (\<lambda>c. [c]) s) @ ''}'') ss) @ ''}'')"
    by (simp add: doPrint.simps [of c] pick_doPrint_def)
  have "printContainer (CHR '' '') TString (VString s) = Some (concat (map (\<lambda>c. [c, CHR '' '']) s))" for s
    by (simp add: printContainer.simps pick_printContainer_def lines_out_chars)
  then have "those (map (printContainer (CHR '' '') TString) (map VString ss)) = Some (map (\<lambda>s. concat (map (\<lambda>c. [c, CHR '' '']) s)) ss)"
    by (induction ss) simp_all
  then show "printContainer d (TVector TString) (VSeq (map VString ss)) =
      Some (concat (map (\<lambda>s. concat (map (\<lambda>c. [c, CHR '' '']) s) @ [d]) ss))"
    by (simp add: printContainer.simps [of d] pick_printContainer_def comp_def)
qed

text \<open>
  The output of a marked case: a marker with a text frames its numbered sub-markers by a line at the
  beginning and one at the end; empty texts are refused before anything is printed.
\<close>

theorem case_marker_frames:
  assumes "m \<noteq> []" and "[] \<notin> set subs"
  shows "res_bind (CaseMarker_named m k) (\<lambda>s. res_bind (fold_res printSub_text subs s) (\<lambda>(c, k). CaseMarker_destroy c k)) =
      Ok (put_out newline (printDividing_text (''end case '' @ m) (put_out (sub_lines 0 subs) (printDividing_text (''run case '' @ m) k))))"
    and "CaseMarker_named [] k = Err InvalidArgument" and "printSub_text [] s = Err InvalidArgument"
proof -
  show "res_bind (CaseMarker_named m k) (\<lambda>s. res_bind (fold_res printSub_text subs s) (\<lambda>(c, k). CaseMarker_destroy c k)) =
      Ok (put_out newline (printDividing_text (''end case '' @ m) (put_out (sub_lines 0 subs) (printDividing_text (''run case '' @ m) k))))"
    using assms printSubs [OF assms(2)] by (simp add: CaseMarker_named_def CaseMarker_destroy_def)
  show "CaseMarker_named [] k = Err InvalidArgument" by (simp add: CaseMarker_named_def)
  show "printSub_text [] s = Err InvalidArgument" by (cases s) (simp add: printSub_text_def)
qed

text \<open>
  Measuring a call: with a clock that does not run backwards and a span below \<open>2^63\<close> milliseconds the
  result is the elapsed time in whole milliseconds, rounded down, and the call's effect is unchanged.
\<close>

theorem invokeAndMeasure_elapsed:
  assumes "func s = Ok s'" and "now s \<le> now s'" and "(now s' - now s) div 1000000 < 2 ^ 63"
  shows "invokeAndMeasure now func s = Ok ((now s' - now s) div 1000000, s')"
proof -
  let ?d = "(now s' - now s) div 1000000"
  have "0 \<le> ?d" using assms(2) by (simp add: pos_imp_zdiv_nonneg_iff)
  then have "sint (word_of_int ?d :: u64) = ?d" using assms(3) by (simp add: sint_sbintrunc' signed_take_bit_int_eq_self)
  then show ?thesis using assms by (simp add: invokeAndMeasure_def GetTimeSpan_destroy_def getTimeSpanMs_def Let_def)
qed

end
