(* ===== verification/Io_Batches.thy ===== *)
theory Io_Batches
  imports Io_Manager
begin

text \<open>
  Whole turns of the event loop (\<open>IOManager::blockPending\<close>, src/io/io\_manager.cpp) with any number of
  ready descriptors and expired timers: what one batch of events does, and where the loop's use of the
  first event's descriptor for every event of the batch shows.
\<close>

section \<open>Batches\<close>

text \<open>
  Draining the wake-up pipe ends and leaves the interest list alone: \<open>read(2)\<close> of a non-blocking pipe
  fails once it is empty.
\<close>

definition pipe_drains :: "'k kernel_api \<Rightarrow> ('k \<Rightarrow> fd \<Rightarrow> u32 option) \<Rightarrow> fd \<Rightarrow> bool" where
  "pipe_drains api interest pipe \<longleftrightarrow> (\<forall>k. \<exists>k'. drain_pipe (sys_read api pipe 8) k = Some k' \<and> interest k' = interest k)"

definition once_at :: "('cb, 'k) io_manager \<Rightarrow> fd \<Rightarrow> bool" where
  "once_at m i \<longleftrightarrow> 0 \<le> i \<and> i < int (length (fd_events m)) \<and> read_call_once (events_at m i) \<and> write_call_once (events_at m i)"

text \<open>What an event of a batch puts on the ready queue.\<close>

definition fired :: "('cb, 'k) io_manager \<Rightarrow> fd \<times> u32 \<Rightarrow> eptr option list" where
  "fired m ev = (if fst ev = fst (wakeup_pipe_fd m) then [] else woken (snd ev) (events_at m (fst ev)))"

text \<open>
  A batch of events for different descriptors, each the pipe or one the table has; what the table has of
  them are registrations for once.
\<close>

definition batch_ok :: "('cb, 'k) io_manager \<Rightarrow> (fd \<times> u32) list \<Rightarrow> bool" where
  "batch_ok m evs \<longleftrightarrow> distinct (map fst evs)
     \<and> (\<forall>ev \<in> set evs. (fst ev = fst (wakeup_pipe_fd m) \<and> int (length (fd_events m)) \<le> fst ev) \<or> once_at m (fst ev))"

text \<open>
  The turn that reads behind the table: the wake-up pipe is reported first, the table does not reach as far as
  its descriptor, and a descriptor is reported readable or writable behind it, for which the loop looks
  the flags up under the first event's descriptor.
\<close>

definition reads_flags :: "('cb, 'k) io_manager \<Rightarrow> fd \<times> u32 \<Rightarrow> bool" where
  "reads_flags m ev \<longleftrightarrow> fst ev \<noteq> fst (wakeup_pipe_fd m) \<and> (snd ev AND EPOLLIN \<noteq> 0 \<or> snd ev AND EPOLLOUT \<noteq> 0)"

definition overruns :: "('cb, 'k) io_manager \<Rightarrow> (fd \<times> u32) list \<Rightarrow> bool" where
  "overruns m evs \<longleftrightarrow> evs \<noteq> [] \<and> fst (hd evs) = fst (wakeup_pipe_fd m) \<and> int (length (fd_events m)) \<le> fst (hd evs)
     \<and> (\<exists>ev \<in> set evs. reads_flags m ev)"

text \<open>How the registration of a descriptor changes by an event of the batch.\<close>

definition deregistered :: "('cb, 'k) io_manager \<Rightarrow> ('cb, 'k) io_manager \<Rightarrow> fd \<times> u32 \<Rightarrow> bool" where
  "deregistered m m' ev \<longleftrightarrow>
     (hasEvent (fst ev) Read m' = Ok True \<longleftrightarrow> hasEvent (fst ev) Read m = Ok True \<and> snd ev AND EPOLLIN = 0)
     \<and> (hasEvent (fst ev) Write m' = Ok True \<longleftrightarrow> hasEvent (fst ev) Write m = Ok True \<and> snd ev AND EPOLLOUT = 0)"

text \<open>What every event of a batch keeps.\<close>

definition same_frame :: "('cb, 'k) io_manager \<Rightarrow> ('cb, 'k) io_manager \<Rightarrow> bool" where
  "same_frame m m' \<longleftrightarrow> thr (io_world m') = thr (io_world m) \<and> length (fd_events m') = length (fd_events m)
     \<and> wakeup_pipe_fd m' = wakeup_pipe_fd m \<and> timer_manager m' = timer_manager m"

lemma same_frame_trans: "same_frame a b \<Longrightarrow> same_frame b c \<Longrightarrow> same_frame a c"
  by (simp add: same_frame_def)

text \<open>Without \<open>EPOLLIN\<close> and \<open>EPOLLOUT\<close> the descriptor of the first event is not looked at.\<close>

lemma handle_event_flagless:
  assumes "\<not> reads_flags m ev"
  shows "handle_event api f ev m = handle_event api g ev m"
  using assms by (cases ev) (auto simp: handle_event_def reads_flags_def once_or_reuse_def Let_def)

lemma once_first:
  assumes "batch_ok m evs" and "\<not> overruns m evs" and "\<exists>ev \<in> set evs. reads_flags m ev"
  shows "once_at m (fst (hd evs))"
  using assms by (cases evs) (auto simp: batch_ok_def overruns_def)

lemma handle_event_step:
  assumes "epoll_ctl_ok api interest usable" and "pipe_drains api interest (fst (wakeup_pipe_fd m))" and "watch_ok interest m"
    and "\<not> stopping (io_sch m)" and "reads_flags m ev \<Longrightarrow> once_at m f" and "fst ev \<noteq> fst (wakeup_pipe_fd m) \<Longrightarrow> once_at m (fst ev)"
  shows "\<exists>m'. handle_event api f ev m = Ok m' \<and> watch_ok interest m' \<and> same_frame m m'
    \<and> io_sch m' = (io_sch m)\<lparr>ready_executors := ready_executors (io_sch m) @ fired m ev\<rparr>
    \<and> (fst ev \<noteq> fst (wakeup_pipe_fd m) \<longrightarrow> deregistered m m' ev)
    \<and> (\<forall>j. j \<noteq> fst ev \<longrightarrow> events_at m' j = events_at m j) \<and> (\<forall>j. once_at m' j \<longleftrightarrow> once_at m j)"
proof (cases "fst ev = fst (wakeup_pipe_fd m)")
  case True
  obtain k' where k: "drain_pipe (sys_read api (fst (wakeup_pipe_fd m)) 8) (kern m) = Some k'" "interest k' = interest (kern m)"
    using assms(2) by (auto simp: pipe_drains_def)
  have "handle_event api f ev m = Ok (m\<lparr>kern := k'\<rparr>)" using True k(1) by (cases ev) (simp add: handle_event_def)
  moreover have "watch_ok interest (m\<lparr>kern := k'\<rparr>)" using assms(3) k(2) watch_ok_cong [of "m\<lparr>kern := k'\<rparr>" m interest] by simp
  ultimately show ?thesis using True by (auto simp: same_frame_def fired_def io_sch_def once_at_def)
next
  case False
  obtain g where g: "handle_event api f ev m = handle_event api g ev m" "once_at m g"
  proof (cases "reads_flags m ev")
    case True
    then show thesis using that [OF refl] assms(5) by blast
  next
    case no: False
    show thesis by (rule that [OF handle_event_flagless [OF no] assms(6) [OF False]])
  qed
  note o = assms(6) [OF False, unfolded once_at_def] g(2) [unfolded once_at_def]
  obtain m' where m': "handle_event api g ev m = Ok m'" "watch_ok interest m'"
    "io_sch m' = (io_sch m)\<lparr>ready_executors := ready_executors (io_sch m) @ woken (snd ev) (events_at m (fst ev))\<rparr>"
    "deregistered m m' ev" "\<forall>j. j \<noteq> fst ev \<longrightarrow> events_at m' j = events_at m j"
    "read_call_once (events_at m' (fst ev))" "write_call_once (events_at m' (fst ev))" "same_frame m m'"
    using handle_event_in_batch [OF assms(1,3) _ _ False assms(4), of g "snd ev"] o
    by (auto simp: deregistered_def same_frame_def)
  have "once_at m' j \<longleftrightarrow> once_at m j" for j
    using m'(5-8) o by (cases "j = fst ev") (auto simp: once_at_def same_frame_def)
  then show ?thesis using m' False g(1) by (auto simp: fired_def)
qed

lemma handle_events_all:
  assumes "epoll_ctl_ok api interest usable"
  shows "pipe_drains api interest (fst (wakeup_pipe_fd m)) \<Longrightarrow> watch_ok interest m \<Longrightarrow> \<not> stopping (io_sch m) \<Longrightarrow> batch_ok m evs
    \<Longrightarrow> (\<exists>ev \<in> set evs. reads_flags m ev) \<longrightarrow> once_at m f
    \<Longrightarrow> \<exists>m'. handle_events api f evs m = Ok m' \<and> watch_ok interest m' \<and> same_frame m m'
      \<and> io_sch m' = (io_sch m)\<lparr>ready_executors := ready_executors (io_sch m) @ concat (map (fired m) evs)\<rparr>
      \<and> (\<forall>ev \<in> set evs. fst ev \<noteq> fst (wakeup_pipe_fd m) \<longrightarrow> deregistered m m' ev)
      \<and> (\<forall>j. j \<notin> fst ` set evs \<longrightarrow> events_at m' j = events_at m j)"
proof (induction evs arbitrary: m)
  case (Cons ev evs)
  then have f: "reads_flags m ev \<Longrightarrow> once_at m f" and o: "fst ev \<noteq> fst (wakeup_pipe_fd m) \<Longrightarrow> once_at m (fst ev)" and
    d: "fst ev \<notin> fst ` set evs" "batch_ok m evs" by (auto simp: batch_ok_def)
  from handle_event_step [OF assms Cons.prems(1-3) f o] obtain m1 where m1: "handle_event api f ev m = Ok m1" "watch_ok interest m1" "same_frame m m1"
    "io_sch m1 = (io_sch m)\<lparr>ready_executors := ready_executors (io_sch m) @ fired m ev\<rparr>"
    "fst ev \<noteq> fst (wakeup_pipe_fd m) \<longrightarrow> deregistered m m1 ev"
    "\<forall>j. j \<noteq> fst ev \<longrightarrow> events_at m1 j = events_at m j" "\<forall>j. once_at m1 j \<longleftrightarrow> once_at m j"
    by blast
  have w: "wakeup_pipe_fd m1 = wakeup_pipe_fd m" using m1(3) by (simp add: same_frame_def)
  have "batch_ok m1 evs" using d(2) w m1(3,7) by (simp add: batch_ok_def same_frame_def)
  moreover have "(\<exists>ev \<in> set evs. reads_flags m1 ev) \<longrightarrow> once_at m1 f" using Cons.prems(5) w m1(7) by (auto simp: reads_flags_def)
  ultimately obtain m2 where m2: "handle_events api f evs m1 = Ok m2" "watch_ok interest m2" "same_frame m1 m2"
    "io_sch m2 = (io_sch m1)\<lparr>ready_executors := ready_executors (io_sch m1) @ concat (map (fired m1) evs)\<rparr>"
    "\<forall>ev \<in> set evs. fst ev \<noteq> fst (wakeup_pipe_fd m) \<longrightarrow> deregistered m1 m2 ev"
    "\<forall>j. j \<notin> fst ` set evs \<longrightarrow> events_at m2 j = events_at m1 j"
    using Cons.IH [of m1] Cons.prems(1,3) m1(2,4) w by auto
  have e: "events_at m1 (fst x) = events_at m (fst x)" if "x \<in> set evs" for x using m1(6) d(1) that by (metis imageI)
  have fm: "map (fired m1) evs = map (fired m) evs" using e w by (simp add: fired_def)
  have "io_sch m2 = (io_sch m)\<lparr>ready_executors := ready_executors (io_sch m) @ concat (map (fired m) (ev # evs))\<rparr>"
    unfolding m2(4) m1(4) fm by simp
  moreover have "0 \<le> fst x" if "x \<in> set (ev # evs)" "fst x \<noteq> fst (wakeup_pipe_fd m)" for x
    using Cons.prems(4) that by (auto simp: batch_ok_def once_at_def)
  then have "deregistered m m2 x" if "x \<in> set (ev # evs)" "fst x \<noteq> fst (wakeup_pipe_fd m)" for x
    using that m1(5) m2(5,6) e d(1) by (cases "x = ev") (auto simp: deregistered_def hasEvent_eq)
  ultimately show ?case
    using m1(1,6) m2(1,2,6) same_frame_trans [OF m1(3) m2(3)] by auto
qed (auto simp: same_frame_def)

lemma handle_events_overrun:
  assumes "epoll_ctl_ok api interest usable"
  shows "pipe_drains api interest (fst (wakeup_pipe_fd m)) \<Longrightarrow> watch_ok interest m \<Longrightarrow> \<not> stopping (io_sch m) \<Longrightarrow> batch_ok m evs
    \<Longrightarrow> int (length (fd_events m)) \<le> f \<Longrightarrow> \<exists>ev \<in> set evs. reads_flags m ev \<Longrightarrow> handle_events api f evs m = Err OutOfBounds"
proof (induction evs arbitrary: m)
  case (Cons ev evs)
  then have o: "fst ev \<noteq> fst (wakeup_pipe_fd m) \<Longrightarrow> once_at m (fst ev)" and d: "batch_ok m evs" by (auto simp: batch_ok_def)
  show ?case
  proof (cases "reads_flags m ev")
    case True
    then have "once_at m (fst ev)" using o by (simp add: reads_flags_def)
    then have "handle_event api f ev m = Err OutOfBounds"
      using True Cons.prems(5) by (cases ev) (auto simp: handle_event_def reads_flags_def once_or_reuse_def once_at_def vec_get_def)
    then show ?thesis by simp
  next
    case False
    with handle_event_step [OF assms Cons.prems(1-3) _ o, of f] obtain m1 where m1: "handle_event api f ev m = Ok m1" "watch_ok interest m1"
      "same_frame m m1" "io_sch m1 = (io_sch m)\<lparr>ready_executors := ready_executors (io_sch m) @ fired m ev\<rparr>"
      "\<forall>j. once_at m1 j \<longleftrightarrow> once_at m j" by blast
    have "batch_ok m1 evs" "int (length (fd_events m1)) \<le> f" "\<exists>ev \<in> set evs. reads_flags m1 ev"
      using d Cons.prems(5,6) False m1(3,5) by (auto simp: batch_ok_def same_frame_def reads_flags_def)
    then show ?thesis using Cons.IH [of m1] Cons.prems(1,3) m1(1-4) by (simp add: same_frame_def)
  qed
qed simp

section \<open>Properties\<close>

lemma blockPending_batch:
  assumes api: "epoll_ctl_ok api interest usable" and drain: "pipe_drains api interest (fst (wakeup_pipe_fd m))"
    and ok: "watch_ok interest m" and run: "\<not> stopping (io_sch m)"
    and alloc: "alloc_ok alloc" "finite (dom (heap (thr (io_world m))))"
    and ts: "\<forall>t \<in> set (timer_manager m). callback t \<noteq> None" "takeExpiredTimers now_after (timer_manager m) = (due, rest)"
    and wait: "sys_epoll_wait api epoll_wait_max_size (epoll_timeout now_before (timer_manager m)) (kern m) = (Inr evs, k)"
      "interest k = interest (kern m)"
    and evs: "batch_ok m evs" "\<not> overruns m evs"
  shows "\<exists>m' ps. blockPending api alloc now_before now_after m = Ok m' \<and> timer_manager m' = rest \<and> watch_ok interest m'
     \<and> ready_executors (io_sch m') = ready_executors (io_sch m) @ map Some ps @ concat (map (fired m) evs)
     \<and> list_all2 (\<lambda>p t. new_task (thr (io_world m')) p (callback t)) ps due \<and> distinct ps
     \<and> (\<forall>p e. heap (thr (io_world m)) p = Some e \<longrightarrow> heap (thr (io_world m')) p = Some e)
     \<and> (\<forall>ev \<in> set evs. fst ev \<noteq> fst (wakeup_pipe_fd m) \<longrightarrow> deregistered m m' ev)
     \<and> (\<forall>j. j \<notin> fst ` set evs \<longrightarrow> events_at m' j = events_at m j)"
proof -
  obtain w ps where w: "blockPending api alloc now_before now_after m = handle_events api (fst (hd evs)) evs (m\<lparr>kern := k, timer_manager := rest, io_world := w\<rparr>)"
    "sch w = (sch (io_world m))\<lparr>ready_executors := ready_executors (sch (io_world m)) @ map Some ps\<rparr>"
    "list_all2 (\<lambda>p t. new_task (thr w) p (callback t)) ps due" "distinct ps"
    "\<forall>p e. heap (thr (io_world m)) p = Some e \<longrightarrow> heap (thr w) p = Some e"
    using blockPending_timers [OF alloc(1) run ts(1) wait(1) ts(2) alloc(2)] by blast
  let ?m = "m\<lparr>kern := k, timer_manager := rest, io_world := w\<rparr>"
  have s: "events_at ?m j = events_at m j" "wakeup_pipe_fd ?m = wakeup_pipe_fd m" "once_at ?m j \<longleftrightarrow> once_at m j" for j
    by (simp_all add: events_at_def once_at_def)
  have f: "fired ?m = fired m" by (rule ext) (simp add: fired_def s)
  have "watch_ok interest ?m" using ok wait(2) watch_ok_cong [of ?m m interest] by simp
  moreover have "\<not> stopping (io_sch ?m)" using run w(2) by (simp add: io_sch_def)
  moreover have "batch_ok ?m evs" using evs(1) s by (simp add: batch_ok_def)
  moreover have "(\<exists>ev \<in> set evs. reads_flags ?m ev) \<longrightarrow> once_at ?m (fst (hd evs))"
    using once_first [OF evs] s by (simp add: reads_flags_def)
  ultimately obtain m' where m': "handle_events api (fst (hd evs)) evs ?m = Ok m'" "watch_ok interest m'" "same_frame ?m m'"
    "io_sch m' = (io_sch ?m)\<lparr>ready_executors := ready_executors (io_sch ?m) @ concat (map (fired m) evs)\<rparr>"
    "\<forall>ev \<in> set evs. fst ev \<noteq> fst (wakeup_pipe_fd m) \<longrightarrow> deregistered ?m m' ev"
    "\<forall>j. j \<notin> fst ` set evs \<longrightarrow> events_at m' j = events_at m j"
    using handle_events_all [OF api, of ?m evs "fst (hd evs)"] drain s f by auto
  have "deregistered ?m m' ev \<Longrightarrow> deregistered m m' ev" for ev by (simp add: deregistered_def hasEvent_def)
  then show ?thesis using w m' by (intro exI [of _ m'] exI [of _ ps]) (auto simp: same_frame_def io_sch_def)
qed

lemma blockPending_overrun:
  assumes api: "epoll_ctl_ok api interest usable" and drain: "pipe_drains api interest (fst (wakeup_pipe_fd m))"
    and ok: "watch_ok interest m" and run: "\<not> stopping (io_sch m)"
    and alloc: "alloc_ok alloc" "finite (dom (heap (thr (io_world m))))"
    and ts: "\<forall>t \<in> set (timer_manager m). callback t \<noteq> None"
    and wait: "sys_epoll_wait api epoll_wait_max_size (epoll_timeout now_before (timer_manager m)) (kern m) = (Inr evs, k)"
      "interest k = interest (kern m)"
    and evs: "batch_ok m evs" "overruns m evs"
  shows "blockPending api alloc now_before now_after m = Err OutOfBounds"
proof -
  obtain due rest where take: "takeExpiredTimers now_after (timer_manager m) = (due, rest)" by fastforce
  obtain w ps where w: "blockPending api alloc now_before now_after m = handle_events api (fst (hd evs)) evs (m\<lparr>kern := k, timer_manager := rest, io_world := w\<rparr>)"
    "sch w = (sch (io_world m))\<lparr>ready_executors := ready_executors (sch (io_world m)) @ map Some ps\<rparr>"
    using blockPending_timers [OF alloc(1) run ts wait(1) take alloc(2)] by blast
  let ?m = "m\<lparr>kern := k, timer_manager := rest, io_world := w\<rparr>"
  have s: "once_at ?m j \<longleftrightarrow> once_at m j" for j by (simp add: events_at_def once_at_def)
  have "watch_ok interest ?m" using ok wait(2) watch_ok_cong [of ?m m interest] by simp
  moreover have "\<not> stopping (io_sch ?m)" using run w(2) by (simp add: io_sch_def)
  moreover have "batch_ok ?m evs" using evs(1) s by (simp add: batch_ok_def)
  moreover have "int (length (fd_events ?m)) \<le> fst (hd evs)" "\<exists>ev \<in> set evs. reads_flags ?m ev"
    using evs(2) by (auto simp: overruns_def reads_flags_def)
  ultimately show ?thesis using handle_events_overrun [OF api, of ?m evs "fst (hd evs)"] drain w(1) by simp
qed

text \<open>
  C14. A whole turn of the event loop, with any number of descriptors ready at once (each reported once, as
  epoll\_wait(2) does; the wake-up pipe among them or not) whose registrations are for once, the default of
  \<open>registerEvent\<close>, and with any timers in the ordered set. One kind of report ends the program: the pipe first, the
  table not reaching its descriptor, and a descriptor readable or writable behind it; the
  turn then reads behind the table. With every other report the turn succeeds: exactly the timers whose
  deadline is not after the clock leave the set, each repeating one leaving a new copy; the ready queue grows by one new
  coroutine per expired timer in deadline order and then by the coroutines waiting for the events in the order the kernel
  reports them; exactly the directions that fired are no longer registered, in the table and in the kernel, which
  stay in step; no other descriptor changes, and existing coroutines stay as they are.
\<close>

theorem event_loop_turn:
  assumes "epoll_ctl_ok api interest usable" and "pipe_drains api interest (fst (wakeup_pipe_fd m))"
    and "watch_ok interest m" and "\<not> stopping (io_sch m)"
    and "alloc_ok alloc" and "finite (dom (heap (thr (io_world m))))"
    and "timers_ok (timer_manager m)" and "\<forall>t \<in> set (timer_manager m). callback t \<noteq> None"
    and "sys_epoll_wait api epoll_wait_max_size (epoll_timeout now_before (timer_manager m)) (kern m) = (Inr evs, k)"
    and "interest k = interest (kern m)" and "batch_ok m evs"
  shows "if overruns m evs then blockPending api alloc now_before now_after m = Err OutOfBounds
     else \<exists>m' ps due. blockPending api alloc now_before now_after m = Ok m' \<and> watch_ok interest m'
       \<and> due = filter (\<lambda>t. target_timestamp t \<le> now_after 0) (timer_manager m) \<and> timers_ok (timer_manager m')
       \<and> mset (timer_manager m') = {#t \<in># mset (timer_manager m). now_after 0 < target_timestamp t#} + mset (rearmed now_after 1 due)
       \<and> ready_executors (io_sch m') = ready_executors (io_sch m) @ map Some ps @ concat (map (fired m) evs)
       \<and> list_all2 (\<lambda>p t. new_task (thr (io_world m')) p (callback t)) ps due \<and> distinct ps
       \<and> (\<forall>p e. heap (thr (io_world m)) p = Some e \<longrightarrow> heap (thr (io_world m')) p = Some e)
       \<and> (\<forall>ev \<in> set evs. fst ev \<noteq> fst (wakeup_pipe_fd m) \<longrightarrow> deregistered m m' ev)
       \<and> (\<forall>j. j \<notin> fst ` set evs \<longrightarrow> events_at m' j = events_at m j)"
proof (cases "overruns m evs")
  case True
  then show ?thesis using blockPending_overrun [OF assms(1-6,8-11)] by simp
next
  case False
  obtain due rest where take: "takeExpiredTimers now_after (timer_manager m) = (due, rest)" by fastforce
  have d: "due = filter (\<lambda>t. target_timestamp t \<le> now_after 0) (timer_manager m)"
    using take takeExpiredTimers_eq [OF assms(7), of now_after] by (simp add: expired_def [abs_def])
  have "mset rest = {#t \<in># mset (timer_manager m). now_after 0 < target_timestamp t#} + mset (rearmed now_after 1 due)"
    using take takeExpiredTimers_eq [OF assms(7), of now_after] by (auto simp: expired_def [abs_def] mset_rearm not_le)
  moreover have "timers_ok rest" using tm.poll_inv [OF assms(7), of now_after] take by simp
  ultimately show ?thesis using blockPending_batch [OF assms(1-6,8) take assms(9-11) False] False d by auto
qed

text \<open>A kernel that reports descriptor 7 readable, 9 writable and the pipe.\<close>

definition busy_api :: "(fd \<Rightarrow> u32 option) kernel_api" where
  "busy_api = demo_api\<lparr>sys_epoll_wait := \<lambda>_ _ k. (Inr [(7, EPOLLIN), (4, EPOLLIN), (9, EPOLLOUT)], k)\<rparr>"

lemma busy_api_ok: "epoll_ctl_ok busy_api (\<lambda>k. k) UNIV"
  using demo_api_ok by (simp add: epoll_ctl_ok_def busy_api_def)

lemma busy_api_drains: "pipe_drains busy_api (\<lambda>k. k) 4"
  unfolding pipe_drains_def by (subst drain_pipe.simps) (simp add: busy_api_def demo_api_def)

definition busy_events :: "FdEvents list" where
  "busy_events = replicate 7 FdEvents_default @ [FdEvents_default\<lparr>registered_events := EPOLLIN, read_executor := Some 21\<rparr>,
     FdEvents_default, FdEvents_default\<lparr>registered_events := EPOLLOUT, write_executor := Some 22\<rparr>]"

theorem event_loop_turn_witness:
  "\<exists>m m'. timer_manager m = [new_timer 0 10 (Some ()) False]
     \<and> (\<exists>p. blockPending busy_api (\<lambda>th. LEAST p. heap th p = None) (\<lambda>_. 0) (\<lambda>_. 10) m = Ok m'
     \<and> ready_executors (io_sch m') = [Some p, Some 21, Some 22] \<and> timer_manager m' = [])"
proof -
  obtain m0 where m0: "demo_io = Ok m0" "\<not> stopping (io_sch m0)" "ready_executors (io_sch m0) = []" "wakeup_pipe_fd m0 = (4, 5)"
    "finite (dom (heap (thr (io_world m0))))"
    using demo_io_ok by blast
  let ?t = "new_timer 0 10 (Some ()) False"
  let ?m = "m0\<lparr>timer_manager := [?t], fd_events := busy_events, kern := [7 \<mapsto> EPOLLIN, 9 \<mapsto> EPOLLOUT]\<rparr>"
  let ?evs = "[(7, EPOLLIN), (4, EPOLLIN), (9, EPOLLOUT)] :: (fd \<times> u32) list"
  have n: "busy_events ! i = FdEvents_default" if "i < 10" "i \<noteq> 7" "i \<noteq> 9" for i
  proof -
    have "i \<in> {0, 1, 2, 3, 4, 5, 6, 8}" using that unfolding insert_iff empty_iff by presburger
    then show ?thesis by (auto simp: busy_events_def nth_append)
  qed
  have v: "busy_events ! 7 = FdEvents_default\<lparr>registered_events := EPOLLIN, read_executor := Some 21\<rparr>"
    "busy_events ! 9 = FdEvents_default\<lparr>registered_events := EPOLLOUT, write_executor := Some 22\<rparr>" "length busy_events = 10"
    by (simp_all add: busy_events_def nth_append)
  have w: "watch_ok (\<lambda>k. k) ?m" unfolding watch_ok_def
  proof (intro allI impI)
    fix i :: int
    assume i: "0 \<le> i"
    show "watched (kern ?m i) (if i < int (length (fd_events ?m)) then registered_events (fd_events ?m ! nat i) else 0)"
      using n [of "nat i"] v i by (cases "i = 7 \<or> i = 9") (auto simp: watched_def FdEvents_default_def EPOLLIN_def EPOLLOUT_def nat_less_iff nat_eq_iff)
  qed
  have b: "batch_ok ?m ?evs" "\<not> overruns ?m ?evs"
    using v n [of 4] m0(4) by (simp_all add: batch_ok_def overruns_def once_at_def events_at_def FdEvents_default_def)
  have f: "concat (map (fired ?m) ?evs) = [Some 21, Some 22]"
    using v m0(4) by (simp add: fired_def woken_def events_at_def FdEvents_default_def epoll_bits)
  have wt: "sys_epoll_wait busy_api epoll_wait_max_size (epoll_timeout (\<lambda>_. 0) (timer_manager ?m)) (kern ?m) = (Inr ?evs, kern ?m)"
    by (simp add: busy_api_def)
  have r: "pipe_drains busy_api (\<lambda>k. k) (fst (wakeup_pipe_fd ?m))" "\<not> stopping (io_sch ?m)" "finite (dom (heap (thr (io_world ?m))))"
    "timers_ok (timer_manager ?m)" "\<forall>t \<in> set (timer_manager ?m). callback t \<noteq> None"
    using busy_api_drains m0(2,4,5) by (simp_all add: io_sch_def new_timer_def)
  obtain m' ps where m': "blockPending busy_api (\<lambda>th. LEAST p. heap th p = None) (\<lambda>_. 0) (\<lambda>_. 10) ?m = Ok m'" "timer_manager m' = []"
    "ready_executors (io_sch m') = ready_executors (io_sch ?m) @ map Some ps @ concat (map (fired ?m) ?evs)"
    "list_all2 (\<lambda>p t. new_task (thr (io_world m')) p (callback t)) ps [?t]"
    using event_loop_turn [OF busy_api_ok r(1) w r(2) least_alloc_ok r(3,4,5) wt refl b(1), of "\<lambda>_. 10"] b(2) by (auto simp: new_timer_def)
  then obtain p where "ps = [p]" by (auto simp: list_all2_Cons2)
  then show ?thesis using m'(1-3) m0(3) unfolding f by (intro exI [of _ ?m] exI [of _ m'] conjI exI [of _ p]) (simp_all add: io_sch_def)
qed

text \<open>
  The flags of the first descriptor. When the first event of a batch belongs to a permanent registration
  (\<open>call_once\<close> is false, as for a listening socket), a later event for a descriptor that waits once is
  treated by the first one's flag: its waiting coroutine is queued and forgotten, but the event stays
  registered, and the permanent coroutine is asked to be reused a second time. The next event for the
  descriptor then queues a null coroutine.
\<close>

theorem batch_uses_flags_of_first_descriptor:
  assumes ok: "watch_ok interest m" and run: "\<not> stopping (io_sch m)"
    and i: "0 \<le> i" "i < int (length (fd_events m))" "i \<noteq> fst (wakeup_pipe_fd m)" "read_call_once (events_at m i)"
    and f: "0 \<le> f" "f < int (length (fd_events m))" "\<not> read_call_once (events_at m f)" "read_executor (events_at m f) = Some q"
    and q: "reuse q (thr (io_world m)) = Ok th"
  shows "\<exists>m'. handle_event api f (i, EPOLLIN) m = Ok m' \<and> thr (io_world m') = th
    \<and> registered_events (events_at m' i) = registered_events (events_at m i) \<and> read_executor (events_at m' i) = None
    \<and> ready_executors (io_sch m') = ready_executors (io_sch m) @ [read_executor (events_at m i)]
    \<and> woken EPOLLIN (events_at m' i) = [None]"
proof -
  let ?m = "m\<lparr>io_world := (io_world m)\<lparr>thr := th\<rparr>\<rparr>"
  have e: "events_at ?m j = events_at m j" for j by (simp add: events_at_def)
  have r: "once_or_reuse f EPOLLIN EPOLLIN read_call_once read_executor l m = Ok (l, ?m)" for l
    using f q by (simp add: once_or_reuse_def vec_get_events EPOLLIN_def)
  have w: "once_or_reuse f EPOLLIN EPOLLOUT write_call_once write_executor l ?m = Ok (l, ?m)" for l
    by (simp add: once_or_reuse_def epoll_bits)
  have "update_interest api i (registered_events (events_at m i)) ?m = Ok ?m"
    using i(1,2) e [of i] by (simp add: update_interest_def vec_get_def events_at_def)
  moreover have "watch_ok interest ?m" using ok watch_ok_cong [of ?m m interest] by simp
  then obtain m' where "enqueue_side i read_call_once read_executor (\<lambda>e. e\<lparr>read_executor := None\<rparr>) ?m = Ok m'"
    "events_at m' i = (events_at m i)\<lparr>read_executor := None\<rparr>" "io_sch m' = ready_push (read_executor (events_at m i)) (io_sch m)"
    "thr (io_world m') = th"
    using enqueue_side_ok [of interest ?m i read_call_once "\<lambda>e. e\<lparr>read_executor := None\<rparr>" read_executor] run i e
    by (auto simp: io_sch_def)
  ultimately have "handle_event api f (i, EPOLLIN) m = Ok m'"
    using i r w by (simp add: handle_event_def vec_get_events epoll_bits)
  then show ?thesis
    using \<open>events_at m' i = _\<close> \<open>io_sch m' = _\<close> \<open>thr (io_world m') = th\<close>
    by (auto simp: ready_push_def woken_def epoll_bits)
qed

text \<open>
  When the wake-up pipe is the first event of a batch and its descriptor lies behind the end of the table
  (no descriptor that large was ever registered), the flags of a following event are read out of bounds.
\<close>

theorem batch_behind_pipe_out_of_bounds:
  assumes "0 \<le> i" and "i < int (length (fd_events m))" and "int (length (fd_events m)) \<le> fst (wakeup_pipe_fd m)"
    and "ev AND EPOLLIN \<noteq> 0"
  shows "handle_event api (fst (wakeup_pipe_fd m)) (i, ev) m = Err OutOfBounds"
  using assms by (simp add: handle_event_def vec_get_def once_or_reuse_def)

text \<open>
  C20. A permanent registration serves one event. A coroutine registered permanently for a descriptor
  (\<open>call_once\<close> false, as the listening socket of the example server is) handles its first event and
  ends. When the next event comes, the loop asks the coroutine to be reused, queues it, and the
  switch to it jumps to a dead context: \<open>reuse\<close> does not store the new context.
\<close>

theorem permanent_event_served_once:
  assumes run: "\<not> stopping (io_sch m)"
    and i: "0 \<le> i" "i < int (length (fd_events m))" "i \<noteq> fst (wakeup_pipe_fd m)"
    and p: "\<not> read_call_once (events_at m i)" "read_executor (events_at m i) = Some p"
    and loop: "sched_ok S (io_world m)" "running (thr (io_world m)) = p" "p \<noteq> S"
    and idle: "ready_executors (io_sch m) = []" "remote_tasks (io_sch m) = []"
  shows "\<exists>th m'. executorMainFunc_end (thr (io_world m)) = Ok th
    \<and> handle_event api i (i, EPOLLIN) (m\<lparr>io_world := (io_world m)\<lparr>thr := th\<rparr>\<rparr>) = Ok m'
    \<and> sched_iter default_stop_pending_func (io_world m') = Err DeadContext"
proof -
  have c: "coop_ok S (thr (io_world m))" using loop(1) by (simp add: sched_ok_def loop_ok_def)
  obtain th th2 where th: "executorMainFunc_end (thr (io_world m)) = Ok th" "reuse p th = Ok th2" "exec p th2 = Err DeadContext"
    using reuse_jumps_to_dead_context [OF c] loop(2,3) by auto
  let ?m1 = "m\<lparr>io_world := (io_world m)\<lparr>thr := th\<rparr>\<rparr>" and ?m2 = "m\<lparr>io_world := (io_world m)\<lparr>thr := th2\<rparr>\<rparr>"
  have e: "events_at ?m1 j = events_at m j" "events_at ?m2 j = events_at m j" for j by (simp_all add: events_at_def)
  have r: "once_or_reuse i EPOLLIN EPOLLIN read_call_once read_executor l ?m1 = Ok (l, ?m2)" for l
    using i p th(2) e by (simp add: once_or_reuse_def vec_get_events EPOLLIN_def)
  have w: "once_or_reuse i EPOLLIN EPOLLOUT write_call_once write_executor l ?m2 = Ok (l, ?m2)" for l
    by (simp add: once_or_reuse_def epoll_bits)
  have "update_interest api i (registered_events (events_at m i)) ?m2 = Ok ?m2"
    using i(1,2) e(2) [of i] by (simp add: update_interest_def vec_get_def events_at_def)
  moreover obtain m' where m': "enqueue_side i read_call_once read_executor (\<lambda>e. e\<lparr>read_executor := None\<rparr>) ?m2 = Ok m'"
    "io_sch m' = ready_push (Some p) (io_sch m)" "thr (io_world m') = th2"
    using i run p e(2) by (simp add: enqueue_side_def vec_get_events addExecutor_def io_sch_def)
  ultimately have "handle_event api i (i, EPOLLIN) ?m1 = Ok m'"
    using i r w e by (simp add: handle_event_def vec_get_events epoll_bits)
  moreover have "getState p th2 \<noteq> Err UseAfterFree" using th(3) by (auto simp: exec_def doExec_def deref_def getState_def split: if_splits option.splits)
  then have "\<exists>st. getState p th2 = Ok st \<and> st \<noteq> Terminal \<and> st \<noteq> Aborted"
    using th(3) by (auto simp: exec_def doExec_def deref_def getState_def Let_def split: if_splits option.splits State.splits)
  then have "sched_iter default_stop_pending_func (io_world m') = Err DeadContext"
    using m'(2,3) idle run th(3)
    by (auto simp: sched_iter_def io_sch_def stop_pending_def default_stop_pending_func_def scheduleAll_eq ready_pop_def ready_push_def)
  ultimately show ?thesis using th(1) by blast
qed

definition listening_events :: "FdEvents list" where
  "listening_events = replicate 7 FdEvents_default
     @ [FdEvents_default\<lparr>registered_events := EPOLLIN, read_executor := Some 2, read_call_once := False\<rparr>]"

theorem permanent_event_served_once_witness:
  "\<exists>(m :: (unit, fd \<Rightarrow> u32 option) io_manager) th m'. fd_events m = listening_events \<and> executorMainFunc_end (thr (io_world m)) = Ok th
     \<and> handle_event demo_api 7 (7, EPOLLIN) (m\<lparr>io_world := (io_world m)\<lparr>thr := th\<rparr>\<rparr>) = Ok m'
     \<and> sched_iter default_stop_pending_func (io_world m') = Err DeadContext"
proof -
  obtain w e where w: "demo_world () = Ok w" "sched_ok 1 w" "running (thr w) = 1" "ready_executors (sch w) = [Some 2]"
    "remote_tasks (sch w) = []" "\<not> stopping (sch w)" "heap (thr w) 2 = Some e" "ex_state e = Init"
    using demo_world_ok [of "()"] by blast
  obtain w1 :: "unit world" where w1: "sched_ok 1 w1" "running (thr w1) = 2" "sch w1 = (sch w)\<lparr>ready_executors := [], remote_tasks := []\<rparr>"
    using sched_iter_serves [OF w(2,3), of False 2 "[]" e] w by (auto simp: stop_pending_def)
  let ?m = "\<lparr>io_stopped = False, epoll_fd = 3, wakeup_pipe_fd = (4, 5), io_world = w1, timer_manager = [],
    fd_events = listening_events, kern = \<lambda>_. None\<rparr> :: (unit, fd \<Rightarrow> u32 option) io_manager"
  have p: "\<not> read_call_once (events_at ?m 7)" "read_executor (events_at ?m 7) = Some 2"
    by (simp_all add: events_at_def listening_events_def nth_append)
  have "length listening_events = 8" by (simp add: listening_events_def)
  then have "\<exists>th m'. executorMainFunc_end (thr (io_world ?m)) = Ok th
      \<and> handle_event demo_api 7 (7, EPOLLIN) (?m\<lparr>io_world := (io_world ?m)\<lparr>thr := th\<rparr>\<rparr>) = Ok m'
      \<and> sched_iter default_stop_pending_func (io_world m') = Err DeadContext"
    using w1 w(6) by (intro permanent_event_served_once [OF _ _ _ _ p, of 1]) (simp_all add: io_sch_def)
  then show ?thesis by (intro exI [of _ ?m]) simp
qed

end
