(* ===== verification/Executor_Ucontext.thy ===== *)
theory Executor_Ucontext
  imports Executor_Core
begin

text \<open>
  The other configuration of src/coroutine/executor.cpp, \<open>COROUTINE_UCONTEXT\<close>: contexts are objects an
  executor owns and \<open>swapcontext\<close> saves the CPU into the one it is told to. What both
  configurations promise is stated once, as a specification of coroutines without contexts, and both are
  shown to implement it.

  \<open>ex_context\<close> is here the contents of \<open>*context_\<close> (\<open>None\<close> for a null pointer): the entry of
  \<open>executorMainFunc\<close> on the executor's stack, or a point a stack was left at. A point can be
  continued only while it is the last one its stack was left at (\<open>suspended\<close>); an entry can be taken
  whenever its stack is not the running one.
\<close>

section \<open>The operations with ucontext\<close>

text \<open>\<open>newContext\<close> and \<open>getCurrentContext\<close>: the saved point is gone as soon as they return.\<close>

definition Executor_current_u :: "eptr \<Rightarrow> 'cb thread \<Rightarrow> 'cb thread" where
  "Executor_current_u p th =
     (let (n, th) = idGenerate th;
          e = \<lparr>ex_is_call_back_type = False, ex_state = Ready, ex_id = n, ex_stack_size = 0,
               ex_stack = NoStack, ex_callback = None, ex_context = Some (SavedCtx (running th) (gen th))\<rparr>
      in createUpdateData (th\<lparr>heap := (heap th)(p \<mapsto> e), gen := gen th + 1\<rparr>))"

definition getCurrent_u :: "eptr \<Rightarrow> 'cb thread \<Rightarrow> eptr \<times> 'cb thread" where
  "getCurrent_u fresh th =
     (case t_cur_executor th of
        Some p \<Rightarrow> (p, th)
      | None \<Rightarrow>
          let th = Executor_current_u fresh th;
              th = th\<lparr>t_cur_executor := Some fresh, t_base_executor := Some fresh\<rparr>;
              th = (if t_main_executor th = None then setMainExecutor (Some fresh) th else th)
          in (fresh, th))"

definition makeContext_u :: "eptr \<Rightarrow> 'cb thread \<Rightarrow> 'cb thread res" where
  "makeContext_u p th =
     res_bind (deref th p)
       (\<lambda>e. let sz = (if ex_stack_size e = 0 then DefaultStackSize else ex_stack_size e);
                st = (if ex_stack e \<noteq> NoStack then Freed else Allocated)
            in if st = Freed then Err UseAfterFree
               else Ok (upd p (\<lambda>e. e\<lparr>ex_stack_size := sz, ex_stack := st, ex_context := Some (EntryCtx p)\<rparr>)
                          (th\<lparr>gen := gen th + 1\<rparr>)))"

text \<open>\<open>makecontext\<close> writes the entry into the object, so nothing is lost here.\<close>

definition resetContext_u :: "eptr \<Rightarrow> 'cb thread \<Rightarrow> 'cb thread res" where
  "resetContext_u p th =
     res_bind (deref th p)
       (\<lambda>e. if ex_stack e = NoStack \<or> ex_context e = None then Err NullDeref
            else if running th = p then Err DeadContext
            else Ok (upd p (\<lambda>e. e\<lparr>ex_context := Some (EntryCtx p)\<rparr>) (th\<lparr>suspended := (suspended th)(p := None)\<rparr>)))"

definition executorMainFunc_start_u :: "'cb thread \<Rightarrow> 'cb thread res" where
  "executorMainFunc_start_u th =
     (case t_cur_executor th of
        None \<Rightarrow> Err AssertFailed
      | Some cur \<Rightarrow>
          res_bind (deref th cur) (\<lambda>e.
            if ex_callback e = None then Err AssertFailed
            else Ok (th\<lparr>started := started th @ [cur]\<rparr>)))"

text \<open>The CPU takes up a context.\<close>

definition setcontext :: "ctx \<Rightarrow> 'cb thread \<Rightarrow> 'cb thread res" where
  "setcontext c th =
     (let th' = th\<lparr>suspended := (suspended th)(ctx_owner c := None), running := ctx_owner c\<rparr>
      in case c of
           EntryCtx p \<Rightarrow> executorMainFunc_start_u th'
         | SavedCtx p n \<Rightarrow>
             (case suspended th p of
                None \<Rightarrow> Err DeadContext
              | Some (c', _) \<Rightarrow> if c' = c then Ok th' else Err DeadContext))"

definition swapContext_u :: "eptr option \<Rightarrow> eptr option \<Rightarrow> 'cb thread \<Rightarrow> 'cb thread res" where
  "swapContext_u src dst th =
     (case src of
        None \<Rightarrow> Err NullDeref
      | Some s \<Rightarrow>
          (case dst of
             None \<Rightarrow> Err NullDeref
           | Some d \<Rightarrow>
               res_bind (deref th s) (\<lambda>es.
                 if ex_context es = None then Err NullDeref
                 else let c = SavedCtx (running th) (gen th);
                          th = upd s (\<lambda>e. e\<lparr>ex_context := Some c\<rparr>)
                                 (th\<lparr>suspended := (suspended th)(running th \<mapsto> (c, InSwap d)), gen := gen th + 1\<rparr>)
                      in res_bind (deref th d) (\<lambda>ed.
                           case ex_context ed of
                             None \<Rightarrow> Err NullDeref
                           | Some c \<Rightarrow> if ctx_owner c = running th then Err DeadContext else setcontext c th))))"

definition execInner_u :: "eptr \<Rightarrow> 'cb thread \<Rightarrow> 'cb thread res" where
  "execInner_u p th = swapContext_u (t_main_executor th) (Some p) (th\<lparr>t_cur_executor := Some p\<rparr>)"

definition yieldInner_u :: "eptr \<Rightarrow> 'cb thread \<Rightarrow> 'cb thread res" where
  "yieldInner_u p th =
     (let th = th\<lparr>t_cur_executor := t_main_executor th\<rparr> in swapContext_u (Some p) (t_cur_executor th) th)"

definition terminalInner_u :: "eptr \<Rightarrow> 'cb thread \<Rightarrow> 'cb thread res" where
  "terminalInner_u p th =
     (let th = th\<lparr>t_cur_executor := t_main_executor th\<rparr> in swapContext_u (Some p) (t_cur_executor th) th)"

definition mainExecInner_u :: "eptr \<Rightarrow> 'cb thread \<Rightarrow> 'cb thread res" where
  "mainExecInner_u p th = swapContext_u (t_base_executor th) (Some p) (th\<lparr>t_cur_executor := Some p\<rparr>)"

definition mainYieldInner_u :: "eptr \<Rightarrow> 'cb thread \<Rightarrow> 'cb thread res" where
  "mainYieldInner_u p th =
     (let th = th\<lparr>t_cur_executor := t_base_executor th\<rparr> in swapContext_u (Some p) (t_base_executor th) th)"

definition doExec_u :: "bool \<Rightarrow> eptr \<Rightarrow> 'cb thread \<Rightarrow> 'cb thread res" where
  "doExec_u main p th =
     (let go = (\<lambda>th. let th = upd p (\<lambda>e. e\<lparr>ex_state := Exec\<rparr>) th
                     in if main then mainExecInner_u p th else execInner_u p th)
      in res_bind (deref th p) (\<lambda>e.
           case ex_state e of
             Init \<Rightarrow> res_bind (makeContext_u p th) (\<lambda>th. go (upd p (\<lambda>e. e\<lparr>ex_state := Ready\<rparr>) th))
           | HoldUp \<Rightarrow> go th
           | Ready \<Rightarrow> go th
           | Exec \<Rightarrow> Ok th
           | Terminal \<Rightarrow> Ok th
           | Aborted \<Rightarrow> Ok th))"

definition mainExec_u :: "eptr \<Rightarrow> 'cb thread \<Rightarrow> 'cb thread res" where
  "mainExec_u p th = doExec_u True p th"

definition mainYield_u :: "eptr \<Rightarrow> 'cb thread \<Rightarrow> 'cb thread res" where
  "mainYield_u p th =
     res_bind (deref th p) (\<lambda>e.
       if ex_state e \<noteq> Exec then Ok th
       else mainYieldInner_u p (upd p (\<lambda>e. e\<lparr>ex_state := HoldUp\<rparr>) th))"

definition exec_u :: "eptr \<Rightarrow> 'cb thread \<Rightarrow> 'cb thread res" where
  "exec_u p th = (if t_main_executor th = Some p then Err AssertFailed else doExec_u False p th)"

definition yield_u :: "eptr \<Rightarrow> 'cb thread \<Rightarrow> 'cb thread res" where
  "yield_u p th =
     res_bind (deref th p) (\<lambda>e.
       if ex_state e \<noteq> Exec then Ok th
       else yieldInner_u p (upd p (\<lambda>e. e\<lparr>ex_state := HoldUp\<rparr>) th))"

definition kill_u :: "eptr \<Rightarrow> 'cb thread \<Rightarrow> 'cb thread res" where
  "kill_u p th =
     res_bind (deref th p) (\<lambda>e.
       let cur_state = ex_state e;
           th = upd p (\<lambda>e. e\<lparr>ex_state := Terminal\<rparr>) th
       in if cur_state = Exec then terminalInner_u p th else Ok th)"

definition executorMainFunc_end_u :: "'cb thread \<Rightarrow> 'cb thread res" where
  "executorMainFunc_end_u th =
     (case t_cur_executor th of
        None \<Rightarrow> Err NullDeref
      | Some cur \<Rightarrow>
          res_bind (deref th cur) (\<lambda>e.
            if ex_state e \<noteq> Exec then Err AssertFailed
            else terminalInner_u cur (upd cur (\<lambda>e. e\<lparr>ex_state := Terminal\<rparr>) th)))"

definition reuse_u :: "eptr \<Rightarrow> 'cb thread \<Rightarrow> 'cb thread res" where
  "reuse_u p th =
     res_bind (deref th p) (\<lambda>e.
       if ex_is_call_back_type e \<and> ex_state e = Terminal
       then resetContext_u p (upd p (\<lambda>e. e\<lparr>ex_state := Ready\<rparr>) th)
       else Ok th)"

section \<open>Coroutines without contexts\<close>

datatype 'cb op = Create eptr "'cb option" u64 | Switch eptr | GiveUp | Return | Kill eptr | Release eptr

text \<open>What a user of the library can see of a thread: everything but the contexts.\<close>

record 'cb view =
  v_exec :: "eptr \<Rightarrow> 'cb executor option"
  v_cur :: "eptr option"
  v_main :: "eptr option"
  v_base :: "eptr option"
  v_running :: eptr
  v_started :: "eptr list"
  v_next_id :: u64
  v_count :: u64

definition plain :: "'cb executor \<Rightarrow> 'cb executor" where
  "plain e = e\<lparr>ex_context := None\<rparr>"

definition view_of :: "'cb thread \<Rightarrow> 'cb view" where
  "view_of th = \<lparr>v_exec = (\<lambda>p. map_option plain (heap th p)), v_cur = t_cur_executor th, v_main = t_main_executor th,
     v_base = t_base_executor th, v_running = running th, v_started = started th, v_next_id = least_unallocated_id th,
     v_count = executor_count th\<rparr>"

text \<open>Cooperative use, decided by what can be seen.\<close>

definition is_coroutine :: "eptr \<Rightarrow> 'cb view \<Rightarrow> eptr \<Rightarrow> bool" where
  "is_coroutine m v p \<longleftrightarrow> p \<noteq> m \<and> (case v_exec v p of None \<Rightarrow> False | Some e \<Rightarrow> ex_is_call_back_type e)"

fun allowed :: "eptr \<Rightarrow> 'cb op \<Rightarrow> 'cb view \<Rightarrow> bool" where
  "allowed m (Create p cb sz) v \<longleftrightarrow> v_exec v p = None \<and> cb \<noteq> None"
| "allowed m (Switch p) v \<longleftrightarrow> v_running v = m \<and> is_coroutine m v p"
| "allowed m GiveUp v \<longleftrightarrow> v_running v \<noteq> m"
| "allowed m Return v \<longleftrightarrow> v_running v \<noteq> m"
| "allowed m (Kill p) v \<longleftrightarrow> is_coroutine m v p"
| "allowed m (Release p) v \<longleftrightarrow> p \<noteq> m \<and> p \<noteq> v_running v"

definition v_upd :: "eptr \<Rightarrow> ('cb executor \<Rightarrow> 'cb executor) \<Rightarrow> 'cb view \<Rightarrow> 'cb view" where
  "v_upd p f v = v\<lparr>v_exec := (v_exec v)(p := map_option f (v_exec v p))\<rparr>"

definition v_leave :: "eptr \<Rightarrow> State \<Rightarrow> 'cb view \<Rightarrow> 'cb view" where
  "v_leave m st v = (v_upd (v_running v) (\<lambda>e. e\<lparr>ex_state := st\<rparr>) v)\<lparr>v_running := m, v_cur := Some m\<rparr>"

definition v_enter :: "eptr \<Rightarrow> 'cb view \<Rightarrow> 'cb view" where
  "v_enter p v = v\<lparr>v_running := p, v_cur := Some p\<rparr>"

fun spec_step :: "eptr \<Rightarrow> 'cb op \<Rightarrow> 'cb view \<Rightarrow> 'cb view" where
  "spec_step m (Create p cb sz) v =
     v\<lparr>v_exec := (v_exec v)(p \<mapsto> \<lparr>ex_is_call_back_type = True, ex_state = Init, ex_id = v_next_id v + 1, ex_stack_size = sz,
          ex_stack = NoStack, ex_callback = cb, ex_context = None\<rparr>),
       v_next_id := v_next_id v + 1, v_count := v_count v + 1\<rparr>"
| "spec_step m (Switch p) v =
     (case v_exec v p of
        None \<Rightarrow> v
      | Some e \<Rightarrow>
          if ex_state e = Init
          then (v_enter p (v_upd p (\<lambda>e. e\<lparr>ex_state := Exec, ex_stack := Allocated,
                  ex_stack_size := (if ex_stack_size e = 0 then DefaultStackSize else ex_stack_size e)\<rparr>) v))
                 \<lparr>v_started := v_started v @ [p]\<rparr>
          else if ex_state e = HoldUp then v_enter p (v_upd p (\<lambda>e. e\<lparr>ex_state := Exec\<rparr>) v)
          else v)"
| "spec_step m GiveUp v = v_leave m HoldUp v"
| "spec_step m Return v = v_leave m Terminal v"
| "spec_step m (Kill p) v =
     (if p = v_running v then v_leave m Terminal v else v_upd p (\<lambda>e. e\<lparr>ex_state := Terminal\<rparr>) v)"
| "spec_step m (Release p) v = v\<lparr>v_exec := (v_exec v)(p := None), v_count := v_count v - 1\<rparr>"

text \<open>A sequence of operations each of which is allowed when its turn comes.\<close>

fun allowed_seq :: "eptr \<Rightarrow> 'cb op list \<Rightarrow> 'cb view \<Rightarrow> bool" where
  "allowed_seq m [] v \<longleftrightarrow> True"
| "allowed_seq m (x # xs) v \<longleftrightarrow> allowed m x v \<and> allowed_seq m xs (spec_step m x v)"

locale coroutine_library =
  fixes run_op :: "'cb op \<Rightarrow> 't \<Rightarrow> 't res"
    and inv :: "'t \<Rightarrow> bool"
    and sees :: "'t \<Rightarrow> 'cb view"
    and main :: eptr
  assumes op_refines: "inv t \<Longrightarrow> allowed main x (sees t) \<Longrightarrow>
    \<exists>t'. run_op x t = Ok t' \<and> inv t' \<and> sees t' = spec_step main x (sees t)"
begin

lemma ops_refine:
  "inv t \<Longrightarrow> allowed_seq main xs (sees t) \<Longrightarrow>
     \<exists>t'. fold_res run_op xs t = Ok t' \<and> inv t' \<and> sees t' = fold (spec_step main) xs (sees t)"
proof (induction xs arbitrary: t)
  case (Cons x xs)
  then obtain t1 where t1: "run_op x t = Ok t1" "inv t1" "sees t1 = spec_step main x (sees t)"
    using op_refines [of t x] by auto
  with Cons.IH [OF t1(2)] Cons.prems(2) show ?case by auto
qed simp

end

section \<open>The fcontext configuration\<close>

fun run_f :: "'cb op \<Rightarrow> 'cb thread \<Rightarrow> 'cb thread res" where
  "run_f (Create p cb sz) th = Executor_callback p cb sz th"
| "run_f (Switch p) th = exec p th"
| "run_f GiveUp th = yield (running th) th"
| "run_f Return th = executorMainFunc_end th"
| "run_f (Kill p) th = kill p th"
| "run_f (Release p) th = Ok (destroy_executor p th)"

text \<open>Without \<open>reuse\<close> no coroutine is \<open>Ready\<close>, and one that is held up has started.\<close>

definition strict_ok :: "eptr \<Rightarrow> 'cb thread \<Rightarrow> bool" where
  "strict_ok m th \<longleftrightarrow> coop_ok m th \<and> (\<forall>p e. heap th p = Some e \<longrightarrow> ex_is_call_back_type e \<longrightarrow> p \<noteq> m \<longrightarrow>
     ex_state e \<noteq> Ready \<and> (ex_state e = HoldUp \<longrightarrow> p \<noteq> running th \<longrightarrow> (\<exists>c. suspended th p = Some (c, InSwap m))))"

lemmas view_defs = view_of_def plain_def v_upd_def v_leave_def v_enter_def fun_eq_iff

section \<open>The ucontext configuration\<close>

fun run_u :: "'cb op \<Rightarrow> 'cb thread \<Rightarrow> 'cb thread res" where
  "run_u (Create p cb sz) th = Executor_callback p cb sz th"
| "run_u (Switch p) th = exec_u p th"
| "run_u GiveUp th = yield_u (running th) th"
| "run_u Return th = executorMainFunc_end_u th"
| "run_u (Kill p) th = kill_u p th"
| "run_u (Release p) th = Ok (destroy_executor p th)"

definition parked_u :: "(ctx \<times> point) option \<Rightarrow> eptr \<Rightarrow> 'cb executor \<Rightarrow> bool" where
  "parked_u sus p e \<longleftrightarrow> ex_callback e \<noteq> None \<and>
     (case ex_state e of
        Init \<Rightarrow> ex_stack e = NoStack
      | Exec \<Rightarrow> False
      | Ready \<Rightarrow> False
      | HoldUp \<Rightarrow> ex_stack e = Allocated \<and> (\<exists>n pt. ex_context e = Some (SavedCtx p n) \<and> sus = Some (SavedCtx p n, pt))
      | _ \<Rightarrow> True)"

definition coop_ok_u :: "eptr \<Rightarrow> 'cb thread \<Rightarrow> bool" where
  "coop_ok_u m th \<longleftrightarrow>
     t_main_executor th = Some m \<and> t_cur_executor th = Some (running th) \<and> suspended th (running th) = None
     \<and> (\<exists>e c. heap th m = Some e \<and> ex_context e = Some c
          \<and> (running th \<noteq> m \<longrightarrow> (\<exists>n pt. c = SavedCtx m n \<and> suspended th m = Some (SavedCtx m n, pt))))
     \<and> (\<exists>e. heap th (running th) = Some e \<and> (running th \<noteq> m \<longrightarrow> on_cpu e))
     \<and> (\<forall>p e. heap th p = Some e \<longrightarrow> ex_is_call_back_type e \<longrightarrow> p \<noteq> m \<longrightarrow> p \<noteq> running th \<longrightarrow> parked_u (suspended th p) p e)"

lemmas u_defs = exec_u_def doExec_u_def execInner_u_def makeContext_u_def swapContext_u_def setcontext_def
  executorMainFunc_start_u_def yield_u_def yieldInner_u_def kill_u_def terminalInner_u_def executorMainFunc_end_u_def upd_def deref_def

lemma is_coroutine_iff: "is_coroutine m (view_of th) p \<longleftrightarrow> p \<noteq> m \<and> (\<exists>e. heap th p = Some e \<and> ex_is_call_back_type e)"
  by (auto simp: is_coroutine_def view_of_def plain_def split: option.splits)

lemma view_running [simp]: "v_running (view_of th) = running th"
  by (simp add: view_of_def)

lemma strict_okD:
  assumes "strict_ok m th" and "heap th p = Some e" and "ex_is_call_back_type e" and "p \<noteq> m"
  shows "ex_state e \<noteq> Ready" and "ex_state e = HoldUp \<Longrightarrow> p \<noteq> running th \<Longrightarrow> \<exists>c. suspended th p = Some (c, InSwap m)"
  using assms by (auto simp: strict_ok_def)

lemma f_create:
  assumes "strict_ok m th" and "heap th p = None" and "cb \<noteq> None"
  shows "\<exists>th'. run_f (Create p cb sz) th = Ok th' \<and> strict_ok m th' \<and> view_of th' = spec_step m (Create p cb sz) (view_of th)"
proof -
  obtain th' where "Executor_callback p cb sz th = Ok th'" "coop_ok m th'"
    using new_executor [of m th p cb sz] assms by (auto simp: strict_ok_def)
  then show ?thesis using assms
    by (auto simp: strict_ok_def Executor_callback_def idGenerate_def createUpdateData_def Let_def view_defs split: if_splits)
qed

text \<open>The effect of a switch on all fields of a thread.\<close>

definition switched :: "eptr \<Rightarrow> eptr list \<Rightarrow> (eptr \<Rightarrow> 'cb executor option) \<Rightarrow> (eptr \<Rightarrow> (ctx \<times> point) option) \<Rightarrow> 'cb thread \<Rightarrow> 'cb thread \<Rightarrow> bool" where
  "switched p l h sus th th' \<longleftrightarrow> heap th' = h \<and> suspended th' = sus \<and> running th' = p \<and> t_cur_executor th' = Some p
     \<and> t_main_executor th' = t_main_executor th \<and> t_base_executor th' = t_base_executor th \<and> started th' = l
     \<and> least_unallocated_id th' = least_unallocated_id th \<and> executor_count th' = executor_count th"

lemma switched_view:
  "switched p l h sus th th' \<Longrightarrow> view_of th' = (view_of th)\<lparr>v_exec := \<lambda>q. map_option plain (h q), v_cur := Some p, v_running := p, v_started := l\<rparr>"
  by (simp add: switched_def view_of_def)

lemma f_switch_first:
  assumes ok: "strict_ok m th" and r: "running th = m" and e: "heap th p = Some e" "ex_is_call_back_type e"
    and pm: "p \<noteq> m" and st: "ex_state e = Init"
  shows "\<exists>th'. run_f (Switch p) th = Ok th' \<and> strict_ok m th' \<and> view_of th' = spec_step m (Switch p) (view_of th)"
proof -
  have c: "coop_ok m th" using ok by (simp add: strict_ok_def)
  have pk: "parked m (suspended th p) p e" using coop_okD(6) [OF c e] pm r by simp
  obtain em where em: "heap th m = Some em" using coop_okD(4) [OF c] by blast
  note d = coop_okD(1,2,3) [OF c]
  have s: "ex_stack e = NoStack" and cb: "ex_callback e \<noteq> None" using pk st by simp_all
  obtain th' x cm where th': "exec p th = Ok th'"
    "switched p (started th @ [p]) ((heap th)(p \<mapsto> e\<lparr>ex_stack_size := if ex_stack_size e = 0 then DefaultStackSize else ex_stack_size e,
        ex_stack := Allocated, ex_context := Some x, ex_state := Exec\<rparr>, m \<mapsto> em\<lparr>ex_context := Some cm\<rparr>))
      ((suspended th)(p := None, m \<mapsto> (cm, InSwap p))) th th'"
    using st e pm em r d s cb by (auto simp: exec_defs Let_def switched_def)
  have "coop_ok m th'" using exec_first [OF c r e pm st] th'(1) by auto
  then have "strict_ok m th'" using ok th'(2) pm r by (auto simp: strict_ok_def switched_def)
  moreover have "view_of th' = spec_step m (Switch p) (view_of th)"
    unfolding switched_view [OF th'(2)] using e em st pm by (auto simp: view_defs)
  ultimately show ?thesis using th'(1) by simp
qed

lemma f_switch_again:
  assumes ok: "strict_ok m th" and r: "running th = m" and e: "heap th p = Some e" "ex_is_call_back_type e"
    and pm: "p \<noteq> m" and st: "ex_state e = HoldUp"
  shows "\<exists>th'. run_f (Switch p) th = Ok th' \<and> strict_ok m th' \<and> view_of th' = spec_step m (Switch p) (view_of th)"
proof -
  have c: "coop_ok m th" using ok by (simp add: strict_ok_def)
  have pk: "parked m (suspended th p) p e" using coop_okD(6) [OF c e] pm r by simp
  obtain em where em: "heap th m = Some em" using coop_okD(4) [OF c] by blast
  note d = coop_okD(1,2,3) [OF c]
  obtain c0 where s: "ex_context e = Some c0" "ctx_owner c0 = p" "suspended th p = Some (c0, InSwap m)"
    using pk st strict_okD(2) [OF ok e pm st] pm r by auto
  obtain th' cm where th': "exec p th = Ok th'"
    "switched p (started th) ((heap th)(p \<mapsto> e\<lparr>ex_state := Exec\<rparr>, m \<mapsto> em\<lparr>ex_context := Some cm\<rparr>))
      ((suspended th)(p := None, m \<mapsto> (cm, InSwap p))) th th'"
    using st e pm em r d s by (auto simp: exec_defs Let_def switched_def)
  have "coop_ok m th'" using exec_again [OF c r e pm] st th'(1) by auto
  then have "strict_ok m th'" using ok th'(2) pm r by (auto simp: strict_ok_def switched_def)
  moreover have "view_of th' = spec_step m (Switch p) (view_of th)"
    unfolding switched_view [OF th'(2)] using e em st pm by (auto simp: view_defs)
  ultimately show ?thesis using th'(1) by simp
qed

lemma f_leave:
  assumes ok: "strict_ok m th" and r: "running th \<noteq> m"
  shows "\<exists>th'. yield (running th) th = Ok th' \<and> strict_ok m th' \<and> view_of th' = v_leave m HoldUp (view_of th)"
    and "\<exists>th'. kill (running th) th = Ok th' \<and> strict_ok m th' \<and> view_of th' = v_leave m Terminal (view_of th)"
proof -
  have c: "coop_ok m th" using ok by (simp add: strict_ok_def)
  obtain e em cm where e: "heap th (running th) = Some e" "on_cpu e"
    and em: "heap th m = Some em" "ex_context em = Some cm" "ctx_owner cm = m" "suspended th m = Some (cm, InSwap (running th))"
    using coop_okD(7) [OF c r] by (auto simp: main_waits_def)
  note d = coop_okD(1,2,3) [OF c]
  let ?h = "\<lambda>st x. (heap th)(running th \<mapsto> e\<lparr>ex_state := st, ex_context := Some x\<rparr>)"
  let ?sus = "\<lambda>x. (suspended th)(m := None, running th \<mapsto> (x, InSwap m))"
  obtain th' x where th': "yield (running th) th = Ok th'" "switched m (started th) (?h HoldUp x) (?sus x) th th'"
    using e em r d by (auto simp: leave_defs Let_def on_cpu_def switched_def)
  obtain th2 y where th2: "kill (running th) th = Ok th2" "switched m (started th) (?h Terminal y) (?sus y) th th2"
    using e em r d by (auto simp: leave_defs Let_def on_cpu_def switched_def)
  have "coop_ok m th'" "coop_ok m th2" using yield_back [OF c r] kill_running [OF c r] th'(1) th2(1) by auto
  then have "strict_ok m th'" "strict_ok m th2" using ok th'(2) th2(2) r by (auto simp: strict_ok_def switched_def)
  moreover have "view_of th' = v_leave m HoldUp (view_of th)" "view_of th2 = v_leave m Terminal (view_of th)"
    unfolding switched_view [OF th'(2)] switched_view [OF th2(2)] using e em by (auto simp: view_defs)
  ultimately show "\<exists>th'. yield (running th) th = Ok th' \<and> strict_ok m th' \<and> view_of th' = v_leave m HoldUp (view_of th)"
    and "\<exists>th'. kill (running th) th = Ok th' \<and> strict_ok m th' \<and> view_of th' = v_leave m Terminal (view_of th)"
    using th'(1) th2(1) by auto
qed

lemma f_kill_parked:
  assumes ok: "strict_ok m th" and e: "heap th p = Some e" "ex_is_call_back_type e" and p: "p \<noteq> m" "p \<noteq> running th"
  shows "\<exists>th'. kill p th = Ok th' \<and> strict_ok m th' \<and> view_of th' = v_upd p (\<lambda>e. e\<lparr>ex_state := Terminal\<rparr>) (view_of th)"
proof -
  have c: "coop_ok m th" using ok by (simp add: strict_ok_def)
  have "parked m (suspended th p) p e" using coop_okD(6) [OF c e] p by simp
  then have "ex_state e \<noteq> Exec" by (auto simp: parked_def)
  then have k: "kill p th = Ok (upd p (\<lambda>e. e\<lparr>ex_state := Terminal\<rparr>) th)" using e by (simp add: kill_def deref_def)
  have "coop_ok m (upd p (\<lambda>e. e\<lparr>ex_state := Terminal\<rparr>) th)" using kill_parked [OF c e p] k by simp
  then have "strict_ok m (upd p (\<lambda>e. e\<lparr>ex_state := Terminal\<rparr>) th)" using ok e by (auto simp: strict_ok_def upd_def)
  then show ?thesis using k e by (auto simp: view_defs upd_def)
qed

lemma f_step:
  assumes ok: "strict_ok m th" and a: "allowed m x (view_of th)"
  shows "\<exists>th'. run_f x th = Ok th' \<and> strict_ok m th' \<and> view_of th' = spec_step m x (view_of th)"
proof (cases x)
  case (Create p cb sz)
  then show ?thesis using f_create [OF ok] a by (auto simp: view_of_def)
next
  case (Switch p)
  then obtain e where e: "heap th p = Some e" "ex_is_call_back_type e" "p \<noteq> m" and r: "running th = m"
    using a by (auto simp: is_coroutine_iff)
  have c: "coop_ok m th" using ok by (simp add: strict_ok_def)
  consider "ex_state e = Init" | "ex_state e = HoldUp" | "ex_state e = Terminal \<or> ex_state e = Aborted \<or> ex_state e = Exec"
    using strict_okD(1) [OF ok e] by (cases "ex_state e") auto
  then show ?thesis
  proof cases
    case 3
    then have "exec p th = Ok th" using exec_ended [OF e(1)] coop_okD(1) [OF c] e(3) by auto
    then show ?thesis using Switch ok 3 e(1) by (auto simp: view_of_def plain_def)
  qed (use f_switch_first [OF ok r e] f_switch_again [OF ok r e] Switch in auto)
next
  case GiveUp
  then show ?thesis using f_leave(1) [OF ok] a by auto
next
  case Return
  then have r: "running th \<noteq> m" and "coop_ok m th" using a ok by (auto simp: strict_ok_def)
  then have "executorMainFunc_end th = kill (running th) th" by (intro finish_is_kill)
  then show ?thesis using f_leave(2) [OF ok r] Return by auto
next
  case (Kill p)
  then obtain e where e: "heap th p = Some e" "ex_is_call_back_type e" "p \<noteq> m" using a by (auto simp: is_coroutine_iff)
  show ?thesis using Kill f_leave(2) [OF ok] f_kill_parked [OF ok e] e(3) by (cases "p = running th") auto
next
  case (Release p)
  then have p: "p \<noteq> m" "p \<noteq> running th" using a by auto
  have "strict_ok m (destroy_executor p th)"
    using ok destroy_parked [OF _ p] by (auto simp: strict_ok_def destroy_executor_def destroyUpdateData_def)
  then show ?thesis using Release by (auto simp: destroy_executor_def destroyUpdateData_def view_defs)
qed

interpretation fc: coroutine_library run_f "strict_ok m" view_of m
  by unfold_locales (rule f_step)

text \<open>The same for ucontext.\<close>

lemma coop_okD_u:
  assumes "coop_ok_u m th"
  shows "t_main_executor th = Some m" and "t_cur_executor th = Some (running th)" and "suspended th (running th) = None"
    and "\<exists>e c. heap th m = Some e \<and> ex_context e = Some c"
    and "running th \<noteq> m \<Longrightarrow> \<exists>em n pt e. heap th m = Some em \<and> ex_context em = Some (SavedCtx m n)
      \<and> suspended th m = Some (SavedCtx m n, pt) \<and> heap th (running th) = Some e \<and> on_cpu e"
    and "heap th p = Some e \<Longrightarrow> ex_is_call_back_type e \<Longrightarrow> p \<noteq> m \<Longrightarrow> p \<noteq> running th \<Longrightarrow> parked_u (suspended th p) p e"
  using assms by (auto simp: coop_ok_u_def)

lemma parked_u_Init [simp]: "ex_state e = Init \<Longrightarrow> parked_u sus p e \<longleftrightarrow> ex_callback e \<noteq> None \<and> ex_stack e = NoStack"
  by (simp add: parked_u_def)

lemma u_create:
  assumes "coop_ok_u m th" and "heap th p = None" and "cb \<noteq> None"
  shows "\<exists>th'. run_u (Create p cb sz) th = Ok th' \<and> coop_ok_u m th' \<and> view_of th' = spec_step m (Create p cb sz) (view_of th)"
  using assms
  by (auto simp: coop_ok_u_def Executor_callback_def idGenerate_def createUpdateData_def Let_def view_defs split: if_splits)

lemma u_switch_first:
  assumes ok: "coop_ok_u m th" and r: "running th = m" and e: "heap th p = Some e" "ex_is_call_back_type e"
    and pm: "p \<noteq> m" and st: "ex_state e = Init"
  shows "\<exists>th'. run_u (Switch p) th = Ok th' \<and> coop_ok_u m th' \<and> view_of th' = spec_step m (Switch p) (view_of th)"
proof -
  obtain em c0 where em: "heap th m = Some em" "ex_context em = Some c0" using coop_okD_u(4) [OF ok] by blast
  note d = coop_okD_u(1,2,3) [OF ok]
  have s: "ex_stack e = NoStack" "ex_callback e \<noteq> None"
    using coop_okD_u(6) [OF ok e] pm r st by (auto simp: parked_u_def)
  obtain th' n where th': "exec_u p th = Ok th'"
    "switched p (started th @ [p]) ((heap th)(p \<mapsto> e\<lparr>ex_stack_size := if ex_stack_size e = 0 then DefaultStackSize else ex_stack_size e,
        ex_stack := Allocated, ex_context := Some (EntryCtx p), ex_state := Exec\<rparr>, m \<mapsto> em\<lparr>ex_context := Some (SavedCtx m n)\<rparr>))
      ((suspended th)(m \<mapsto> (SavedCtx m n, InSwap p), p := None)) th th'"
    using st e pm em r d s by (auto simp: u_defs Let_def switched_def)
  have "coop_ok_u m th'"
    using th'(2) e s d pm coop_okD_u(6) [OF ok] r by (auto simp: coop_ok_u_def switched_def on_cpu_def)
  moreover have "view_of th' = spec_step m (Switch p) (view_of th)"
    unfolding switched_view [OF th'(2)] using e em st pm by (auto simp: view_defs)
  ultimately show ?thesis using th'(1) by simp
qed

lemma u_switch_again:
  assumes ok: "coop_ok_u m th" and r: "running th = m" and e: "heap th p = Some e" "ex_is_call_back_type e"
    and pm: "p \<noteq> m" and st: "ex_state e = HoldUp"
  shows "\<exists>th'. run_u (Switch p) th = Ok th' \<and> coop_ok_u m th' \<and> view_of th' = spec_step m (Switch p) (view_of th)"
proof -
  obtain em c0 where em: "heap th m = Some em" "ex_context em = Some c0" using coop_okD_u(4) [OF ok] by blast
  note d = coop_okD_u(1,2,3) [OF ok]
  obtain k pt where s: "ex_context e = Some (SavedCtx p k)" "suspended th p = Some (SavedCtx p k, pt)" "ex_stack e = Allocated"
    "ex_callback e \<noteq> None"
    using coop_okD_u(6) [OF ok e] pm r st by (auto simp: parked_u_def)
  obtain th' n where th': "exec_u p th = Ok th'"
    "switched p (started th) ((heap th)(p \<mapsto> e\<lparr>ex_state := Exec\<rparr>, m \<mapsto> em\<lparr>ex_context := Some (SavedCtx m n)\<rparr>))
      ((suspended th)(m \<mapsto> (SavedCtx m n, InSwap p), p := None)) th th'"
    using st e pm em r d s by (auto simp: u_defs Let_def switched_def)
  have "coop_ok_u m th'"
    using th'(2) e s d pm coop_okD_u(6) [OF ok] r by (auto simp: coop_ok_u_def switched_def on_cpu_def)
  moreover have "view_of th' = spec_step m (Switch p) (view_of th)"
    unfolding switched_view [OF th'(2)] using e em st pm by (auto simp: view_defs)
  ultimately show ?thesis using th'(1) by simp
qed

lemma u_leave:
  assumes ok: "coop_ok_u m th" and r: "running th \<noteq> m"
  shows "\<exists>th'. yield_u (running th) th = Ok th' \<and> coop_ok_u m th' \<and> view_of th' = v_leave m HoldUp (view_of th)"
    and "\<exists>th'. kill_u (running th) th = Ok th' \<and> coop_ok_u m th' \<and> view_of th' = v_leave m Terminal (view_of th)"
    and "executorMainFunc_end_u th = kill_u (running th) th"
proof -
  obtain em n pt e where em: "heap th m = Some em" "ex_context em = Some (SavedCtx m n)" "suspended th m = Some (SavedCtx m n, pt)"
    and e: "heap th (running th) = Some e" "on_cpu e"
    using coop_okD_u(5) [OF ok r] by blast
  note d = coop_okD_u(1,2,3) [OF ok]
  let ?h = "\<lambda>st x. (heap th)(running th \<mapsto> e\<lparr>ex_state := st, ex_context := Some (SavedCtx (running th) x)\<rparr>)"
  let ?sus = "\<lambda>x. (suspended th)(running th \<mapsto> (SavedCtx (running th) x, InSwap m), m := None)"
  obtain th' x where th': "yield_u (running th) th = Ok th'" "switched m (started th) (?h HoldUp x) (?sus x) th th'"
    using e em r d by (auto simp: u_defs Let_def on_cpu_def switched_def)
  obtain th2 y where th2: "kill_u (running th) th = Ok th2" "switched m (started th) (?h Terminal y) (?sus y) th th2"
    using e em r d by (auto simp: u_defs Let_def on_cpu_def switched_def)
  have "coop_ok_u m th'" "coop_ok_u m th2"
    using th'(2) th2(2) e em d r coop_okD_u(6) [OF ok] by (auto simp: coop_ok_u_def switched_def on_cpu_def parked_u_def)
  moreover have "view_of th' = v_leave m HoldUp (view_of th)" "view_of th2 = v_leave m Terminal (view_of th)"
    unfolding switched_view [OF th'(2)] switched_view [OF th2(2)] using e em by (auto simp: view_defs)
  ultimately show "\<exists>th'. yield_u (running th) th = Ok th' \<and> coop_ok_u m th' \<and> view_of th' = v_leave m HoldUp (view_of th)"
    and "\<exists>th'. kill_u (running th) th = Ok th' \<and> coop_ok_u m th' \<and> view_of th' = v_leave m Terminal (view_of th)"
    using th'(1) th2(1) by auto
  show "executorMainFunc_end_u th = kill_u (running th) th"
    using d(2) e by (simp add: executorMainFunc_end_u_def kill_u_def deref_def on_cpu_def Let_def)
qed

lemma u_kill_parked:
  assumes ok: "coop_ok_u m th" and e: "heap th p = Some e" "ex_is_call_back_type e" and p: "p \<noteq> m" "p \<noteq> running th"
  shows "\<exists>th'. kill_u p th = Ok th' \<and> coop_ok_u m th' \<and> view_of th' = v_upd p (\<lambda>e. e\<lparr>ex_state := Terminal\<rparr>) (view_of th)"
proof -
  have pk: "parked_u (suspended th p) p e" using coop_okD_u(6) [OF ok e p] .
  then have "ex_state e \<noteq> Exec" and cb: "ex_callback e \<noteq> None" by (auto simp: parked_u_def)
  then have k: "kill_u p th = Ok (upd p (\<lambda>e. e\<lparr>ex_state := Terminal\<rparr>) th)" using e by (simp add: kill_u_def deref_def)
  have "coop_ok_u m (upd p (\<lambda>e. e\<lparr>ex_state := Terminal\<rparr>) th)"
    using ok e p cb by (auto simp: coop_ok_u_def upd_def parked_u_def)
  then show ?thesis using k e by (auto simp: view_defs upd_def)
qed

lemma u_step:
  assumes ok: "coop_ok_u m th" and a: "allowed m x (view_of th)"
  shows "\<exists>th'. run_u x th = Ok th' \<and> coop_ok_u m th' \<and> view_of th' = spec_step m x (view_of th)"
proof (cases x)
  case (Create p cb sz)
  then show ?thesis using u_create [OF ok] a by (auto simp: view_of_def)
next
  case (Switch p)
  then obtain e where e: "heap th p = Some e" "ex_is_call_back_type e" "p \<noteq> m" and r: "running th = m"
    using a by (auto simp: is_coroutine_iff)
  have "parked_u (suspended th p) p e" using coop_okD_u(6) [OF ok e] e(3) r by simp
  then consider "ex_state e = Init" | "ex_state e = HoldUp" | "ex_state e = Terminal \<or> ex_state e = Aborted"
    by (cases "ex_state e") (auto simp: parked_u_def)
  then show ?thesis
  proof cases
    case 3
    then have "exec_u p th = Ok th" using e coop_okD_u(1) [OF ok] by (auto simp: exec_u_def doExec_u_def deref_def)
    then show ?thesis using Switch ok 3 e(1) by (auto simp: view_of_def plain_def)
  qed (use u_switch_first [OF ok r e] u_switch_again [OF ok r e] Switch in auto)
next
  case GiveUp
  then show ?thesis using u_leave(1) [OF ok] a by auto
next
  case Return
  then show ?thesis using u_leave(2,3) [OF ok] a by auto
next
  case (Kill p)
  then obtain e where e: "heap th p = Some e" "ex_is_call_back_type e" "p \<noteq> m" using a by (auto simp: is_coroutine_iff)
  show ?thesis using Kill u_leave(2) [OF ok] u_kill_parked [OF ok e] e(3) by (cases "p = running th") auto
next
  case (Release p)
  then have p: "p \<noteq> m" "p \<noteq> running th" using a by auto
  have "coop_ok_u m (destroy_executor p th)"
    using ok p by (auto simp: coop_ok_u_def destroy_executor_def destroyUpdateData_def)
  then show ?thesis using Release by (auto simp: destroy_executor_def destroyUpdateData_def view_defs)
qed

interpretation uc: coroutine_library run_u "coop_ok_u m" view_of m
  by unfold_locales (rule u_step)

section \<open>Properties\<close>

text \<open>The thread after its first \<open>getCurrent\<close>, in both configurations.\<close>

definition start_f :: "eptr \<Rightarrow> 'cb thread" where
  "start_f b = snd (getCurrent b (fresh_thread b))"

definition start_u :: "eptr \<Rightarrow> 'cb thread" where
  "start_u b = snd (getCurrent_u b (fresh_thread b))"

lemmas start_defs = start_f_def start_u_def getCurrent_def getCurrent_u_def fresh_thread_def Executor_current_def
  Executor_current_u_def idGenerate_def createUpdateData_def setMainExecutor_def

lemma start_ok: "strict_ok b (start_f b)" "coop_ok_u b (start_u b)" "view_of (start_u b) = view_of (start_f b)"
proof -
  have "coop_ok b (start_f b)" unfolding start_f_def by (rule coop_ok_fresh)
  then show "strict_ok b (start_f b)" by (simp add: strict_ok_def start_defs Let_def)
  show "coop_ok_u b (start_u b)" by (simp add: coop_ok_u_def start_defs Let_def)
  show "view_of (start_u b) = view_of (start_f b)" by (auto simp: view_of_def start_defs Let_def plain_def)
qed

text \<open>
  C7. The two build configurations agree. For every sequence of cooperative operations (creating,
  switching to, yielding, returning, killing, destroying), the fcontext and the ucontext implementation both
  carry it out without failure and leave the thread in the same visible state (which executors
  there are and in which states, who runs, which callbacks were started in which order, the
  counters): both refine the specification of coroutines that knows no contexts.
\<close>

theorem context_configurations_agree:
  assumes "allowed_seq b xs (view_of (start_f b))"
  shows "\<exists>th u. fold_res run_f xs (start_f b) = Ok th \<and> fold_res run_u xs (start_u b) = Ok u
    \<and> view_of th = view_of u \<and> view_of th = fold (spec_step b) xs (view_of (start_f b))"
proof -
  obtain th where "fold_res run_f xs (start_f b) = Ok th" "view_of th = fold (spec_step b) xs (view_of (start_f b))"
    using fc.ops_refine [OF start_ok(1) assms] by blast
  moreover obtain u where "fold_res run_u xs (start_u b) = Ok u" "view_of u = fold (spec_step b) xs (view_of (start_u b))"
    using uc.ops_refine [OF start_ok(2), of b xs] assms start_ok(3) by metis
  ultimately show ?thesis using start_ok(3) by metis
qed

theorem context_configurations_agree_witness:
  "\<exists>th u. fold_res run_f [Create 1 (Some ()) 0, Switch 1, GiveUp, Switch 1, Return] (start_f 0) = Ok th
    \<and> fold_res run_u [Create 1 (Some ()) 0, Switch 1, GiveUp, Switch 1, Return] (start_u 0) = Ok u
    \<and> view_of th = view_of u \<and> v_started (view_of th) = [1]"
proof -
  let ?xs = "[Create 1 (Some ()) 0, Switch 1, GiveUp, Switch 1, Return]"
  have "allowed_seq 0 ?xs (view_of (start_f 0))"
    by (simp add: start_defs Let_def view_of_def is_coroutine_def v_enter_def v_upd_def v_leave_def)
  moreover have "v_started (fold (spec_step 0) ?xs (view_of (start_f 0))) = [1]"
    by (simp add: start_defs Let_def view_of_def v_enter_def v_upd_def v_leave_def)
  ultimately show ?thesis using context_configurations_agree [of 0 ?xs] by metis
qed

text \<open>
  Where the configurations differ: with ucontext a coroutine that ended can be reused; the next
  \<open>exec\<close> starts its callback again.
\<close>

theorem reuse_works_with_ucontext:
  assumes "coop_ok_u m th" and "running th \<noteq> m"
  shows "\<exists>th1 th2 th3. executorMainFunc_end_u th = Ok th1 \<and> reuse_u (running th) th1 = Ok th2
    \<and> exec_u (running th) th2 = Ok th3 \<and> running th3 = running th \<and> started th3 = started th @ [running th]"
proof -
  obtain em n pt e where em: "heap th m = Some em" "ex_context em = Some (SavedCtx m n)" "suspended th m = Some (SavedCtx m n, pt)"
    and e: "heap th (running th) = Some e" "on_cpu e"
    using coop_okD_u(5) [OF assms] by blast
  note d = coop_okD_u(1,2,3) [OF assms(1)]
  show ?thesis
    using e em d assms(2) by (auto simp: u_defs reuse_u_def resetContext_u_def Let_def on_cpu_def)
qed

end
