(* ===== verification/Thread_Context.thy ===== *)
theory Thread_Context
  imports Co_Io
begin

text \<open>
  What belongs to a thread and what to the process: \<open>IOManager::getThreadLocal\<close> and
  \<open>setThreadLocal\<close> (src/io/io\_manager.cpp), the same for \<open>Scheduler\<close> (src/coroutine/scheduler.cpp),
  \<open>Singleton::getInstance\<close> (include/base/singleton.h), and the switch and the function table of the hooks
  (src/io/hook.cpp, src/initer.cpp).
\<close>

section \<open>Thread-local objects\<close>

type_synonym tid = nat

text \<open>
  A process: per thread the two \<open>thread_local\<close> pointers and the executors the thread has before it has a
  manager; the objects the pointers point to.
\<close>

record ('cb, 'k) process =
  t_io_manager :: "tid \<Rightarrow> nat option"
  t_scheduler :: "tid \<Rightarrow> nat option"
  manager_objects :: "nat \<Rightarrow> ('cb, 'k) io_manager option"
  scheduler_objects :: "nat \<Rightarrow> 'cb world option"
  os_threads :: "tid \<Rightarrow> 'cb thread"
  proc_kern :: 'k

text \<open>The addresses a construction gets: the object, the thread's own executor, and the loop's.\<close>

record 'cb make_args =
  object_at :: nat
  base_at :: eptr
  loop_at :: eptr
  loop_body :: 'cb

definition IOManager_getThreadLocal ::
    "'k kernel_api \<Rightarrow> 'cb make_args \<Rightarrow> tid \<Rightarrow> ('cb, 'k) process \<Rightarrow> (nat \<times> ('cb, 'k) process) res" where
  "IOManager_getThreadLocal api a t P =
     (case t_io_manager P t of
        Some p \<Rightarrow> Ok (p, P)
      | None \<Rightarrow>
          res_bind (IOManager_new api (base_at a) (loop_at a) (loop_body a) (os_threads P t) (proc_kern P)) (\<lambda>m.
            Ok (object_at a,
                P\<lparr>t_io_manager := (t_io_manager P)(t \<mapsto> object_at a), manager_objects := (manager_objects P)(object_at a \<mapsto> m),
                  proc_kern := kern m\<rparr>)))"

definition IOManager_setThreadLocal :: "tid \<Rightarrow> nat option \<Rightarrow> ('cb, 'k) process \<Rightarrow> ('cb, 'k) process" where
  "IOManager_setThreadLocal t p P = P\<lparr>t_io_manager := (t_io_manager P)(t := p)\<rparr>"

definition Scheduler_getThreadLocal :: "'cb make_args \<Rightarrow> tid \<Rightarrow> ('cb, 'k) process \<Rightarrow> (nat \<times> ('cb, 'k) process) res" where
  "Scheduler_getThreadLocal a t P =
     (case t_scheduler P t of
        Some p \<Rightarrow> Ok (p, P)
      | None \<Rightarrow>
          res_bind (Scheduler_new (base_at a) (loop_at a) (loop_body a) (os_threads P t)) (\<lambda>w.
            Ok (object_at a,
                P\<lparr>t_scheduler := (t_scheduler P)(t \<mapsto> object_at a), scheduler_objects := (scheduler_objects P)(object_at a \<mapsto> w)\<rparr>)))"

definition Scheduler_setThreadLocal :: "tid \<Rightarrow> nat option \<Rightarrow> ('cb, 'k) process \<Rightarrow> ('cb, 'k) process" where
  "Scheduler_setThreadLocal t p P = P\<lparr>t_scheduler := (t_scheduler P)(t := p)\<rparr>"

text \<open>What both pairs promise.\<close>

locale thread_slot =
  fixes get :: "'a \<Rightarrow> tid \<Rightarrow> 'p \<Rightarrow> (nat \<times> 'p) res"
    and set :: "tid \<Rightarrow> nat option \<Rightarrow> 'p \<Rightarrow> 'p"
    and slot :: "'p \<Rightarrow> tid \<Rightarrow> nat option"
    and address :: "'a \<Rightarrow> nat"
  assumes get_present: "slot P t = Some p \<Longrightarrow> get a t P = Ok (p, P)"
    and get_absent: "slot P t = None \<Longrightarrow> get a t P = Ok (p, P') \<Longrightarrow> p = address a \<and> slot P' = (slot P)(t \<mapsto> p)"
    and slot_set: "slot (set t q P) = (slot P)(t := q)"
begin

lemma get_slot: "get a t P = Ok (p, P') \<Longrightarrow> slot P' = (slot P)(t \<mapsto> p)"
proof (cases "slot P t")
  case None
  then show "get a t P = Ok (p, P') \<Longrightarrow> ?thesis" using get_absent by blast
next
  case (Some q)
  then show "get a t P = Ok (p, P') \<Longrightarrow> ?thesis" using get_present [OF Some, of a] by (simp add: fun_upd_idem)
qed

lemma get_again: "get a t P = Ok (p, P') \<Longrightarrow> get b t P' = Ok (p, P')"
  using get_slot get_present by fastforce

lemma get_after_set: "get a t (set t (Some p) P) = Ok (p, set t (Some p) P)"
  by (simp add: get_present slot_set)

text \<open>A sequence of calls by threads; the answers in order.\<close>

fun calls :: "('a \<times> tid) list \<Rightarrow> 'p \<Rightarrow> (nat list \<times> 'p) res" where
  "calls [] P = Ok ([], P)"
| "calls (c # cs) P = res_bind (get (fst c) (snd c) P) (\<lambda>(p, P). res_bind (calls cs P) (\<lambda>(ps, P). Ok (p # ps, P)))"

lemma calls_stable: "calls cs P = Ok (ps, P') \<Longrightarrow> slot P t = Some p \<Longrightarrow> slot P' t = Some p"
proof (induction cs arbitrary: P ps)
  case (Cons c cs)
  from Cons.prems(1) obtain q P1 qs where 1: "get (fst c) (snd c) P = Ok (q, P1)" "calls cs P1 = Ok (qs, P')" by auto
  have "slot P1 t = Some p"
  proof (cases "snd c = t")
    case True
    then have "P1 = P" using 1(1) get_present [OF Cons.prems(2), of "fst c"] by simp
    then show ?thesis using Cons.prems(2) by simp
  next
    case False
    then show ?thesis using Cons.prems(2) get_slot [OF 1(1)] by simp
  qed
  with Cons.IH [OF 1(2)] show ?case .
qed simp

lemma calls_answers: "calls cs P = Ok (ps, P') \<Longrightarrow> length ps = length cs \<and> (\<forall>i < length cs. slot P' (snd (cs ! i)) = Some (ps ! i))"
proof (induction cs arbitrary: P ps)
  case (Cons c cs)
  from Cons.prems(1) obtain q P1 qs where 1: "get (fst c) (snd c) P = Ok (q, P1)" "calls cs P1 = Ok (qs, P')" "ps = q # qs" by auto
  have "slot P1 (snd c) = Some q" using get_slot [OF 1(1)] by simp
  then have "slot P' (snd c) = Some q" by (rule calls_stable [OF 1(2)])
  with Cons.IH [OF 1(2)] 1(3) show ?case by (auto simp: nth_Cons split: nat.splits)
qed simp

text \<open>Objects made at different addresses are never shared by accident.\<close>

definition separate :: "'p \<Rightarrow> bool" where
  "separate P \<longleftrightarrow> (\<forall>t t' p. slot P t = Some p \<longrightarrow> slot P t' = Some p \<longrightarrow> t = t')"

lemma get_separate:
  assumes "separate P" and "get a t P = Ok (p, P')" and "\<And>t'. slot P t' \<noteq> Some (address a)"
  shows "separate P'"
proof (cases "slot P t")
  case None
  have "p = address a" "slot P' = (slot P)(t \<mapsto> p)" using get_absent [OF None assms(2)] by auto
  then show ?thesis using assms(1,3) by (auto simp: separate_def split: if_splits)
next
  case (Some q)
  then show ?thesis using get_present [OF Some, of a] assms(1,2) by simp
qed

lemma calls_separate:
  "calls cs P = Ok (ps, P') \<Longrightarrow> separate P \<Longrightarrow> distinct (map (\<lambda>c. address (fst c)) cs)
     \<Longrightarrow> (\<And>t c. c \<in> List.set cs \<Longrightarrow> slot P t \<noteq> Some (address (fst c))) \<Longrightarrow> separate P'"
proof (induction cs arbitrary: P ps)
  case (Cons c cs)
  from Cons.prems(1) obtain q P1 qs where 1: "get (fst c) (snd c) P = Ok (q, P1)" "calls cs P1 = Ok (qs, P')" by auto
  have "separate P1" using get_separate [OF Cons.prems(2) 1(1)] Cons.prems(4) [of c] by simp
  moreover have "slot P1 t \<noteq> Some (address (fst d))" if "d \<in> List.set cs" for t d
  proof -
    have "q = address (fst c) \<or> slot P (snd c) = Some q"
      using get_absent [of P "snd c" "fst c" q P1] get_present [of P "snd c" _ "fst c"] 1(1) by (cases "slot P (snd c)") auto
    moreover have "address (fst c) \<noteq> address (fst d)" using Cons.prems(3) that by auto
    ultimately show ?thesis using get_slot [OF 1(1)] Cons.prems(4) [of d] that by auto
  qed
  moreover have "distinct (map (\<lambda>c. address (fst c)) cs)" using Cons.prems(3) by simp
  ultimately show ?case using Cons.IH [OF 1(2)] by blast
qed simp

end

lemma manager_slot: "thread_slot (IOManager_getThreadLocal api) IOManager_setThreadLocal t_io_manager object_at"
proof unfold_locales
  fix P :: "('a, 'b) process" and t a p P'
  assume "t_io_manager P t = None" "IOManager_getThreadLocal api a t P = Ok (p, P')"
  then show "p = object_at a \<and> t_io_manager P' = (t_io_manager P)(t \<mapsto> p)" by (auto simp: IOManager_getThreadLocal_def)
qed (simp_all add: IOManager_getThreadLocal_def IOManager_setThreadLocal_def)

lemma scheduler_slot: "thread_slot Scheduler_getThreadLocal Scheduler_setThreadLocal t_scheduler object_at"
proof unfold_locales
  fix P :: "('a, 'b) process" and t a p P'
  assume "t_scheduler P t = None" "Scheduler_getThreadLocal a t P = Ok (p, P')"
  then show "p = object_at a \<and> t_scheduler P' = (t_scheduler P)(t \<mapsto> p)" by (auto simp: Scheduler_getThreadLocal_def)
qed (simp_all add: Scheduler_getThreadLocal_def Scheduler_setThreadLocal_def)

interpretation iom: thread_slot "IOManager_getThreadLocal api" IOManager_setThreadLocal t_io_manager object_at
  by (rule manager_slot)

interpretation sch: thread_slot Scheduler_getThreadLocal Scheduler_setThreadLocal t_scheduler object_at
  by (rule scheduler_slot)

section \<open>Singletons\<close>

text \<open>The function-local static object of \<open>getInstance\<close>: constructed by the first call that succeeds in it.\<close>

definition getInstance :: "'o res \<Rightarrow> 'o option \<Rightarrow> ('o \<times> 'o option) res" where
  "getInstance construct s = (case s of Some x \<Rightarrow> Ok (x, s) | None \<Rightarrow> res_bind construct (\<lambda>x. Ok (x, Some x)))"

section \<open>The hook switch\<close>

record 'f hooks =
  G_hookEnabled :: bool
  G_hookInited :: bool
  sys_ptr :: "string \<Rightarrow> 'f option"

definition HOOK_FUN :: "string list" where
  "HOOK_FUN = [''sleep'', ''usleep'', ''nanosleep'', ''socket'', ''connect'', ''accept'', ''read'', ''readv'', ''recv'', ''recvfrom'',
     ''recvmsg'', ''write'', ''writev'', ''send'', ''sendto'', ''sendmsg'', ''close'', ''fcntl'', ''ioctl'', ''getsockopt'', ''setsockopt'']"

text \<open>At program start the pointers are null; the constructor of the global initialiser declares \<open>hook_init\<close> and does nothing.\<close>

definition hooks_start :: "'f hooks" where
  "hooks_start = \<lparr>G_hookEnabled = True, G_hookInited = False, sys_ptr = (\<lambda>_. None)\<rparr>"

definition GlobalIniter :: "'f hooks \<Rightarrow> 'f hooks" where
  "GlobalIniter h = h"

definition setHookEnabled :: "bool \<Rightarrow> 'f hooks \<Rightarrow> 'f hooks" where
  "setHookEnabled enable h = h\<lparr>G_hookEnabled := enable\<rparr>"

definition isHookEnabled :: "'f hooks \<Rightarrow> bool" where
  "isHookEnabled h = G_hookEnabled h"

definition hook_init :: "(string \<Rightarrow> 'f option) \<Rightarrow> 'f hooks \<Rightarrow> 'f hooks" where
  "hook_init dlsym h =
     (if G_hookInited h then h
      else h\<lparr>sys_ptr := (\<lambda>n. if n \<in> set HOOK_FUN then dlsym n else sys_ptr h n), G_hookInited := True\<rparr>)"

text \<open>
  The frame every replaced call has: initialise, then take the original function when hooks are off and the
  coroutine version when they are on. A call through a null pointer is undefined.
\<close>

definition hooked :: "(string \<Rightarrow> 'f option) \<Rightarrow> string \<Rightarrow> 'f \<Rightarrow> 'f hooks \<Rightarrow> ('f \<times> 'f hooks) res" where
  "hooked dlsym n co h =
     (let h = hook_init dlsym h
      in if \<not> isHookEnabled h then (case sys_ptr h n of None \<Rightarrow> Err NullDeref | Some f \<Rightarrow> Ok (f, h)) else Ok (co, h))"

section \<open>Properties\<close>

text \<open>Calls of \<open>IOManager::getThreadLocal\<close> by several threads, one after the other, and their answers.\<close>

fun manager_calls :: "'k kernel_api \<Rightarrow> ('cb make_args \<times> tid) list \<Rightarrow> ('cb, 'k) process \<Rightarrow> (nat list \<times> ('cb, 'k) process) res" where
  "manager_calls api [] P = Ok ([], P)"
| "manager_calls api (c # cs) P =
     res_bind (IOManager_getThreadLocal api (fst c) (snd c) P) (\<lambda>(p, P).
     res_bind (manager_calls api cs P) (\<lambda>(ps, P). Ok (p # ps, P)))"

lemma manager_calls_eq: "manager_calls api cs P = iom.calls api cs P"
  by (induction cs arbitrary: P) (simp_all add: split_def)

text \<open>
  C26. One manager per thread. However calls of \<open>getThreadLocal\<close> by any threads interleave, a thread is
  given the same manager every time and two threads never share one (objects that are alive have
  different addresses); a manager given to a thread explicitly is the one it gets from then on, and no
  other thread's changes.
\<close>

theorem one_manager_per_thread:
  assumes "\<forall>t. t_io_manager P t = None" and "distinct (map (\<lambda>c. object_at (fst c)) cs)" and "manager_calls api cs P = Ok (ps, P')"
    and "i < length cs" and "j < length cs"
  shows "(ps ! i = ps ! j \<longleftrightarrow> snd (cs ! i) = snd (cs ! j)) \<and> t_io_manager P' (snd (cs ! i)) = Some (ps ! i)
    \<and> IOManager_getThreadLocal api a t (IOManager_setThreadLocal t (Some p) P') = Ok (p, IOManager_setThreadLocal t (Some p) P')
    \<and> (\<forall>u. u \<noteq> t \<longrightarrow> t_io_manager (IOManager_setThreadLocal t (Some p) P') u = t_io_manager P' u)"
proof -
  have c: "iom.calls api cs P = Ok (ps, P')" using assms(3) by (simp add: manager_calls_eq)
  have "iom.separate P" using assms(1) by (simp add: iom.separate_def)
  then have "iom.separate P'" using iom.calls_separate [OF c _ assms(2)] assms(1) by simp
  moreover have "t_io_manager P' (snd (cs ! i)) = Some (ps ! i)" "t_io_manager P' (snd (cs ! j)) = Some (ps ! j)"
    using iom.calls_answers [OF c] assms(4,5) by auto
  ultimately have "ps ! i = ps ! j \<longleftrightarrow> snd (cs ! i) = snd (cs ! j)" unfolding iom.separate_def by (metis option.inject)
  then show ?thesis
    using \<open>t_io_manager P' (snd (cs ! i)) = Some (ps ! i)\<close> iom.get_after_set [of api a t p P'] by (simp add: IOManager_setThreadLocal_def)
qed

text \<open>A kernel with an epoll instance per manager, and a process with two threads.\<close>

definition multi_api :: "unit kernel_api" where
  "multi_api =
     \<lparr>sys_epoll_create = (\<lambda>_ k. (Inr 3, k)), sys_pipe = (\<lambda>k. (Inr (4, 5), k)), sys_set_nonblock = (\<lambda>_ k. (Inr (), k)),
      sys_epoll_ctl = (\<lambda>_ _ _ k. (Inr (), k)), sys_epoll_wait = (\<lambda>_ _ k. (Inr [], k)), sys_read = (\<lambda>_ _ k. (Inr 0, k)),
      sys_write = (\<lambda>_ _ k. (Inr 1, k))\<rparr>"

lemma multi_api_calls [simp]:
  "sys_epoll_create multi_api n k = (Inr 3, k)" "sys_pipe multi_api k = (Inr (4, 5), k)"
  "sys_set_nonblock multi_api i k = (Inr (), k)" "sys_epoll_ctl multi_api op i ev k = (Inr (), k)"
  by (simp_all add: multi_api_def)

lemma multi_api_manager: "\<exists>m. IOManager_new multi_api 0 1 (cb :: 'cb) (fresh_thread 0) k = Ok m"
proof -
  obtain w where w: "Scheduler_new 0 1 cb (fresh_thread 0) = Ok w" by (auto simp: sched_started_defs Let_def)
  have e: "\<exists>m'. epollAdd multi_api i ev m = Ok m'" for i ev and m :: "('cb, unit) io_manager"
    by (simp add: epollAdd_def asserted_epoll(1))
  show ?thesis unfolding IOManager_new_def w by (simp add: Let_def initEpoll_def initPipe_def asserted_def e)
qed

definition bare_process :: "(unit, unit) process" where
  "bare_process =
     \<lparr>t_io_manager = (\<lambda>_. None), t_scheduler = (\<lambda>_. None), manager_objects = (\<lambda>_. None), scheduler_objects = (\<lambda>_. None),
      os_threads = (\<lambda>_. fresh_thread 0), proc_kern = ()\<rparr>"

definition made_at :: "nat \<Rightarrow> unit make_args" where
  "made_at n = \<lparr>object_at = n, base_at = 0, loop_at = 1, loop_body = ()\<rparr>"

theorem one_manager_per_thread_witness:
  "\<exists>P'. manager_calls multi_api [(made_at 10, 1), (made_at 11, 2), (made_at 12, 1)] bare_process = Ok ([10, 11, 10], P')
    \<and> t_io_manager P' 2 = Some 11"
proof -
  let ?cs = "[(made_at 10, 1), (made_at 11, 2), (made_at 12, 1)]"
  obtain m where m: "IOManager_new multi_api 0 1 () (fresh_thread 0) () = Ok m" using multi_api_manager [of "()" "()"] by blast
  then have "\<exists>P'. manager_calls multi_api ?cs bare_process = Ok ([10, 11, 10], P')"
    by (simp add: IOManager_getThreadLocal_def bare_process_def made_at_def)
  then obtain P' where P': "manager_calls multi_api ?cs bare_process = Ok ([10, 11, 10], P')" by blast
  have "t_io_manager P' 2 = Some 11"
    using one_manager_per_thread [of bare_process ?cs multi_api "[10, 11, 10]" P' 1 0] P' by (simp add: bare_process_def made_at_def)
  with P' show ?thesis by blast
qed

text \<open>
  The function table of the hooks: initialising twice is initialising once, and from the first replaced call
  on every listed function has the pointer the lookup gave; so with hooks off a replaced call reaches
  the original function, and with hooks on the coroutine version, whatever was called before.
\<close>

lemma hook_init_twice: "hook_init dlsym (hook_init dlsym h) = hook_init dlsym h"
  by (simp add: hook_init_def)

theorem hooked_call_reaches_target:
  assumes "G_hookInited h \<longrightarrow> (\<forall>n \<in> set HOOK_FUN. sys_ptr h n = dlsym n)" and "n \<in> set HOOK_FUN" and "dlsym n = Some f"
  shows "\<exists>h'. hooked dlsym n co h = Ok (if isHookEnabled h then co else f, h') \<and> G_hookInited h'
    \<and> (\<forall>k \<in> set HOOK_FUN. sys_ptr h' k = dlsym k) \<and> isHookEnabled h' = isHookEnabled h"
  using assms by (auto simp: hooked_def hook_init_def isHookEnabled_def)

text \<open>Before the first replaced call no original function can be reached: the global initialiser does not initialise.\<close>

theorem hooks_uninitialised_at_start: "G_hookInited (GlobalIniter hooks_start) = False \<and> sys_ptr (GlobalIniter hooks_start) n = None"
  by (simp add: GlobalIniter_def hooks_start_def)

end
