(* ===== verification/Scheduler_Fairness.thy ===== *)
theory Scheduler_Fairness
  imports Task_Scheduler
begin

text \<open>
  Waiting times in the loop of src/coroutine/scheduler.cpp while other tasks keep coming: between two
  iterations the coroutine that ran, timers and events may make tasks and add them to the ready queue, and
  other threads may add tasks to the remote list.
\<close>

section \<open>Rounds with arrivals\<close>

text \<open>
  A loop that runs and is not asked to stop; and what may happen between two of its iterations: anything that
  keeps it so and only adds to the end of the ready queue.
\<close>

definition active :: "eptr \<Rightarrow> bool \<Rightarrow> 'cb world \<Rightarrow> bool" where
  "active S b w \<longleftrightarrow> sched_ok S w \<and> running (thr w) = S \<and> \<not> stopping (sch w) \<and> \<not> stop_pending b (sch w)"

definition arrivals_ok :: "eptr \<Rightarrow> bool \<Rightarrow> ('cb world \<Rightarrow> 'cb world) \<Rightarrow> bool" where
  "arrivals_ok S b f \<longleftrightarrow>
     (\<forall>w. active S b w \<longrightarrow> active S b (f w)
        \<and> (\<exists>new. ready_executors (sch (f w)) = ready_executors (sch w) @ map Some new))"

text \<open>A round (\<open>fin\<close> says whether the coroutine returns or else yields) and the arrivals behind it.\<close>

definition busy_round :: "bool \<Rightarrow> bool \<times> ('cb world \<Rightarrow> 'cb world) \<Rightarrow> 'cb world \<Rightarrow> (sched_out \<times> 'cb world) res" where
  "busy_round b a w = (case a of (fin, f) \<Rightarrow> res_bind (sched_round b fin w) (\<lambda>(out, w). Ok (out, f w)))"

fun busy_rounds :: "bool \<Rightarrow> (bool \<times> ('cb world \<Rightarrow> 'cb world)) list \<Rightarrow> 'cb world \<Rightarrow> (sched_out list \<times> 'cb world) res" where
  "busy_rounds b [] w = Ok ([], w)"
| "busy_rounds b (a # as) w =
     res_bind (busy_round b a w) (\<lambda>(out, w).
     res_bind (busy_rounds b as w) (\<lambda>(outs, w). Ok (out # outs, w)))"

text \<open>The order of service of the tasks that wait.\<close>

definition waiting :: "scheduler \<Rightarrow> eptr option list" where
  "waiting s = ready_executors s @ map Some (remote_tasks s)"

section \<open>Arrivals\<close>

text \<open>A new coroutine is made, if there is memory, and added from the loop's thread or from another one.\<close>

definition arrive :: "('cb thread \<Rightarrow> eptr) \<Rightarrow> 'cb \<Rightarrow> bool \<Rightarrow> 'cb world \<Rightarrow> 'cb world" where
  "arrive alloc cb remote w =
     (let p = alloc (thr w)
      in if heap (thr w) p \<noteq> None then w
         else case Executor_callback p (Some cb) DefaultStackSize (thr w) of
                Inl _ \<Rightarrow> w
              | Inr th \<Rightarrow>
                  w\<lparr>thr := th, sch := (if remote then snd (addRemoteExecutor p (sch w)) else snd (addExecutor (Some p) (sch w)))\<rparr>)"

lemma arrivals_id: "arrivals_ok S b (\<lambda>w. w)"
  by (simp add: arrivals_ok_def exI [of _ "[]"])

lemma arrivals_comp: "arrivals_ok S b f \<Longrightarrow> arrivals_ok S b g \<Longrightarrow> arrivals_ok S b (\<lambda>w. g (f w))"
  unfolding arrivals_ok_def by (metis append.assoc map_append)

lemma arrivals_arrive: "arrivals_ok S b (arrive alloc cb remote)"
  unfolding arrivals_ok_def
proof (intro allI impI)
  fix w :: "'a world"
  assume a: "active S b w"
  let ?p = "alloc (thr w)"
  show "active S b (arrive alloc cb remote w)
    \<and> (\<exists>new. ready_executors (sch (arrive alloc cb remote w)) = ready_executors (sch w) @ map Some new)"
  proof (cases "heap (thr w) ?p")
    case (Some e)
    then show ?thesis using a by (auto simp: arrive_def intro: exI [of _ "[]"])
  next
    case None
    obtain th e where th: "Executor_callback ?p (Some cb) DefaultStackSize (thr w) = Ok th" "running th = running (thr w)"
      "heap th ?p = Some e" "ex_is_call_back_type e"
      by (auto simp: Executor_callback_def idGenerate_def createUpdateData_def Let_def)
    have ok: "sched_ok S w" "running (thr w) = S" using a by (auto simp: active_def)
    have "sched_ok S (w\<lparr>thr := th\<rparr>) \<or> loop_left S (w\<lparr>thr := th\<rparr>)"
      using sched_step_safe [OF sched_step.create_task [OF None, of "Some cb" S DefaultStackSize] ok(1)] th(1) by auto
    then have 1: "sched_ok S (w\<lparr>thr := th\<rparr>)" using th(2) ok(2) by (auto simp: loop_left_def)
    have "?p \<noteq> S" using ok None by (auto simp: sched_ok_def loop_ok_def)
    then have "task S th ?p" using th(3,4) by (auto simp: task_def)
    with 1 have "sched_ok S (arrive alloc cb remote w)"
      using th(1) None subsetD [OF queued_ops(1) [of ?p "sch w"]] by (auto simp: arrive_def Let_def sched_ok_def queued_ops)
    moreover have "arrive alloc cb remote w =
        w\<lparr>thr := th, sch := (if remote then snd (addRemoteExecutor ?p (sch w)) else snd (addExecutor (Some ?p) (sch w)))\<rparr>"
      using th(1) None by (simp add: arrive_def Let_def)
    ultimately show ?thesis
      using a th(2) by (auto simp: active_def addRemoteExecutor_def insertFront_def addExecutor_def ready_push_def stop_pending_def
          intro: exI [of _ "[]"] exI [of _ "[?p]"])
  qed
qed

section \<open>Service\<close>

lemma pick_waiting:
  assumes "\<not> stopping s" and "waiting s = Some p # rest"
  shows "sched_pick s = (Some p, s\<lparr>ready_executors := rest, remote_tasks := []\<rparr>)"
  using assms by (simp add: waiting_def sched_pick_def scheduleAll_eq ready_pop_def)

lemma round_serves:
  assumes "active S b w" and "waiting (sch w) = Some p # rest"
  shows "\<exists>out w'. sched_round b fin w = Ok (out, w') \<and> served out p \<and> active S b w' \<and> ready_executors (sch w') = rest"
proof -
  have "\<not> stopping (sch w)" using assms(1) by (simp add: active_def)
  from sched_round_picks [OF _ _ _ pick_waiting [OF this assms(2)], of S b fin] assms(1) obtain out w' where
    "sched_round b fin w = Ok (out, w')" "served out p" "sched_ok S w'" "running (thr w') = S"
    "sch w' = (sch w)\<lparr>ready_executors := rest, remote_tasks := []\<rparr>"
    by (auto simp: active_def)
  with assms(1) show ?thesis by (auto simp: active_def stop_pending_def)
qed

lemma busy_round_serves:
  assumes a: "active S b w" and q: "waiting (sch w) = Some p # rest" and f: "arrivals_ok S b f"
  shows "\<exists>out w' new. busy_round b (fin, f) w = Ok (out, w') \<and> served out p \<and> active S b w' \<and> waiting (sch w') = rest @ map Some new"
proof -
  obtain out w1 where w1: "sched_round b fin w = Ok (out, w1)" "served out p" "active S b w1" "ready_executors (sch w1) = rest"
    using round_serves [OF a q] by blast
  then obtain new where "active S b (f w1)" "ready_executors (sch (f w1)) = rest @ map Some new"
    using f by (auto simp: arrivals_ok_def)
  then show ?thesis using w1(1,2) by (auto simp: busy_round_def waiting_def intro: exI [of _ "new @ remote_tasks (sch (f w1))"])
qed

text \<open>
  C10. No task starves. In a running scheduler a task with \<open>k\<close> others in front of it is served after exactly
  \<open>k\<close> rounds, whatever the coroutines in between do (return or yield) and whatever tasks are made and
  added meanwhile, locally or from other threads; those in front are served in their order.
\<close>

theorem no_task_starves:
  assumes "active S b w" and "waiting (sch w) = map Some (front @ p # behind)" and "length as = length front"
    and "\<forall>(fin, f) \<in> set as. arrivals_ok S b f"
  shows "\<exists>outs w'. busy_rounds b as w = Ok (outs, w') \<and> list_all2 served outs front
    \<and> (\<exists>out w''. sched_iter b w' = Ok (out, w'') \<and> served out p)"
  using assms
proof (induction front arbitrary: w as behind)
  case Nil
  then have "waiting (sch w) = Some p # map Some behind" by simp
  then obtain out w1 where w1: "sched_round b True w = Ok (out, w1)" "served out p"
    using round_serves [OF Nil.prems(1)] by blast
  then have "\<exists>w2. sched_iter b w = Ok (out, w2)"
    by (auto simp: sched_round_def split: sched_out.splits)
  then show ?case using Nil.prems(3) w1(2) by auto
next
  case (Cons q front)
  obtain fin f as' where a: "as = (fin, f) # as'" "length as' = length front" "arrivals_ok S b f"
    using Cons.prems(3,4) by (cases as) auto
  have "waiting (sch w) = Some q # map Some (front @ p # behind)" using Cons.prems(2) by simp
  from busy_round_serves [OF Cons.prems(1) this a(3), of fin] obtain out w1 new where w1: "busy_round b (fin, f) w = Ok (out, w1)" "served out q"
    "active S b w1" "waiting (sch w1) = map Some (front @ p # behind @ new)" by auto
  have "\<forall>(fin, f) \<in> set as'. arrivals_ok S b f" using Cons.prems(4) a(1) by simp
  from Cons.IH [OF w1(3,4) a(2) this] w1(1,2) show ?case by (auto simp: a(1))
qed

text \<open>Coroutine 2 is in the queue; another one comes, and two more while they wait.\<close>

theorem no_task_starves_witness:
  "\<exists>w outs w' out w''. demo_world () = Ok w
     \<and> busy_rounds False [(False, arrive (\<lambda>_. 8) () True)] (arrive (\<lambda>_. 7) () False w) = Ok (outs, w')
     \<and> list_all2 served outs [2] \<and> sched_iter False w' = Ok (out, w'') \<and> served out 7"
proof -
  obtain w where w: "demo_world () = Ok w" "sched_ok 1 w" "running (thr w) = 1" "ready_executors (sch w) = [Some 2]"
    "remote_tasks (sch w) = []" "\<not> stopping (sch w)" "\<not> stopped (sch w)"
    using demo_world_ok [of "()"] by blast
  let ?w = "arrive (\<lambda>_. 7) () False w"
  have h: "heap (thr w) 7 = None" using w(1) by (auto simp: demo_world_def sched_started_defs Let_def)
  have a: "active 1 False w" using w by (simp add: active_def stop_pending_def)
  then have "active 1 False ?w" using arrivals_arrive [of 1 False "\<lambda>_. 7" "()" False] by (auto simp: arrivals_ok_def)
  moreover have "waiting (sch ?w) = map Some ([2] @ 7 # [])"
    using h w(4-6) by (auto simp: arrive_def waiting_def Executor_callback_def idGenerate_def createUpdateData_def Let_def addExecutor_def ready_push_def)
  ultimately have "\<exists>outs w'. busy_rounds False [(False, arrive (\<lambda>_. 8) () True)] ?w = Ok (outs, w') \<and> list_all2 served outs [2]
      \<and> (\<exists>out w''. sched_iter False w' = Ok (out, w'') \<and> served out 7)"
    by (rule no_task_starves) (simp_all add: arrivals_arrive)
  with w(1) show ?thesis by blast
qed

end
