(* ===== verification/Example_Executor.thy ===== *)
theory Example_Executor
  imports Task_Scheduler Debug_Print
begin

text \<open>
  runner/runner\_executor.cpp as a whole program on top of the coroutines, the scheduler and the printing
  helpers. The functions are lists of statements; every stack has the statements it still has to
  execute, and a step executes the next statement of the stack that is running, so what is executed
  after a switch is decided by the library. Hooks are switched off by the first statement of \<open>main\<close>, so
  the pauses (\<open>sleep_for\<close>) only take time and are left out. Two texts on the standard output come from the loggers and
  are parameters: what their initialisation prints before \<open>main\<close> (\<open>before\<close>; an error when conf/main.json cannot
  be read, otherwise nothing), and the line of the scheduler's constructor (\<open>log_line\<close>, with date and time). At the end
  of the thread the destructor of its main executor prints a notice.
\<close>

section \<open>Statements\<close>

text \<open>
  Executors are named by their addresses. \<open>LoopTop\<close> and \<open>LoopBack\<close> are the loop of
  \<open>threadScheduleFunc\<close>: its head, and the code behind \<open>executor->exec()\<close>. \<open>CallReturn\<close> is the end of a callback.
\<close>

datatype stmt =
    OpenMarker string
  | CloseMarker
  | Print string
  | GetCurrent
  | MakeExecutor eptr "stmt list"
  | DropExecutor eptr
  | CallExec eptr
  | CallYield eptr
  | CallReturn
  | MakeScheduler eptr string
  | AddTask eptr "stmt list"
  | PrintCounter
  | TaskLine
  | RunScheduler
  | StopScheduler
  | DropScheduler
  | LoopTop
  | LoopBack eptr

record program =
  prog_thr :: "stmt list thread"
  prog_sch :: "scheduler option"
  code :: "eptr \<Rightarrow> stmt list"
  out :: console
  open_markers :: "CaseMarker list"
  counter :: int \<comment> \<open>the static \<open>i\<close> of \<open>runScheduler\<close>\<close>

abbreviation "current_stack P \<equiv> running (prog_thr P)"

definition on_thread :: "program \<Rightarrow> stmt list thread res \<Rightarrow> program res" where
  "on_thread P r = res_bind r (\<lambda>th. Ok (P\<lparr>prog_thr := th\<rparr>))"

definition with_scheduler :: "program \<Rightarrow> (stmt list world \<Rightarrow> program res) \<Rightarrow> program res" where
  "with_scheduler P f = (case prog_sch P of None \<Rightarrow> Err NullDeref | Some s \<Rightarrow> f \<lparr>thr = prog_thr P, sch = s\<rparr>)"

definition put_world :: "stmt list world \<Rightarrow> program \<Rightarrow> program" where
  "put_world w P = P\<lparr>prog_thr := thr w, prog_sch := Some (sch w)\<rparr>"

definition say :: "string \<Rightarrow> program \<Rightarrow> program" where
  "say s P = P\<lparr>out := put_out s (out P)\<rparr>"

text \<open>The destructor of the scheduler.\<close>

definition Scheduler_destroy :: "u32 \<Rightarrow> scheduler \<Rightarrow> console \<Rightarrow> scheduler \<times> console" where
  "Scheduler_destroy tid s k = (stop s, put_out (''Scheduler destruct in thread '' @ decimal (uint tid)) k)"

text \<open>What is left of the loop behind an iteration.\<close>

fun loop_rest :: "sched_out \<Rightarrow> stmt list" where
  "loop_rest (Switched p) = [LoopBack p, LoopTop]"
| "loop_rest (Skipped p) = [LoopTop]"
| "loop_rest Blocked = [LoopTop]"
| "loop_rest LoopEnded = [CallReturn]"

text \<open>
  One statement; \<open>tid\<close> is the thread's id and \<open>b\<close> the address of the executor made from the thread's
  own stack. The rest of a function is written down before the statement switches away.
\<close>

fun exec_stmt :: "u32 \<Rightarrow> eptr \<Rightarrow> stmt \<Rightarrow> program \<Rightarrow> program res" where
  "exec_stmt tid b (OpenMarker m) P =
     res_bind (CaseMarker_named m (out P)) (\<lambda>(c, k). Ok (P\<lparr>out := k, open_markers := c # open_markers P\<rparr>))"
| "exec_stmt tid b CloseMarker P =
     (case open_markers P of
        [] \<Rightarrow> Err OutOfBounds
      | c # cs \<Rightarrow> res_bind (CaseMarker_destroy c (out P)) (\<lambda>k. Ok (P\<lparr>out := k, open_markers := cs\<rparr>)))"
| "exec_stmt tid b (Print s) P = Ok (say s P)"
| "exec_stmt tid b GetCurrent P = Ok (P\<lparr>prog_thr := snd (getCurrent b (prog_thr P))\<rparr>)"
| "exec_stmt tid b (MakeExecutor p body) P =
     on_thread (P\<lparr>code := (code P)(p := body)\<rparr>) (Executor_callback p (Some body) DefaultStackSize (prog_thr P))"
| "exec_stmt tid b (DropExecutor p) P = Ok (P\<lparr>prog_thr := destroy_executor p (prog_thr P)\<rparr>)"
| "exec_stmt tid b (CallExec p) P = on_thread P (exec p (prog_thr P))"
| "exec_stmt tid b (CallYield p) P = on_thread P (yield p (prog_thr P))"
| "exec_stmt tid b CallReturn P = on_thread P (executorMainFunc_end (prog_thr P))"
| "exec_stmt tid b (MakeScheduler p log_line) P =
     res_bind (Scheduler_new b p [LoopTop] (prog_thr P)) (\<lambda>w. Ok (say log_line (put_world w (P\<lparr>code := (code P)(p := [LoopTop])\<rparr>))))"
| "exec_stmt tid b (AddTask p body) P =
     with_scheduler P (\<lambda>w.
       res_bind (Executor_callback p (Some body) DefaultStackSize (thr w)) (\<lambda>th.
         Ok (put_world \<lparr>thr = th, sch = snd (addExecutor (Some p) (sch w))\<rparr> (P\<lparr>code := (code P)(p := body)\<rparr>))))"
| "exec_stmt tid b PrintCounter P = Ok (say (''----'' @ decimal (counter P) @ ''-----'' @ newline) P)"
| "exec_stmt tid b TaskLine P =
     (let P = P\<lparr>counter := counter P + 1\<rparr>;
          (p, th) = getCurrent b (prog_thr P)
      in res_bind (deref th p) (\<lambda>e.
           Ok (say (''current: '' @ decimal (counter P) @ '', in executor '' @ decimal (uint (ex_id e)) @ '' at thread ''
                    @ decimal (uint tid) @ newline) (P\<lparr>prog_thr := th\<rparr>))))"
| "exec_stmt tid b RunScheduler P = with_scheduler P (\<lambda>w. res_bind (sched_run w) (\<lambda>w. Ok (put_world w P)))"
| "exec_stmt tid b StopScheduler P = with_scheduler P (\<lambda>w. Ok (P\<lparr>prog_sch := Some (stop (sch w))\<rparr>))"
| "exec_stmt tid b DropScheduler P =
     with_scheduler P (\<lambda>w. Ok (P\<lparr>prog_sch := None, out := snd (Scheduler_destroy tid (sch w) (out P))\<rparr>))"
| "exec_stmt tid b LoopTop P =
     with_scheduler P (\<lambda>w.
       res_bind (sched_iter default_stop_pending_func w) (\<lambda>(r, w').
         Ok (put_world w' (P\<lparr>code := (code P)(current_stack P := loop_rest r)\<rparr>))))"
| "exec_stmt tid b (LoopBack p) P = with_scheduler P (\<lambda>w. res_bind (sched_back p w) (\<lambda>w. Ok (put_world w P)))"

text \<open>A step of the machine; the program is over when the thread's own stack has nothing left.\<close>

definition prog_step :: "u32 \<Rightarrow> eptr \<Rightarrow> program \<Rightarrow> program res" where
  "prog_step tid b P =
     (case code P (current_stack P) of
        [] \<Rightarrow> Err Terminated
      | s # ss \<Rightarrow> exec_stmt tid b s (P\<lparr>code := (code P)(current_stack P := ss)\<rparr>))"

primrec prog_steps :: "u32 \<Rightarrow> eptr \<Rightarrow> nat \<Rightarrow> program \<Rightarrow> program res" where
  "prog_steps tid b 0 P = Ok P"
| "prog_steps tid b (Suc n) P = res_bind (prog_step tid b P) (prog_steps tid b n)"

definition finished :: "eptr \<Rightarrow> program \<Rightarrow> bool" where
  "finished b P \<longleftrightarrow> current_stack P = b \<and> code P b = []"

section \<open>The program\<close>

definition simplePrint :: "stmt list" where
  "simplePrint = [Print (''simplePrint'' @ newline)]"

definition stSize :: "nat \<Rightarrow> nat \<Rightarrow> stmt list" where
  "stSize executor_size scheduler_size =
     [OpenMarker ''size'', Print (''executor size:'' @ decimal (int executor_size) @ newline),
      Print (''scheduler size:'' @ decimal (int scheduler_size) @ newline), CloseMarker]"

definition executor_body :: "eptr \<Rightarrow> stmt list" where
  "executor_body executor =
     [Print (''run in executor'' @ newline), CallYield executor, Print (''run in executor after yield'' @ newline), CallReturn]"

definition runExecutor :: "eptr \<Rightarrow> stmt list" where
  "runExecutor executor =
     [OpenMarker ''run executor'', GetCurrent, MakeExecutor executor (executor_body executor), CallExec executor]
     @ simplePrint @ [CallExec executor, DropExecutor executor, CloseMarker]"

definition task_body :: "stmt list" where
  "task_body = [TaskLine, CallReturn]"

definition stop_body :: "stmt list" where
  "stop_body = [StopScheduler, CallReturn]"

text \<open>\<open>task_at j\<close> is the address of the executor of round \<open>j\<close>; the code has ten rounds.\<close>

definition add_tasks :: "(nat \<Rightarrow> eptr) \<Rightarrow> nat \<Rightarrow> stmt list" where
  "add_tasks task_at n = concat (map (\<lambda>j. [AddTask (task_at j) task_body, PrintCounter]) [0..<n])"

definition runScheduler :: "string \<Rightarrow> eptr \<Rightarrow> (nat \<Rightarrow> eptr) \<Rightarrow> nat \<Rightarrow> eptr \<Rightarrow> stmt list" where
  "runScheduler log_line loop task_at n stop_task =
     [OpenMarker ''run scheduler'', MakeScheduler loop log_line] @ add_tasks task_at n
     @ [AddTask stop_task stop_body, RunScheduler, StopScheduler, DropScheduler, CloseMarker]"

text \<open>\<open>Initer inittt\<close> is constructed before \<open>main\<close>.\<close>

definition Initer_new :: "int \<Rightarrow> console \<Rightarrow> int \<times> console" where
  "Initer_new ii k = (let i = ii + 1 in (i, put_out (''cons '' @ decimal i @ newline) k))"

definition main_body :: "string \<Rightarrow> nat \<Rightarrow> nat \<Rightarrow> stmt list" where
  "main_body log_line executor_size scheduler_size =
     runExecutor 1 @ runScheduler log_line 2 (\<lambda>j. 4 + j) 10 3 @ stSize executor_size scheduler_size"

definition program_start :: "string \<Rightarrow> stmt list \<Rightarrow> program" where
  "program_start before body =
     \<lparr>prog_thr = fresh_thread 0, prog_sch = None, code = (\<lambda>_. [])(0 := body),
      out = snd (Initer_new 0 \<lparr>printed = before, construct_time = 0, marker_time = 0\<rparr>), open_markers = [], counter = 0\<rparr>"

text \<open>
  The end of the thread: its main executor, which only the thread-local pointer still owns, is destroyed. The notice is that of
  the destructor.
\<close>

definition destroy_notice :: "u32 \<Rightarrow> string \<Rightarrow> string" where
  "destroy_notice tid thread_name =
     ''notion: destroying thread main executor! thread id:'' @ decimal (uint tid) @ '', thread name:'' @ thread_name @ newline"

definition thread_exit :: "u32 \<Rightarrow> string \<Rightarrow> program \<Rightarrow> program" where
  "thread_exit tid thread_name P =
     (case t_main_executor (prog_thr P) of
        None \<Rightarrow> P
      | Some p \<Rightarrow> say (destroy_notice tid thread_name) (P\<lparr>prog_thr := destroy_executor p (prog_thr P)\<rparr>))"

section \<open>Runs\<close>

definition reaches :: "u32 \<Rightarrow> eptr \<Rightarrow> program \<Rightarrow> program \<Rightarrow> bool" where
  "reaches tid b P P' \<longleftrightarrow> (\<exists>n. prog_steps tid b n P = Ok P')"

lemma reaches_refl: "reaches tid b P P"
  unfolding reaches_def by (rule exI [of _ 0]) simp

lemma reaches_one:
  assumes "current_stack P = q" and "code P q = s # ss" and "exec_stmt tid b s (P\<lparr>code := (code P)(q := ss)\<rparr>) = Ok P1"
  shows "reaches tid b P P1"
proof -
  have "prog_steps tid b 1 P = Ok P1" using assms by (simp add: prog_step_def)
  then show ?thesis unfolding reaches_def by blast
qed

lemma prog_steps_add: "prog_steps tid b (m + n) P = res_bind (prog_steps tid b m P) (prog_steps tid b n)"
proof (induction m arbitrary: P)
  case (Suc m)
  then show ?case by (cases "prog_step tid b P") simp_all
qed simp

lemma reaches_trans: "reaches tid b P P1 \<Longrightarrow> reaches tid b P1 P2 \<Longrightarrow> reaches tid b P P2"
  unfolding reaches_def by (metis prog_steps_add res_bind_simps(1))

definition heading :: "string \<Rightarrow> string" where
  "heading s = replicate 10 (CHR ''='') @ s @ replicate 10 (CHR ''='') @ newline"

definition executor_text :: string where
  "executor_text = heading ''run case run executor'' @ ''run in executor'' @ newline @ ''simplePrint'' @ newline
     @ ''run in executor after yield'' @ newline @ heading ''end case run executor'' @ newline"

lemmas text_defs = CaseMarker_named_def CaseMarker_destroy_def printDividing_text_def put_out_def say_def heading_def


lemmas run_defs = prog_step_def program_start_def runExecutor_def simplePrint_def executor_body_def text_defs on_thread_def Initer_new_def
  fresh_thread_def getCurrent_def Executor_current_def Executor_callback_def idGenerate_def createUpdateData_def setMainExecutor_def
  destroy_executor_def destroyUpdateData_def


lemma run_executor:
  "\<exists>P e. reaches tid 0 (program_start before (runExecutor 1 @ rest)) P \<and> code P 0 = rest \<and> prog_sch P = None \<and> open_markers P = [] \<and> counter P = 0
     \<and> printed (out P) = before @ ''cons '' @ decimal 1 @ newline @ executor_text
     \<and> t_cur_executor (prog_thr P) = Some 0 \<and> t_base_executor (prog_thr P) = Some 0 \<and> running (prog_thr P) = 0
     \<and> suspended (prog_thr P) 0 = None \<and> least_unallocated_id (prog_thr P) = 2 \<and> \<not> ex_is_call_back_type e
     \<and> heap (prog_thr P) = [0 \<mapsto> e]"
proof -
  let ?P = "program_start before (runExecutor 1 @ rest)"
  have "\<exists>P e. prog_steps tid 0 12 ?P = Ok P \<and> code P 0 = rest \<and> prog_sch P = None \<and> open_markers P = [] \<and> counter P = 0
     \<and> printed (out P) = before @ ''cons '' @ decimal 1 @ newline @ executor_text
     \<and> t_cur_executor (prog_thr P) = Some 0 \<and> t_base_executor (prog_thr P) = Some 0 \<and> running (prog_thr P) = 0
     \<and> suspended (prog_thr P) 0 = None \<and> least_unallocated_id (prog_thr P) = 2 \<and> \<not> ex_is_call_back_type e
     \<and> heap (prog_thr P) = [0 \<mapsto> e]"
  by (simp add: eval_nat_numeral run_defs executor_text_def exec_defs leave_defs Let_def) (rule exI, rule conjI [rotated], rule refl, simp)
  then show ?thesis unfolding reaches_def by blast
qed
text \<open>A thread whose scheduler was made and not yet run: everything it has besides its own executor waits to start.\<close>

definition waits_to_start :: "'cb executor \<Rightarrow> bool" where
  "waits_to_start e \<longleftrightarrow> ex_is_call_back_type e \<and> ex_state e = Init \<and> ex_stack e = NoStack \<and> ex_callback e \<noteq> None"

definition loading :: "eptr \<Rightarrow> eptr \<Rightarrow> 'cb thread \<Rightarrow> bool" where
  "loading b S th \<longleftrightarrow> t_main_executor th = Some S \<and> t_cur_executor th = Some b \<and> t_base_executor th = Some b \<and> running th = b
     \<and> b \<noteq> S \<and> suspended th b = None \<and> (\<exists>e. heap th b = Some e \<and> \<not> ex_is_call_back_type e)
     \<and> (\<exists>e. heap th S = Some e \<and> ex_is_call_back_type e)
     \<and> (\<forall>p e. heap th p = Some e \<longrightarrow> ex_is_call_back_type e \<longrightarrow> waits_to_start e)"

lemma loading_new:
  assumes "t_cur_executor th = Some b" and "t_base_executor th = Some b" and "running th = b" and "suspended th b = None"
    and "heap th = [b \<mapsto> e]" and "\<not> ex_is_call_back_type e" and "S \<noteq> b"
  shows "\<exists>w. Scheduler_new b S loop th = Ok w \<and> loading b S (thr w) \<and> dom (heap (thr w)) = {b, S}
    \<and> least_unallocated_id (thr w) = least_unallocated_id th + 1
    \<and> sch w = \<lparr>stopping = False, stopped = False, exit_with_tasks_processed = True, ready_executors = [], scheduler_executor = Some S,
        remote_tasks = []\<rparr>"
  using assms
  by (auto simp: Scheduler_new_def getCurrent_def Executor_callback_def idGenerate_def createUpdateData_def setMainExecutor_def Let_def
      loading_def waits_to_start_def)

lemma loading_add:
  assumes "loading b S th" and "heap th p = None"
  shows "\<exists>th' e. Executor_callback p (Some body) sz th = Ok th' \<and> loading b S th' \<and> heap th' = (heap th)(p \<mapsto> e) \<and> waits_to_start e
    \<and> ex_id e = least_unallocated_id th + 1 \<and> least_unallocated_id th' = least_unallocated_id th + 1"
  using assms
  by (auto simp: Executor_callback_def idGenerate_def createUpdateData_def Let_def loading_def waits_to_start_def)

lemma loading_run:
  assumes "loading b S th" and "scheduler_executor s = Some S" and "\<forall>p \<in> queued s. task S th p"
  shows "\<exists>w. sched_run \<lparr>thr = th, sch = s\<rparr> = Ok w \<and> sched_ok S w \<and> running (thr w) = S \<and> sch w = s
    \<and> t_base_executor (thr w) = Some b \<and> (\<forall>q. q \<noteq> b \<longrightarrow> q \<noteq> S \<longrightarrow> heap (thr w) q = heap th q)"
proof -
  obtain eb es where e: "heap th b = Some eb" "\<not> ex_is_call_back_type eb" "heap th S = Some es" "waits_to_start es"
    using assms(1) by (auto simp: loading_def)
  have w: "\<forall>p e. heap th p = Some e \<longrightarrow> ex_is_call_back_type e \<longrightarrow> waits_to_start e" using assms(1) by (simp add: loading_def)
  show ?thesis
    using assms e w
    by (auto simp: loading_def waits_to_start_def sched_run_def mainExec_def doExec_def mainExecInner_def initToReady_def makeContext_def
        make_fcontext_def swapContext_def executorMainFunc_start_def store_context_def fixStackUnwinding_def upd_def deref_def Let_def
        sched_ok_def loop_ok_def coop_ok_def base_waits_def on_cpu_def task_def)
qed

definition queue_of :: "eptr list \<Rightarrow> scheduler" where
  "queue_of ps = \<lparr>stopping = False, stopped = False, exit_with_tasks_processed = True, ready_executors = map Some ps,
     scheduler_executor = Some 2, remote_tasks = []\<rparr>"

definition task_waits :: "program \<Rightarrow> nat \<Rightarrow> bool" where
  "task_waits P j \<longleftrightarrow> code P (4 + j) = task_body
     \<and> (\<exists>e. heap (prog_thr P) (4 + j) = Some e \<and> waits_to_start e \<and> ex_id e = of_nat (4 + j))"

definition loaded :: "nat \<Rightarrow> stmt list \<Rightarrow> string \<Rightarrow> program \<Rightarrow> bool" where
  "loaded k rest sofar P \<longleftrightarrow> code P 0 = rest \<and> code P 2 = [LoopTop] \<and> counter P = 0 \<and> printed (out P) = sofar
     \<and> open_markers P = [\<lparr>time_no = None, sub_counter = 0, marker = ''run scheduler''\<rparr>]
     \<and> loading 0 2 (prog_thr P) \<and> least_unallocated_id (prog_thr P) = of_nat (3 + k) \<and> prog_sch P = Some (queue_of (map ((+) 4) [0..<k]))
     \<and> (\<forall>j < k. task_waits P j) \<and> (\<forall>j \<ge> k. heap (prog_thr P) (4 + j) = None) \<and> heap (prog_thr P) 3 = None"

lemma loading_running: "loading b S th \<Longrightarrow> running th = b"
  by (simp add: loading_def)

lemma scheduler_made:
  assumes P: "code P 0 = OpenMarker ''run scheduler'' # MakeScheduler 2 log_line # rest" "prog_sch P = None" "open_markers P = []" "counter P = 0"
      "printed (out P) = sofar"
    and t: "t_cur_executor (prog_thr P) = Some 0" "t_base_executor (prog_thr P) = Some 0" "running (prog_thr P) = 0"
      "suspended (prog_thr P) 0 = None" "least_unallocated_id (prog_thr P) = 2" "\<not> ex_is_call_back_type e" "heap (prog_thr P) = [0 \<mapsto> e]"
  shows "\<exists>P'. reaches tid 0 P P' \<and> loaded 0 rest (sofar @ heading ''run case run scheduler'' @ log_line) P'"
proof -
  obtain w where w: "Scheduler_new 0 2 [LoopTop] (prog_thr P) = Ok w" "loading 0 2 (thr w)" "dom (heap (thr w)) = {0, 2}"
    "least_unallocated_id (thr w) = least_unallocated_id (prog_thr P) + 1" "sch w = queue_of []"
    using loading_new [OF t(1-4,7,6), of 2 "[LoopTop]"] by (auto simp: queue_of_def)
  have h: "heap (thr w) q = None" if "q \<noteq> 0" "q \<noteq> 2" for q
  proof -
    have "q \<notin> dom (heap (thr w))" using that by (simp add: w(3))
    then show ?thesis by (simp add: domIff)
  qed
  let ?P1 = "P\<lparr>code := (code P)(0 := MakeScheduler 2 log_line # rest), out := printDividing_text ''run case run scheduler'' (out P),
    open_markers := [\<lparr>time_no = None, sub_counter = 0, marker = ''run scheduler''\<rparr>]\<rparr>"
  let ?P2 = "say log_line (put_world w (?P1\<lparr>code := (code P)(0 := rest, 2 := [LoopTop])\<rparr>))"
  have "reaches tid 0 P ?P1"
    by (rule reaches_one [of P 0 "OpenMarker ''run scheduler''" "MakeScheduler 2 log_line # rest"]) (simp_all add: P(1,3) t(3) CaseMarker_named_def)
  moreover have "reaches tid 0 ?P1 ?P2"
    by (rule reaches_one [of ?P1 0 "MakeScheduler 2 log_line" rest]) (simp_all add: t(3) w(1))
  ultimately have "reaches tid 0 P ?P2" by (rule reaches_trans)
  moreover have "loaded 0 rest (sofar @ heading ''run case run scheduler'' @ log_line) ?P2"
    using w h P t(5) by (simp add: loaded_def put_world_def text_defs)
  ultimately show ?thesis by blast
qed

lemma task_added:
  assumes l: "loaded k (AddTask (4 + k) task_body # PrintCounter # rest) sofar P"
  shows "\<exists>P'. reaches tid 0 P P' \<and> loaded (Suc k) rest (sofar @ ''----0-----'' @ newline) P'"
proof -
  note d = l [unfolded loaded_def]
  have r: "running (prog_thr P) = 0" using d loading_running by blast
  obtain th e where th: "Executor_callback (4 + k) (Some task_body) DefaultStackSize (prog_thr P) = Ok th" "loading 0 2 th"
    "heap th = (heap (prog_thr P))(4 + k \<mapsto> e)" "waits_to_start e" "ex_id e = least_unallocated_id (prog_thr P) + 1"
    "least_unallocated_id th = least_unallocated_id (prog_thr P) + 1"
    using loading_add [of 0 2 "prog_thr P" "4 + k" task_body DefaultStackSize] d by auto
  let ?P1 = "P\<lparr>code := (code P)(0 := PrintCounter # rest, 4 + k := task_body), prog_thr := th, prog_sch := Some (queue_of (map ((+) 4) [0..<Suc k]))\<rparr>"
  let ?P2 = "say (''----0-----'' @ newline) (?P1\<lparr>code := (code P)(0 := rest, 4 + k := task_body)\<rparr>)"
  have z: "decimal 0 = ''0''" by (simp add: decimal_def dec_str.simps digit_char_def)
  have q: "prog_sch P = Some (queue_of (map ((+) 4) [0..<k]))" "counter P = 0" "code P 0 = AddTask (4 + k) task_body # PrintCounter # rest" using d by blast+
  have "reaches tid 0 P ?P1"
    by (rule reaches_one [of P 0 "AddTask (4 + k) task_body" "PrintCounter # rest"])
      (simp_all add: q r with_scheduler_def th(1) put_world_def addExecutor_def ready_push_def queue_of_def)
  moreover have "reaches tid 0 ?P1 ?P2"
    by (rule reaches_one [of ?P1 0 PrintCounter rest]) (simp_all add: loading_running [OF th(2)] q z say_def fun_upd_twist)
  ultimately have "reaches tid 0 P ?P2" by (rule reaches_trans)
  moreover have "loaded (Suc k) rest (sofar @ ''----0-----'' @ newline) ?P2"
    using d th by (auto simp: loaded_def say_def put_out_def task_waits_def less_Suc_eq add.commute)
  ultimately show ?thesis by blast
qed

lemma tasks_added:
  assumes "loaded k (concat (map (\<lambda>j. [AddTask (4 + j) task_body, PrintCounter]) [k..<k + n]) @ rest) sofar P"
  shows "\<exists>P'. reaches tid 0 P P' \<and> loaded (k + n) rest (sofar @ concat (replicate n (''----0-----'' @ newline))) P'"
  using assms
proof (induction n arbitrary: k sofar P)
  case 0
  then show ?case using reaches_refl by fastforce
next
  case (Suc n)
  have "[k..<k + Suc n] = k # [Suc k..<Suc k + n]" by (simp add: upt_rec)
  then have "loaded k (AddTask (4 + k) task_body # PrintCounter # concat (map (\<lambda>j. [AddTask (4 + j) task_body, PrintCounter]) [Suc k..<Suc k + n]) @ rest) sofar P"
    using Suc.prems by (simp del: upt_Suc)
  from task_added [OF this] obtain P1 where P1: "reaches tid 0 P P1"
    "loaded (Suc k) (concat (map (\<lambda>j. [AddTask (4 + j) task_body, PrintCounter]) [Suc k..<Suc k + n]) @ rest) (sofar @ ''----0-----'' @ newline) P1" by blast
  from Suc.IH [OF P1(2)] show ?case using reaches_trans [OF P1(1)] by fastforce
qed

text \<open>The loop runs and has the tasks from \<open>k\<close> on and then the stopping one in its queue.\<close>

definition in_service :: "nat \<Rightarrow> nat \<Rightarrow> stmt list \<Rightarrow> string \<Rightarrow> program \<Rightarrow> bool" where
  "in_service k n rest sofar P \<longleftrightarrow> code P 0 = rest \<and> code P 2 = [LoopTop] \<and> counter P = int k \<and> printed (out P) = sofar
     \<and> open_markers P = [\<lparr>time_no = None, sub_counter = 0, marker = ''run scheduler''\<rparr>]
     \<and> prog_sch P = Some (queue_of (map ((+) 4) [k..<n] @ [3])) \<and> running (prog_thr P) = 2 \<and> t_base_executor (prog_thr P) = Some 0
     \<and> sched_ok 2 \<lparr>thr = prog_thr P, sch = queue_of (map ((+) 4) [k..<n] @ [3])\<rparr>
     \<and> (\<forall>j. k \<le> j \<longrightarrow> j < n \<longrightarrow> task_waits P j)
     \<and> code P 3 = stop_body \<and> (\<exists>e. heap (prog_thr P) 3 = Some e \<and> waits_to_start e)"

lemma loop_entered:
  assumes l: "loaded n (AddTask 3 stop_body # RunScheduler # rest) sofar P"
  shows "\<exists>P'. reaches tid 0 P P' \<and> in_service 0 n rest sofar P'"
proof -
  let ?q = "queue_of (map ((+) 4) [0..<n] @ [3])"
  have d: "code P 0 = AddTask 3 stop_body # RunScheduler # rest" "code P 2 = [LoopTop]" "counter P = 0" "printed (out P) = sofar"
    "open_markers P = [\<lparr>time_no = None, sub_counter = 0, marker = ''run scheduler''\<rparr>]" "loading 0 2 (prog_thr P)"
    "prog_sch P = Some (queue_of (map ((+) 4) [0..<n]))" "\<forall>j < n. task_waits P j" "heap (prog_thr P) 3 = None"
    using l by (auto simp: loaded_def)
  note r = loading_running [OF d(6)]
  obtain th e where th: "Executor_callback 3 (Some stop_body) DefaultStackSize (prog_thr P) = Ok th" "loading 0 2 th"
    "heap th = (heap (prog_thr P))(3 \<mapsto> e)" "waits_to_start e"
    using loading_add [OF d(6,9), of stop_body DefaultStackSize] by blast
  let ?P1 = "P\<lparr>code := (code P)(0 := RunScheduler # rest, 3 := stop_body), prog_thr := th, prog_sch := Some ?q\<rparr>"
  have 1: "reaches tid 0 P ?P1"
    by (rule reaches_one [of P 0 "AddTask 3 stop_body" "RunScheduler # rest"])
      (simp_all add: d(1,7) r with_scheduler_def th(1) put_world_def addExecutor_def ready_push_def queue_of_def)
  have w: "task_waits P j \<Longrightarrow> task 2 th (4 + j)" for j
    using th(3) by (auto simp: task_waits_def task_def waits_to_start_def)
  have "\<forall>p \<in> queued ?q. task 2 th p"
    using w d(8) th(3,4) by (auto simp: queued_def queue_of_def task_def waits_to_start_def)
  then obtain w where w: "sched_run \<lparr>thr = th, sch = ?q\<rparr> = Ok w" "sched_ok 2 w" "running (thr w) = 2" "sch w = ?q"
    "t_base_executor (thr w) = Some 0" "\<forall>q. q \<noteq> 0 \<longrightarrow> q \<noteq> 2 \<longrightarrow> heap (thr w) q = heap th q"
    using loading_run [OF th(2), of ?q] by (auto simp: queue_of_def)
  let ?P2 = "put_world w (?P1\<lparr>code := (code P)(0 := rest, 3 := stop_body)\<rparr>)"
  have "reaches tid 0 ?P1 ?P2"
    by (rule reaches_one [of ?P1 0 RunScheduler rest])
      (simp_all add: loading_running [OF th(2)] with_scheduler_def w(1) fun_upd_twist)
  moreover have "sched_ok 2 \<lparr>thr = thr w, sch = ?q\<rparr>" using w(2,4) by (metis world.surjective unit.exhaust)
  then have "in_service 0 n rest sofar ?P2"
    using d w(3-6) th(3,4) by (auto simp: in_service_def put_world_def task_waits_def)
  ultimately show ?thesis using reaches_trans [OF 1] by blast
qed

lemma exec_first_id:
  assumes "coop_ok m th" and "running th = m" and "heap th p = Some e" and "waits_to_start e" and "p \<noteq> m" and "exec p th = Ok th'"
  shows "\<exists>e'. heap th' p = Some e' \<and> ex_id e' = ex_id e"
proof -
  obtain em where "heap th m = Some em" using coop_okD(4) [OF assms(1)] by blast
  then show ?thesis
    using assms(2-6) coop_okD(1-3) [OF assms(1)]
    by (auto simp: exec_defs Let_def waits_to_start_def)
qed

lemma sched_iter_exec: "sched_iter b w = Ok (Switched p, w') \<Longrightarrow> exec p (thr w) = Ok (thr w')"
  by (auto simp: sched_iter_def sched_leave_def Let_def split: if_splits option.splits prod.splits)

definition task_line :: "u32 \<Rightarrow> nat \<Rightarrow> string" where
  "task_line tid j = ''current: '' @ decimal (int j + 1) @ '', in executor '' @ decimal (uint (of_nat (4 + j) :: u64)) @ '' at thread ''
     @ decimal (uint tid) @ newline"

text \<open>The loop switches to the first coroutine of its queue.\<close>

lemma switched_to:
  assumes w: "sched_ok 2 \<lparr>thr = prog_thr P, sch = queue_of (p # ps)\<rparr>" "running (prog_thr P) = 2"
    and P: "prog_sch P = Some (queue_of (p # ps))" "code P 2 = [LoopTop]"
    and e: "heap (prog_thr P) p = Some e" "waits_to_start e"
  shows "\<exists>th e'. reaches tid 0 P (P\<lparr>prog_thr := th, prog_sch := Some (queue_of ps), code := (code P)(2 := [LoopBack p, LoopTop])\<rparr>)
    \<and> running th = p \<and> t_cur_executor th = Some p \<and> sched_ok 2 \<lparr>thr = th, sch = queue_of ps\<rparr> \<and> same_but p 2 (prog_thr P) th
    \<and> heap th p = Some e' \<and> ex_id e' = ex_id e \<and> p \<noteq> 2"
proof -
  let ?w = "\<lparr>thr = prog_thr P, sch = queue_of (p # ps)\<rparr>"
  have "p \<in> queued (sch ?w)" by (simp add: queued_def queue_of_def)
  then have p: "p \<noteq> 2" and c: "coop_ok 2 (prog_thr P)" using w(1) by (auto simp: sched_ok_def task_def loop_ok_def)
  obtain w' where w': "sched_iter default_stop_pending_func ?w = Ok (Switched p, w')" "running (thr w') = p" "t_cur_executor (thr w') = Some p"
    "sched_ok 2 w'" "same_but p 2 (prog_thr P) (thr w')" "sch w' = (queue_of (p # ps))\<lparr>ready_executors := map Some ps, remote_tasks := []\<rparr>"
    using sched_iter_serves [OF w(1), of default_stop_pending_func p "map Some ps" e] w(2) e
    by (auto simp: queue_of_def stop_pending_def waits_to_start_def)
  then have s: "sch w' = queue_of ps" by (simp add: queue_of_def)
  have "exec p (prog_thr P) = Ok (thr w')" using sched_iter_exec [OF w'(1)] by simp
  then obtain e' where "heap (thr w') p = Some e'" "ex_id e' = ex_id e" using exec_first_id [OF c w(2) e p] by blast
  moreover have "reaches tid 0 P (P\<lparr>prog_thr := thr w', prog_sch := Some (queue_of ps), code := (code P)(2 := [LoopBack p, LoopTop])\<rparr>)"
    by (rule reaches_one [of P 2 LoopTop "[]"]) (simp_all add: w(2) P with_scheduler_def w'(1) put_world_def s)
  moreover have "sched_ok 2 \<lparr>thr = thr w', sch = queue_of ps\<rparr>" using w'(4) s by (metis world.surjective unit.exhaust)
  ultimately show ?thesis using w'(2,3,5) p by blast
qed

text \<open>A coroutine's callback has returned: control is back at the head of the loop.\<close>

lemma returned_to_loop:
  assumes w: "sched_ok 2 \<lparr>thr = prog_thr P, sch = q\<rparr>" "running (prog_thr P) = p" "p \<noteq> 2"
    and P: "prog_sch P = Some q" "code P p = [CallReturn]" "code P 2 = [LoopBack p, LoopTop]"
  shows "\<exists>th. reaches tid 0 P (P\<lparr>prog_thr := th, code := (code P)(p := [], 2 := [LoopTop])\<rparr>)
    \<and> running th = 2 \<and> sched_ok 2 \<lparr>thr = th, sch = q\<rparr> \<and> same_but p 2 (prog_thr P) th"
proof -
  let ?w = "\<lparr>thr = prog_thr P, sch = q\<rparr>"
  obtain th where th: "executorMainFunc_end (prog_thr P) = Ok th" "sched_ok 2 (?w\<lparr>thr := th\<rparr>)" "running th = 2"
    "same_but p 2 (prog_thr P) th" "sched_back p (?w\<lparr>thr := th\<rparr>) = Ok (?w\<lparr>thr := th\<rparr>)"
    using coroutine_ends [OF w(1)] w(2,3) by auto
  let ?P1 = "P\<lparr>prog_thr := th, code := (code P)(p := [])\<rparr>"
  have "reaches tid 0 P ?P1" by (rule reaches_one [of P p CallReturn "[]"]) (simp_all add: w(2) P(2) on_thread_def th(1))
  moreover have "reaches tid 0 ?P1 (P\<lparr>prog_thr := th, code := (code P)(p := [], 2 := [LoopTop])\<rparr>)"
    by (rule reaches_one [of ?P1 2 "LoopBack p" "[LoopTop]"]) (use th(5) w(3) P in \<open>simp_all add: th(3) with_scheduler_def put_world_def\<close>)
  ultimately show ?thesis using reaches_trans th(2-4) by fastforce
qed

lemma task_served:
  assumes s: "in_service k n rest sofar P" and k: "k < n"
  shows "\<exists>P'. reaches tid 0 P P' \<and> in_service (Suc k) n rest (sofar @ task_line tid k) P'"
proof -
  let ?p = "4 + k" and ?q = "queue_of (map ((+) 4) [Suc k..<n] @ [3])"
  have q: "map ((+) 4) [k..<n] @ [3] = ?p # map ((+) 4) [Suc k..<n] @ [3]" using k by (simp add: upt_conv_Cons)
  have d: "code P 0 = rest" "code P 2 = [LoopTop]" "counter P = int k" "printed (out P) = sofar"
    "open_markers P = [\<lparr>time_no = None, sub_counter = 0, marker = ''run scheduler''\<rparr>]"
    "prog_sch P = Some (queue_of (?p # map ((+) 4) [Suc k..<n] @ [3]))" "running (prog_thr P) = 2" "t_base_executor (prog_thr P) = Some 0"
    "sched_ok 2 \<lparr>thr = prog_thr P, sch = queue_of (?p # map ((+) 4) [Suc k..<n] @ [3])\<rparr>" "\<forall>j. k \<le> j \<longrightarrow> j < n \<longrightarrow> task_waits P j"
    "code P 3 = stop_body" "\<exists>e. heap (prog_thr P) 3 = Some e \<and> waits_to_start e"
    using s unfolding in_service_def q by blast+
  obtain e where e: "heap (prog_thr P) ?p = Some e" "waits_to_start e" "ex_id e = of_nat ?p" "code P ?p = task_body"
    using d(10) k by (auto simp: task_waits_def)
  obtain th1 e' where 1: "reaches tid 0 P (P\<lparr>prog_thr := th1, prog_sch := Some ?q, code := (code P)(2 := [LoopBack ?p, LoopTop])\<rparr>)"
    "running th1 = ?p" "t_cur_executor th1 = Some ?p" "sched_ok 2 \<lparr>thr = th1, sch = ?q\<rparr>" "same_but ?p 2 (prog_thr P) th1"
    "heap th1 ?p = Some e'" "ex_id e' = ex_id e"
    using switched_to [OF d(9,7,6,2) e(1,2)] by blast
  let ?P1 = "P\<lparr>prog_thr := th1, prog_sch := Some ?q, code := (code P)(2 := [LoopBack ?p, LoopTop])\<rparr>"
  let ?P2 = "say (task_line tid k) (?P1\<lparr>code := (code P)(2 := [LoopBack ?p, LoopTop], ?p := [CallReturn]), counter := int k + 1\<rparr>)"
  have 2: "reaches tid 0 ?P1 ?P2"
    by (rule reaches_one [of ?P1 ?p TaskLine "[CallReturn]"])
      (simp_all add: 1(2,3,6,7) e(3,4) d(3) task_body_def getCurrent_def deref_def say_def task_line_def)
  obtain th where th: "reaches tid 0 ?P2 (?P2\<lparr>prog_thr := th, code := (code ?P2)(?p := [], 2 := [LoopTop])\<rparr>)" "running th = 2"
    "sched_ok 2 \<lparr>thr = th, sch = ?q\<rparr>" "same_but ?p 2 th1 th"
    using returned_to_loop [of ?P2 ?q ?p tid] 1(2,4) by (auto simp: say_def)
  let ?P3 = "?P2\<lparr>prog_thr := th, code := (code ?P2)(?p := [], 2 := [LoopTop])\<rparr>"
  have h: "heap th r = heap (prog_thr P) r" if "r \<noteq> ?p" "r \<noteq> 2" for r using 1(5) th(4) that by (simp add: same_but_def)
  have b: "t_base_executor th = Some 0" using 1(5) th(4) d(8) by (simp add: same_but_def)
  have "task_waits ?P3 j" if "Suc k \<le> j" "j < n" for j
    using d(10) that h [of "4 + j"] by (auto simp: task_waits_def say_def)
  moreover have "heap th 3 = heap (prog_thr P) 3" using h by simp
  ultimately have "in_service (Suc k) n rest (sofar @ task_line tid k) ?P3"
    using d th(2,3) b by (auto simp: in_service_def say_def put_out_def)
  then show ?thesis using reaches_trans [OF reaches_trans [OF 1(1) 2] th(1)] by blast
qed

lemma tasks_served:
  assumes "in_service k (k + m) rest sofar P"
  shows "\<exists>P'. reaches tid 0 P P' \<and> in_service (k + m) (k + m) rest (sofar @ concat (map (task_line tid) [k..<k + m])) P'"
  using assms
proof (induction m arbitrary: k sofar P)
  case 0
  then show ?case using reaches_refl by fastforce
next
  case (Suc m)
  obtain P1 where P1: "reaches tid 0 P P1" "in_service (Suc k) (k + Suc m) rest (sofar @ task_line tid k) P1"
    using task_served [OF Suc.prems] by auto
  moreover have "[k..<k + Suc m] = k # [Suc k..<Suc k + m]" by (simp add: upt_rec)
  ultimately show ?case using Suc.IH [of "Suc k" "sofar @ task_line tid k" P1] reaches_trans [OF P1(1)] by (fastforce simp del: upt_Suc)
qed

lemma mainYield_main: "mainYield p th = Ok th' \<Longrightarrow> t_main_executor th' = t_main_executor th"
  by (auto simp: mainYield_def mainYieldInner_def leave_defs executorMainFunc_start_def Let_def split: if_splits option.splits prod.splits point.splits)

text \<open>The last task asks the scheduler to stop; the loop finds its queue empty and returns to \<open>main\<close>.\<close>

lemma loop_stops:
  assumes s: "in_service n n rest sofar P"
  shows "\<exists>P' s. reaches tid 0 P P' \<and> code P' 0 = rest \<and> running (prog_thr P') = 0 \<and> printed (out P') = sofar \<and> prog_sch P' = Some s
    \<and> open_markers P' = [\<lparr>time_no = None, sub_counter = 0, marker = ''run scheduler''\<rparr>] \<and> t_main_executor (prog_thr P') = Some 2"
proof -
  have d: "code P 0 = rest" "code P 2 = [LoopTop]" "printed (out P) = sofar"
    "open_markers P = [\<lparr>time_no = None, sub_counter = 0, marker = ''run scheduler''\<rparr>]"
    "prog_sch P = Some (queue_of [3])" "running (prog_thr P) = 2" "t_base_executor (prog_thr P) = Some 0"
    "sched_ok 2 \<lparr>thr = prog_thr P, sch = queue_of [3]\<rparr>" "code P 3 = stop_body"
    using s by (simp_all add: in_service_def)
  obtain e where e: "heap (prog_thr P) 3 = Some e" "waits_to_start e" using s by (auto simp: in_service_def)
  let ?q = "stop (queue_of [])"
  obtain th1 where 1: "reaches tid 0 P (P\<lparr>prog_thr := th1, prog_sch := Some (queue_of []), code := (code P)(2 := [LoopBack 3, LoopTop])\<rparr>)"
    "running th1 = 3" "sched_ok 2 \<lparr>thr = th1, sch = queue_of []\<rparr>" "same_but 3 2 (prog_thr P) th1"
    using switched_to [OF d(8,6,5,2) e] by blast
  let ?P1 = "P\<lparr>prog_thr := th1, prog_sch := Some (queue_of []), code := (code P)(2 := [LoopBack 3, LoopTop])\<rparr>"
  let ?P2 = "?P1\<lparr>prog_sch := Some ?q, code := (code P)(2 := [LoopBack 3, LoopTop], 3 := [CallReturn])\<rparr>"
  have 2: "reaches tid 0 ?P1 ?P2"
    by (rule reaches_one [of ?P1 3 StopScheduler "[CallReturn]"]) (simp_all add: 1(2) d(9) stop_body_def with_scheduler_def)
  have "sched_ok 2 \<lparr>thr = th1, sch = ?q\<rparr>" using 1(3) by (simp add: sched_ok_def queued_ops)
  then obtain th where th: "reaches tid 0 ?P2 (?P2\<lparr>prog_thr := th, code := (code ?P2)(3 := [], 2 := [LoopTop])\<rparr>)" "running th = 2"
    "sched_ok 2 \<lparr>thr = th, sch = ?q\<rparr>" "same_but 3 2 th1 th"
    using returned_to_loop [of ?P2 ?q 3 tid] 1(2) by auto
  let ?P3 = "?P2\<lparr>prog_thr := th, code := (code ?P2)(3 := [], 2 := [LoopTop])\<rparr>"
  have b: "t_base_executor th = Some 0" using 1(4) th(4) d(7) by (simp add: same_but_def)
  obtain th' where th': "mainYield 2 th = Ok th'" "running th' = 0"
    using mainYield_back [of 2 th] th(2,3) b by (auto simp: sched_ok_def)
  have "t_main_executor th = Some 2" using th(3) coop_okD(1) [of 2 th] by (simp add: sched_ok_def loop_ok_def)
  then have m: "t_main_executor th' = Some 2" using mainYield_main [OF th'(1)] by simp
  let ?P4 = "put_world \<lparr>thr = th', sch = ?q\<rparr> (?P3\<lparr>code := (code ?P2)(3 := [], 2 := [CallReturn])\<rparr>)"
  have "sched_iter default_stop_pending_func \<lparr>thr = th, sch = ?q\<rparr> = Ok (LoopEnded, \<lparr>thr = th', sch = ?q\<rparr>)"
    using th'(1) by (simp add: sched_iter_def stop_def queue_of_def stop_pending_def default_stop_pending_func_def scheduleAll_eq ready_pop_def sched_leave_def)
  then have "reaches tid 0 ?P3 ?P4"
    by - (rule reaches_one [of ?P3 2 LoopTop "[]"], simp_all add: th(2) with_scheduler_def)
  from reaches_trans [OF reaches_trans [OF reaches_trans [OF 1(1) 2] th(1)] this] show ?thesis
    using d th'(2) m by (intro exI [of _ ?P4]) (simp add: put_world_def)
qed

definition scheduler_text :: "u32 \<Rightarrow> string \<Rightarrow> nat \<Rightarrow> string" where
  "scheduler_text tid log_line n = heading ''run case run scheduler'' @ log_line @ concat (replicate n (''----0-----'' @ newline))
     @ concat (map (task_line tid) [0..<n]) @ ''Scheduler destruct in thread '' @ decimal (uint tid)
     @ heading ''end case run scheduler'' @ newline"

definition size_text :: "nat \<Rightarrow> nat \<Rightarrow> string" where
  "size_text executor_size scheduler_size = heading ''run case size'' @ ''executor size:'' @ decimal (int executor_size) @ newline
     @ ''scheduler size:'' @ decimal (int scheduler_size) @ newline @ heading ''end case size'' @ newline"

lemma run_scheduler:
  assumes P: "code P 0 = runScheduler log_line 2 ((+) 4) n 3 @ rest" "prog_sch P = None" "open_markers P = []" "counter P = 0" "printed (out P) = sofar"
    and t: "t_cur_executor (prog_thr P) = Some 0" "t_base_executor (prog_thr P) = Some 0" "running (prog_thr P) = 0"
      "suspended (prog_thr P) 0 = None" "least_unallocated_id (prog_thr P) = 2" "\<not> ex_is_call_back_type e" "heap (prog_thr P) = [0 \<mapsto> e]"
  shows "\<exists>P'. reaches tid 0 P P' \<and> code P' 0 = rest \<and> running (prog_thr P') = 0 \<and> open_markers P' = [] \<and> t_main_executor (prog_thr P') = Some 2
    \<and> printed (out P') = sofar @ scheduler_text tid log_line n"
proof -
  let ?tail = "[StopScheduler, DropScheduler, CloseMarker] @ rest"
  have "code P 0 = OpenMarker ''run scheduler'' # MakeScheduler 2 log_line #
      concat (map (\<lambda>j. [AddTask (4 + j) task_body, PrintCounter]) [0..<0 + n]) @ AddTask 3 stop_body # RunScheduler # ?tail"
    using P(1) by (simp add: runScheduler_def add_tasks_def)
  from scheduler_made [OF this P(2-5) t] obtain P1 where 1: "reaches tid 0 P P1"
    "loaded 0 (concat (map (\<lambda>j. [AddTask (4 + j) task_body, PrintCounter]) [0..<0 + n]) @ AddTask 3 stop_body # RunScheduler # ?tail)
       (sofar @ heading ''run case run scheduler'' @ log_line) P1" by blast
  from tasks_added [OF 1(2)] obtain P2 where 2: "reaches tid 0 P1 P2"
    "loaded n (AddTask 3 stop_body # RunScheduler # ?tail)
       ((sofar @ heading ''run case run scheduler'' @ log_line) @ concat (replicate n (''----0-----'' @ newline))) P2" by auto
  from loop_entered [OF 2(2)] obtain P3 where 3: "reaches tid 0 P2 P3"
    "in_service 0 (0 + n) ?tail ((sofar @ heading ''run case run scheduler'' @ log_line) @ concat (replicate n (''----0-----'' @ newline))) P3" by auto
  from tasks_served [OF 3(2)] obtain P4 where 4: "reaches tid 0 P3 P4"
    "in_service n n ?tail (((sofar @ heading ''run case run scheduler'' @ log_line) @ concat (replicate n (''----0-----'' @ newline)))
       @ concat (map (task_line tid) [0..<n])) P4" by auto
  from loop_stops [OF 4(2)] obtain P5 s where 5: "reaches tid 0 P4 P5" "code P5 0 = ?tail" "running (prog_thr P5) = 0" "prog_sch P5 = Some s"
    "printed (out P5) = ((sofar @ heading ''run case run scheduler'' @ log_line) @ concat (replicate n (''----0-----'' @ newline)))
       @ concat (map (task_line tid) [0..<n])"
    "open_markers P5 = [\<lparr>time_no = None, sub_counter = 0, marker = ''run scheduler''\<rparr>]" "t_main_executor (prog_thr P5) = Some 2" by blast
  have "\<exists>P6. prog_steps tid 0 3 P5 = Ok P6 \<and> code P6 0 = rest \<and> running (prog_thr P6) = 0 \<and> open_markers P6 = [] \<and> t_main_executor (prog_thr P6) = Some 2
      \<and> printed (out P6) = sofar @ scheduler_text tid log_line n"
    using 5(2-7) by (simp add: eval_nat_numeral prog_step_def with_scheduler_def Scheduler_destroy_def scheduler_text_def text_defs)
  then obtain P6 where 6: "reaches tid 0 P5 P6" "code P6 0 = rest" "running (prog_thr P6) = 0" "open_markers P6 = []" "t_main_executor (prog_thr P6) = Some 2"
    "printed (out P6) = sofar @ scheduler_text tid log_line n" by (auto simp: reaches_def)
  have "reaches tid 0 P P6" using 1(1) 2(1) 3(1) 4(1) 5(1) 6(1) by (blast intro: reaches_trans)
  with 6 show ?thesis by blast
qed

lemma run_size:
  assumes "code P 0 = stSize es ss" and "running (prog_thr P) = 0" and "open_markers P = []"
  shows "\<exists>P'. prog_steps tid 0 4 P = Ok P' \<and> finished 0 P' \<and> prog_thr P' = prog_thr P \<and> printed (out P') = printed (out P) @ size_text es ss"
  using assms by (simp add: eval_nat_numeral prog_step_def stSize_def finished_def size_text_def text_defs)

section \<open>Properties\<close>

text \<open>
  The example program as a whole. Executed statement by statement on the models of the coroutines and
  the scheduler, runner\_executor ends normally, and what it and the destructor of the thread's main executor print is
  exactly this, for every text of the loggers: the coroutine's two halves around \<open>simplePrint\<close>; the constructor's log line; then ten
  times the counter, still 0, because nothing runs before \<open>run\<close>; then the ten tasks in the order they were added, each with its
  own number and executor id; then the scheduler's end, the sizes, and the notice at the end of the thread.
\<close>

theorem runner_executor_prints:
  "\<exists>n P. prog_steps tid 0 n (program_start before (main_body log_line es ss)) = Ok P \<and> finished 0 P
     \<and> printed (out (thread_exit tid thread_name P)) = before @ ''cons '' @ decimal 1 @ newline @ executor_text
         @ scheduler_text tid log_line 10 @ size_text es ss @ destroy_notice tid thread_name"
proof -
  let ?start = "program_start before (main_body log_line es ss)"
  have m: "main_body log_line es ss = runExecutor 1 @ runScheduler log_line 2 ((+) 4) 10 3 @ stSize es ss" by (simp add: main_body_def)
  obtain P1 e where 1: "reaches tid 0 ?start P1" "code P1 0 = runScheduler log_line 2 ((+) 4) 10 3 @ stSize es ss"
    "prog_sch P1 = None" "open_markers P1 = []" "counter P1 = 0" "printed (out P1) = before @ ''cons '' @ decimal 1 @ newline @ executor_text"
    "t_cur_executor (prog_thr P1) = Some 0" "t_base_executor (prog_thr P1) = Some 0" "running (prog_thr P1) = 0"
    "suspended (prog_thr P1) 0 = None" "least_unallocated_id (prog_thr P1) = 2" "\<not> ex_is_call_back_type e" "heap (prog_thr P1) = [0 \<mapsto> e]"
    using run_executor [of tid before "runScheduler log_line 2 ((+) 4) 10 3 @ stSize es ss"] unfolding m by blast
  from run_scheduler [OF 1(2-13)] obtain P2 where 2: "reaches tid 0 P1 P2" "code P2 0 = stSize es ss" "running (prog_thr P2) = 0"
    "open_markers P2 = []" "t_main_executor (prog_thr P2) = Some 2"
    "printed (out P2) = (before @ ''cons '' @ decimal 1 @ newline @ executor_text) @ scheduler_text tid log_line 10" by blast
  from run_size [OF 2(2-4)] obtain P3 where 3: "reaches tid 0 P2 P3" "finished 0 P3" "prog_thr P3 = prog_thr P2"
    "printed (out P3) = ((before @ ''cons '' @ decimal 1 @ newline @ executor_text) @ scheduler_text tid log_line 10) @ size_text es ss"
    unfolding reaches_def 2(6) [symmetric] by blast
  have "reaches tid 0 ?start P3" using 1(1) 2(1) 3(1) by (blast intro: reaches_trans)
  moreover have "printed (out (thread_exit tid thread_name P3)) = printed (out P3) @ destroy_notice tid thread_name"
    using 2(5) 3(3) by (simp add: thread_exit_def say_def put_out_def)
  ultimately show ?thesis using 3(2,4) by (auto simp: reaches_def)
qed

end
