(* ===== verification/Fd_Ownership.thy ===== *)
theory Fd_Ownership
  imports Fd_Manager
begin

text \<open>
  The memory of include/io/fd\_manager.h: the vector holds pointers to contexts that \<open>setContext\<close> makes with
  \<open>new\<close> and \<open>delContext\<close> and the destructor delete. \<open>Fd_Manager\<close> has the contexts themselves in
  the vector; here the pointers are explicit, a second deletion and a use of a deleted context are
  failures, and the view without pointers is shown to be refined.
\<close>

section \<open>Operations on pointers\<close>

record fd_store =
  slots :: "nat option list"
  contexts_at :: "nat \<Rightarrow> FdContext option"

definition fd_store_empty :: fd_store where
  "fd_store_empty = \<lparr>slots = [], contexts_at = (\<lambda>_. None)\<rparr>"

definition delete_ctx :: "nat \<Rightarrow> fd_store \<Rightarrow> fd_store res" where
  "delete_ctx p T =
     (case contexts_at T p of
        None \<Rightarrow> Err UseAfterFree
      | Some _ \<Rightarrow> Ok (T\<lparr>contexts_at := (contexts_at T)(p := None)\<rparr>))"

text \<open>\<open>p\<close> is the address \<open>new\<close> returns.\<close>

definition setContext_p :: "nat \<Rightarrow> fd \<Rightarrow> FdContext \<Rightarrow> fd_store \<Rightarrow> fd_store res" where
  "setContext_p p i context T =
     (let len = int (length (slots T))
      in res_bind (if i \<ge> len then res_bind (grow15 i) (\<lambda>n. Ok (vec_resize n None (slots T))) else Ok (slots T)) (\<lambda>v.
         res_bind (vec_set v i (Some p)) (\<lambda>v.
           Ok (T\<lparr>slots := v, contexts_at := (contexts_at T)(p \<mapsto> context)\<rparr>))))"

definition getContext_p :: "fd \<Rightarrow> fd_store \<Rightarrow> nat option res" where
  "getContext_p i T = (let len = int (length (slots T)) in if i < len then vec_get (slots T) i else Ok None)"

definition delContext_p :: "fd \<Rightarrow> fd_store \<Rightarrow> fd_store res" where
  "delContext_p i T =
     (let len = int (length (slots T))
      in if i < len
         then res_bind (vec_get (slots T) i) (\<lambda>q.
                case q of
                  None \<Rightarrow> Ok T
                | Some p \<Rightarrow>
                    res_bind (delete_ctx p T) (\<lambda>T.
                    res_bind (vec_set (slots T) i None) (\<lambda>v. Ok (T\<lparr>slots := v\<rparr>))))
         else Ok T)"

definition FdManager_destroy :: "fd_store \<Rightarrow> fd_store res" where
  "FdManager_destroy T = fold_res (\<lambda>q T. case q of None \<Rightarrow> Ok T | Some p \<Rightarrow> delete_ctx p T) (slots T) T"

text \<open>A read through a pointer a caller got from \<open>getContext\<close>.\<close>

definition read_ctx :: "nat \<Rightarrow> fd_store \<Rightarrow> FdContext res" where
  "read_ctx p T = (case contexts_at T p of None \<Rightarrow> Err UseAfterFree | Some c \<Rightarrow> Ok c)"

section \<open>Ownership\<close>

text \<open>Every pointer in the vector is live and stands in one slot only; the view without pointers.\<close>

definition owns :: "fd_store \<Rightarrow> bool" where
  "owns T \<longleftrightarrow> finite (dom (contexts_at T)) \<and> (\<forall>p. Some p \<in> set (slots T) \<longrightarrow> contexts_at T p \<noteq> None)
     \<and> (\<forall>i j p. i < length (slots T) \<longrightarrow> j < length (slots T) \<longrightarrow> slots T ! i = Some p \<longrightarrow> slots T ! j = Some p \<longrightarrow> i = j)"

definition plain_view :: "fd_store \<Rightarrow> fd_contexts" where
  "plain_view T = map (\<lambda>q. case q of None \<Rightarrow> None | Some p \<Rightarrow> contexts_at T p) (slots T)"

definition leaked :: "fd_store \<Rightarrow> nat set" where
  "leaked T = {p \<in> dom (contexts_at T). Some p \<notin> set (slots T)}"

lemma length_plain_view [simp]: "length (plain_view T) = length (slots T)"
  by (simp add: plain_view_def)

lemma ownsD: "owns T \<Longrightarrow> Some p \<in> set (slots T) \<Longrightarrow> \<exists>c. contexts_at T p = Some c"
  by (auto simp: owns_def)

lemma nth_plain_view: "owns T \<Longrightarrow> k < length (slots T) \<Longrightarrow> plain_view T ! k = None \<longleftrightarrow> slots T ! k = None"
  using ownsD [of T] by (auto simp: plain_view_def split: option.splits) (metis nth_mem option.distinct(1))

text \<open>Writing a new pointer into a slot, after the vector may have grown.\<close>

definition put_at :: "nat \<Rightarrow> nat \<Rightarrow> nat \<Rightarrow> FdContext \<Rightarrow> fd_store \<Rightarrow> fd_store" where
  "put_at m k p c T = T\<lparr>slots := (slots T @ replicate m None)[k := Some p], contexts_at := (contexts_at T)(p \<mapsto> c)\<rparr>"

lemma grown_unique:
  assumes "owns T" and "i < length (slots T) + m" and "j < length (slots T) + m"
    and "(slots T @ replicate m None) ! i = Some q" and "(slots T @ replicate m None) ! j = Some q"
  shows "i = j"
  using assms by (auto simp: owns_def nth_append split: if_splits)

lemma put_at_nth:
  "k < length (slots T) + m \<Longrightarrow> slots (put_at m k p c T) ! i = (if i = k then Some p else (slots T @ replicate m None) ! i)"
  by (simp add: put_at_def nth_list_update)

lemma put_at_mem:
  assumes o: "owns T" and p: "contexts_at T p = None" and k: "k < length (slots T) + m"
  shows "Some q \<in> set (slots (put_at m k p c T)) \<longleftrightarrow> q = p \<or> Some q \<in> set (slots T) \<and> \<not> (k < length (slots T) \<and> slots T ! k = Some q)"
proof
  assume "Some q \<in> set (slots (put_at m k p c T))"
  then obtain i where i: "i < length (slots T) + m" "slots (put_at m k p c T) ! i = Some q"
    by (auto simp: in_set_conv_nth put_at_def)
  show "q = p \<or> Some q \<in> set (slots T) \<and> \<not> (k < length (slots T) \<and> slots T ! k = Some q)"
  proof (cases "i = k")
    case False
    then have e: "(slots T @ replicate m None) ! i = Some q" using i put_at_nth [OF k] by simp
    then have l: "i < length (slots T)" using i(1) by (auto simp: nth_append split: if_splits)
    then have "Some q \<in> set (slots T)" using e by (metis nth_append nth_mem)
    moreover have "\<not> (k < length (slots T) \<and> slots T ! k = Some q)"
      using grown_unique [OF o i(1) k e] False by (auto simp: nth_append)
    ultimately show ?thesis by blast
  qed (use i put_at_nth [OF k] in simp)
next
  assume a: "q = p \<or> Some q \<in> set (slots T) \<and> \<not> (k < length (slots T) \<and> slots T ! k = Some q)"
  show "Some q \<in> set (slots (put_at m k p c T))"
  proof (cases "q = p")
    case True
    then show ?thesis using k by (simp add: put_at_def set_update_memI)
  next
    case False
    with a obtain i where i: "i < length (slots T)" "slots T ! i = Some q" "i \<noteq> k" by (auto simp: in_set_conv_nth)
    then have "slots (put_at m k p c T) ! i = Some q" using put_at_nth [OF k] by (simp add: nth_append)
    moreover have "i < length (slots (put_at m k p c T))" using i(1) by (simp add: put_at_def)
    ultimately show ?thesis by (metis nth_mem)
  qed
qed

lemma put_at_owns:
  assumes o: "owns T" and p: "contexts_at T p = None" and k: "k < length (slots T) + m"
  shows "owns (put_at m k p c T)"
  unfolding owns_def
proof (intro conjI allI impI)
  show "finite (dom (contexts_at (put_at m k p c T)))" using o by (simp add: put_at_def owns_def)
  show "contexts_at (put_at m k p c T) q \<noteq> None" if "Some q \<in> set (slots (put_at m k p c T))" for q
    using that put_at_mem [OF assms] ownsD [OF o] by (auto simp: put_at_def)
  fix i j q
  assume l: "i < length (slots (put_at m k p c T))" "j < length (slots (put_at m k p c T))"
    and e: "slots (put_at m k p c T) ! i = Some q" "slots (put_at m k p c T) ! j = Some q"
  have l': "i < length (slots T) + m" "j < length (slots T) + m" using l by (simp_all add: put_at_def)
  have n: "(slots T @ replicate m None) ! r = Some p \<Longrightarrow> r < length (slots T) + m \<Longrightarrow> False" for r
    using ownsD [OF o, of p] p by (auto simp: nth_append dest: nth_mem split: if_splits)
  show "i = j" using e l' n grown_unique [OF o l'] by (auto simp: put_at_nth [OF k] split: if_splits)
qed

lemma put_at_plain_view:
  assumes o: "owns T" and p: "contexts_at T p = None" and k: "k < length (slots T) + m"
  shows "plain_view (put_at m k p c T) = (plain_view T @ replicate m None)[k := Some c]"
proof (rule nth_equalityI)
  fix i assume "i < length (plain_view (put_at m k p c T))"
  then have i: "i < length (slots T) + m" by (simp add: put_at_def)
  have "i < length (slots T) \<Longrightarrow> slots T ! i \<noteq> Some p" using ownsD [OF o, of p] p by (metis nth_mem option.distinct(1))
  then show "plain_view (put_at m k p c T) ! i = (plain_view T @ replicate m None)[k := Some c] ! i"
    using i k by (auto simp: put_at_def plain_view_def nth_list_update nth_append split: option.splits)
qed (simp add: put_at_def)

lemma put_at_leaked:
  assumes o: "owns T" and p: "contexts_at T p = None" and k: "k < length (slots T) + m"
  shows "leaked (put_at m k p c T) = leaked T \<union> {q. k < length (slots T) \<and> slots T ! k = Some q}"
proof -
  have "k < length (slots T) \<Longrightarrow> slots T ! k \<noteq> Some p" using ownsD [OF o, of p] p by (metis nth_mem option.distinct(1))
  then show ?thesis using put_at_mem [OF assms] ownsD [OF o] p by (auto simp: leaked_def put_at_def dest: nth_mem)
qed

section \<open>The operations\<close>

lemma vec_resize_grow: "length v \<le> n \<Longrightarrow> vec_resize n d v = v @ replicate (n - length v) d"
  by (simp add: vec_resize_def)

text \<open>Growing never shrinks the vector, so it only adds null pointers.\<close>

lemma setContext_cases:
  assumes "owns T" and "contexts_at T p = None"
  shows "(\<exists>m. nat i < length (slots T) + m \<and> 0 \<le> i \<and> setContext_p p i c T = Ok (put_at m (nat i) p c T)
       \<and> setContext i c (plain_view T) = Ok ((plain_view T @ replicate m None)[nat i := Some c]))
    \<or> (setContext_p p i c T = Err OutOfBounds \<and> setContext i c (plain_view T) = Err OutOfBounds)"
proof -
  consider "i < 0" | "0 \<le> i" "i < int (length (slots T))" | "int (length (slots T)) \<le> i" "0 \<le> i" by linarith
  then show ?thesis
  proof cases
    case 1
    then show ?thesis by (auto simp: setContext_p_def setContext_def grow15_def vec_set_def Let_def)
  next
    case 2
    then show ?thesis by (intro disjI1 exI [of _ 0]) (simp add: setContext_p_def setContext_def vec_set_def put_at_def)
  next
    case 3
    let ?n = "nat (3 * i div 2)"
    have n: "length (slots T) \<le> ?n" using 3 by linarith
    have g: "grow15 i = Ok ?n" using 3 by (simp add: grow15_def)
    have r: "vec_resize ?n None (slots T) = slots T @ replicate (?n - length (slots T)) None"
      "vec_resize ?n None (plain_view T) = plain_view T @ replicate (?n - length (slots T)) None"
      using vec_resize_grow [of "slots T" ?n None] vec_resize_grow [of "plain_view T" ?n None] n by simp_all
    show ?thesis
    proof (cases "i < int ?n")
      case True
      then show ?thesis using 3 g r n
        by (intro disjI1 exI [of _ "?n - length (slots T)"]) (simp add: setContext_p_def setContext_def vec_set_def put_at_def)
    next
      case False
      then show ?thesis using 3 g r n by (intro disjI2) (simp add: setContext_p_def setContext_def vec_set_def)
    qed
  qed
qed

lemma setContext_p_refines:
  assumes "owns T" and "contexts_at T p = None"
  shows "map_sum id plain_view (setContext_p p i c T) = setContext i c (plain_view T)"
    and "setContext_p p i c T = Ok T' \<Longrightarrow> owns T'"
    and "setContext_p p i c T = Ok T' \<Longrightarrow> card (leaked T') = card (leaked T) + (if getContext i (plain_view T) \<noteq> Ok None then 1 else 0)"
proof -
  show "map_sum id plain_view (setContext_p p i c T) = setContext i c (plain_view T)"
    using setContext_cases [OF assms, of i c] put_at_plain_view [OF assms] by auto
  show "setContext_p p i c T = Ok T' \<Longrightarrow> owns T'"
    using setContext_cases [OF assms, of i c] put_at_owns [OF assms] by auto
  assume "setContext_p p i c T = Ok T'"
  then obtain m where m: "nat i < length (slots T) + m" "0 \<le> i" "T' = put_at m (nat i) p c T"
    using setContext_cases [OF assms, of i c] by auto
  have fin: "finite (leaked T)" using assms(1) by (auto simp: owns_def leaked_def intro: finite_subset)
  let ?old = "{q. nat i < length (slots T) \<and> slots T ! nat i = Some q}"
  have l: "leaked T' = leaked T \<union> ?old" using put_at_leaked [OF assms m(1)] m(3) by simp
  have "leaked T \<inter> ?old = {}" by (auto simp: leaked_def dest: nth_mem)
  then have "card (leaked T') = card (leaked T) + card ?old"
    unfolding l by (intro card_Un_disjoint fin) (auto intro: finite_subset [of _ "{the (slots T ! nat i)}"])
  moreover have "card ?old = (if getContext i (plain_view T) \<noteq> Ok None then 1 else 0)"
  proof (cases "nat i < length (slots T) \<and> slots T ! nat i \<noteq> None")
    case True
    then obtain q where "slots T ! nat i = Some q" by blast
    then have "?old = {q}" using True by auto
    moreover have "getContext i (plain_view T) \<noteq> Ok None"
      using True m(2) nth_plain_view [OF assms(1), of "nat i"] by (auto simp: getContext_def vec_get_def)
    ultimately show ?thesis by simp
  next
    case False
    then have "?old = {}" by auto
    moreover have "getContext i (plain_view T) = Ok None"
      using False m(2) nth_plain_view [OF assms(1), of "nat i"] by (auto simp: getContext_def vec_get_def)
    ultimately show ?thesis by simp
  qed
  ultimately show "card (leaked T') = card (leaked T) + (if getContext i (plain_view T) \<noteq> Ok None then 1 else 0)" by simp
qed

lemma delContext_cases:
  assumes "owns T"
  shows "delContext_p i T = Ok T \<and> delContext i (plain_view T) = Ok (plain_view T)
    \<or> (\<exists>p. 0 \<le> i \<and> nat i < length (slots T) \<and> slots T ! nat i = Some p
        \<and> delContext_p i T = Ok (T\<lparr>slots := (slots T)[nat i := None], contexts_at := (contexts_at T)(p := None)\<rparr>)
        \<and> delContext i (plain_view T) = Ok ((plain_view T)[nat i := None]))
    \<or> delContext_p i T = Err OutOfBounds \<and> delContext i (plain_view T) = Err OutOfBounds"
proof (cases "0 \<le> i \<and> nat i < length (slots T)")
  case True
  show ?thesis
  proof (cases "slots T ! nat i")
    case None
    then show ?thesis
      using True nth_plain_view [OF assms, of "nat i"] by (auto simp: delContext_p_def delContext_def vec_get_def)
  next
    case (Some p)
    have "Some p \<in> set (slots T)" using True Some by (metis nth_mem)
    then obtain c where "contexts_at T p = Some c" using ownsD [OF assms] by blast
    then show ?thesis
      using True Some nth_plain_view [OF assms, of "nat i"]
      by (auto simp: delContext_p_def delContext_def vec_get_def vec_set_def delete_ctx_def)
  qed
next
  case False
  then show ?thesis by (auto simp: delContext_p_def delContext_def vec_get_def)
qed

lemma delete_at:
  assumes o: "owns T" and k: "k < length (slots T)" and p: "slots T ! k = Some p"
  defines "T' \<equiv> T\<lparr>slots := (slots T)[k := None], contexts_at := (contexts_at T)(p := None)\<rparr>"
  shows "owns T'" and "plain_view T' = (plain_view T)[k := None]" and "leaked T' = leaked T"
proof -
  have other: "j = k" if "j < length (slots T)" "slots T ! j = Some p" for j
    using o that k p by (auto simp: owns_def)
  have m: "Some q \<in> set (slots T') \<longleftrightarrow> Some q \<in> set (slots T) \<and> q \<noteq> p" for q
  proof
    assume "Some q \<in> set (slots T')"
    then obtain i where i: "i < length (slots T)" "(slots T)[k := None] ! i = Some q"
      by (auto simp: T'_def in_set_conv_nth)
    then have "i \<noteq> k" and e: "slots T ! i = Some q" using k by (simp_all add: nth_list_update split: if_splits)
    then show "Some q \<in> set (slots T) \<and> q \<noteq> p" using i(1) other [of i] by (metis nth_mem)
  next
    assume a: "Some q \<in> set (slots T) \<and> q \<noteq> p"
    then obtain i where i: "i < length (slots T)" "slots T ! i = Some q" by (auto simp: in_set_conv_nth)
    then have "(slots T)[k := None] ! i = Some q" using a p by (cases "i = k") auto
    then have "Some q \<in> set ((slots T)[k := None])" using i(1) by (metis length_list_update nth_mem)
    then show "Some q \<in> set (slots T')" by (simp add: T'_def)
  qed
  show "owns T'"
    unfolding owns_def
  proof (intro conjI allI impI)
    show "finite (dom (contexts_at T'))" using o by (simp add: owns_def T'_def)
    show "contexts_at T' q \<noteq> None" if "Some q \<in> set (slots T')" for q
      using that m o by (auto simp: owns_def T'_def)
    show "i = j" if "i < length (slots T')" "j < length (slots T')" "slots T' ! i = Some q" "slots T' ! j = Some q" for i j q
      using that o k by (auto simp: owns_def T'_def nth_list_update split: if_splits)
  qed
  show "plain_view T' = (plain_view T)[k := None]"
  proof (rule nth_equalityI)
    fix i assume "i < length (plain_view T')"
    then have i: "i < length (slots T)" by (simp add: T'_def)
    then have n: "i \<noteq> k \<Longrightarrow> slots T ! i \<noteq> Some p" using other by blast
    show "plain_view T' ! i = (plain_view T)[k := None] ! i"
    proof (cases "i = k")
      case True
      then show ?thesis using k by (simp add: T'_def plain_view_def)
    next
      case False
      then show ?thesis using n i by (simp add: T'_def plain_view_def split: option.split)
    qed
  qed (simp add: T'_def)
  have "Some p \<in> set (slots T)" using k p by (metis nth_mem)
  then show "leaked T' = leaked T" using m by (auto simp: leaked_def T'_def)
qed

lemma delContext_p_refines:
  assumes "owns T"
  shows "map_sum id plain_view (delContext_p i T) = delContext i (plain_view T)"
    and "delContext_p i T = Ok T' \<Longrightarrow> owns T'" and "delContext_p i T = Ok T' \<Longrightarrow> leaked T' = leaked T"
proof -
  consider "delContext_p i T = Ok T" "delContext i (plain_view T) = Ok (plain_view T)"
    | p where "nat i < length (slots T)" "slots T ! nat i = Some p" "delContext i (plain_view T) = Ok ((plain_view T)[nat i := None])"
        "delContext_p i T = Ok (T\<lparr>slots := (slots T)[nat i := None], contexts_at := (contexts_at T)(p := None)\<rparr>)"
    | "delContext_p i T = Err OutOfBounds" "delContext i (plain_view T) = Err OutOfBounds"
    using delContext_cases [OF assms, of i] by blast
  then have "map_sum id plain_view (delContext_p i T) = delContext i (plain_view T)
    \<and> (\<forall>T'. delContext_p i T = Ok T' \<longrightarrow> owns T' \<and> leaked T' = leaked T)"
  proof cases
    case (2 p)
    then show ?thesis using delete_at [OF assms 2(1,2)] by simp
  qed (use assms in simp_all)
  then show "map_sum id plain_view (delContext_p i T) = delContext i (plain_view T)"
    and "delContext_p i T = Ok T' \<Longrightarrow> owns T'" and "delContext_p i T = Ok T' \<Longrightarrow> leaked T' = leaked T" by simp_all
qed

text \<open>The destructor deletes each pointer of the vector once.\<close>

lemma delete_all:
  assumes "\<forall>p. Some p \<in> set qs \<longrightarrow> contexts_at T p \<noteq> None"
    and "\<forall>i j p. i < length qs \<longrightarrow> j < length qs \<longrightarrow> qs ! i = Some p \<longrightarrow> qs ! j = Some p \<longrightarrow> i = j"
  shows "\<exists>T'. fold_res (\<lambda>q T. case q of None \<Rightarrow> Ok T | Some p \<Rightarrow> delete_ctx p T) qs T = Ok T'
    \<and> contexts_at T' = (\<lambda>p. if Some p \<in> set qs then None else contexts_at T p)"
  using assms
proof (induction qs arbitrary: T)
  case (Cons q qs)
  have u: "\<forall>i j p. i < length qs \<longrightarrow> j < length qs \<longrightarrow> qs ! i = Some p \<longrightarrow> qs ! j = Some p \<longrightarrow> i = j"
  proof (intro allI impI)
    fix i j p assume "i < length qs" "j < length qs" "qs ! i = Some p" "qs ! j = Some p"
    then show "i = j" using Cons.prems(2) [rule_format, of "Suc i" "Suc j" p] by simp
  qed
  show ?case
  proof (cases q)
    case None
    then show ?thesis using Cons.IH [of T] Cons.prems(1) u by auto
  next
    case (Some p)
    obtain c where c: "contexts_at T p = Some c" using Cons.prems(1) Some by auto
    have n: "Some p \<notin> set qs"
    proof
      assume "Some p \<in> set qs"
      then obtain j where "j < length qs" "qs ! j = Some p" by (auto simp: in_set_conv_nth)
      then show False using Cons.prems(2) [rule_format, of 0 "Suc j" p] Some by simp
    qed
    let ?T = "T\<lparr>contexts_at := (contexts_at T)(p := None)\<rparr>"
    have "\<forall>r. Some r \<in> set qs \<longrightarrow> contexts_at ?T r \<noteq> None" using Cons.prems(1) n by auto
    from Cons.IH [OF this u] obtain T' where "fold_res (\<lambda>q T. case q of None \<Rightarrow> Ok T | Some p \<Rightarrow> delete_ctx p T) qs ?T = Ok T'"
      "contexts_at T' = (\<lambda>r. if Some r \<in> set qs then None else contexts_at ?T r)" by blast
    then show ?thesis using Some c n by (auto simp: delete_ctx_def fun_eq_iff)
  qed
qed simp

lemma destroy_leaves_leaked:
  assumes "owns T"
  shows "\<exists>T'. FdManager_destroy T = Ok T' \<and> dom (contexts_at T') = leaked T"
proof -
  obtain T' where "FdManager_destroy T = Ok T'" "contexts_at T' = (\<lambda>p. if Some p \<in> set (slots T) then None else contexts_at T p)"
    using delete_all [of "slots T" T] assms by (auto simp: owns_def FdManager_destroy_def)
  then show ?thesis by (auto simp: leaked_def split: if_splits)
qed

section \<open>Sequences of calls\<close>

datatype fd_call = SetCtx fd FdContext | DelCtx fd

fun call_p :: "((nat \<Rightarrow> FdContext option) \<Rightarrow> nat) \<Rightarrow> fd_call \<Rightarrow> fd_store \<Rightarrow> fd_store res" where
  "call_p alloc (SetCtx i c) T = setContext_p (alloc (contexts_at T)) i c T"
| "call_p alloc (DelCtx i) T = delContext_p i T"

fun call_l :: "fd_call \<Rightarrow> fd_contexts \<Rightarrow> fd_contexts res" where
  "call_l (SetCtx i c) t = setContext i c t"
| "call_l (DelCtx i) t = delContext i t"

text \<open>How many calls of \<open>setContext\<close> met a descriptor that still had a context.\<close>

fun overwritten :: "fd_call list \<Rightarrow> fd_contexts \<Rightarrow> nat" where
  "overwritten [] t = 0"
| "overwritten (c # cs) t =
     (case c of SetCtx i x \<Rightarrow> if getContext i t \<noteq> Ok None then 1 else 0 | DelCtx i \<Rightarrow> 0)
     + (case call_l c t of Inl e \<Rightarrow> 0 | Inr t' \<Rightarrow> overwritten cs t')"

definition new_fresh :: "((nat \<Rightarrow> FdContext option) \<Rightarrow> nat) \<Rightarrow> bool" where
  "new_fresh alloc \<longleftrightarrow> (\<forall>h. finite (dom h) \<longrightarrow> h (alloc h) = None)"

lemma call_refines:
  assumes "owns T" and "new_fresh alloc"
  shows "map_sum id plain_view (call_p alloc c T) = call_l c (plain_view T)" and "call_p alloc c T = Ok T' \<Longrightarrow> owns T'"
    and "call_p alloc c T = Ok T' \<Longrightarrow> card (leaked T') = card (leaked T) + overwritten [c] (plain_view T)"
proof -
  have f: "contexts_at T (alloc (contexts_at T)) = None" using assms by (simp add: owns_def new_fresh_def)
  note s = setContext_p_refines [OF assms(1) f] and d = delContext_p_refines [OF assms(1)]
  show "map_sum id plain_view (call_p alloc c T) = call_l c (plain_view T)" using s(1) d(1) by (cases c) simp_all
  show "call_p alloc c T = Ok T' \<Longrightarrow> owns T'" using s(2) d(2) by (cases c) auto
  show "call_p alloc c T = Ok T' \<Longrightarrow> card (leaked T') = card (leaked T) + overwritten [c] (plain_view T)"
    using s(3) d(3) by (cases c) (auto split: sum.splits)
qed

lemma calls_refine:
  assumes "owns T" and "new_fresh alloc"
  shows "map_sum id plain_view (fold_res (call_p alloc) cs T) = fold_res call_l cs (plain_view T)
    \<and> (\<forall>T'. fold_res (call_p alloc) cs T = Ok T' \<longrightarrow> owns T' \<and> card (leaked T') = card (leaked T) + overwritten cs (plain_view T))"
  using assms
proof (induction cs arbitrary: T)
  case (Cons c cs)
  note r = call_refines [OF Cons.prems, of c]
  show ?case
  proof (cases "call_p alloc c T")
    case (Inl e)
    then have "call_l c (plain_view T) = Err e" using r(1) by (metis map_sum.simps(1) id_apply)
    then show ?thesis using Inl by simp
  next
    case (Inr T1)
    then have l: "call_l c (plain_view T) = Ok (plain_view T1)" using r(1) by (metis map_sum.simps(2))
    have "owns T1" using r(2) Inr by simp
    from Cons.IH [OF this Cons.prems(2)] show ?thesis using Inr l r(3) [OF Inr] by simp
  qed
qed simp

lemma new_fresh_least: "new_fresh (\<lambda>h. LEAST p. h p = None)"
  unfolding new_fresh_def
proof (intro allI impI)
  fix h :: "nat \<Rightarrow> FdContext option" assume "finite (dom h)"
  then have "\<exists>p. h p = None" using ex_new_if_finite [OF infinite_UNIV_nat, of "dom h"] by (simp add: domIff)
  then show "h (LEAST p. h p = None) = None" by (rule LeastI_ex)
qed

section \<open>Properties\<close>

text \<open>
  C17. The memory of the descriptor table. Whatever contexts are set and deleted, on whatever
  descriptors, the code with pointers never deletes a context twice or follows a pointer to a deleted
  one; it fails exactly where the table without pointers fails and otherwise stands for it; and the
  destructor then deletes everything but one context for each call of \<open>setContext\<close> that met a descriptor
  which still had one: nothing is lost if every descriptor is deleted before it is set again.
\<close>

theorem fd_manager_memory:
  assumes "new_fresh alloc"
  shows "map_sum id plain_view (fold_res (call_p alloc) cs fd_store_empty) = fold_res call_l cs []
    \<and> (\<forall>T. fold_res (call_p alloc) cs fd_store_empty = Ok T \<longrightarrow>
         (\<exists>T'. FdManager_destroy T = Ok T' \<and> finite (dom (contexts_at T')) \<and> card (dom (contexts_at T')) = overwritten cs []))"
proof -
  have o: "owns fd_store_empty" and v: "plain_view fd_store_empty = []" and l: "leaked fd_store_empty = {}"
    by (simp_all add: owns_def plain_view_def leaked_def fd_store_empty_def)
  note r = calls_refine [OF o assms, of cs, unfolded v l, simplified]
  show ?thesis
  proof (intro conjI allI impI)
    show "map_sum id plain_view (fold_res (call_p alloc) cs fd_store_empty) = fold_res call_l cs []" using r by blast
    fix T assume T: "fold_res (call_p alloc) cs fd_store_empty = Ok T"
    then have "owns T" "card (leaked T) = overwritten cs []" using r by auto
    moreover from this(1) have "finite (leaked T)" by (auto simp: owns_def leaked_def intro: finite_subset)
    ultimately show "\<exists>T'. FdManager_destroy T = Ok T' \<and> finite (dom (contexts_at T')) \<and> card (dom (contexts_at T')) = overwritten cs []"
      using destroy_leaves_leaked by metis
  qed
qed

theorem fd_manager_memory_witness:
  "new_fresh (\<lambda>h. LEAST p. h p = None)
   \<and> (\<exists>T T'. fold_res (call_p (\<lambda>h. LEAST p. h p = None))
        [SetCtx 7 FdContext_default, SetCtx 7 (FdContext_new True), DelCtx 7] fd_store_empty = Ok T
      \<and> plain_view T = replicate 10 None
      \<and> FdManager_destroy T = Ok T' \<and> finite (dom (contexts_at T')) \<and> card (dom (contexts_at T')) = 1)"
proof -
  let ?cs = "[SetCtx 7 FdContext_default, SetCtx 7 (FdContext_new True), DelCtx 7]"
  let ?f = "fold_res (call_p (\<lambda>h. LEAST p. h p = None)) ?cs fd_store_empty"
  have l: "fold_res call_l ?cs [] = Ok (replicate 10 None)" by code_simp
  have o: "overwritten ?cs [] = 1" by code_simp
  note r = fd_manager_memory [OF new_fresh_least, of ?cs, unfolded l o]
  then obtain T where T: "?f = Ok T" "plain_view T = replicate 10 None" by (cases ?f) simp_all
  with r obtain T' where "FdManager_destroy T = Ok T'" "finite (dom (contexts_at T'))" "card (dom (contexts_at T')) = 1" by blast
  then show ?thesis using T new_fresh_least by blast
qed

text \<open>
  The pointer \<open>getContext\<close> returns is used after the read lock has been released. When the descriptor is
  deleted in between, by another thread that closes it, every use of the pointer reads freed memory, at
  every descriptor that has a context.
\<close>

theorem context_pointer_outlives_lock:
  assumes "owns T" and "getContext_p i T = Ok (Some p)"
  shows "\<exists>c T'. read_ctx p T = Ok c \<and> delContext_p i T = Ok T' \<and> read_ctx p T' = Err UseAfterFree"
proof -
  have k: "0 \<le> i" "nat i < length (slots T)" "slots T ! nat i = Some p"
    using assms(2) by (auto simp: getContext_p_def vec_get_def Let_def split: if_splits)
  then have "Some p \<in> set (slots T)" by (metis nth_mem)
  then obtain c where "contexts_at T p = Some c" using ownsD [OF assms(1)] by blast
  moreover have "i < int (length (slots T))" using k by linarith
  ultimately show ?thesis using k by (simp add: delContext_p_def vec_get_def vec_set_def delete_ctx_def read_ctx_def)
qed

end
