(* ===== verification/Io_System.thy ===== *)
theory Io_System
  imports Co_Io Io_Batches
begin

text \<open>
  The thread of an \<open>IOManager\<close> as a system: the scheduler's loop with its blocking function, and any
  number of coroutines that call blocking functions on sockets, sleep, register timers, make other
  coroutines and end (src/coroutine/scheduler.cpp, src/io/io\_manager.cpp, src/io/co\_io\_function.cpp
  together). The steps are those of the code between two switches; what is shown is that none of
  these steps loses a coroutine or queues one twice, and that only one kind of turn fails: the one in which the loop
  reads behind its table. What programs can do besides (a second waiter for the same direction of a descriptor, sockets with
  timeouts, permanent registrations, closing a descriptor others wait for, killing executors, stopping) is not among the
  steps; the last section and other theories show where such calls lose coroutines.
\<close>

section \<open>States and steps\<close>

text \<open>What a suspended coroutine continues with: behind the \<open>yield\<close> of \<open>sleepInner\<close>, or of \<open>ioInner\<close> with its locals.\<close>

datatype ('u, 'k) pending = Sleeping | Waiting nat "'u closure timer" fd u32 "('k, int) syscall"

record ('u, 'k) sys_state =
  st :: "('u, 'k) co"
  pend :: "eptr \<Rightarrow> ('u, 'k) pending option"

abbreviation smgr :: "('u, 'k) sys_state \<Rightarrow> ('u, 'k) manager" where
  "smgr s \<equiv> mgr (st s)"

abbreviation sthr :: "('u, 'k) sys_state \<Rightarrow> 'u closure thread" where
  "sthr s \<equiv> thr (io_world (mgr (st s)))"

definition with_smgr :: "('u, 'k) sys_state \<Rightarrow> ('u, 'k) manager \<Rightarrow> ('u, 'k) sys_state" where
  "with_smgr s m = s\<lparr>st := (st s)\<lparr>mgr := m\<rparr>\<rparr>"

text \<open>
  What epoll\_wait(2) documents of a report: descriptors of the interest list (to which the constructor adds the
  pipe), each once.
\<close>

definition reports_ok :: "('k \<Rightarrow> fd \<Rightarrow> u32 option) \<Rightarrow> ('u, 'k) manager \<Rightarrow> (fd \<times> u32) list \<Rightarrow> bool" where
  "reports_ok interest m evs \<longleftrightarrow> distinct (map fst evs)
     \<and> (\<forall>ev \<in> set evs. 0 \<le> fst ev \<and> (fst ev = fst (wakeup_pipe_fd m) \<or> interest (kern m) (fst ev) \<noteq> None))"

definition kernel_waits :: "'k kernel_api \<Rightarrow> ('k \<Rightarrow> fd \<Rightarrow> u32 option) \<Rightarrow> ('u, 'k) manager \<Rightarrow> int \<Rightarrow> bool" where
  "kernel_waits api interest m t \<longleftrightarrow>
     (\<exists>evs k. sys_epoll_wait api epoll_wait_max_size t (kern m) = (Inr evs, k)
        \<and> interest k = interest (kern m) \<and> reports_ok interest m evs)"

text \<open>The next report may make the turn read behind the table.\<close>

definition overrun_due :: "'k kernel_api \<Rightarrow> ('u, 'k) manager \<Rightarrow> bool" where
  "overrun_due api m \<longleftrightarrow> (\<exists>t evs k. sys_epoll_wait api epoll_wait_max_size t (kern m) = (Inr evs, k) \<and> overruns m evs)"

text \<open>A system call that returns in the end and leaves the interest list alone.\<close>

definition quiet :: "('k \<Rightarrow> fd \<Rightarrow> u32 option) \<Rightarrow> ('k, int) syscall \<Rightarrow> bool" where
  "quiet interest func \<longleftrightarrow> (\<forall>k. interest (snd (func k)) = interest k
     \<and> (\<exists>r k'. invoked func k = Ok (r, k') \<and> interest k' = interest k))"

text \<open>The coroutine on the CPU executes code of the program.\<close>

definition acting :: "eptr \<Rightarrow> ('u, 'k) sys_state \<Rightarrow> bool" where
  "acting S s \<longleftrightarrow> running (sthr s) \<noteq> S \<and> pend s (running (sthr s)) = None
     \<and> (\<exists>e u. heap (sthr s) (running (sthr s)) = Some e \<and> ex_callback e = Some (UserCallback u))"

text \<open>
  A descriptor a coroutine may wait for: nobody else waits for it in this direction; it can be watched;
  when it is a managed socket, it has no timeout (the default).
\<close>

definition may_wait :: "('k \<Rightarrow> fd \<Rightarrow> u32 option) \<Rightarrow> fd set \<Rightarrow> ('u, 'k) sys_state \<Rightarrow> fd \<Rightarrow> u32 \<Rightarrow> ('k, int) syscall \<Rightarrow> bool" where
  "may_wait interest usable s i type func \<longleftrightarrow> 2 \<le> i \<and> i \<noteq> fst (wakeup_pipe_fd (smgr s)) \<and> i \<in> usable
     \<and> (type = Read \<or> type = Write) \<and> quiet interest func
     \<and> side_executor type (events_at (smgr s) i) = None"

definition settle ::
    "('u, 'k) sys_state \<Rightarrow> eptr \<Rightarrow> fd \<Rightarrow> u32 \<Rightarrow> ('k, int) syscall \<Rightarrow> 'u io_out \<times> ('u, 'k) co \<Rightarrow> ('u, 'k) sys_state" where
  "settle s p i type func r =
     (case r of (out, c) \<Rightarrow>
        s\<lparr>st := c, pend := (pend s)(p := (case out of IoWait flag t \<Rightarrow> Some (Waiting flag t i type func) | _ \<Rightarrow> None))\<rparr>)"

text \<open>A coroutine that ended: control goes back to the loop.\<close>

definition finish :: "('u, 'k) sys_state \<Rightarrow> ('u, 'k) sys_state res" where
  "finish s =
     res_bind (executorMainFunc_end (sthr s)) (\<lambda>th.
     res_bind (sched_back (running (sthr s)) ((io_world (smgr s))\<lparr>thr := th\<rparr>)) (\<lambda>w.
       Ok (with_smgr s ((smgr s)\<lparr>io_world := w\<rparr>))))"

text \<open>A new coroutine.\<close>

definition create :: "eptr \<Rightarrow> 'u \<Rightarrow> ('u, 'k) sys_state \<Rightarrow> ('u, 'k) manager res" where
  "create q u s =
     res_bind (Executor_callback q (Some (UserCallback u)) DefaultStackSize (sthr s)) (\<lambda>th.
       Ok ((smgr s)\<lparr>io_world := (io_world (smgr s))\<lparr>thr := th\<rparr>\<rparr>))"

text \<open>An iteration of the loop; without a task it calls the blocking function.\<close>

definition loop_turn ::
    "'k kernel_api \<Rightarrow> ('u closure thread \<Rightarrow> eptr) \<Rightarrow> (nat \<Rightarrow> ms) \<Rightarrow> (nat \<Rightarrow> ms) \<Rightarrow> ('u, 'k) manager \<Rightarrow> ('u, 'k) manager res" where
  "loop_turn api alloc now_before now_after m =
     res_bind (sched_iter default_stop_pending_func (io_world m)) (\<lambda>(out, w).
       if out = Blocked then blockPending api alloc now_before now_after (m\<lparr>io_world := w\<rparr>) else Ok (m\<lparr>io_world := w\<rparr>))"

text \<open>What the coroutine on the CPU, other threads and the kernel may do next.\<close>

inductive co_step ::
    "eptr \<Rightarrow> 'k kernel_api \<Rightarrow> ('k \<Rightarrow> fd \<Rightarrow> u32 option) \<Rightarrow> fd set \<Rightarrow> ('u, 'k) sys_state \<Rightarrow> ('u, 'k) sys_state res \<Rightarrow> bool"
  for S api interest usable where
  call: "acting S s \<Longrightarrow> may_wait interest usable s i type func \<Longrightarrow> flags (st s) flag = None \<Longrightarrow>
    (\<And>ctx. getContext i (fds (st s)) = Ok (Some ctx) \<Longrightarrow> io_timeout_of type ctx = - 1) \<Longrightarrow>
    co_step S api interest usable s
      (res_bind (ioInner api fresh now flag i type func (st s)) (\<lambda>r. Ok (settle s (running (sthr s)) i type func r)))"
| resume: "running (sthr s) \<noteq> S \<Longrightarrow> pend s (running (sthr s)) = Some (Waiting flag t i type func) \<Longrightarrow>
    side_executor type (events_at (smgr s) i) = None \<Longrightarrow> flags (st s) flag' = None \<Longrightarrow>
    co_step S api interest usable s
      (res_bind (ioInner_resume api fresh now flag' flag t i type func (- 1) (st s))
        (\<lambda>r. Ok (settle s (running (sthr s)) i type func r)))"
| sleep: "acting S s \<Longrightarrow> unat now + unat ms < 2 ^ 64 - 1 \<Longrightarrow>
    co_step S api interest usable s
      (res_bind (sleepInner fresh now ms (st s)) (\<lambda>c. Ok (s\<lparr>st := c, pend := (pend s)(running (sthr s) \<mapsto> Sleeping)\<rparr>)))"
| awake: "running (sthr s) \<noteq> S \<Longrightarrow> pend s (running (sthr s)) = Some Sleeping \<Longrightarrow>
    co_step S api interest usable s (Ok (s\<lparr>pend := (pend s)(running (sthr s) := None)\<rparr>))"
| timer: "acting S s \<Longrightarrow>
    co_step S api interest usable s
      (res_bind (registerTimer (Some (new_timer now ival (Some (UserCallback u)) rep)) (smgr s)) (\<lambda>(_, m). Ok (with_smgr s m)))"
| spawn: "acting S s \<Longrightarrow> heap (sthr s) q = None \<Longrightarrow>
    co_step S api interest usable s (res_bind (create q u s) (\<lambda>m. Ok (with_smgr s (io_addExecutor (Some q) m))))"
| spawn_remote: "heap (sthr s) q = None \<Longrightarrow>
    sys_write api (snd (wakeup_pipe_fd (smgr s))) ''1'' (kern (smgr s)) = (Inr n, k) \<Longrightarrow> interest k = interest (kern (smgr s)) \<Longrightarrow>
    co_step S api interest usable s
      (res_bind (create q u s) (\<lambda>m. res_bind (addRemoteTask api q m) (\<lambda>m. Ok (with_smgr s m))))"
| ended: "acting S s \<Longrightarrow> co_step S api interest usable s (finish s)"
| alarm: "running (sthr s) \<noteq> S \<Longrightarrow> heap (sthr s) (running (sthr s)) = Some e \<Longrightarrow> ex_callback e = Some (SleepOver p) \<Longrightarrow>
    co_step S api interest usable s (res_bind (run_closure api (SleepOver p) (st s)) (\<lambda>c. finish (s\<lparr>st := c\<rparr>)))"
| outside: "interest k = interest (kern (smgr s)) \<Longrightarrow>
    co_step S api interest usable s (Ok (with_smgr s ((smgr s)\<lparr>kern := k\<rparr>)))"

text \<open>A step of the thread: of the loop, when it has control, or one of these.\<close>

inductive io_step ::
    "eptr \<Rightarrow> 'k kernel_api \<Rightarrow> ('k \<Rightarrow> fd \<Rightarrow> u32 option) \<Rightarrow> fd set \<Rightarrow> ('u closure thread \<Rightarrow> eptr)
      \<Rightarrow> ('u, 'k) sys_state \<Rightarrow> ('u, 'k) sys_state res \<Rightarrow> bool"
  for S api interest usable alloc where
  turn: "running (sthr s) = S \<Longrightarrow> (\<And>t. kernel_waits api interest (smgr s) t) \<Longrightarrow> now_after 0 \<noteq> - 1 \<Longrightarrow>
    io_step S api interest usable alloc s
      (res_bind (loop_turn api alloc now_before now_after (smgr s)) (\<lambda>m. Ok (with_smgr s m)))"
| act: "co_step S api interest usable s r \<Longrightarrow> io_step S api interest usable alloc s r"

section \<open>Where a coroutine is\<close>

datatype place = Nowhere | InReady | InRemote | AtFd fd u32 | Asleep | Waking eptr

definition unfinished :: "'cb executor \<Rightarrow> bool" where
  "unfinished e \<longleftrightarrow> ex_state e \<noteq> Terminal \<and> ex_state e \<noteq> Aborted"

definition alarms :: "'u closure timer list \<Rightarrow> eptr \<Rightarrow> nat" where
  "alarms ts p = size {#t \<in># mset ts. callback t = Some (SleepOver p)#}"

text \<open>
  \<open>loc\<close> says for every coroutine that is neither running nor ended the one place it is in, and every
  place holds what it says: the two queues, the events of a descriptor, the timers, and the coroutines
  of expired timers that have not run yet.
\<close>

definition suspended_task :: "eptr \<Rightarrow> 'cb thread \<Rightarrow> eptr \<Rightarrow> bool" where
  "suspended_task S th p \<longleftrightarrow>
     p \<noteq> S \<and> (\<exists>e. heap th p = Some e \<and> ex_is_call_back_type e \<and> (ex_state e = Init \<or> ex_state e = HoldUp))"

definition wakes :: "eptr \<Rightarrow> 'u closure thread \<Rightarrow> eptr \<Rightarrow> eptr \<Rightarrow> bool" where
  "wakes S th q p \<longleftrightarrow> q \<noteq> S \<and> (\<exists>e. heap th q = Some e \<and> ex_callback e = Some (SleepOver p) \<and> unfinished e)"

definition placed ::
    "eptr \<Rightarrow> 'u closure thread \<Rightarrow> scheduler \<Rightarrow> (fd \<Rightarrow> FdEvents) \<Rightarrow> 'u closure timer list \<Rightarrow> (eptr \<Rightarrow> place) \<Rightarrow> bool" where
  "placed S th s ev ts loc \<longleftrightarrow>
     (\<forall>p. loc p \<noteq> Nowhere \<longleftrightarrow> suspended_task S th p)
     \<and> (\<forall>p. count_list (ready_executors s) (Some p) = of_bool (loc p = InReady))
     \<and> (\<forall>p. count_list (remote_tasks s) p = of_bool (loc p = InRemote))
     \<and> (\<forall>p i ty. loc p = AtFd i ty \<longleftrightarrow> (ty = Read \<or> ty = Write) \<and> side_executor ty (ev i) = Some p)
     \<and> (\<forall>p. alarms ts p = of_bool (loc p = Asleep))
     \<and> (\<forall>p q. loc p = Waking q \<longleftrightarrow> wakes S th q p)"

lemma placedD:
  assumes "placed S th s ev ts loc"
  shows "loc p \<noteq> Nowhere \<longleftrightarrow> suspended_task S th p"
    and "count_list (ready_executors s) (Some p) = of_bool (loc p = InReady)"
    and "count_list (remote_tasks s) p = of_bool (loc p = InRemote)"
    and "loc p = AtFd i ty \<longleftrightarrow> (ty = Read \<or> ty = Write) \<and> side_executor ty (ev i) = Some p"
    and "alarms ts p = of_bool (loc p = Asleep)"
    and "loc p = Waking q \<longleftrightarrow> wakes S th q p"
  using assms by (simp_all add: placed_def)

lemma alarms_simps [simp]:
  "alarms (ms_insert t ts) p = of_bool (callback t = Some (SleepOver p)) + alarms ts p"
  "alarms (t # ts) p = of_bool (callback t = Some (SleepOver p)) + alarms ts p"
  "alarms [] p = 0" "alarms (ts @ ts') p = alarms ts p + alarms ts' p"
  by (simp_all add: alarms_def)

text \<open>Switches keep the callbacks, and no coroutine is left in the passing state \<open>Ready\<close>.\<close>

definition switched :: "eptr \<Rightarrow> eptr \<Rightarrow> 'cb thread \<Rightarrow> 'cb thread \<Rightarrow> bool" where
  "switched p S th th' \<longleftrightarrow> same_but p S th th'
     \<and> (\<forall>q. map_option ex_callback (heap th' q) = map_option ex_callback (heap th q))
     \<and> (\<forall>e. heap th' p = Some e \<longrightarrow> ex_state e \<noteq> Ready)"

lemma switch_callbacks:
  "exec p th = Ok th' \<Longrightarrow> map_option ex_callback (heap th' q) = map_option ex_callback (heap th q)"
  "yield p th = Ok th' \<Longrightarrow> map_option ex_callback (heap th' q) = map_option ex_callback (heap th q)"
  "executorMainFunc_end th = Ok th' \<Longrightarrow> map_option ex_callback (heap th' q) = map_option ex_callback (heap th q)"
  by (auto simp: exec_defs leave_defs executorMainFunc_start_def Let_def split: if_splits option.splits State.splits point.splits prod.splits)

lemma switched_other:
  assumes "switched p S th th'" and "q \<noteq> p"
  shows "suspended_task S th' q \<longleftrightarrow> suspended_task S th q" and "wakes S th' q r \<longleftrightarrow> wakes S th q r"
  using assms by (auto simp: switched_def same_but_def suspended_task_def wakes_def)

lemma switched_self:
  assumes "switched p S th th'" and "heap th p = Some e" and "heap th' p = Some e'"
  shows "ex_callback e' = ex_callback e" and "ex_is_call_back_type e' = ex_is_call_back_type e"
proof -
  have "map_option ex_callback (heap th' p) = map_option ex_callback (heap th p)"
    "map_option ex_is_call_back_type (heap th' p) = map_option ex_is_call_back_type (heap th p)"
    using assms(1) by (simp_all add: switched_def same_but_def)
  then show "ex_callback e' = ex_callback e" "ex_is_call_back_type e' = ex_is_call_back_type e" using assms(2,3) by simp_all
qed

lemma switched_wakes:
  assumes "switched p S th th'" and "heap th p = Some e" and "heap th' p = Some e'" and "unfinished e' = unfinished e"
  shows "wakes S th' q r \<longleftrightarrow> wakes S th q r"
  using switched_other(2) [OF assms(1), of q r] switched_self(1) [OF assms(1-3)] assms(2-4)
  by (cases "q = p") (auto simp: wakes_def)

text \<open>The loop takes a task from the ready queue and switches to it.\<close>

lemma placed_enter:
  assumes pl: "placed S th s ev ts loc" "loc p = InReady" and sw: "switched p S th th'"
    and e: "heap th p = Some e" "heap th' p = Some e'" "ex_state e' = Exec"
    and s: "\<And>q. count_list (ready_executors s') (Some q) + of_bool (q = p) = count_list (ready_executors s) (Some q)"
      "remote_tasks s' = remote_tasks s"
  shows "placed S th' s' ev ts (loc(p := Nowhere))"
proof -
  note d = placedD [OF pl(1)]
  have "unfinished e" using d(1) [of p] pl(2) e(1) by (auto simp: suspended_task_def unfinished_def)
  then have w: "wakes S th' q r \<longleftrightarrow> wakes S th q r" for q r
    by (intro switched_wakes [OF sw e(1,2)]) (simp add: unfinished_def e(3))
  have "(loc(p := Nowhere)) q \<noteq> Nowhere \<longleftrightarrow> suspended_task S th' q" for q
    using d(1) [of q] switched_other(1) [OF sw, of q] e(2,3) by (cases "q = p") (auto simp: suspended_task_def)
  moreover have "count_list (ready_executors s') (Some q) = of_bool ((loc(p := Nowhere)) q = InReady)" for q
    using s(1) [of q] d(2) [of q] pl(2) by (cases "q = p") auto
  moreover have "(loc(p := Nowhere)) q = AtFd j t \<longleftrightarrow> (t = Read \<or> t = Write) \<and> side_executor t (ev j) = Some q" for q j t
    using d(4) [of q j t] pl(2) by auto
  moreover have "(loc(p := Nowhere)) r = Waking q \<longleftrightarrow> wakes S th' q r" for q r
    using w d(6) [of r q] pl(2) by auto
  ultimately show ?thesis using d(3,5) pl(2) unfolding placed_def by (auto simp: s(2))
qed

text \<open>A running coroutine is held up and put somewhere.\<close>

lemma placed_leave:
  assumes pl: "placed S th s ev ts loc" "loc p = Nowhere" and sw: "switched p S th th'" and p: "p \<noteq> S"
    and e: "heap th p = Some e" "ex_is_call_back_type e" "unfinished e" "heap th' p = Some e'" "ex_state e' = HoldUp"
    and at: "at = AtFd i ty \<and> (ty = Read \<or> ty = Write) \<or> at = Asleep"
    and ev: "\<And>j t q. t = Read \<or> t = Write \<Longrightarrow>
      side_executor t (ev' j) = Some q \<longleftrightarrow> (if at = AtFd j t then q = p else side_executor t (ev j) = Some q)"
    and free: "at = AtFd i ty \<Longrightarrow> side_executor ty (ev i) = None"
    and ts: "\<And>q. alarms ts' q = alarms ts q + of_bool (q = p \<and> at = Asleep)"
  shows "placed S th' s ev' ts' (loc(p := at))"
proof -
  note d = placedD [OF pl(1)]
  have w: "wakes S th' q r \<longleftrightarrow> wakes S th q r" for q r
    using e by (intro switched_wakes [OF sw e(1,4)]) (simp add: unfinished_def)
  have 1: "(loc(p := at)) q \<noteq> Nowhere \<longleftrightarrow> suspended_task S th' q" for q
    using d(1) [of q] switched_other(1) [OF sw, of q] switched_self(2) [OF sw e(1,4)] e p at
    by (cases "q = p") (auto simp: suspended_task_def)
  have 4: "(loc(p := at)) q = AtFd j t \<longleftrightarrow> (t = Read \<or> t = Write) \<and> side_executor t (ev' j) = Some q" for q j t
  proof (cases "t = Read \<or> t = Write")
    case True
    show ?thesis
    proof (cases "at = AtFd j t")
      case a: True
      then have "side_executor t (ev j) = None" using free at by auto
      then show ?thesis using a ev [OF True, of j q] d(4) [of q j t] True by auto
    next
      case False
      then show ?thesis using ev [OF True, of j q] d(4) [of q j t] d(4) [of p j t] pl(2) True by auto
    qed
  next
    case False
    then show ?thesis using d(4) [of q j t] at by auto
  qed
  have 5: "alarms ts' q = of_bool ((loc(p := at)) q = Asleep)" for q
    using ts [of q] d(5) [of q] pl(2) by auto
  have 6: "(loc(p := at)) r = Waking q \<longleftrightarrow> wakes S th' q r" for q r
    using w d(6) [of r q] d(6) [of p q] pl(2) at by auto
  show ?thesis using 1 4 5 6 d(2,3) pl(2) at unfolding placed_def by auto
qed

text \<open>A running coroutine ends.\<close>

lemma placed_end:
  assumes pl: "placed S th s ev ts loc" and sw: "switched p S th th'"
    and e: "heap th p = Some e" "heap th' p = Some e'" "ex_state e' = Terminal" "loc p = Nowhere"
    and cb: "\<And>r. ex_callback e \<noteq> Some (SleepOver r)"
  shows "placed S th' s ev ts loc"
proof -
  note d = placedD [OF pl]
  have "wakes S th' q r \<longleftrightarrow> wakes S th q r" for q r
    using switched_other(2) [OF sw, of q r] switched_self(1) [OF sw e(1,2)] e(1,2) cb
    by (cases "q = p") (auto simp: wakes_def)
  moreover have "loc q \<noteq> Nowhere \<longleftrightarrow> suspended_task S th' q" for q
    using d(1) [of q] switched_other(1) [OF sw, of q] e(2-4) by (cases "q = p") (auto simp: suspended_task_def)
  ultimately show ?thesis using d(2-6) unfolding placed_def by simp
qed

text \<open>The coroutine of an expired timer puts the sleeper into the ready queue and ends.\<close>

lemma placed_alarm:
  assumes pl: "placed S th s ev ts loc" and sw: "switched p S th th'" and p: "p \<noteq> S"
    and e: "heap th p = Some e" "heap th' p = Some e'" "ex_state e' = Terminal" "loc p = Nowhere" "unfinished e"
    and cb: "ex_callback e = Some (SleepOver r)"
    and s: "ready_executors s' = ready_executors s @ [Some r]" "remote_tasks s' = remote_tasks s"
  shows "placed S th' s' ev ts (loc(r := InReady))" and "loc r = Waking p"
proof -
  note d = placedD [OF pl]
  have "wakes S th p r" using e(1,5) cb p by (auto simp: wakes_def)
  then show r: "loc r = Waking p" using d(6) by simp
  then have rp: "r \<noteq> p" using e(4) by auto
  have n: "\<not> wakes S th' p q" for q using e(2,3) by (auto simp: wakes_def unfinished_def)
  have u: "wakes S th p q \<longleftrightarrow> q = r" for q using e(1,5) cb p by (auto simp: wakes_def)
  have 1: "(loc(r := InReady)) q \<noteq> Nowhere \<longleftrightarrow> suspended_task S th' q" for q
    using d(1) [of q] switched_other(1) [OF sw, of q] e(2-4) r rp by (cases "q = p") (auto simp: suspended_task_def)
  have 6: "(loc(r := InReady)) a = Waking b \<longleftrightarrow> wakes S th' b a" for a b
    using d(6) [of a b] switched_other(2) [OF sw, of b a] n u r by (cases "b = p") auto
  have 4: "(loc(r := InReady)) q = AtFd j t \<longleftrightarrow> (t = Read \<or> t = Write) \<and> side_executor t (ev j) = Some q" for q j t
    using d(4) [of q j t] r by auto
  show "placed S th' s' ev ts (loc(r := InReady))"
    using 1 4 6 d(2,3,5) r unfolding placed_def by (auto simp: s)
qed

text \<open>A new coroutine, in one of the queues.\<close>

definition created :: "eptr \<Rightarrow> 'cb option \<Rightarrow> 'cb thread \<Rightarrow> 'cb thread \<Rightarrow> bool" where
  "created q cb th th' \<longleftrightarrow> heap th q = None
     \<and> (\<exists>e. heap th' = (heap th)(q \<mapsto> e) \<and> ex_is_call_back_type e \<and> ex_state e = Init \<and> ex_callback e = cb)"

lemma created_other:
  assumes "created q cb th th'" and "p \<noteq> q"
  shows "suspended_task S th' p \<longleftrightarrow> suspended_task S th p" and "wakes S th' p r \<longleftrightarrow> wakes S th p r"
  using assms by (auto simp: created_def suspended_task_def wakes_def)

lemma created_self:
  assumes "created q cb th th'" and "q \<noteq> S"
  shows "suspended_task S th' q" and "\<not> suspended_task S th q" and "\<not> wakes S th q r"
    and "wakes S th' q r \<longleftrightarrow> cb = Some (SleepOver r)"
  using assms by (auto simp: created_def suspended_task_def wakes_def unfinished_def)

lemma placed_create:
  assumes pl: "placed S th s ev ts loc" and c: "created q (Some (UserCallback u)) th th'" "q \<noteq> S"
    and s: "at = InReady \<and> ready_executors s' = ready_executors s @ [Some q] \<and> remote_tasks s' = remote_tasks s
      \<or> at = InRemote \<and> remote_tasks s' = q # remote_tasks s \<and> ready_executors s' = ready_executors s"
  shows "placed S th' s' ev ts (loc(q := at))"
proof -
  note d = placedD [OF pl] and n = created_self [OF c] and o = created_other [OF c(1), where S = S]
  have q: "loc q = Nowhere" using d(1) [of q] n(2) by simp
  have 1: "(loc(q := at)) p \<noteq> Nowhere \<longleftrightarrow> suspended_task S th' p" for p
    using d(1) [of p] o(1) [of p] n(1) s by (cases "p = q") auto
  have 4: "(loc(q := at)) p = AtFd j t \<longleftrightarrow> (t = Read \<or> t = Write) \<and> side_executor t (ev j) = Some p" for p j t
    using d(4) [of p j t] q s by auto
  have 6: "(loc(q := at)) r = Waking p \<longleftrightarrow> wakes S th' p r" for p r
    using d(6) [of r p] o(2) [of p r] n(3,4) q s by (cases "p = q") auto
  show ?thesis using 1 4 6 d(2,3,5) q s unfolding placed_def by auto
qed

text \<open>An expired timer becomes a coroutine.\<close>

lemma placed_expire:
  assumes pl: "placed S th s ev (t # ts) loc" and c: "created q (callback t) th th'" "q \<noteq> S"
    and s: "ready_executors s' = ready_executors s @ [Some q]" "remote_tasks s' = remote_tasks s"
  shows "\<exists>loc'. placed S th' s' ev ts loc' \<and> (\<forall>p. loc' p \<noteq> loc p \<longrightarrow> p = q \<or> loc p = Asleep \<and> loc' p = Waking q)"
proof -
  note d = placedD [OF pl] and n = created_self [OF c] and o = created_other [OF c(1), where S = S]
  let ?loc = "\<lambda>p. if p = q then InReady else if callback t = Some (SleepOver p) then Waking q else loc p"
  have q: "loc q = Nowhere" using d(1) [of q] n(2) by simp
  have a: "loc p = Asleep" if "callback t = Some (SleepOver p)" for p
    using d(5) [of p] that by (cases "loc p = Asleep") simp_all
  have 1: "?loc p \<noteq> Nowhere \<longleftrightarrow> suspended_task S th' p" for p
    using d(1) [of p] o(1) [of p] n(1) a by (cases "p = q") auto
  have 2: "count_list (ready_executors s') (Some p) = of_bool (?loc p = InReady)" for p
    using d(2) [of p] q a [of p] by (auto simp: s)
  have 3: "count_list (remote_tasks s') p = of_bool (?loc p = InRemote)" for p
    using d(3) [of p] q a [of p] by (auto simp: s)
  have 4: "?loc p = AtFd j ty \<longleftrightarrow> (ty = Read \<or> ty = Write) \<and> side_executor ty (ev j) = Some p" for p j ty
    using d(4) [of p j ty] q a [of p] by auto
  have 5: "alarms ts p = of_bool (?loc p = Asleep)" for p
    using d(5) [of p] q a [of p] by (cases "p = q") auto
  have 6: "?loc r = Waking p \<longleftrightarrow> wakes S th' p r" for p r
  proof (cases "p = q")
    case True
    then show ?thesis using d(6) [of r q] n(3,4) q a [of r] a [of q] by auto
  next
    case False
    then show ?thesis using d(6) [of r p] o(2) [of p r] q a [of r] by auto
  qed
  have "placed S th' s' ev ts ?loc" unfolding placed_def using 1 2 3 4 5 6 by blast
  then show ?thesis using a by (intro exI [of _ ?loc]) auto
qed

text \<open>An event moves the coroutines waiting for it into the ready queue.\<close>

lemma placed_event:
  assumes pl: "placed S th s ev ts loc"
    and s: "ready_executors s' = ready_executors s @ woken x (ev i)" "remote_tasks s' = remote_tasks s"
    and e: "ev' i = after_event x (ev i)" "\<And>j. j \<noteq> i \<Longrightarrow> ev' j = ev j"
  shows "\<exists>loc'. placed S th s' ev' ts loc' \<and> (\<forall>p. loc' p \<noteq> loc p \<longrightarrow> loc' p = InReady)"
proof -
  note d = placedD [OF pl]
  let ?in = "x AND (EPOLLIN OR EPOLLERR OR EPOLLHUP) \<noteq> 0" and ?out = "x AND (EPOLLOUT OR EPOLLERR OR EPOLLHUP) \<noteq> 0"
  let ?loc = "\<lambda>p. if ?in \<and> loc p = AtFd i Read \<or> ?out \<and> loc p = AtFd i Write then InReady else loc p"
  have rw: "Read \<noteq> Write" by (simp add: Read_def Write_def epoll_bits)
  have r: "read_executor (ev i) = Some p \<longleftrightarrow> loc p = AtFd i Read" "write_executor (ev i) = Some p \<longleftrightarrow> loc p = AtFd i Write" for p
    using d(4) [of p i Read] d(4) [of p i Write] rw by (simp_all add: side_executor_def)
  have 2: "count_list (ready_executors s') (Some p) = of_bool (?loc p = InReady)" for p
    using d(2) [of p] r [of p] rw by (auto simp: s woken_def)
  have 3: "count_list (remote_tasks s') p = of_bool (?loc p = InRemote)" for p
    using d(3) [of p] by (auto simp: s)
  have 4: "?loc p = AtFd j ty \<longleftrightarrow> (ty = Read \<or> ty = Write) \<and> side_executor ty (ev' j) = Some p" for p j ty
  proof (cases "j = i")
    case True
    then show ?thesis using d(4) [of p i ty] r [of p] rw by (auto simp: e(1) after_event_def side_executor_def)
  next
    case False
    then show ?thesis using d(4) [of p j ty] by (auto simp: e(2))
  qed
  have 5: "alarms ts p = of_bool (?loc p = Asleep)" for p using d(5) [of p] by auto
  have 6: "?loc p = Waking q \<longleftrightarrow> wakes S th q p" for p q using d(6) [of p q] by auto
  have "?loc p \<noteq> Nowhere \<longleftrightarrow> suspended_task S th p" for p using d(1) [of p] by auto
  then have "placed S th s' ev' ts ?loc" unfolding placed_def using 2 3 4 5 6 by blast
  then show ?thesis by (intro exI [of _ ?loc]) auto
qed

text \<open>The remote list joins the ready queue.\<close>

lemma placed_pick:
  assumes pl: "placed S th s ev ts loc" and s: "\<not> stopping s" "sched_pick s = (x, s')"
  shows "\<exists>loc' s1. placed S th s1 ev ts loc' \<and> (\<forall>p. loc' p \<noteq> loc p \<longrightarrow> loc p = InRemote \<and> loc' p = InReady)
    \<and> (case x of None \<Rightarrow> placed S th s' ev ts loc'
       | Some p \<Rightarrow> loc' p = InReady \<and> remote_tasks s' = remote_tasks s1
           \<and> (\<forall>q. count_list (ready_executors s') (Some q) + of_bool (q = p) = count_list (ready_executors s1) (Some q)))"
proof -
  note d = placedD [OF pl]
  let ?s = "s\<lparr>ready_executors := ready_executors s @ map Some (remote_tasks s), remote_tasks := []\<rparr>"
  let ?loc = "\<lambda>p. if loc p = InRemote then InReady else loc p"
  have m: "count_list (map Some xs) (Some p) = count_list xs p" for xs :: "eptr list" and p by (induction xs) auto
  have 2: "count_list (ready_executors ?s) (Some p) = of_bool (?loc p = InReady)" for p
    using d(2,3) [of p] by (auto simp: m)
  have 4: "?loc p = AtFd j ty \<longleftrightarrow> (ty = Read \<or> ty = Write) \<and> side_executor ty (ev j) = Some p" for p j ty
    using d(4) [of p j ty] by auto
  have 1: "?loc p \<noteq> Nowhere \<longleftrightarrow> suspended_task S th p" for p using d(1) [of p] by auto
  have 6: "?loc p = Waking q \<longleftrightarrow> wakes S th q p" for p q using d(6) [of p q] by auto
  have p1: "placed S th ?s ev ts ?loc" unfolding placed_def using 1 2 4 6 d(5) by auto
  have sp: "sched_pick s = (case ready_executors ?s of [] \<Rightarrow> (None, ?s) | y # ys \<Rightarrow> (y, ?s\<lparr>ready_executors := ys\<rparr>))"
    using s(1) by (auto simp: sched_pick_def scheduleAll_eq ready_pop_def Let_def split: list.splits)
  show ?thesis
  proof (cases "ready_executors ?s")
    case Nil
    then show ?thesis using s(2) sp p1 by (intro exI [of _ ?loc] exI [of _ ?s]) auto
  next
    case (Cons y ys)
    then have x: "x = y" "s' = ?s\<lparr>ready_executors := ys\<rparr>" using s(2) sp by auto
    show ?thesis
    proof (cases y)
      case None
      have "count_list ys (Some p) = count_list (ready_executors ?s) (Some p)" for p using Cons None by simp
      then have "placed S th s' ev ts ?loc" using p1 unfolding placed_def x(2) by simp
      then show ?thesis using x(1) None p1 by (intro exI [of _ ?loc] exI [of _ ?s]) auto
    next
      case (Some p)
      have "?loc p = InReady" using 2 [of p] Cons Some by (cases "?loc p = InReady") simp_all
      moreover have "count_list ys (Some q) + of_bool (q = p) = count_list (ready_executors ?s) (Some q)" for q using Cons Some by simp
      ultimately show ?thesis using x Some p1 by (intro exI [of _ ?loc] exI [of _ ?s]) auto
    qed
  qed
qed

section \<open>The invariant\<close>

definition timer_kind_ok :: "'u closure timer \<Rightarrow> bool" where
  "timer_kind_ok t \<longleftrightarrow>
     (case callback t of
        None \<Rightarrow> False
      | Some (UserCallback u) \<Rightarrow> True
      | Some (SleepOver p) \<Rightarrow> \<not> repeat t \<and> target_timestamp t \<noteq> - 1
      | Some (IoTimeout i ty flag p) \<Rightarrow> \<not> repeat t \<and> target_timestamp t = - 1)"

text \<open>Registrations are for once, and a coroutine that waits for an event is registered for it.\<close>

definition events_ok :: "FdEvents \<Rightarrow> bool" where
  "events_ok e \<longleftrightarrow> read_call_once e \<and> write_call_once e
     \<and> (read_executor e \<noteq> None \<longrightarrow> registered_events e AND Read \<noteq> 0)
     \<and> (write_executor e \<noteq> None \<longrightarrow> registered_events e AND Write \<noteq> 0)"

text \<open>The code a coroutine runs is the program's, or the callback of a sleep's timer.\<close>

definition callbacks_ok :: "eptr \<Rightarrow> 'u closure thread \<Rightarrow> bool" where
  "callbacks_ok S th \<longleftrightarrow> (\<forall>q e. q \<noteq> S \<longrightarrow> heap th q = Some e \<longrightarrow> ex_is_call_back_type e
     \<longrightarrow> ex_state e \<noteq> Ready
       \<and> ((\<exists>u. ex_callback e = Some (UserCallback u)) \<or> (\<exists>p. ex_callback e = Some (SleepOver p))))"

definition mgr_ok :: "eptr \<Rightarrow> ('k \<Rightarrow> fd \<Rightarrow> u32 option) \<Rightarrow> fd \<Rightarrow> ('u, 'k) manager \<Rightarrow> bool" where
  "mgr_ok S interest pipe m \<longleftrightarrow> sched_ok S (io_world m) \<and> watch_ok interest m \<and> \<not> io_stopped m \<and> \<not> stopping (io_sch m)
     \<and> finite (dom (heap (thr (io_world m)))) \<and> callbacks_ok S (thr (io_world m))
     \<and> timers_ok (timer_manager m) \<and> (\<forall>t \<in> set (timer_manager m). timer_kind_ok t)
     \<and> fst (wakeup_pipe_fd m) = pipe \<and> (\<forall>j. events_ok (events_at m j))"

lemma mgr_okD:
  assumes "mgr_ok S interest pipe m"
  shows "sched_ok S (io_world m)" and "watch_ok interest m" and "\<not> io_stopped m" and "\<not> stopping (sch (io_world m))"
    and "finite (dom (heap (thr (io_world m))))" and "callbacks_ok S (thr (io_world m))"
    and "timers_ok (timer_manager m)" and "\<forall>t \<in> set (timer_manager m). timer_kind_ok t"
    and "fst (wakeup_pipe_fd m) = pipe" and "\<forall>j. events_ok (events_at m j)"
  using assms by (simp_all add: mgr_ok_def io_sch_def)

text \<open>The timers that never expire: those of the waiting calls are among them.\<close>

definition never :: "'u closure timer list \<Rightarrow> nat" where
  "never ts = size {#t \<in># mset ts. target_timestamp t = - 1#}"

definition user_task :: "eptr \<Rightarrow> 'u closure thread \<Rightarrow> eptr \<Rightarrow> bool" where
  "user_task S th p \<longleftrightarrow>
     p \<noteq> S \<and> (\<exists>e u. heap th p = Some e \<and> ex_is_call_back_type e \<and> ex_callback e = Some (UserCallback u) \<and> unfinished e)"

definition waiters :: "(eptr \<Rightarrow> ('u, 'k) pending option) \<Rightarrow> eptr set" where
  "waiters pe = {p. \<exists>flag t i ty f. pe p = Some (Waiting flag t i ty f)}"

definition wait_ok :: "('k \<Rightarrow> fd \<Rightarrow> u32 option) \<Rightarrow> fd set \<Rightarrow> fd \<Rightarrow> (nat \<Rightarrow> bool option) \<Rightarrow> ('u, 'k) pending \<Rightarrow> bool" where
  "wait_ok interest usable pipe fl x \<longleftrightarrow>
     (case x of
        Sleeping \<Rightarrow> True
      | Waiting flag t i ty f \<Rightarrow> fl flag = Some False \<and> target_timestamp t = - 1 \<and> 2 \<le> i \<and> i \<noteq> pipe \<and> i \<in> usable
          \<and> (ty = Read \<or> ty = Write) \<and> quiet interest f)"

definition pend_ok :: "eptr \<Rightarrow> ('k \<Rightarrow> fd \<Rightarrow> u32 option) \<Rightarrow> fd set \<Rightarrow> fd \<Rightarrow> ('u, 'k) sys_state \<Rightarrow> bool" where
  "pend_ok S interest usable pipe s \<longleftrightarrow>
     (\<forall>p x. pend s p = Some x \<longrightarrow> user_task S (sthr s) p \<and> wait_ok interest usable pipe (flags (st s)) x)
     \<and> (\<forall>p q flag t i ty f t' i' ty' f'. pend s p = Some (Waiting flag t i ty f) \<longrightarrow> pend s q = Some (Waiting flag t' i' ty' f') \<longrightarrow> p = q)
     \<and> card (waiters (pend s)) \<le> never (timer_manager (smgr s))"

text \<open>A coroutine is where its suspended call expects it.\<close>

definition loc_ok :: "(eptr \<Rightarrow> ('u, 'k) pending option) \<Rightarrow> (eptr \<Rightarrow> place) \<Rightarrow> bool" where
  "loc_ok pe loc \<longleftrightarrow> (\<forall>p.
     (case loc p of
        AtFd i ty \<Rightarrow> \<exists>flag t f. pe p = Some (Waiting flag t i ty f)
      | Asleep \<Rightarrow> pe p = Some Sleeping
      | Waking q \<Rightarrow> pe p = Some Sleeping
      | _ \<Rightarrow> True))"

definition sys_ok :: "eptr \<Rightarrow> ('k \<Rightarrow> fd \<Rightarrow> u32 option) \<Rightarrow> fd set \<Rightarrow> fd \<Rightarrow> ('u, 'k) sys_state \<Rightarrow> bool" where
  "sys_ok S interest usable pipe s \<longleftrightarrow> mgr_ok S interest pipe (smgr s) \<and> pend_ok S interest usable pipe s
     \<and> (\<exists>loc. placed S (sthr s) (io_sch (smgr s)) (events_at (smgr s)) (timer_manager (smgr s)) loc \<and> loc_ok (pend s) loc)"

section \<open>The loop's turn\<close>

text \<open>How a turn of the loop may move coroutines.\<close>

definition moves :: "(eptr \<Rightarrow> place) \<Rightarrow> (eptr \<Rightarrow> place) \<Rightarrow> bool" where
  "moves loc loc' \<longleftrightarrow> (\<forall>p. loc' p = loc p \<or> loc' p = InReady \<or> loc' p = Nowhere \<or> loc p = Asleep \<and> (\<exists>q. loc' p = Waking q))"

lemma moves_refl [simp]: "moves loc loc"
  by (simp add: moves_def)

lemma moves_trans: "moves a b \<Longrightarrow> moves b c \<Longrightarrow> moves a c"
  unfolding moves_def by (metis place.distinct)

lemma moves_loc_ok: "loc_ok pe loc \<Longrightarrow> moves loc loc' \<Longrightarrow> loc_ok pe loc'"
  unfolding loc_ok_def moves_def
proof
  fix p
  assume "\<forall>p. case loc p of AtFd i ty \<Rightarrow> \<exists>flag t f. pe p = Some (Waiting flag t i ty f) | Asleep \<Rightarrow> pe p = Some Sleeping
      | Waking q \<Rightarrow> pe p = Some Sleeping | _ \<Rightarrow> True"
    and "\<forall>p. loc' p = loc p \<or> loc' p = InReady \<or> loc' p = Nowhere \<or> loc p = Asleep \<and> (\<exists>q. loc' p = Waking q)"
  from spec [OF this(1), of p] spec [OF this(2), of p]
  show "case loc' p of AtFd i ty \<Rightarrow> \<exists>flag t f. pe p = Some (Waiting flag t i ty f) | Asleep \<Rightarrow> pe p = Some Sleeping
      | Waking q \<Rightarrow> pe p = Some Sleeping | _ \<Rightarrow> True"
    by (auto split: place.splits)
qed

lemma running_on_cpu:
  assumes "sched_ok S w" and "running (thr w) \<noteq> S"
  shows "\<exists>e. heap (thr w) (running (thr w)) = Some e \<and> on_cpu e"
  using coop_okD(7) [of S "thr w"] assms by (auto simp: sched_ok_def loop_ok_def main_waits_def)

lemma running_nowhere:
  assumes "placed S (thr w) s ev ts loc" and "sched_ok S w" and "running (thr w) \<noteq> S"
  shows "loc (running (thr w)) = Nowhere"
  using placedD(1) [OF assms(1), of "running (thr w)"] running_on_cpu [OF assms(2,3)]
  by (auto simp: suspended_task_def on_cpu_def)

lemma Executor_callback_created:
  assumes "heap th q = None" and "cb \<noteq> None"
  shows "\<exists>th'. Executor_callback q cb sz th = Ok th' \<and> created q cb th th' \<and> running th' = running th"
  using assms by (auto simp: Executor_callback_def idGenerate_def createUpdateData_def Let_def created_def)

lemma created_callbacks:
  assumes "callbacks_ok S th" and "created q cb th th'" and "(\<exists>u. cb = Some (UserCallback u)) \<or> (\<exists>p. cb = Some (SleepOver p))"
  shows "callbacks_ok S th'"
  using assms by (auto simp: callbacks_ok_def created_def split: if_splits)

lemma created_sched_ok:
  assumes ok: "sched_ok S w" and c: "Executor_callback q cb sz (thr w) = Ok th" "created q cb (thr w) th" "cb \<noteq> None" "running th = running (thr w)"
    and s: "queued s' \<subseteq> insert q (queued (sch w))" "scheduler_executor s' = scheduler_executor (sch w)"
  shows "sched_ok S (w\<lparr>thr := th, sch := s'\<rparr>)" and "q \<noteq> S"
proof -
  have q: "heap (thr w) q = None" using c(2) by (simp add: created_def)
  then show "q \<noteq> S" using ok by (auto simp: sched_ok_def loop_ok_def)
  have "sched_ok S (w\<lparr>thr := th\<rparr>) \<or> loop_left S (w\<lparr>thr := th\<rparr>)"
    using sched_step_safe [OF sched_step.create_task [OF q c(3), where sz = sz] ok] c(1) by auto
  moreover have "\<not> loop_left S (w\<lparr>thr := th\<rparr>)"
    using ok c(2,4) coop_okD(1) by (auto simp: loop_left_def sched_ok_def loop_ok_def created_def on_cpu_def split: if_splits)
  ultimately have "sched_ok S (w\<lparr>thr := th\<rparr>)" by blast
  moreover have "task S th q" using c(2) \<open>q \<noteq> S\<close> by (auto simp: task_def created_def)
  ultimately show "sched_ok S (w\<lparr>thr := th, sch := s'\<rparr>)" using s by (auto simp: sched_ok_def)
qed

text \<open>Expired timers.\<close>

lemma add_timer_execs_placed:
  assumes al: "alloc_ok alloc"
  shows "sched_ok S w \<Longrightarrow> placed S (thr w) (sch w) ev (due @ ts) loc \<Longrightarrow> \<not> stopping (sch w) \<Longrightarrow> finite (dom (heap (thr w)))
    \<Longrightarrow> callbacks_ok S (thr w) \<Longrightarrow> \<forall>t \<in> set due. (\<exists>u. callback t = Some (UserCallback u)) \<or> (\<exists>p. callback t = Some (SleepOver p))
    \<Longrightarrow> \<exists>w' loc'. add_timer_execs alloc due w = Ok w' \<and> sched_ok S w' \<and> placed S (thr w') (sch w') ev ts loc' \<and> moves loc loc'
      \<and> \<not> stopping (sch w') \<and> finite (dom (heap (thr w'))) \<and> callbacks_ok S (thr w') \<and> running (thr w') = running (thr w)
      \<and> (\<forall>p e. heap (thr w) p = Some e \<longrightarrow> heap (thr w') p = Some e)"
proof (induction due arbitrary: w loc)
  case (Cons t due)
  let ?q = "alloc (thr w)"
  have q: "heap (thr w) ?q = None" using al Cons.prems(4) by (simp add: alloc_ok_def)
  have cb: "callback t \<noteq> None" "(\<exists>u. callback t = Some (UserCallback u)) \<or> (\<exists>p. callback t = Some (SleepOver p))"
    using Cons.prems(6) by auto
  obtain th where th: "Executor_callback ?q (callback t) DefaultStackSize (thr w) = Ok th" "created ?q (callback t) (thr w) th"
    "running th = running (thr w)"
    using Executor_callback_created [OF q cb(1)] by blast
  let ?s = "ready_push (Some ?q) (sch w)"
  let ?w = "w\<lparr>thr := th, sch := ?s\<rparr>"
  have "queued ?s \<subseteq> insert ?q (queued (sch w))" "scheduler_executor ?s = scheduler_executor (sch w)"
    by (auto simp: queued_def ready_push_def)
  note so = created_sched_ok [OF Cons.prems(1) th(1,2) cb(1) th(3) this]
  obtain loc1 where l1: "placed S th ?s ev (due @ ts) loc1" "\<forall>p. loc1 p \<noteq> loc p \<longrightarrow> p = ?q \<or> loc p = Asleep \<and> loc1 p = Waking ?q"
    using placed_expire [OF Cons.prems(2) [simplified] th(2) so(2), of ?s] by (auto simp: ready_push_def)
  have nq: "loc ?q = Nowhere"
    using placedD(1) [OF Cons.prems(2), of ?q] q by (auto simp: suspended_task_def)
  have "loc1 ?q = InReady"
    using placedD(2) [OF l1(1), of ?q] by (cases "loc1 ?q = InReady") (simp_all add: ready_push_def)
  then have mv: "moves loc loc1" using l1(2) unfolding moves_def by metis
  have "finite (dom (heap th))" using th(2) Cons.prems(4) by (auto simp: created_def)
  moreover have "callbacks_ok S th" by (rule created_callbacks [OF Cons.prems(5) th(2) cb(2)])
  ultimately obtain w' loc' where w': "add_timer_execs alloc due ?w = Ok w'" "sched_ok S w'" "placed S (thr w') (sch w') ev ts loc'"
    "moves loc1 loc'" "\<not> stopping (sch w')" "finite (dom (heap (thr w')))" "callbacks_ok S (thr w')" "running (thr w') = running th"
    "\<forall>p e. heap th p = Some e \<longrightarrow> heap (thr w') p = Some e"
    using Cons.IH [of ?w loc1] so(1) l1(1) Cons.prems(3,6) by (auto simp: ready_push_def)
  have "add_timer_execs alloc (t # due) w = Ok w'"
    using th(1) w'(1) Cons.prems(3) by (simp add: addExecutor_def Let_def)
  moreover have "\<forall>p e. heap (thr w) p = Some e \<longrightarrow> heap (thr w') p = Some e"
    using w'(9) th(2) q unfolding created_def by (metis fun_upd_other option.distinct(1))
  ultimately show ?case using w' moves_trans [OF mv w'(4)] th(3) by auto
qed auto

text \<open>A batch of events.\<close>

lemma after_event_ok:
  assumes "registered_events e \<in> {0, 1, 4, 5}" and "events_ok e"
  shows "events_ok (after_event ev e)"
proof -
  have "ev AND EPOLLIN \<noteq> 0 \<Longrightarrow> ev AND (EPOLLIN OR EPOLLERR OR EPOLLHUP) \<noteq> 0"
    "ev AND EPOLLOUT \<noteq> 0 \<Longrightarrow> ev AND (EPOLLOUT OR EPOLLERR OR EPOLLHUP) \<noteq> 0"
    by (auto simp: bit.conj_disj_distrib or_eq_0_iff)
  then show ?thesis using left_after_bits(3,4) [OF assms(1), of ev] assms(2) by (auto simp: events_ok_def after_event_def)
qed

lemma watched_in_table:
  assumes "watch_ok interest m" and "0 \<le> i" and "i \<noteq> fst (wakeup_pipe_fd m)" and "interest (kern m) i \<noteq> None"
  shows "i < int (length (fd_events m))"
proof -
  have "watched (interest (kern m) i) (registered_events (events_at m i))" using assms(1-3) by (simp add: watch_ok_alt)
  then have "registered_events (events_at m i) \<noteq> 0" using assms(4) by (auto simp: watched_def)
  then show ?thesis by (auto simp: events_at_def FdEvents_default_def split: if_splits)
qed

lemma handle_events_placed:
  assumes api: "epoll_ctl_ok api interest usable" and dr: "pipe_drains api interest pipe"
  shows "watch_ok interest m \<Longrightarrow> \<not> stopping (io_sch m) \<Longrightarrow> fst (wakeup_pipe_fd m) = pipe \<Longrightarrow> \<forall>j. events_ok (events_at m j)
    \<Longrightarrow> placed S (thr (io_world m)) (io_sch m) (events_at m) ts loc
    \<Longrightarrow> \<forall>ev \<in> set evs. fst ev = pipe \<or> 0 \<le> fst ev \<and> fst ev < int (length (fd_events m))
    \<Longrightarrow> (\<exists>ev \<in> set evs. reads_flags m ev) \<longrightarrow> 0 \<le> f \<and> f < int (length (fd_events m))
    \<Longrightarrow> \<exists>m' loc'. handle_events api f evs m = Ok m' \<and> watch_ok interest m' \<and> \<not> stopping (io_sch m') \<and> fst (wakeup_pipe_fd m') = pipe
      \<and> (\<forall>j. events_ok (events_at m' j)) \<and> placed S (thr (io_world m')) (io_sch m') (events_at m') ts loc' \<and> moves loc loc'
      \<and> thr (io_world m') = thr (io_world m) \<and> same_timers m m' \<and> scheduler_executor (io_sch m') = scheduler_executor (io_sch m)"
proof (induction evs arbitrary: m loc)
  case (Cons ev evs)
  have 1: "\<exists>m1 loc1. handle_event api f ev m = Ok m1 \<and> watch_ok interest m1 \<and> \<not> stopping (io_sch m1) \<and> fst (wakeup_pipe_fd m1) = pipe
      \<and> (\<forall>j. events_ok (events_at m1 j)) \<and> placed S (thr (io_world m1)) (io_sch m1) (events_at m1) ts loc1 \<and> moves loc loc1
      \<and> thr (io_world m1) = thr (io_world m) \<and> same_timers m m1 \<and> length (fd_events m1) = length (fd_events m)
      \<and> scheduler_executor (io_sch m1) = scheduler_executor (io_sch m)"
  proof (cases "fst ev = pipe")
    case True
    obtain k' where k: "drain_pipe (sys_read api pipe 8) (kern m) = Some k'" "interest k' = interest (kern m)"
      using dr by (auto simp: pipe_drains_def)
    have h: "handle_event api f ev m = Ok (m\<lparr>kern := k'\<rparr>)"
      using True Cons.prems(3) k(1) by (cases ev) (simp add: handle_event_def)
    have "watch_ok interest (m\<lparr>kern := k'\<rparr>)" using Cons.prems(1) k(2) watch_ok_cong [of "m\<lparr>kern := k'\<rparr>" m interest] by simp
    moreover have "events_at (m\<lparr>kern := k'\<rparr>) = events_at m" by (rule ext) simp
    ultimately show ?thesis
      using h Cons.prems(2-5) by (intro exI [of _ "m\<lparr>kern := k'\<rparr>"] exI [of _ loc]) (simp add: io_sch_def same_timers_def)
  next
    case False
    then have i: "0 \<le> fst ev" "fst ev < int (length (fd_events m))" "fst ev \<noteq> fst (wakeup_pipe_fd m)" using Cons.prems(3,6) by auto
    have o: "read_call_once (events_at m j)" "write_call_once (events_at m j)" for j using Cons.prems(4) by (simp_all add: events_ok_def)
    have r: "registered_events (events_at m (fst ev)) \<in> {0, 1, 4, 5}" using Cons.prems(1) i(1,3) by (auto simp: watch_ok_alt watched_def)
    obtain g where g: "handle_event api f ev m = handle_event api g ev m" and f: "0 \<le> g" "g < int (length (fd_events m))"
    proof (cases "reads_flags m ev")
      case True
      then show thesis using that [OF refl] Cons.prems(7) by auto
    next
      case no: False
      show thesis by (rule that [OF handle_event_flagless [OF no] i(1,2)])
    qed
    obtain m1 where m1: "handle_event api f ev m = Ok m1" "watch_ok interest m1"
      "io_sch m1 = (io_sch m)\<lparr>ready_executors := ready_executors (io_sch m) @ woken (snd ev) (events_at m (fst ev))\<rparr>"
      "events_at m1 (fst ev) = after_event (snd ev) (events_at m (fst ev))" "\<forall>j. j \<noteq> fst ev \<longrightarrow> events_at m1 j = events_at m j"
      "thr (io_world m1) = thr (io_world m)" "length (fd_events m1) = length (fd_events m)" "wakeup_pipe_fd m1 = wakeup_pipe_fd m" "same_timers m m1"
      using handle_event_after [OF api Cons.prems(1) i Cons.prems(2) o f o, of "snd ev"] g by auto
    obtain loc1 where l1: "placed S (thr (io_world m)) (io_sch m1) (events_at m1) ts loc1" "\<forall>p. loc1 p \<noteq> loc p \<longrightarrow> loc1 p = InReady"
      using placed_event [OF Cons.prems(5), of "io_sch m1" "snd ev" "fst ev" "events_at m1"] m1(3-5) by auto
    have "events_ok (events_at m1 j)" for j
      using m1(4,5) after_event_ok [OF r] Cons.prems(4) by (cases "j = fst ev") auto
    moreover have "moves loc loc1" using l1(2) by (auto simp: moves_def)
    ultimately show ?thesis using m1 l1(1) Cons.prems(2,3) by auto
  qed
  then obtain m1 loc1 where m1: "handle_event api f ev m = Ok m1" "watch_ok interest m1" "\<not> stopping (io_sch m1)" "fst (wakeup_pipe_fd m1) = pipe"
      "\<forall>j. events_ok (events_at m1 j)" "placed S (thr (io_world m1)) (io_sch m1) (events_at m1) ts loc1" "moves loc loc1"
      "thr (io_world m1) = thr (io_world m)" "same_timers m m1" "length (fd_events m1) = length (fd_events m)"
      "scheduler_executor (io_sch m1) = scheduler_executor (io_sch m)" by blast
  have p6: "\<forall>ev \<in> set evs. fst ev = pipe \<or> 0 \<le> fst ev \<and> fst ev < int (length (fd_events m1))" using Cons.prems(6) m1(10) by simp
  have "reads_flags m1 = reads_flags m" using m1(4) Cons.prems(3) by (simp add: reads_flags_def fun_eq_iff)
  then have p7: "(\<exists>ev \<in> set evs. reads_flags m1 ev) \<longrightarrow> 0 \<le> f \<and> f < int (length (fd_events m1))" using Cons.prems(7) m1(10) by simp
  obtain m2 loc2 where m2: "handle_events api f evs m1 = Ok m2" "watch_ok interest m2" "\<not> stopping (io_sch m2)" "fst (wakeup_pipe_fd m2) = pipe"
      "\<forall>j. events_ok (events_at m2 j)" "placed S (thr (io_world m2)) (io_sch m2) (events_at m2) ts loc2" "moves loc1 loc2"
      "thr (io_world m2) = thr (io_world m1)" "same_timers m1 m2" "scheduler_executor (io_sch m2) = scheduler_executor (io_sch m1)"
    using Cons.IH [OF m1(2-6) p6 p7] by blast
  show ?case using m1(1,8,9,11) m2 moves_trans [OF m1(7) m2(7)] by (intro exI [of _ m2] exI [of _ loc2]) (auto simp: same_timers_def)
qed (auto simp: same_timers_def)

text \<open>Timers that repeat belong to the program; those of the waiting calls do not expire.\<close>

lemma rearmed_user:
  assumes "\<forall>t \<in> set r. timer_kind_ok t" and "t \<in> set (rearmed now k r)"
  shows "\<exists>u. callback t = Some (UserCallback u)"
  using assms
proof (induction now k r rule: rearmed.induct)
  case (2 now k x r)
  then show ?case
    by (auto simp: new_timer_def timer_kind_ok_def split: if_splits option.splits closure.splits)
qed simp

lemma expire_facts:
  assumes ok: "timers_ok ts" "\<forall>t \<in> set ts. timer_kind_ok t" and now: "now 0 \<noteq> - 1"
    and take: "takeExpiredTimers now ts = (due, rest)"
  shows "\<forall>t \<in> set due. (\<exists>u. callback t = Some (UserCallback u)) \<or> (\<exists>p. callback t = Some (SleepOver p))"
    and "alarms ts p = alarms (due @ rest) p" and "timers_ok rest" and "\<forall>t \<in> set rest. timer_kind_ok t" and "never ts \<le> never rest"
proof -
  let ?x = "expired (now 0)"
  let ?r = "rearmed now 1 (filter ?x ts)"
  have e: "due = filter ?x ts" "rest = rearm now 1 (filter ?x ts) (filter (\<lambda>t. \<not> ?x t) ts)"
    using takeExpiredTimers_eq [OF ok(1), of now] take by simp_all
  have m: "mset rest = mset ?r + {#t \<in># mset ts. \<not> ?x t#}" by (simp add: e(2) mset_rearm)
  have u: "\<exists>u. callback t = Some (UserCallback u)" if "t \<in> set ?r" for t
    using rearmed_user [OF _ that] ok(2) by simp
  have l: "\<not> ?x t" if "target_timestamp t = - 1" for t :: "'a closure timer" using that now by (simp add: expired_def word_order.extremum_unique)
  show "\<forall>t \<in> set due. (\<exists>u. callback t = Some (UserCallback u)) \<or> (\<exists>p. callback t = Some (SleepOver p))"
  proof
    fix t assume "t \<in> set due"
    then have "timer_kind_ok t" "?x t" using ok(2) by (auto simp: e(1))
    then show "(\<exists>u. callback t = Some (UserCallback u)) \<or> (\<exists>p. callback t = Some (SleepOver p))"
      using l [of t] by (auto simp: timer_kind_ok_def split: option.splits closure.splits)
  qed
  have "filter (\<lambda>t. callback t = Some (SleepOver p)) ?r = []" using u by (force simp: filter_empty_conv)
  then have "alarms ?r p = 0" by (simp add: alarms_def flip: mset_filter)
  moreover have "alarms rest p = alarms ?r p + size {#t \<in># {#t \<in># mset ts. \<not> ?x t#}. callback t = Some (SleepOver p)#}"
    unfolding alarms_def m by simp
  moreover have "alarms ts p = size {#t \<in># {#t \<in># mset ts. ?x t#}. callback t = Some (SleepOver p)#}
      + size {#t \<in># {#t \<in># mset ts. \<not> ?x t#}. callback t = Some (SleepOver p)#}"
    unfolding alarms_def by (metis filter_union_mset multiset_partition size_union)
  ultimately show "alarms ts p = alarms (due @ rest) p" by (simp add: e(1) alarms_def)
  show "timers_ok rest" unfolding e(2) using ok(1) by (intro timers_ok_rearm) (simp add: timers_ok_def sorted_filter)
  have "set rest = set ?r \<union> {t \<in> set ts. \<not> ?x t}"
    using arg_cong [OF m, of set_mset] by auto
  then show "\<forall>t \<in> set rest. timer_kind_ok t" using u ok(2) by (fastforce simp: timer_kind_ok_def)
  have "{#t \<in># mset ts. target_timestamp t = - 1#} = {#t \<in># {#t \<in># mset ts. \<not> ?x t#}. target_timestamp t = - 1#}"
    using l by (auto simp: filter_filter_mset intro!: filter_mset_cong)
  then show "never ts \<le> never rest" unfolding never_def m by simp
qed

lemma user_task_kept:
  assumes "\<forall>p e. heap th p = Some e \<longrightarrow> heap th' p = Some e" and "user_task S th p"
  shows "user_task S th' p"
  using assms by (auto simp: user_task_def)

lemma user_task_switched:
  assumes "switched p S th th'" and "heap th p = Some e" and "heap th' p = Some e'" and "unfinished e' \<or> \<not> unfinished e"
  shows "user_task S th q \<Longrightarrow> user_task S th' q"
  using assms switched_self [OF assms(1-3)]
  by (cases "q = p") (auto simp: user_task_def switched_def same_but_def)

lemma callbacks_switched: "callbacks_ok S th \<Longrightarrow> switched p S th th' \<Longrightarrow> callbacks_ok S th'"
  unfolding callbacks_ok_def
proof (intro allI impI)
  fix q e'
  assume a: "\<forall>q e. q \<noteq> S \<longrightarrow> heap th q = Some e \<longrightarrow> ex_is_call_back_type e
      \<longrightarrow> ex_state e \<noteq> Ready \<and> ((\<exists>u. ex_callback e = Some (UserCallback u)) \<or> (\<exists>p. ex_callback e = Some (SleepOver p)))"
    and sw: "switched p S th th'" and q: "q \<noteq> S" "heap th' q = Some e'" "ex_is_call_back_type e'"
  have "map_option ex_callback (heap th' q) = map_option ex_callback (heap th q)"
    "map_option ex_is_call_back_type (heap th' q) = map_option ex_is_call_back_type (heap th q)"
    using sw by (simp_all add: switched_def same_but_def)
  then obtain e where e: "heap th q = Some e" "ex_callback e = ex_callback e'" "ex_is_call_back_type e"
    using q(2,3) by (cases "heap th q") auto
  then have "(\<exists>u. ex_callback e' = Some (UserCallback u)) \<or> (\<exists>p. ex_callback e' = Some (SleepOver p))" using a q(1) by metis
  moreover have "ex_state e' \<noteq> Ready"
    using sw a q e(1,3) by (cases "q = p") (auto simp: switched_def same_but_def)
  ultimately show "ex_state e' \<noteq> Ready \<and> ((\<exists>u. ex_callback e' = Some (UserCallback u)) \<or> (\<exists>p. ex_callback e' = Some (SleepOver p)))" by blast
qed

lemma switched_finite: "switched p S th th' \<Longrightarrow> finite (dom (heap th)) \<Longrightarrow> finite (dom (heap th'))"
  using same_but_dom [of p S th th'] by (auto simp: switched_def)

lemma events_at_world [simp]: "events_at (m\<lparr>io_world := w\<rparr>) = events_at m" "events_at (m\<lparr>timer_manager := ts\<rparr>) = events_at m"
  by (rule ext, simp add: events_at_def)+

text \<open>What a step of the loop's turn keeps.\<close>

definition turn_ok :: "eptr \<Rightarrow> ('k \<Rightarrow> fd \<Rightarrow> u32 option) \<Rightarrow> fd \<Rightarrow> ('u, 'k) manager \<Rightarrow> (eptr \<Rightarrow> place) \<Rightarrow> ('u, 'k) manager \<Rightarrow> bool" where
  "turn_ok S interest pipe m loc m' \<longleftrightarrow> mgr_ok S interest pipe m' \<and> (\<forall>p. user_task S (thr (io_world m)) p \<longrightarrow> user_task S (thr (io_world m')) p)
     \<and> never (timer_manager m) \<le> never (timer_manager m')
     \<and> (\<exists>loc'. placed S (thr (io_world m')) (io_sch m') (events_at m') (timer_manager m') loc' \<and> moves loc loc')"

lemma report_batch:
  assumes "mgr_ok S interest pipe m" and "reports_ok interest m evs"
  shows "batch_ok m evs"
proof -
  note o = mgr_okD [OF assms(1)]
  have once: "once_at m (fst ev)" if "ev \<in> set evs" "fst ev < int (length (fd_events m))" for ev
    using assms(2) o(10) that by (auto simp: once_at_def reports_ok_def events_ok_def)
  have "once_at m (fst ev)" if "ev \<in> set evs" "fst ev \<noteq> pipe" for ev
    using once [OF that(1)] that assms(2) o(9) watched_in_table [OF o(2), of "fst ev"] by (auto simp: reports_ok_def)
  then show ?thesis using assms(2) o(9) once by (fastforce simp: batch_ok_def reports_ok_def not_less [symmetric])
qed

lemma blockPending_overruns:
  assumes api: "epoll_ctl_ok api interest usable" and dr: "pipe_drains api interest pipe" and al: "alloc_ok alloc"
    and m: "mgr_ok S interest pipe m"
    and w: "sys_epoll_wait api epoll_wait_max_size (epoll_timeout now_before (timer_manager m)) (kern m) = (Inr evs, k')"
      "interest k' = interest (kern m)" "reports_ok interest m evs" "overruns m evs"
  shows "blockPending api alloc now_before now_after m = Err OutOfBounds"
proof -
  note o = mgr_okD [OF m]
  have "\<forall>t \<in> set (timer_manager m). callback t \<noteq> None" using o(8) by (fastforce simp: timer_kind_ok_def split: option.splits)
  from blockPending_overrun [OF api _ o(2) _ al o(5) this w(1,2) report_batch [OF m w(3)] w(4)] dr o(4,9) show ?thesis by (simp add: io_sch_def)
qed

lemma blockPending_ok:
  assumes api: "epoll_ctl_ok api interest usable" and dr: "pipe_drains api interest pipe" and al: "alloc_ok alloc"
    and m: "mgr_ok S interest pipe m" and pl: "placed S (thr (io_world m)) (io_sch m) (events_at m) (timer_manager m) loc"
    and w: "sys_epoll_wait api epoll_wait_max_size (epoll_timeout now_before (timer_manager m)) (kern m) = (Inr evs, k')"
      "interest k' = interest (kern m)" "reports_ok interest m evs" "\<not> overruns m evs"
    and now: "now_after 0 \<noteq> - 1"
  shows "\<exists>m'. blockPending api alloc now_before now_after m = Ok m' \<and> turn_ok S interest pipe m loc m'"
proof -
  note o = mgr_okD [OF m]
  obtain due rest where take: "takeExpiredTimers now_after (timer_manager m) = (due, rest)" by (cases "takeExpiredTimers now_after (timer_manager m)")
  note x = expire_facts [OF o(7,8) now take]
  have "placed S (thr (io_world m)) (sch (io_world m)) (events_at m) (due @ rest) loc"
    using pl x(2) unfolding placed_def io_sch_def by simp
  note at = add_timer_execs_placed [OF al o(1) this o(4-6) x(1)]
  then obtain w' loc1 where w': "add_timer_execs alloc due (io_world m) = Ok w'" "sched_ok S w'"
    "placed S (thr w') (sch w') (events_at m) rest loc1" "moves loc loc1" "\<not> stopping (sch w')" "finite (dom (heap (thr w')))"
    "callbacks_ok S (thr w')" "\<forall>p e. heap (thr (io_world m)) p = Some e \<longrightarrow> heap (thr w') p = Some e"
    by blast
  let ?m = "m\<lparr>kern := k', timer_manager := rest, io_world := w'\<rparr>"
  have ev: "events_at ?m = events_at m" by (rule ext) (simp add: events_at_def)
  have r: "\<forall>ev \<in> set evs. fst ev = pipe \<or> 0 \<le> fst ev \<and> fst ev < int (length (fd_events ?m))"
  proof
    fix ev assume "ev \<in> set evs"
    then have "0 \<le> fst ev" "fst ev = pipe \<or> interest (kern m) (fst ev) \<noteq> None" using w(3) o(9) by (auto simp: reports_ok_def)
    then show "fst ev = pipe \<or> 0 \<le> fst ev \<and> fst ev < int (length (fd_events ?m))"
      using watched_in_table [OF o(2), of "fst ev"] o(9) by auto
  qed
  have f: "(\<exists>ev \<in> set evs. reads_flags ?m ev) \<longrightarrow> 0 \<le> fst (hd evs) \<and> fst (hd evs) < int (length (fd_events ?m))"
    using once_first [OF report_batch [OF m w(3)] w(4)] by (auto simp: once_at_def reads_flags_def)
  have "watch_ok interest ?m" using o(2) w(2) watch_ok_cong [of ?m m interest] by simp
  moreover have "\<not> stopping (io_sch ?m)" "fst (wakeup_pipe_fd ?m) = pipe" using w'(5) o(9) by (simp_all add: io_sch_def)
  moreover have "\<forall>j. events_ok (events_at ?m j)" "placed S (thr (io_world ?m)) (io_sch ?m) (events_at ?m) rest loc1"
    unfolding ev using w'(3) o(10) by (simp_all add: io_sch_def)
  ultimately obtain m' loc2 where m': "handle_events api (fst (hd evs)) evs ?m = Ok m'" "watch_ok interest m'" "\<not> stopping (io_sch m')"
    "fst (wakeup_pipe_fd m') = pipe" "\<forall>j. events_ok (events_at m' j)"
    "placed S (thr (io_world m')) (io_sch m') (events_at m') rest loc2" "moves loc1 loc2"
    "thr (io_world m') = thr (io_world ?m)" "same_timers ?m m'" "scheduler_executor (io_sch m') = scheduler_executor (io_sch ?m)"
    using handle_events_placed [OF api dr _ _ _ _ _ r f] by blast
  have th': "thr (io_world m') = thr w'" "scheduler_executor (io_sch m') = scheduler_executor (sch w')"
    using m'(8,10) by (simp_all add: io_sch_def)
  have "invoked (sys_epoll_wait api epoll_wait_max_size (epoll_timeout now_before (timer_manager m))) (kern m) = Ok (Inr evs, k')"
    using w(1) by (simp add: invoked_done)
  then have "blockPending api alloc now_before now_after m = Ok m'"
    using m'(1) w'(1) take by (simp add: blockPending_def asserted_noIntr_def Let_def)
  moreover have "sched_ok S (io_world m')"
  proof -
    have "task S (thr w') p" if "p \<in> queued (sch (io_world m'))" for p
    proof -
      have "loc2 p = InReady \<or> loc2 p = InRemote"
        using that placedD(2,3) [OF m'(6), of p] unfolding queued_def io_sch_def
        by (cases "loc2 p = InReady"; cases "loc2 p = InRemote") (auto simp: count_list_0_iff)
      then have "suspended_task S (thr w') p" using placedD(1) [OF m'(6), of p] th'(1) by auto
      then show ?thesis by (auto simp: suspended_task_def task_def)
    qed
    then show ?thesis using w'(2) th' by (auto simp: sched_ok_def io_sch_def)
  qed
  moreover have "timer_manager m' = rest" "\<not> io_stopped m'" using m'(9) o(3) by (auto simp: same_timers_def)
  ultimately show ?thesis
    using m'(2-6) th'(1) w'(6-8) x(3-5) moves_trans [OF w'(4) m'(7)] user_task_kept [OF w'(8)]
    unfolding turn_ok_def mgr_ok_def by auto
qed

lemma loop_turn_ok:
  assumes api: "epoll_ctl_ok api interest usable" and dr: "pipe_drains api interest pipe" and al: "alloc_ok alloc"
    and m: "mgr_ok S interest pipe m" and pl: "placed S (thr (io_world m)) (io_sch m) (events_at m) (timer_manager m) loc"
    and k: "\<And>t. kernel_waits api interest m t" and now: "now_after 0 \<noteq> - 1" and run: "running (thr (io_world m)) = S"
  shows "(\<exists>m'. loop_turn api alloc now_before now_after m = Ok m' \<and> turn_ok S interest pipe m loc m')
    \<or> loop_turn api alloc now_before now_after m = Err OutOfBounds \<and> overrun_due api m"
proof -
  note o = mgr_okD [OF m]
  let ?w = "io_world m" and ?th = "thr (io_world m)"
  obtain x s' where pick: "sched_pick (sch ?w) = (x, s')" by (cases "sched_pick (sch ?w)")
  have np: "\<not> stop_pending default_stop_pending_func (sch ?w)" by (simp add: stop_pending_def default_stop_pending_func_def)
  note it = sched_iter_pick [OF np pick] and keep = sched_pick_keeps [OF pick]
  obtain loc1 s1 where l1: "placed S ?th s1 (events_at m) (timer_manager m) loc1"
    "\<forall>p. loc1 p \<noteq> loc p \<longrightarrow> loc p = InRemote \<and> loc1 p = InReady"
    "case x of None \<Rightarrow> placed S ?th s' (events_at m) (timer_manager m) loc1
       | Some p \<Rightarrow> loc1 p = InReady \<and> remote_tasks s' = remote_tasks s1
           \<and> (\<forall>q. count_list (ready_executors s') (Some q) + of_bool (q = p) = count_list (ready_executors s1) (Some q))"
    using placed_pick [OF pl [unfolded io_sch_def] o(4) pick] by blast
  have mv: "moves loc loc1" using l1(2) by (auto simp: moves_def)
  have ns: "\<not> stopping s'" using keep(4) o(4) by simp
  have so: "sched_ok S (?w\<lparr>sch := s'\<rparr>)" using o(1) keep(1,3) by (auto simp: sched_ok_def)
  let ?m = "m\<lparr>io_world := ?w\<lparr>sch := s'\<rparr>\<rparr>"
  show ?thesis
  proof (cases x)
    case None
    have w1: "watch_ok interest ?m" using o(2) watch_ok_cong [of ?m m interest] by simp
    have "mgr_ok S interest pipe ?m" using o so ns w1 by (simp add: mgr_ok_def io_sch_def)
    note mo = this
    obtain evs k' where wt: "sys_epoll_wait api epoll_wait_max_size (epoll_timeout now_before (timer_manager ?m)) (kern ?m) = (Inr evs, k')"
      "interest k' = interest (kern ?m)" "reports_ok interest ?m evs"
      using k [of "epoll_timeout now_before (timer_manager m)"] by (auto simp: kernel_waits_def reports_ok_def)
    have lt: "loop_turn api alloc now_before now_after m = blockPending api alloc now_before now_after ?m"
      using it None ns by (simp add: loop_turn_def)
    have p1: "placed S (thr (io_world ?m)) (io_sch ?m) (events_at ?m) (timer_manager ?m) loc1" using l1(3) None by (simp add: io_sch_def)
    show ?thesis
    proof (cases "overruns ?m evs")
      case True
      then have "overrun_due api m" using wt(1) by (auto simp: overrun_due_def overruns_def reads_flags_def)
      then show ?thesis using blockPending_overruns [OF api dr al mo wt True] lt by simp
    next
      case False
      from blockPending_ok [where now_after = now_after, OF api dr al mo p1 wt False now]
      obtain m' where m': "blockPending api alloc now_before now_after ?m = Ok m'" "turn_ok S interest pipe ?m loc1 m'" by blast
      from m'(2) have "turn_ok S interest pipe m loc m'" using mv moves_trans unfolding turn_ok_def by auto
      then show ?thesis using m'(1) lt by simp
    qed
  next
    case (Some p)
    then have p: "loc1 p = InReady" "remote_tasks s' = remote_tasks s1"
      "\<And>q. count_list (ready_executors s') (Some q) + of_bool (q = p) = count_list (ready_executors s1) (Some q)"
      using l1(3) by auto
    obtain e where e: "p \<noteq> S" "heap ?th p = Some e" "ex_is_call_back_type e" "ex_state e = Init \<or> ex_state e = HoldUp"
      using placedD(1) [OF l1(1), of p] p(1) by (auto simp: suspended_task_def)
    have "task S ?th p" using e by (auto simp: task_def)
    then obtain th' where th': "exec p ?th = Ok th'" "loop_ok S th'" "running th' = p" "\<forall>q. task S th' q \<longleftrightarrow> task S ?th q" "same_but p S ?th th'"
      using exec_task [OF _ run _ e(2)] e(4) o(1) by (auto simp: sched_ok_def)
    obtain e' where e': "heap th' p = Some e'" "ex_state e' = Exec"
      using th'(2,3) e(1) coop_okD(7) [of S th'] by (auto simp: loop_ok_def main_waits_def on_cpu_def)
    have sw: "switched p S ?th th'" using th'(5) switch_callbacks(1) [OF th'(1)] e' by (simp add: switched_def)
    let ?m' = "m\<lparr>io_world := ?w\<lparr>sch := s', thr := th'\<rparr>\<rparr>"
    have "loop_turn api alloc now_before now_after m = Ok ?m'"
      using it Some th'(1) e(2,4) by (auto simp: loop_turn_def getState_def deref_def)
    moreover have "placed S th' s' (events_at m) (timer_manager m) (loc1(p := Nowhere))"
      by (rule placed_enter [OF l1(1) p(1) sw e(2) e' p(3,2)])
    moreover have "moves loc (loc1(p := Nowhere))" using mv by (auto simp: moves_def)
    moreover have "sched_ok S (?w\<lparr>sch := s', thr := th'\<rparr>)" using sched_ok_mono [OF so th'(2)] th'(4) by simp
    moreover have "watch_ok interest ?m'" using o(2) watch_ok_cong [of ?m' m interest] by simp
    moreover have "user_task S ?th q \<Longrightarrow> user_task S th' q" for q
      using user_task_switched [OF sw e(2) e'(1)] e'(2) by (simp add: unfinished_def)
    ultimately show ?thesis
      using o ns switched_finite [OF sw] callbacks_switched [OF _ sw] unfolding turn_ok_def mgr_ok_def io_sch_def by auto
  qed
qed

lemma pend_ok_keep:
  assumes "pend_ok S interest usable pipe s" and "\<And>p. user_task S (sthr s) p \<Longrightarrow> user_task S (sthr s') p"
    and "pend s' = pend s" and "flags (st s') = flags (st s)" and "never (timer_manager (smgr s)) \<le> never (timer_manager (smgr s'))"
  shows "pend_ok S interest usable pipe s'"
  using assms unfolding pend_ok_def by (auto intro: order_trans)

lemma turn_sys_ok:
  assumes "sys_ok S interest usable pipe s" and "\<And>loc. placed S (sthr s) (io_sch (smgr s)) (events_at (smgr s)) (timer_manager (smgr s)) loc \<Longrightarrow>
      (\<exists>m'. r = Ok m' \<and> turn_ok S interest pipe (smgr s) loc m') \<or> r = Err e \<and> due"
  shows "(\<exists>s'. res_bind r (\<lambda>m. Ok (with_smgr s m)) = Ok s' \<and> sys_ok S interest usable pipe s')
    \<or> res_bind r (\<lambda>m. Ok (with_smgr s m)) = Err e \<and> due"
proof -
  obtain loc where l: "placed S (sthr s) (io_sch (smgr s)) (events_at (smgr s)) (timer_manager (smgr s)) loc" "loc_ok (pend s) loc"
    using assms(1) by (auto simp: sys_ok_def)
  have "\<exists>s'. Ok (with_smgr s m') = Ok s' \<and> sys_ok S interest usable pipe s'" if t: "turn_ok S interest pipe (smgr s) loc m'" for m'
  proof -
    obtain loc' where m': "mgr_ok S interest pipe m'" "\<forall>p. user_task S (sthr s) p \<longrightarrow> user_task S (thr (io_world m')) p"
      "never (timer_manager (smgr s)) \<le> never (timer_manager m')"
      "placed S (thr (io_world m')) (io_sch m') (events_at m') (timer_manager m') loc'" "moves loc loc'"
      using t unfolding turn_ok_def by blast
    have "pend_ok S interest usable pipe s" using assms(1) by (simp add: sys_ok_def)
    then have "pend_ok S interest usable pipe (with_smgr s m')"
      by (rule pend_ok_keep) (simp_all add: with_smgr_def m'(2,3))
    then show ?thesis
      using m'(1,4) moves_loc_ok [OF l(2) m'(5)] by (auto simp: sys_ok_def with_smgr_def)
  qed
  then show ?thesis using assms(2) [OF l(1)] by auto
qed

section \<open>Steps of the coroutines\<close>

lemma sys_okD:
  assumes "sys_ok S interest usable pipe s"
  shows "mgr_ok S interest pipe (smgr s)" and "pend_ok S interest usable pipe s"
    and "\<exists>loc. placed S (sthr s) (io_sch (smgr s)) (events_at (smgr s)) (timer_manager (smgr s)) loc \<and> loc_ok (pend s) loc"
  using assms by (simp_all add: sys_ok_def)

lemma sys_ok_kern:
  assumes "sys_ok S interest usable pipe s" and "interest k = interest (kern (smgr s))"
  shows "sys_ok S interest usable pipe (with_smgr s ((smgr s)\<lparr>kern := k\<rparr>))"
proof -
  note m = mgr_okD [OF sys_okD(1) [OF assms(1)]]
  have "watch_ok interest ((smgr s)\<lparr>kern := k\<rparr>)" using m(2) assms(2) watch_ok_cong [of "(smgr s)\<lparr>kern := k\<rparr>" "smgr s" interest] by simp
  moreover have "events_at ((smgr s)\<lparr>kern := k\<rparr>) = events_at (smgr s)" by (rule ext) simp
  moreover have "pend_ok S interest usable pipe (with_smgr s ((smgr s)\<lparr>kern := k\<rparr>))"
    by (rule pend_ok_keep [OF sys_okD(2) [OF assms(1)]]) (simp_all add: with_smgr_def)
  ultimately show ?thesis using m sys_okD(3) [OF assms(1)] by (simp add: sys_ok_def mgr_ok_def with_smgr_def io_sch_def)
qed

lemma waiters_finite:
  assumes "pend_ok S interest usable pipe s" and "finite (dom (heap (sthr s)))"
  shows "finite (waiters (pend s))"
proof (rule finite_subset [OF _ assms(2)])
  have "user_task S (sthr s) p" if "pend s p = Some x" for p x using assms(1) that by (simp add: pend_ok_def)
  then show "waiters (pend s) \<subseteq> dom (heap (sthr s))" by (fastforce simp: waiters_def user_task_def)
qed

lemma waiters_upd:
  "waiters (pe(p := None)) = waiters pe - {p}" "waiters (pe(p \<mapsto> Sleeping)) = waiters pe - {p}"
  "waiters (pe(p \<mapsto> Waiting flag t i ty f)) = insert p (waiters pe)"
  by (auto simp: waiters_def)

lemma never_simps [simp]:
  "never (ms_insert t ts) = of_bool (target_timestamp t = - 1) + never ts"
  by (simp add: never_def)

lemma unlimited_timer: "target_timestamp (new_timer now (- 1) cb rep) = - 1"
proof -
  have m1: "unat (- 1 :: u64) = 2 ^ 64 - 1" using unat_uminus_u64 [of 1] by simp
  then have "unat (target_timestamp (new_timer now (- 1) cb rep)) = unat (- 1 :: u64)"
    unfolding new_timer_deadline by simp
  then show ?thesis by (simp only: word_unat_eq_iff)
qed

lemma new_timer_fields [simp]: "callback (new_timer now ival cb rep) = cb" "repeat (new_timer now ival cb rep) = rep"
  by (simp_all add: new_timer_def)

lemma user_task_running:
  assumes "acting S s" and "sched_ok S (io_world (smgr s))"
  shows "user_task S (sthr s) (running (sthr s))"
  using assms running_on_cpu [of S "io_world (smgr s)"] by (auto simp: acting_def user_task_def on_cpu_def unfinished_def)

text \<open>Giving up the CPU.\<close>

lemma yield_switched:
  assumes ok: "sched_ok S w" and run: "running (thr w) \<noteq> S"
  shows "\<exists>th e e'. yield (running (thr w)) (thr w) = Ok th \<and> sched_ok S (w\<lparr>thr := th\<rparr>) \<and> switched (running (thr w)) S (thr w) th
    \<and> heap (thr w) (running (thr w)) = Some e \<and> ex_is_call_back_type e \<and> unfinished e \<and> heap th (running (thr w)) = Some e' \<and> ex_state e' = HoldUp"
proof -
  obtain th where y: "yield (running (thr w)) (thr w) = Ok th"
    using yield_back [of S "thr w"] ok run by (auto simp: sched_ok_def loop_ok_def)
  note k = yield_keeps_loop [OF ok run y]
  have "switched (running (thr w)) S (thr w) th" using k(4,5) switch_callbacks(2) [OF y] by (auto simp: switched_def)
  then show ?thesis using y k(1,4) running_on_cpu [OF ok run] by (auto simp: on_cpu_def unfinished_def)
qed

lemma pend_ok_wait:
  assumes po: "pend_ok S interest usable pipe s" and fin: "finite (dom (heap (sthr s)))"
    and p: "pend s p = None" "user_task S (sthr s') p" "\<And>q. user_task S (sthr s) q \<Longrightarrow> user_task S (sthr s') q"
    and fl: "flags (st s) flag = None" "flags (st s') = (flags (st s))(flag \<mapsto> False)"
    and w: "wait_ok interest usable pipe (flags (st s')) (Waiting flag t i ty f)"
    and pe: "pend s' = (pend s)(p \<mapsto> Waiting flag t i ty f)" and nv: "never (timer_manager (smgr s')) = Suc (never (timer_manager (smgr s)))"
  shows "pend_ok S interest usable pipe s'"
  unfolding pend_ok_def
proof (intro conjI allI impI)
  have old: "user_task S (sthr s) q" "wait_ok interest usable pipe (flags (st s)) x" if "pend s q = Some x" for q x
    using po that by (auto simp: pend_ok_def)
  have other: "flag' \<noteq> flag" if "pend s q = Some (Waiting flag' t' i' ty' f')" for q flag' t' i' ty' f'
    using old(2) [OF that] fl(1) by (auto simp: wait_ok_def)
  fix q x assume q: "pend s' q = Some x"
  show "user_task S (sthr s') q" using q p(2,3) old(1) by (cases "q = p") (auto simp: pe)
  show "wait_ok interest usable pipe (flags (st s')) x"
  proof (cases "q = p")
    case True
    then show ?thesis using q w by (simp add: pe)
  next
    case False
    then have x: "pend s q = Some x" using q by (simp add: pe)
    show ?thesis using old(2) [OF x] other x by (cases x) (auto simp: wait_ok_def fl(2))
  qed
next
  fix q r flag' t1 i1 ty1 f1 t2 i2 ty2 f2
  assume a: "pend s' q = Some (Waiting flag' t1 i1 ty1 f1)" "pend s' r = Some (Waiting flag' t2 i2 ty2 f2)"
  have other: "flag' \<noteq> flag" if "pend s q = Some (Waiting flag' t' i' ty' f')" for q flag' t' i' ty' f'
    using po that fl(1) by (fastforce simp: pend_ok_def wait_ok_def)
  have old: "q = r" if "pend s q = Some (Waiting flag' t1 i1 ty1 f1)" "pend s r = Some (Waiting flag' t2 i2 ty2 f2)"
    using po that unfolding pend_ok_def by blast
  show "q = r" using a other [of q flag'] other [of r flag'] old by (auto simp: pe split: if_splits)
next
  have "card (waiters (pend s')) \<le> Suc (card (waiters (pend s)))" unfolding pe waiters_upd by (rule card_insert_le_m1) simp_all
  moreover have "card (waiters (pend s)) \<le> never (timer_manager (smgr s))" using po by (simp add: pend_ok_def)
  ultimately show "card (waiters (pend s')) \<le> never (timer_manager (smgr s'))" by (simp add: nv)
qed

text \<open>The entry of a descriptor a coroutine has been registered for.\<close>

lemma registered_entry:
  assumes "registered_events e \<in> {0, 1, 4, 5}" and "events_ok e" and "ty = Read \<or> ty = Write"
    and e': "e' = (set_side ty (Some p) True e)\<lparr>registered_events := registered_events e OR ty\<rparr>"
  shows "events_ok e'" and "t = Read \<or> t = Write \<Longrightarrow> side_executor t e' = (if t = ty then Some p else side_executor t e)"
  using assms by (auto simp: events_ok_def set_side_def side_executor_def Read_def Write_def epoll_bits)

lemma ioInner_loop_ok:
  fixes s :: "('u, 'k) sys_state"
  assumes api: "epoll_ctl_ok api interest usable" and ok: "sys_ok S interest usable pipe s" and run: "running (sthr s) \<noteq> S"
    and p: "pend s (running (sthr s)) = None" "user_task S (sthr s) (running (sthr s))"
    and w: "may_wait interest usable s i type func" and fl: "flags (st s) flag = None"
  shows "\<exists>r. ioInner_loop api fresh now flag i type func (- 1) (st s) = Ok r
    \<and> sys_ok S interest usable pipe (settle s (running (sthr s)) i type func r)"
proof -
  let ?p = "running (sthr s)" and ?m = "smgr s"
  note o = mgr_okD [OF sys_okD(1) [OF ok]] and po = sys_okD(2) [OF ok]
  obtain loc where loc: "placed S (sthr s) (io_sch ?m) (events_at ?m) (timer_manager ?m) loc" "loc_ok (pend s) loc" using sys_okD(3) [OF ok] by blast
  have i: "2 \<le> i" "i \<noteq> fst (wakeup_pipe_fd ?m)" "i \<in> usable" and ty: "type = Read \<or> type = Write" and q: "quiet interest func"
    and free: "side_executor type (events_at ?m i) = None"
    using w by (auto simp: may_wait_def)
  obtain n k where n: "invoked func (kern ?m) = Ok (n, k)" "interest k = interest (kern ?m)" using q unfolding quiet_def by blast
  show ?thesis
  proof (cases "n = Inl EAGAIN")
    case False
    have "settle s ?p i type func (IoReturn n, (st s)\<lparr>mgr := ?m\<lparr>kern := k\<rparr>\<rparr>) = with_smgr s (?m\<lparr>kern := k\<rparr>)"
      using p(1) by (simp add: settle_def with_smgr_def fun_upd_idem)
    then show ?thesis using n(1) False sys_ok_kern [OF ok n(2)] by (auto simp: ioInner_loop_def)
  next
    case True
    let ?t = "new_timer now (- 1) (Some (IoTimeout i type flag ?p)) False :: 'u closure timer"
    let ?m1 = "?m\<lparr>kern := k, timer_manager := ms_insert ?t (timer_manager ?m)\<rparr>"
    have e1: "events_at ?m1 = events_at ?m" by (rule ext) (simp add: events_at_def)
    have "watch_ok interest ?m1" using o(2) n(2) watch_ok_cong [of ?m1 ?m interest] by simp
    moreover have "\<not> io_stopped ?m1" "0 \<le> i" "i \<noteq> fst (wakeup_pipe_fd ?m1)" using o(3) i by simp_all
    ultimately obtain m' where m': "registerEvent api i type (Some ?p) True ?m1 = Ok (True, m')" "watch_ok interest m'"
      "io_world m' = io_world ?m" "timer_manager m' = timer_manager ?m1"
      "events_at m' i = (set_side type (Some ?p) True (events_at ?m i))\<lparr>registered_events := registered_events (events_at ?m i) OR type\<rparr>"
      "wakeup_pipe_fd m' = wakeup_pipe_fd ?m" "io_stopped m' = io_stopped ?m" "\<forall>j. j \<noteq> i \<longrightarrow> events_at m' j = events_at ?m j"
      using registerEvent_events [OF api, of ?m1 i type "Some ?p" True] i(1,3) ty by (auto simp: e1)
    have r: "registered_events (events_at ?m i) \<in> {0, 1, 4, 5}" using o(2) i(1,2) by (auto simp: watch_ok_alt watched_def)
    note re = registered_entry [OF r _ ty m'(5)]
    obtain th e e' where y: "yield ?p (sthr s) = Ok th" "sched_ok S ((io_world ?m)\<lparr>thr := th\<rparr>)" "switched ?p S (sthr s) th"
      "heap (sthr s) ?p = Some e" "ex_is_call_back_type e" "unfinished e" "heap th ?p = Some e'" "ex_state e' = HoldUp"
      using yield_switched [OF o(1) run] by blast
    let ?c = "(st s)\<lparr>mgr := m'\<lparr>io_world := (io_world ?m)\<lparr>thr := th\<rparr>\<rparr>, flags := (flags (st s))(flag \<mapsto> False)\<rparr>"
    let ?s = "settle s ?p i type func (IoWait flag ?t, ?c)"
    have g: "getCurrent fresh (co_thread (st s)) = (?p, co_thread (st s))"
      using getCurrent_running [of S "co_thread (st s)" fresh] o(1) by (simp add: co_thread_def sched_ok_def loop_ok_def)
    have rt: "registerTimer (Some ?t) (?m\<lparr>kern := k\<rparr>) = Ok (True, ?m1)"
      using o(3) by (simp add: registerTimer_Ok new_timer_def)
    have "ioInner_loop api fresh now flag i type func (- 1) (st s) = Ok (IoWait flag ?t, ?c)"
      using n(1) True g rt m'(1,3) y(1) by (simp add: ioInner_loop_def Let_def co_state_defs yield_current_def)
    moreover have "sys_ok S interest usable pipe ?s"
    proof -
      have sel: "smgr ?s = m'\<lparr>io_world := (io_world ?m)\<lparr>thr := th\<rparr>\<rparr>" "flags (st ?s) = (flags (st s))(flag \<mapsto> False)"
        "pend ?s = (pend s)(?p \<mapsto> Waiting flag ?t i type func)" by (simp_all add: settle_def)
      have tm: "timer_manager (smgr ?s) = ms_insert ?t (timer_manager ?m)" using m'(4) by (simp add: sel)
      have ut: "user_task S (sthr s) q \<Longrightarrow> user_task S th q" for q
        using user_task_switched [OF y(3,4,7)] y(8) by (simp add: unfinished_def)
      have m2: "watch_ok interest (smgr ?s)" using m'(2) watch_ok_cong [of "smgr ?s" m' interest] by (simp add: sel)
      have ev: "events_ok (events_at m' j)" for j using re(1) m'(8) o(10) by (cases "j = i") auto
      have "mgr_ok S interest pipe (smgr ?s)"
        using o y(2) m2 m'(6,7) ev switched_finite [OF y(3)] callbacks_switched [OF _ y(3)] tm
        by (simp add: mgr_ok_def sel io_sch_def timer_kind_ok_def unlimited_timer)
      moreover have "pend_ok S interest usable pipe ?s"
      proof (rule pend_ok_wait [OF po o(5) p(1) _ _ fl sel(2) _ sel(3)])
        show "user_task S (sthr ?s) ?p" using ut [OF p(2)] by (simp add: sel)
        show "user_task S (sthr s) q \<Longrightarrow> user_task S (sthr ?s) q" for q using ut by (simp add: sel)
        show "wait_ok interest usable pipe (flags (st ?s)) (Waiting flag ?t i type func)"
          using i ty q o(9) by (simp add: wait_ok_def sel unlimited_timer)
        show "never (timer_manager (smgr ?s)) = Suc (never (timer_manager ?m))" by (simp add: tm unlimited_timer)
      qed
      moreover have "placed S (sthr ?s) (io_sch (smgr ?s)) (events_at (smgr ?s)) (timer_manager (smgr ?s)) (loc(?p := AtFd i type))"
      proof -
        have nw: "loc ?p = Nowhere" using running_nowhere [OF loc(1) o(1) run] .
        have "placed S th (io_sch ?m) (events_at m') (ms_insert ?t (timer_manager ?m)) (loc(?p := AtFd i type))"
        proof (rule placed_leave [OF loc(1) nw y(3) run y(4-8)])
          show "AtFd i type = AtFd i type \<and> (type = Read \<or> type = Write) \<or> AtFd i type = Asleep" using ty by simp
          show "side_executor type (events_at ?m i) = None" using free .
          show "alarms (ms_insert ?t (timer_manager ?m)) r = alarms (timer_manager ?m) r + of_bool (r = ?p \<and> AtFd i type = Asleep)" for r
            by simp
          fix j t r assume t: "t = Read \<or> t = Write"
          show "side_executor t (events_at m' j) = Some r \<longleftrightarrow> (if AtFd i type = AtFd j t then r = ?p else side_executor t (events_at ?m j) = Some r)"
            using re(2) [OF _ t] m'(8) o(10) by (cases "j = i") auto
        qed
        then show ?thesis by (simp add: sel io_sch_def m'(4))
      qed
      moreover have "loc_ok (pend ?s) (loc(?p := AtFd i type))"
        using loc(2) unfolding sel loc_ok_def by (auto split: place.splits)
      ultimately show ?thesis unfolding sys_ok_def by blast
    qed
    ultimately show ?thesis by blast
  qed
qed

lemma call_ok:
  assumes api: "epoll_ctl_ok api interest usable" and ok: "sys_ok S interest usable pipe s" and act: "acting S s"
    and w: "may_wait interest usable s i type func" and fl: "flags (st s) flag = None"
    and ctx: "\<And>ctx. getContext i (fds (st s)) = Ok (Some ctx) \<Longrightarrow> io_timeout_of type ctx = - 1"
  shows "\<exists>r. ioInner api fresh now flag i type func (st s) = Ok r
    \<and> sys_ok S interest usable pipe (settle s (running (sthr s)) i type func r)"
proof -
  let ?p = "running (sthr s)"
  have a: "?p \<noteq> S" "pend s ?p = None" using act by (auto simp: acting_def)
  have u: "user_task S (sthr s) ?p" using user_task_running [OF act] mgr_okD(1) [OF sys_okD(1) [OF ok]] by blast
  obtain n k where n: "func (kern (smgr s)) = (n, k)" by fastforce
  have k: "interest k = interest (kern (smgr s))" using w n unfolding may_wait_def quiet_def by (metis snd_conv)
  have d: "\<exists>r. (case call_sys func (st s) of (r, c) \<Rightarrow> Ok (IoReturn r, c)) = Ok r
      \<and> sys_ok S interest usable pipe (settle s ?p i type func r)"
  proof -
    have "settle s ?p i type func (IoReturn n, (st s)\<lparr>mgr := (smgr s)\<lparr>kern := k\<rparr>\<rparr>) = with_smgr s ((smgr s)\<lparr>kern := k\<rparr>)"
      using a(2) by (simp add: settle_def with_smgr_def fun_upd_idem)
    then show ?thesis using n sys_ok_kern [OF ok k] by (auto simp: call_sys_def)
  qed
  have "\<exists>x. getContext i (fds (st s)) = Ok x" using w by (auto simp: may_wait_def getContext_def vec_get_def Let_def)
  then obtain x where x: "getContext i (fds (st s)) = Ok x" by blast
  show ?thesis
  proof (cases "\<exists>ctx. x = Some ctx \<and> is_socket ctx \<and> \<not> is_user_non_block ctx")
    case True
    then show ?thesis using ioInner_loop_ok [OF api ok a(1,2) u w fl, of fresh now] x ctx by (auto simp: ioInner_def)
  next
    case False
    then show ?thesis using d x by (cases x) (auto simp: ioInner_def)
  qed
qed

text \<open>Cancelling the timer of a waiting call takes one of the timers that never expire.\<close>

lemma cancel_unlimited:
  assumes "timers_ok (timer_manager m)" and "target_timestamp t = - 1" and "0 < never (timer_manager m)"
    and kinds: "\<forall>x \<in> set (timer_manager m). timer_kind_ok x"
  shows "\<exists>ts. cancelTimer (Some t) m = Ok (m\<lparr>timer_manager := ts\<rparr>) \<and> timers_ok ts \<and> set ts \<subseteq> set (timer_manager m)
    \<and> (\<forall>p. alarms ts p = alarms (timer_manager m) p) \<and> never (timer_manager m) = Suc (never ts)"
proof -
  have "\<exists>x \<in> set (timer_manager m). target_timestamp x = - 1"
  proof (rule ccontr)
    assume "\<not> ?thesis"
    then have "filter (\<lambda>x. target_timestamp x = - 1) (timer_manager m) = []" by (auto simp: filter_empty_conv)
    then show False using assms(3) by (simp add: never_def flip: mset_filter)
  qed
  then have "target_timestamp t \<in> target_timestamp ` set (timer_manager m)" using assms(2) by force
  then obtain j where j: "ms_find t (timer_manager m) = Some j" using ms_find_Some_iff [OF assms(1), of t] by blast
  let ?ts = "list_erase j (timer_manager m)" and ?x = "timer_manager m ! j"
  have f: "j < length (timer_manager m)" "target_timestamp ?x = - 1" using ms_find_sound [OF j] assms(2) by auto
  have ms: "mset (timer_manager m) = add_mset ?x (mset ?ts)" using mset_list_erase [OF f(1)] by simp
  have "timer_kind_ok ?x" using kinds f(1) by simp
  then have "callback ?x \<noteq> Some (SleepOver p)" for p using f(2) by (auto simp: timer_kind_ok_def)
  then have "alarms ?ts p = alarms (timer_manager m) p" for p by (simp add: alarms_def ms)
  moreover have "never (timer_manager m) = Suc (never ?ts)" by (simp add: never_def ms f(2))
  moreover have "set ?ts \<subseteq> set (timer_manager m)" using arg_cong [OF ms, of set_mset] by auto
  ultimately show ?thesis using j timers_ok_list_erase [OF assms(1), of j]
    by (intro exI [of _ ?ts]) (simp add: cancelTimer_def removeTimer_def)
qed

lemma resume_ok:
  assumes api: "epoll_ctl_ok api interest usable" and ok: "sys_ok S interest usable pipe s" and run: "running (sthr s) \<noteq> S"
    and pe: "pend s (running (sthr s)) = Some (Waiting flag t i type func)"
    and free: "side_executor type (events_at (smgr s) i) = None" and fl: "flags (st s) flag' = None"
  shows "\<exists>r. ioInner_resume api fresh now flag' flag t i type func (- 1) (st s) = Ok r
    \<and> sys_ok S interest usable pipe (settle s (running (sthr s)) i type func r)"
proof -
  let ?p = "running (sthr s)" and ?m = "smgr s"
  note o = mgr_okD [OF sys_okD(1) [OF ok]] and po = sys_okD(2) [OF ok]
  obtain loc where loc: "placed S (sthr s) (io_sch ?m) (events_at ?m) (timer_manager ?m) loc" "loc_ok (pend s) loc" using sys_okD(3) [OF ok] by blast
  have "user_task S (sthr s) ?p \<and> wait_ok interest usable pipe (flags (st s)) (Waiting flag t i type func)"
    using po pe unfolding pend_ok_def by blast
  then have u: "user_task S (sthr s) ?p" and f: "flags (st s) flag = Some False" "target_timestamp t = - 1" "2 \<le> i" "i \<noteq> pipe" "i \<in> usable"
    "type = Read \<or> type = Write" "quiet interest func" by (simp_all add: wait_ok_def)
  have wp: "?p \<in> waiters (pend s)" using pe by (simp add: waiters_def)
  have c: "0 < card (waiters (pend s))" using wp waiters_finite [OF po o(5)] card_gt_0_iff by blast
  have cn: "card (waiters (pend s)) \<le> never (timer_manager ?m)" using po by (simp add: pend_ok_def)
  obtain ts where ts: "cancelTimer (Some t) ?m = Ok (?m\<lparr>timer_manager := ts\<rparr>)" "timers_ok ts" "set ts \<subseteq> set (timer_manager ?m)"
    "\<forall>p. alarms ts p = alarms (timer_manager ?m) p" "never (timer_manager ?m) = Suc (never ts)"
    using cancel_unlimited [OF o(7) f(2) _ o(8)] c cn by auto
  let ?c = "(st s)\<lparr>mgr := ?m\<lparr>timer_manager := ts\<rparr>, flags := (flags (st s))(flag := None)\<rparr>"
  let ?s = "s\<lparr>st := ?c, pend := (pend s)(?p := None)\<rparr>"
  have sel: "smgr ?s = ?m\<lparr>timer_manager := ts\<rparr>" "flags (st ?s) = (flags (st s))(flag := None)" "pend ?s = (pend s)(?p := None)" by simp_all
  have "watch_ok interest (smgr ?s)" using o(2) watch_ok_cong [of "smgr ?s" ?m interest] by simp
  then have "mgr_ok S interest pipe (smgr ?s)" using o ts(2,3) by (auto simp: mgr_ok_def io_sch_def)
  moreover have "pend_ok S interest usable pipe ?s"
  proof -
    have d: "q = r" if "pend s q = Some (Waiting fl t1 i1 ty1 f1)" "pend s r = Some (Waiting fl t2 i2 ty2 f2)" for q r fl t1 i1 ty1 f1 t2 i2 ty2 f2
      using po that unfolding pend_ok_def by blast
    have "wait_ok interest usable pipe (flags (st ?s)) x" if "pend s q = Some x" "q \<noteq> ?p" for q x
    proof -
      have "wait_ok interest usable pipe (flags (st s)) x" using po that(1) by (simp add: pend_ok_def)
      moreover have "fl \<noteq> flag" if "x = Waiting fl t1 i1 ty1 f1" for fl t1 i1 ty1 f1
        using d [of q fl t1 i1 ty1 f1 ?p t i type func] \<open>pend s q = Some x\<close> that pe \<open>q \<noteq> ?p\<close> by blast
      ultimately show ?thesis by (cases x) (auto simp: wait_ok_def)
    qed
    moreover have "user_task S (sthr s) q" if "pend s q = Some x" for q x using po that by (simp add: pend_ok_def)
    moreover have "card (waiters (pend ?s)) \<le> never ts"
      using cn ts(5) wp waiters_finite [OF po o(5)] by (simp add: waiters_upd)
    ultimately show ?thesis using d unfolding pend_ok_def sel by (auto split: if_splits)
  qed
  moreover have "placed S (sthr ?s) (io_sch (smgr ?s)) (events_at (smgr ?s)) (timer_manager (smgr ?s)) loc"
    using loc(1) ts(4) by (simp add: placed_def io_sch_def)
  moreover have "loc_ok (pend ?s) loc"
    using loc(2) running_nowhere [OF loc(1) o(1) run] unfolding loc_ok_def by (auto split: place.splits)
  ultimately have ok1: "sys_ok S interest usable pipe ?s" unfolding sys_ok_def by blast
  have "may_wait interest usable ?s i type func" using f(3-7) free o(9) by (simp add: may_wait_def)
  moreover have "flags (st ?s) flag' = None" "running (sthr ?s) \<noteq> S" "pend ?s (running (sthr ?s)) = None" "user_task S (sthr ?s) (running (sthr ?s))"
    using fl run u by simp_all
  ultimately obtain r where r: "ioInner_loop api fresh now flag' i type func (- 1) ?c = Ok r"
    "sys_ok S interest usable pipe (settle ?s (running (sthr ?s)) i type func r)"
    using ioInner_loop_ok [OF api ok1, of i type func flag' fresh now] by auto
  have "settle ?s ?p i type func r = settle s ?p i type func r" by (simp add: settle_def split: prod.splits)
  moreover have "ioInner_resume api fresh now flag' flag t i type func (- 1) (st s) = Ok r"
    using f(1) ts(1) r(1) by (simp add: ioInner_resume_def with_mgr_def)
  ultimately show ?thesis using r(2) by auto
qed

lemma sleep_ok:
  fixes s :: "('u, 'k) sys_state"
  assumes ok: "sys_ok S interest usable pipe s" and act: "acting S s" and now: "unat now + unat ms < 2 ^ 64 - 1"
  shows "\<exists>c. sleepInner fresh now ms (st s) = Ok c
    \<and> sys_ok S interest usable pipe (s\<lparr>st := c, pend := (pend s)(running (sthr s) \<mapsto> Sleeping)\<rparr>)"
proof -
  let ?p = "running (sthr s)" and ?m = "smgr s"
  note o = mgr_okD [OF sys_okD(1) [OF ok]] and po = sys_okD(2) [OF ok]
  obtain loc where loc: "placed S (sthr s) (io_sch ?m) (events_at ?m) (timer_manager ?m) loc" "loc_ok (pend s) loc" using sys_okD(3) [OF ok] by blast
  have run: "?p \<noteq> S" "pend s ?p = None" using act by (auto simp: acting_def)
  have u: "user_task S (sthr s) ?p" by (rule user_task_running [OF act o(1)])
  obtain th e e' where y: "yield ?p (sthr s) = Ok th" "sched_ok S ((io_world ?m)\<lparr>thr := th\<rparr>)" "switched ?p S (sthr s) th"
    "heap (sthr s) ?p = Some e" "ex_is_call_back_type e" "unfinished e" "heap th ?p = Some e'" "ex_state e' = HoldUp"
    using yield_switched [OF o(1) run(1)] by blast
  let ?t = "new_timer now (ucast ms) (Some (SleepOver ?p)) False :: 'u closure timer"
  have "unat ms < 2 ^ 64" using unsigned_less [of ms, where ?'a = nat] by simp
  then have "unat (ucast ms :: u64) = unat ms" by (simp add: unsigned_ucast_eq take_bit_nat_eq_self)
  then have "unat (target_timestamp ?t) = unat now + unat ms" unfolding new_timer_deadline using now by simp
  then have tt: "target_timestamp ?t \<noteq> - 1" using now unat_uminus_u64 [of 1] by auto
  let ?c = "(st s)\<lparr>mgr := ?m\<lparr>timer_manager := ms_insert ?t (timer_manager ?m), io_world := (io_world ?m)\<lparr>thr := th\<rparr>\<rparr>\<rparr>"
  have g: "getCurrent fresh (co_thread (st s)) = (?p, co_thread (st s))"
    using getCurrent_running [of S "co_thread (st s)" fresh] o(1) by (simp add: co_thread_def sched_ok_def loop_ok_def)
  have "registerTimer (Some ?t) ?m = Ok (True, ?m\<lparr>timer_manager := ms_insert ?t (timer_manager ?m)\<rparr>)"
    using o(3) by (simp add: registerTimer_Ok)
  then have c: "sleepInner fresh now ms (st s) = Ok ?c"
    using g y(1) by (simp add: sleepInner_def Let_def co_state_defs yield_current_def)
  let ?s = "s\<lparr>st := ?c, pend := (pend s)(?p \<mapsto> Sleeping)\<rparr>"
  have "watch_ok interest (smgr ?s)" using o(2) watch_ok_cong [of "smgr ?s" ?m interest] by simp
  then have "mgr_ok S interest pipe (smgr ?s)"
    using o y(2) switched_finite [OF y(3)] callbacks_switched [OF _ y(3)] tt by (simp add: mgr_ok_def io_sch_def timer_kind_ok_def)
  moreover have "pend_ok S interest usable pipe ?s"
  proof -
    have ut: "user_task S (sthr s) q \<Longrightarrow> user_task S th q" for q
      using user_task_switched [OF y(3,4,7)] y(8) by (simp add: unfinished_def)
    have "?p \<notin> waiters (pend s)" using run(2) by (simp add: waiters_def)
    then have "card (waiters (pend ?s)) \<le> never (timer_manager (smgr ?s))"
      using po tt by (simp add: waiters_upd pend_ok_def)
    moreover have "user_task S (sthr ?s) q \<and> wait_ok interest usable pipe (flags (st ?s)) x" if "pend ?s q = Some x" for q x
      using po ut u that by (cases "q = ?p") (auto simp: pend_ok_def wait_ok_def)
    moreover have "q = r" if "pend ?s q = Some (Waiting fl t1 i1 ty1 f1)" "pend ?s r = Some (Waiting fl t2 i2 ty2 f2)" for q r fl t1 i1 ty1 f1 t2 i2 ty2 f2
    proof -
      have "pend s q = Some (Waiting fl t1 i1 ty1 f1)" "pend s r = Some (Waiting fl t2 i2 ty2 f2)" using that by (auto split: if_splits)
      then show ?thesis using po unfolding pend_ok_def by blast
    qed
    ultimately show ?thesis unfolding pend_ok_def by blast
  qed
  moreover have "placed S th (io_sch ?m) (events_at ?m) (ms_insert ?t (timer_manager ?m)) (loc(?p := Asleep))"
    by (rule placed_leave [OF loc(1) running_nowhere [OF loc(1) o(1) run(1)] y(3) run(1) y(4-8)]) auto
  then have "placed S (sthr ?s) (io_sch (smgr ?s)) (events_at (smgr ?s)) (timer_manager (smgr ?s)) (loc(?p := Asleep))"
    by (simp add: io_sch_def)
  moreover have "loc_ok (pend ?s) (loc(?p := Asleep))"
    using loc(2) unfolding loc_ok_def by (auto split: place.splits)
  ultimately show ?thesis using c unfolding sys_ok_def by blast
qed

lemma awake_ok:
  assumes ok: "sys_ok S interest usable pipe s" and run: "running (sthr s) \<noteq> S" and pe: "pend s (running (sthr s)) = Some Sleeping"
  shows "sys_ok S interest usable pipe (s\<lparr>pend := (pend s)(running (sthr s) := None)\<rparr>)"
proof -
  note o = mgr_okD [OF sys_okD(1) [OF ok]] and po = sys_okD(2) [OF ok]
  obtain loc where loc: "placed S (sthr s) (io_sch (smgr s)) (events_at (smgr s)) (timer_manager (smgr s)) loc" "loc_ok (pend s) loc"
    using sys_okD(3) [OF ok] by blast
  have "running (sthr s) \<notin> waiters (pend s)" using pe by (simp add: waiters_def)
  then have "pend_ok S interest usable pipe (s\<lparr>pend := (pend s)(running (sthr s) := None)\<rparr>)"
    using po unfolding pend_ok_def by (auto simp: waiters_upd split: if_splits)
  moreover have "loc_ok ((pend s)(running (sthr s) := None)) loc"
    using loc(2) running_nowhere [OF loc(1) o(1) run] unfolding loc_ok_def by (auto split: place.splits)
  ultimately show ?thesis using ok loc(1) by (auto simp: sys_ok_def)
qed

lemma timer_ok:
  fixes s :: "('u, 'k) sys_state"
  assumes ok: "sys_ok S interest usable pipe s"
  shows "\<exists>m. registerTimer (Some (new_timer now ival (Some (UserCallback u)) rep)) (smgr s) = Ok (True, m)
    \<and> sys_ok S interest usable pipe (with_smgr s m)"
proof -
  let ?t = "new_timer now ival (Some (UserCallback u)) rep :: 'u closure timer"
  note o = mgr_okD [OF sys_okD(1) [OF ok]]
  let ?m = "(smgr s)\<lparr>timer_manager := ms_insert ?t (timer_manager (smgr s))\<rparr>"
  have "registerTimer (Some ?t) (smgr s) = Ok (True, ?m)" using o(3) by (simp add: registerTimer_Ok)
  moreover have "watch_ok interest ?m" using o(2) watch_ok_cong [of ?m "smgr s" interest] by simp
  then have "mgr_ok S interest pipe ?m" using o by (simp add: mgr_ok_def io_sch_def timer_kind_ok_def)
  moreover have "pend_ok S interest usable pipe (with_smgr s ?m)"
    by (rule pend_ok_keep [OF sys_okD(2) [OF ok]]) (simp_all add: with_smgr_def)
  moreover obtain loc where "placed S (sthr s) (io_sch (smgr s)) (events_at (smgr s)) (timer_manager (smgr s)) loc" "loc_ok (pend s) loc"
    using sys_okD(3) [OF ok] by blast
  then have "\<exists>loc. placed S (sthr (with_smgr s ?m)) (io_sch ?m) (events_at ?m) (timer_manager ?m) loc \<and> loc_ok (pend (with_smgr s ?m)) loc"
    by (intro exI [of _ loc]) (simp add: placed_def io_sch_def with_smgr_def)
  ultimately show ?thesis by (auto simp: sys_ok_def with_smgr_def)
qed

text \<open>A new coroutine, queued here or by another thread.\<close>

lemma create_ok:
  assumes ok: "sys_ok S interest usable pipe s" and q: "heap (sthr s) q = None" and k: "interest k = interest (kern (smgr s))"
    and sc: "at = InReady \<and> sc = ready_push (Some q) (io_sch (smgr s)) \<or> at = InRemote \<and> sc = snd (addRemoteExecutor q (io_sch (smgr s)))"
  shows "\<exists>th. create q u s = Ok ((smgr s)\<lparr>io_world := (io_world (smgr s))\<lparr>thr := th\<rparr>\<rparr>)
    \<and> sys_ok S interest usable pipe (with_smgr s ((smgr s)\<lparr>io_world := \<lparr>thr = th, sch = sc\<rparr>, kern := k\<rparr>))"
proof -
  note o = mgr_okD [OF sys_okD(1) [OF ok]]
  obtain loc where loc: "placed S (sthr s) (io_sch (smgr s)) (events_at (smgr s)) (timer_manager (smgr s)) loc" "loc_ok (pend s) loc"
    using sys_okD(3) [OF ok] by blast
  obtain th where th: "Executor_callback q (Some (UserCallback u)) DefaultStackSize (sthr s) = Ok th"
    "created q (Some (UserCallback u)) (sthr s) th" "running th = running (sthr s)"
    using Executor_callback_created [OF q, of "Some (UserCallback u)"] by auto
  have s: "queued sc \<subseteq> insert q (queued (sch (io_world (smgr s))))" "scheduler_executor sc = scheduler_executor (sch (io_world (smgr s)))"
    "stopping sc = stopping (sch (io_world (smgr s)))"
    using sc by (auto simp: queued_def ready_push_def addRemoteExecutor_def insertFront_def io_sch_def)
  note so = created_sched_ok [OF o(1) th(1,2) _ th(3) s(1,2)]
  let ?m = "(smgr s)\<lparr>io_world := \<lparr>thr = th, sch = sc\<rparr>, kern := k\<rparr>"
  have w: "(io_world (smgr s))\<lparr>thr := th, sch := sc\<rparr> = \<lparr>thr = th, sch = sc\<rparr>" by simp
  have ev: "events_at ?m = events_at (smgr s)" by (rule ext) (simp add: events_at_def)
  have "watch_ok interest ?m" using o(2) k watch_ok_cong [of ?m "smgr s" interest] by simp
  moreover have "finite (dom (heap th))" using o(5) th(2) by (auto simp: created_def)
  ultimately have "mgr_ok S interest pipe ?m"
    using o so(1) [unfolded w] s(3) created_callbacks [OF o(6) th(2)] by (simp add: mgr_ok_def io_sch_def ev)
  moreover have "pend_ok S interest usable pipe (with_smgr s ?m)"
  proof (rule pend_ok_keep [OF sys_okD(2) [OF ok]])
    show "user_task S (sthr s) p \<Longrightarrow> user_task S (sthr (with_smgr s ?m)) p" for p
      using th(2) q by (auto simp: user_task_def created_def with_smgr_def)
  qed (simp_all add: with_smgr_def)
  moreover have "placed S th sc (events_at (smgr s)) (timer_manager (smgr s)) (loc(q := at))"
    using sc by (intro placed_create [OF loc(1) th(2) so(2)]) (auto simp: ready_push_def addRemoteExecutor_def insertFront_def)
  moreover have "loc_ok (pend s) (loc(q := at))" using loc(2) sc unfolding loc_ok_def by (auto split: place.splits)
  ultimately have "sys_ok S interest usable pipe (with_smgr s ?m)" unfolding sys_ok_def by (auto simp: with_smgr_def io_sch_def ev)
  then show ?thesis using th(1) by (auto simp: create_def)
qed

lemma spawned_ok:
  assumes "sys_ok S interest usable pipe s" and "heap (sthr s) q = None"
  shows "\<exists>s'. res_bind (create q u s) (\<lambda>m. Ok (with_smgr s (io_addExecutor (Some q) m))) = Ok s' \<and> sys_ok S interest usable pipe s'"
proof -
  have n: "\<not> stopping (sch (io_world (smgr s)))" using mgr_okD(4) [OF sys_okD(1) [OF assms(1)]] .
  obtain th where th: "create q u s = Ok ((smgr s)\<lparr>io_world := (io_world (smgr s))\<lparr>thr := th\<rparr>\<rparr>)"
    "sys_ok S interest usable pipe (with_smgr s ((smgr s)\<lparr>io_world := \<lparr>thr = th, sch = ready_push (Some q) (io_sch (smgr s))\<rparr>, kern := kern (smgr s)\<rparr>))"
    using create_ok [OF assms, of "kern (smgr s)" InReady "ready_push (Some q) (io_sch (smgr s))" u] by auto
  have "io_addExecutor (Some q) ((smgr s)\<lparr>io_world := (io_world (smgr s))\<lparr>thr := th\<rparr>\<rparr>)
      = (smgr s)\<lparr>io_world := \<lparr>thr = th, sch = ready_push (Some q) (io_sch (smgr s))\<rparr>, kern := kern (smgr s)\<rparr>"
    using n by (simp add: io_addExecutor_def upd_sch_def io_sch_def addExecutor_def)
  then show ?thesis using th by simp
qed

lemma spawn_remote_ok:
  assumes "sys_ok S interest usable pipe s" and "heap (sthr s) q = None"
    and "sys_write api (snd (wakeup_pipe_fd (smgr s))) ''1'' (kern (smgr s)) = (Inr n, k)" and "interest k = interest (kern (smgr s))"
  shows "\<exists>s'. res_bind (create q u s) (\<lambda>m. res_bind (addRemoteTask api q m) (\<lambda>m. Ok (with_smgr s m))) = Ok s' \<and> sys_ok S interest usable pipe s'"
proof -
  let ?sc = "snd (addRemoteExecutor q (io_sch (smgr s)))"
  obtain th where th: "create q u s = Ok ((smgr s)\<lparr>io_world := (io_world (smgr s))\<lparr>thr := th\<rparr>\<rparr>)"
    "sys_ok S interest usable pipe (with_smgr s ((smgr s)\<lparr>io_world := \<lparr>thr = th, sch = ?sc\<rparr>, kern := k\<rparr>))"
    using create_ok [OF assms(1,2,4), of InRemote ?sc u] by auto
  have "addRemoteTask api q ((smgr s)\<lparr>io_world := (io_world (smgr s))\<lparr>thr := th\<rparr>\<rparr>) = Ok ((smgr s)\<lparr>io_world := \<lparr>thr = th, sch = ?sc\<rparr>, kern := k\<rparr>)"
    using assms(3) by (simp add: addRemoteTask_def wakeup_def asserted_def upd_sch_def io_sch_def)
  then show ?thesis using th by simp
qed

text \<open>The end of a coroutine.\<close>

lemma finish_switched:
  assumes m: "mgr_ok S interest pipe (smgr s)" and po: "pend_ok S interest usable pipe s" and run: "running (sthr s) \<noteq> S"
    and pe: "pend s (running (sthr s)) = None"
  shows "\<exists>th e e'. finish s = Ok (with_smgr s ((smgr s)\<lparr>io_world := (io_world (smgr s))\<lparr>thr := th\<rparr>\<rparr>))
    \<and> mgr_ok S interest pipe ((smgr s)\<lparr>io_world := (io_world (smgr s))\<lparr>thr := th\<rparr>\<rparr>)
    \<and> pend_ok S interest usable pipe (with_smgr s ((smgr s)\<lparr>io_world := (io_world (smgr s))\<lparr>thr := th\<rparr>\<rparr>))
    \<and> switched (running (sthr s)) S (sthr s) th \<and> heap (sthr s) (running (sthr s)) = Some e \<and> unfinished e
    \<and> heap th (running (sthr s)) = Some e' \<and> ex_state e' = Terminal"
proof -
  note o = mgr_okD [OF m]
  let ?p = "running (sthr s)" and ?w = "io_world (smgr s)"
  have c: "coop_ok S (sthr s)" using o(1) by (simp add: sched_ok_def loop_ok_def)
  obtain th e' where e': "executorMainFunc_end (sthr s) = Ok th" "heap th ?p = Some e'" "ex_state e' = Terminal"
    using kill_running [OF c run] finish_is_kill [OF c run] by auto
  have b: "sched_ok S (?w\<lparr>thr := th\<rparr>)" "same_but ?p S (sthr s) th" "sched_back ?p (?w\<lparr>thr := th\<rparr>) = Ok (?w\<lparr>thr := th\<rparr>)"
    using coroutine_ends [OF o(1) run] e'(1) by auto
  have sw: "switched ?p S (sthr s) th" using b(2) switch_callbacks(3) [OF e'(1)] e'(2,3) by (simp add: switched_def)
  obtain e where e: "heap (sthr s) ?p = Some e" "unfinished e" using running_on_cpu [OF o(1) run] by (auto simp: on_cpu_def unfinished_def)
  let ?m = "(smgr s)\<lparr>io_world := ?w\<lparr>thr := th\<rparr>\<rparr>"
  have "watch_ok interest ?m" using o(2) watch_ok_cong [of ?m "smgr s" interest] by simp
  then have "mgr_ok S interest pipe ?m" using o b(1) switched_finite [OF sw] callbacks_switched [OF _ sw] by (simp add: mgr_ok_def io_sch_def)
  moreover have "pend_ok S interest usable pipe (with_smgr s ?m)"
  proof -
    have "user_task S th q" if "pend s q = Some x" for q x
    proof -
      have "user_task S (sthr s) q" "q \<noteq> ?p" using po that pe by (auto simp: pend_ok_def)
      then show ?thesis using sw by (auto simp: user_task_def switched_def same_but_def)
    qed
    then show ?thesis using po unfolding pend_ok_def by (simp add: with_smgr_def)
  qed
  moreover have "finish s = Ok (with_smgr s ?m)" using e'(1) b(3) by (simp add: finish_def)
  ultimately show ?thesis using sw e e' by blast
qed

lemma ended_ok:
  assumes ok: "sys_ok S interest usable pipe s" and act: "acting S s"
  shows "\<exists>s'. finish s = Ok s' \<and> sys_ok S interest usable pipe s'"
proof -
  have run: "running (sthr s) \<noteq> S" "pend s (running (sthr s)) = None" using act by (auto simp: acting_def)
  note o = mgr_okD [OF sys_okD(1) [OF ok]]
  obtain loc where loc: "placed S (sthr s) (io_sch (smgr s)) (events_at (smgr s)) (timer_manager (smgr s)) loc" "loc_ok (pend s) loc"
    using sys_okD(3) [OF ok] by blast
  obtain th e e' where f: "finish s = Ok (with_smgr s ((smgr s)\<lparr>io_world := (io_world (smgr s))\<lparr>thr := th\<rparr>\<rparr>))"
    "mgr_ok S interest pipe ((smgr s)\<lparr>io_world := (io_world (smgr s))\<lparr>thr := th\<rparr>\<rparr>)"
    "pend_ok S interest usable pipe (with_smgr s ((smgr s)\<lparr>io_world := (io_world (smgr s))\<lparr>thr := th\<rparr>\<rparr>))"
    "switched (running (sthr s)) S (sthr s) th" "heap (sthr s) (running (sthr s)) = Some e" "heap th (running (sthr s)) = Some e'" "ex_state e' = Terminal"
    using finish_switched [OF sys_okD(1,2) [OF ok] run] by blast
  have "ex_callback e \<noteq> Some (SleepOver r)" for r using act f(5) by (auto simp: acting_def)
  then have "placed S th (io_sch (smgr s)) (events_at (smgr s)) (timer_manager (smgr s)) loc"
    by (intro placed_end [OF loc(1) f(4-7) running_nowhere [OF loc(1) o(1) run(1)]])
  then show ?thesis using f(1-3) loc(2) by (auto simp: sys_ok_def with_smgr_def io_sch_def)
qed

lemma alarm_ok:
  assumes ok: "sys_ok S interest usable pipe s" and run: "running (sthr s) \<noteq> S"
    and e: "heap (sthr s) (running (sthr s)) = Some e" "ex_callback e = Some (SleepOver r)"
  shows "\<exists>s'. res_bind (run_closure api (SleepOver r) (st s)) (\<lambda>c. finish (s\<lparr>st := c\<rparr>)) = Ok s' \<and> sys_ok S interest usable pipe s'"
proof -
  let ?p = "running (sthr s)" and ?m = "smgr s"
  note o = mgr_okD [OF sys_okD(1) [OF ok]] and po = sys_okD(2) [OF ok]
  obtain loc where loc: "placed S (sthr s) (io_sch ?m) (events_at ?m) (timer_manager ?m) loc" "loc_ok (pend s) loc" using sys_okD(3) [OF ok] by blast
  have ue: "unfinished e" using running_on_cpu [OF o(1) run] e(1) by (auto simp: on_cpu_def unfinished_def)
  have nw: "loc ?p = Nowhere" by (rule running_nowhere [OF loc(1) o(1) run])
  have pe: "pend s ?p = None"
  proof (cases "pend s ?p")
    case (Some x)
    then have "user_task S (sthr s) ?p" using po by (simp add: pend_ok_def)
    then show ?thesis using e by (auto simp: user_task_def)
  qed
  have "wakes S (sthr s) ?p r" using e ue run by (auto simp: wakes_def)
  then have lr: "loc r = Waking ?p" using placedD(6) [OF loc(1)] by simp
  then have "suspended_task S (sthr s) r" using placedD(1) [OF loc(1), of r] by simp
  then have tr: "task S (sthr s) r" by (auto simp: suspended_task_def task_def)
  let ?sc = "ready_push (Some r) (io_sch ?m)"
  let ?s = "s\<lparr>st := (st s)\<lparr>mgr := upd_sch ?sc ?m\<rparr>\<rparr>"
  have c: "run_closure api (SleepOver r) (st s) = Ok ((st s)\<lparr>mgr := upd_sch ?sc ?m\<rparr>)"
    using o(4) by (simp add: run_closure_def io_addExecutor_def addExecutor_def io_sch_def)
  have w: "io_world (upd_sch x ?m) = (io_world ?m)\<lparr>sch := x\<rparr>" for x by (simp add: upd_sch_def)
  have "sched_ok S ((io_world ?m)\<lparr>sch := ?sc\<rparr>)"
    using o(1) tr by (auto simp: sched_ok_def queued_def ready_push_def io_sch_def)
  moreover have "watch_ok interest (upd_sch ?sc ?m)" using o(2) watch_ok_cong [of "upd_sch ?sc ?m" ?m interest] by simp
  moreover have ev: "events_at (upd_sch x ?m) = events_at ?m" for x by (rule ext) simp
  ultimately have m1: "mgr_ok S interest pipe (smgr ?s)"
    using o by (simp add: mgr_ok_def io_sch_def w) (simp add: ready_push_def)
  have p1: "pend_ok S interest usable pipe ?s" by (rule pend_ok_keep [OF po]) simp_all
  obtain th e1 e' where f: "finish ?s = Ok (with_smgr ?s ((smgr ?s)\<lparr>io_world := (io_world (smgr ?s))\<lparr>thr := th\<rparr>\<rparr>))"
    "mgr_ok S interest pipe ((smgr ?s)\<lparr>io_world := (io_world (smgr ?s))\<lparr>thr := th\<rparr>\<rparr>)"
    "pend_ok S interest usable pipe (with_smgr ?s ((smgr ?s)\<lparr>io_world := (io_world (smgr ?s))\<lparr>thr := th\<rparr>\<rparr>))"
    "switched ?p S (sthr s) th" "heap th ?p = Some e'" "ex_state e' = Terminal"
    using finish_switched [OF m1 p1] run pe by auto
  have "placed S th ?sc (events_at ?m) (timer_manager ?m) (loc(r := InReady))"
    by (rule placed_alarm(1) [OF loc(1) f(4) run e(1) f(5,6) nw ue e(2)]) (simp_all add: ready_push_def)
  moreover have "loc_ok (pend s) (loc(r := InReady))" using loc(2) unfolding loc_ok_def by (auto split: place.splits)
  ultimately have "sys_ok S interest usable pipe (with_smgr ?s ((smgr ?s)\<lparr>io_world := (io_world (smgr ?s))\<lparr>thr := th\<rparr>\<rparr>))"
    using f(2,3) unfolding sys_ok_def by (auto simp: with_smgr_def io_sch_def ev w)
  then show ?thesis using c f(1) by auto
qed

section \<open>Reachable states\<close>

lemma co_step_ok:
  assumes api: "epoll_ctl_ok api interest usable"
  shows "co_step S api interest usable s r \<Longrightarrow> sys_ok S interest usable pipe s \<Longrightarrow> \<exists>s'. r = Ok s' \<and> sys_ok S interest usable pipe s'"
proof (induction rule: co_step.induct)
  case (call s i type func flag fresh now)
  then show ?case using call_ok [OF api call(5,1-3), of fresh now] by auto
next
  case (resume s flag t i type func flag' fresh now)
  then show ?case using resume_ok [OF api resume(5,1-4), of fresh now] by auto
next
  case (sleep s now ms fresh)
  then show ?case using sleep_ok [OF sleep(3,1,2), of fresh] by auto
next
  case (awake s)
  show ?case using awake_ok [OF awake(3,1,2)] by simp
next
  case (timer s now ival u rep)
  then show ?case using timer_ok [OF timer(2), of now ival u rep] by auto
next
  case (spawn s q u)
  show ?case by (rule spawned_ok [OF spawn(3,2)])
next
  case (spawn_remote s q n k u)
  show ?case by (rule spawn_remote_ok [OF spawn_remote(4,1-3)])
next
  case (ended s)
  show ?case by (rule ended_ok [OF ended(2,1)])
next
  case (alarm s e p)
  show ?case by (rule alarm_ok [OF alarm(4,1-3)])
next
  case (outside k s)
  show ?case using sys_ok_kern [OF outside(2,1)] by simp
qed

lemma io_step_ok:
  assumes api: "epoll_ctl_ok api interest usable" and dr: "pipe_drains api interest pipe" and al: "alloc_ok alloc"
  shows "io_step S api interest usable alloc s r \<Longrightarrow> sys_ok S interest usable pipe s
    \<Longrightarrow> (\<exists>s'. r = Ok s' \<and> sys_ok S interest usable pipe s') \<or> r = Err OutOfBounds \<and> running (sthr s) = S \<and> overrun_due api (smgr s)"
proof (induction rule: io_step.induct)
  case (turn s now_after now_before)
  show ?case
  proof (rule turn_sys_ok [OF turn(4)])
    fix loc assume "placed S (sthr s) (io_sch (smgr s)) (events_at (smgr s)) (timer_manager (smgr s)) loc"
    from loop_turn_ok [where now_after = now_after, OF api dr al sys_okD(1) [OF turn(4)] this turn(2,3,1)]
    show "(\<exists>m'. loop_turn api alloc now_before now_after (smgr s) = Ok m' \<and> turn_ok S interest pipe (smgr s) loc m')
      \<or> loop_turn api alloc now_before now_after (smgr s) = Err OutOfBounds \<and> running (sthr s) = S \<and> overrun_due api (smgr s)"
      using turn(1) by simp
  qed
next
  case (act s r)
  show ?case using co_step_ok [OF api act] by simp
qed

inductive io_reach ::
    "eptr \<Rightarrow> 'k kernel_api \<Rightarrow> ('k \<Rightarrow> fd \<Rightarrow> u32 option) \<Rightarrow> fd set \<Rightarrow> ('u closure thread \<Rightarrow> eptr)
      \<Rightarrow> ('u, 'k) sys_state \<Rightarrow> ('u, 'k) sys_state \<Rightarrow> bool"
  for S api interest usable alloc s0 where
  start: "io_reach S api interest usable alloc s0 s0"
| step: "io_reach S api interest usable alloc s0 s \<Longrightarrow> io_step S api interest usable alloc s (Ok s') \<Longrightarrow>
    io_reach S api interest usable alloc s0 s'"

lemma io_reach_ok:
  assumes "epoll_ctl_ok api interest usable" and "pipe_drains api interest pipe" and "alloc_ok alloc"
  shows "io_reach S api interest usable alloc s0 s \<Longrightarrow> sys_ok S interest usable pipe s0 \<Longrightarrow> sys_ok S interest usable pipe s"
proof (induction rule: io_reach.induct)
  case (step s s')
  then show ?case using io_step_ok [OF assms step(2)] by auto
qed simp

section \<open>A new manager\<close>

text \<open>The calls of the constructor succeed and leave the new instance's interest list empty.\<close>

definition kernel_starts :: "'k kernel_api \<Rightarrow> ('k \<Rightarrow> fd \<Rightarrow> u32 option) \<Rightarrow> fd set \<Rightarrow> fd \<Rightarrow> 'k \<Rightarrow> bool" where
  "kernel_starts api interest usable pipe k \<longleftrightarrow> pipe \<in> usable
     \<and> (\<exists>ep k1 w k2 k3. sys_epoll_create api epoll_create_size k = (Inr ep, k1) \<and> sys_pipe api k1 = (Inr (pipe, w), k2)
          \<and> sys_set_nonblock api pipe k2 = (Inr (), k3) \<and> interest k3 = Map.empty)"

text \<open>A thread with a new manager whose \<open>run\<close> was called, and the library's other state.\<close>

definition new_system ::
    "'k kernel_api \<Rightarrow> eptr \<Rightarrow> eptr \<Rightarrow> 'u closure \<Rightarrow> 'k \<Rightarrow> fd_contexts \<Rightarrow> ('u, 'k) sys_state res" where
  "new_system api b S loop k f =
     res_bind (IOManager_new api b S loop (fresh_thread b) k) (\<lambda>m.
     res_bind (io_run m) (\<lambda>m. Ok \<lparr>st = \<lparr>mgr = m, fds = f, flags = \<lambda>_. None\<rparr>, pend = \<lambda>_. None\<rparr>))"

lemma new_scheduler_runs:
  assumes "b \<noteq> S"
  shows "\<exists>w w'. Scheduler_new b S loop (fresh_thread b) = Ok w \<and> sched_run (w\<lparr>sch := setExitWithTasksProcessed True (sch w)\<rparr>) = Ok w'
    \<and> sched_ok S w' \<and> running (thr w') = S \<and> ready_executors (sch w') = [] \<and> remote_tasks (sch w') = [] \<and> \<not> stopping (sch w')
    \<and> (\<forall>q e. q \<noteq> S \<longrightarrow> heap (thr w') q = Some e \<longrightarrow> q = b \<and> \<not> ex_is_call_back_type e \<and> ex_callback e = None)"
  using assms
  by (simp add: sched_started_defs setExitWithTasksProcessed_def Let_def sched_ok_def loop_ok_def coop_ok_def base_waits_def queued_def on_cpu_def)

lemma new_system_ok:
  assumes api: "epoll_ctl_ok api interest usable" and k: "kernel_starts api interest usable pipe k" and "b \<noteq> S"
  shows "\<exists>s. new_system api b S loop k f = Ok s \<and> sys_ok S interest usable pipe s \<and> running (sthr s) = S \<and> pend s = (\<lambda>_. None)
    \<and> ready_executors (io_sch (smgr s)) = [] \<and> remote_tasks (io_sch (smgr s)) = [] \<and> timer_manager (smgr s) = [] \<and> fd_events (smgr s) = []
    \<and> fds (st s) = f \<and> flags (st s) = (\<lambda>_. None) \<and> (\<forall>q. q \<noteq> b \<longrightarrow> q \<noteq> S \<longrightarrow> heap (sthr s) q = None)"
proof -
  obtain w w' where w: "Scheduler_new b S loop (fresh_thread b) = Ok w" "sched_run (w\<lparr>sch := setExitWithTasksProcessed True (sch w)\<rparr>) = Ok w'"
    "sched_ok S w'" "running (thr w') = S" "ready_executors (sch w') = []" "remote_tasks (sch w') = []" "\<not> stopping (sch w')"
    and h: "\<And>q e. q \<noteq> S \<Longrightarrow> heap (thr w') q = Some e \<Longrightarrow> q = b \<and> \<not> ex_is_call_back_type e \<and> ex_callback e = None"
    using new_scheduler_runs [OF assms(3), of loop] by blast
  obtain ep k1 wr k2 k3 where k: "pipe \<in> usable" "sys_epoll_create api epoll_create_size k = (Inr ep, k1)" "sys_pipe api k1 = (Inr (pipe, wr), k2)"
    "sys_set_nonblock api pipe k2 = (Inr (), k3)" "interest k3 = Map.empty"
    using k by (auto simp: kernel_starts_def)
  let ?m = "\<lparr>io_stopped = False, epoll_fd = ep, wakeup_pipe_fd = (pipe, wr),
    io_world = w\<lparr>sch := setExitWithTasksProcessed True (sch w)\<rparr>, timer_manager = [], fd_events = [], kern = k3\<rparr>"
  obtain k4 where k4: "epollAdd api pipe (EPOLLIN OR EPOLLOUT) ?m = Ok (?m\<lparr>kern := k4\<rparr>)" "interest k4 = [pipe \<mapsto> EPOLLIN OR EPOLLOUT]"
    using epoll_calls(1) [OF api, of ?m pipe "EPOLLIN OR EPOLLOUT"] k(1,5) by auto
  let ?n = "?m\<lparr>kern := k4, io_world := w'\<rparr>"
  have n: "new_system api b S loop k f = Ok \<lparr>st = \<lparr>mgr = ?n, fds = f, flags = \<lambda>_. None\<rparr>, pend = \<lambda>_. None\<rparr>"
    using k4(1) by (simp add: new_system_def IOManager_new_def w(1,2) initEpoll_def initPipe_def asserted_def k io_run_def)
  have ev: "events_at ?n = (\<lambda>_. FdEvents_default)" by (rule ext) (auto simp: events_at_def)
  have "dom (heap (thr w')) \<subseteq> {b, S}" using h by auto
  then have "finite (dom (heap (thr w')))" by (rule finite_subset) simp
  moreover have "watch_ok interest ?n" using k4(2) by (simp add: watch_ok_def watched_def)
  moreover have "callbacks_ok S (thr w')" using h unfolding callbacks_ok_def by blast
  moreover have "\<forall>j. events_ok (events_at ?n j)" unfolding ev by (simp add: events_ok_def FdEvents_default_def)
  ultimately have "mgr_ok S interest pipe ?n"
    using w(3,7) by (simp add: mgr_ok_def io_sch_def timers_ok_def)
  moreover have "placed S (thr w') (sch w') (\<lambda>_. FdEvents_default) [] (\<lambda>_. Nowhere)"
    using w(5,6) h unfolding placed_def by (auto simp: suspended_task_def wakes_def side_executor_def FdEvents_default_def)
  ultimately have "sys_ok S interest usable pipe \<lparr>st = \<lparr>mgr = ?n, fds = f, flags = \<lambda>_. None\<rparr>, pend = \<lambda>_. None\<rparr>"
    using ev by (auto simp: sys_ok_def pend_ok_def loc_ok_def io_sch_def waiters_def intro!: exI [of _ "\<lambda>_. Nowhere"])
  moreover have "heap (thr w') q = None" if "q \<noteq> b" "q \<noteq> S" for q using h [of q] that by (cases "heap (thr w') q") auto
  ultimately show ?thesis using n w(4,5,6) by (simp add: io_sch_def)
qed

lemma unfinished_suspended:
  assumes "mgr_ok S interest pipe m" and "heap (thr (io_world m)) p = Some e" and "ex_is_call_back_type e" and "unfinished e"
    and "p \<noteq> S" and "p \<noteq> running (thr (io_world m))"
  shows "suspended_task S (thr (io_world m)) p"
proof -
  note o = mgr_okD [OF assms(1)]
  have "parked S (suspended (thr (io_world m)) p) p e"
    using o(1) assms(2,3,5,6) by (auto simp: sched_ok_def loop_ok_def coop_ok_def)
  moreover have "ex_state e \<noteq> Ready" using o(6) assms(2,3,5) by (auto simp: callbacks_ok_def)
  ultimately have "ex_state e = Init \<or> ex_state e = HoldUp"
    using assms(4) by (cases "ex_state e") (auto simp: unfinished_def)
  then show ?thesis using assms(2,3,5) by (auto simp: suspended_task_def)
qed

lemma waiting_is_watched:
  assumes m: "mgr_ok S interest pipe (smgr s)" and po: "pend_ok S interest usable pipe s" and "pend s p = Some (Waiting flag t i ty f)"
    and x: "side_executor ty (events_at (smgr s) i) = Some p"
  shows "\<exists>w. interest (kern (smgr s)) i = Some w \<and> w AND ty = ty"
proof -
  note o = mgr_okD [OF m]
  have "wait_ok interest usable pipe (flags (st s)) (Waiting flag t i ty f)" using po assms(3) unfolding pend_ok_def by blast
  then have i: "2 \<le> i" "i \<noteq> pipe" "ty = Read \<or> ty = Write" by (auto simp: wait_ok_def)
  have "events_ok (events_at (smgr s) i)" using o(10) by simp
  then have r: "registered_events (events_at (smgr s) i) AND ty \<noteq> 0"
    using x i(3) by (auto simp: events_ok_def side_executor_def Read_def Write_def epoll_bits)
  have "watched (interest (kern (smgr s)) i) (registered_events (events_at (smgr s) i))"
    using o(2,9) i(1,2) by (simp add: watch_ok_alt)
  then show ?thesis using r i(3) by (auto simp: watched_def Read_def Write_def epoll_bits split: if_splits)
qed

text \<open>
  C3. No coroutine is lost. The states are those the thread of a new \<open>IOManager\<close> reaches when any number of
  coroutines call blocking functions on descriptors, sleep, set timers, make other coroutines here or from other threads, and end,
  under these limits: a coroutine waits for a direction of a descriptor only while no other does, the sockets have no
  timeouts (the default), and nobody registers permanent events, closes a descriptor others wait for, kills executors
  or stops the manager. In every such state the next step succeeds, or it is a turn of the loop that the kernel's
  report makes read behind the table (the pipe first, the table not reaching its descriptor, another descriptor
  readable or writable behind it), which ends the program. And there is an account of where every coroutine
  is. Each one that has not ended and does not run is in exactly one place, once: the ready queue,
  the remote tasks, the events of one descriptor, the timer of its sleep, or behind the
  coroutine of its expired timer; the places hold nothing else, and the running coroutine is in none.
  A coroutine at a descriptor is there because its call waits for that event, and the kernel watches the
  descriptor for it; one with a timer is asleep.
\<close>

theorem no_coroutine_lost:
  assumes "epoll_ctl_ok api interest usable" and "pipe_drains api interest pipe" and "alloc_ok alloc"
    and "kernel_starts api interest usable pipe k" and "b \<noteq> S" and "new_system api b S loop k f = Ok s0"
    and "io_reach S api interest usable alloc s0 s"
  shows "(\<forall>r. io_step S api interest usable alloc s r \<longrightarrow>
       (\<exists>s'. r = Ok s') \<or> r = Err OutOfBounds \<and> running (sthr s) = S \<and> overrun_due api (smgr s))
    \<and> (\<exists>loc. placed S (sthr s) (io_sch (smgr s)) (events_at (smgr s)) (timer_manager (smgr s)) loc
      \<and> (\<forall>p e. p \<noteq> S \<longrightarrow> heap (sthr s) p = Some e \<longrightarrow> ex_is_call_back_type e \<longrightarrow>
           (loc p = Nowhere \<longleftrightarrow> p = running (sthr s) \<or> \<not> unfinished e))
      \<and> (\<forall>p i ty. loc p = AtFd i ty \<longrightarrow> (\<exists>flag t g w. pend s p = Some (Waiting flag t i ty g)
           \<and> interest (kern (smgr s)) i = Some w \<and> w AND ty = ty))
      \<and> (\<forall>p. loc p = Asleep \<or> (\<exists>q. loc p = Waking q) \<longrightarrow> pend s p = Some Sleeping))"
proof -
  have "sys_ok S interest usable pipe s0" using new_system_ok [OF assms(1,4,5), of loop f] assms(6) by auto
  then have ok: "sys_ok S interest usable pipe s" by (rule io_reach_ok [OF assms(1-3,7)])
  note m = sys_okD(1) [OF ok]
  obtain loc where loc: "placed S (sthr s) (io_sch (smgr s)) (events_at (smgr s)) (timer_manager (smgr s)) loc" "loc_ok (pend s) loc"
    using sys_okD(3) [OF ok] by blast
  have 1: "loc p = Nowhere \<longleftrightarrow> p = running (sthr s) \<or> \<not> unfinished e"
    if p: "p \<noteq> S" "heap (sthr s) p = Some e" "ex_is_call_back_type e" for p e
  proof (cases "p = running (sthr s)")
    case True
    then show ?thesis using running_nowhere [OF loc(1) mgr_okD(1) [OF m]] p(1) by simp
  next
    case False
    then show ?thesis
      using unfinished_suspended [OF m p(2,3) _ p(1)] placedD(1) [OF loc(1), of p] p(2)
      by (auto simp: suspended_task_def unfinished_def)
  qed
  have 2: "\<exists>flag t g w. pend s p = Some (Waiting flag t i ty g) \<and> interest (kern (smgr s)) i = Some w \<and> w AND ty = ty"
    if at: "loc p = AtFd i ty" for p i ty
  proof -
    have x: "side_executor ty (events_at (smgr s) i) = Some p" using placedD(4) [OF loc(1), of p i ty] at by simp
    obtain flag t g where w: "pend s p = Some (Waiting flag t i ty g)"
      using loc(2) [unfolded loc_ok_def, rule_format, of p] at by auto
    from waiting_is_watched [OF m sys_okD(2) [OF ok] w x] w show ?thesis by simp
  qed
  have 3: "pend s p = Some Sleeping" if "loc p = Asleep \<or> (\<exists>q. loc p = Waking q)" for p
    using loc(2) [unfolded loc_ok_def, rule_format, of p] that by auto
  have 4: "(\<exists>s'. r = Ok s') \<or> r = Err OutOfBounds \<and> running (sthr s) = S \<and> overrun_due api (smgr s)"
    if "io_step S api interest usable alloc s r" for r using io_step_ok [OF assms(1-3) that ok] by blast
  show ?thesis by (intro conjI exI [of _ loc] allI impI) (fact loc(1) | erule 1 2 3 4 | assumption)+
qed

lemma demo_starts: "kernel_starts demo_api (\<lambda>k. k) UNIV 4 (\<lambda>_. None)"
  by (simp add: kernel_starts_def)

lemma demo_api_drains: "pipe_drains demo_api (\<lambda>k. k) 4"
  unfolding pipe_drains_def by (subst drain_pipe.simps) (simp add: demo_api_def)

text \<open>A first coroutine, made by another thread.\<close>

lemma first_spawned:
  assumes "epoll_ctl_ok api interest usable" and "kernel_starts api interest usable pipe k" and "b \<noteq> S" and q: "q \<noteq> b" "q \<noteq> S"
    and w: "\<And>i t k. sys_write api i t k = (Inr n, k)"
  shows "\<exists>s0 s1. new_system api b S loop k f = Ok s0 \<and> co_step S api interest usable s0 (Ok s1) \<and> sys_ok S interest usable pipe s1
     \<and> running (sthr s1) = S \<and> ready_executors (io_sch (smgr s1)) = [] \<and> remote_tasks (io_sch (smgr s1)) = [q] \<and> pend s1 = (\<lambda>_. None)
     \<and> fds (st s1) = f \<and> flags (st s1) = (\<lambda>_. None) \<and> fd_events (smgr s1) = [] \<and> timer_manager (smgr s1) = []
     \<and> (\<exists>e. heap (sthr s1) q = Some e \<and> ex_callback e = Some (UserCallback u))"
proof -
  obtain s0 where s0: "new_system api b S loop k f = Ok s0" "sys_ok S interest usable pipe s0" "running (sthr s0) = S" "pend s0 = (\<lambda>_. None)"
    "ready_executors (io_sch (smgr s0)) = []" "remote_tasks (io_sch (smgr s0)) = []"
    "timer_manager (smgr s0) = []" "fd_events (smgr s0) = []" "fds (st s0) = f" "flags (st s0) = (\<lambda>_. None)" "heap (sthr s0) q = None"
    using new_system_ok [OF assms(1-3), of loop f] q by auto
  obtain th where th: "Executor_callback q (Some (UserCallback u)) DefaultStackSize (sthr s0) = Ok th"
    "created q (Some (UserCallback u)) (sthr s0) th" "running th = running (sthr s0)"
    using Executor_callback_created [OF s0(11), of "Some (UserCallback u)" DefaultStackSize] by auto
  let ?m = "(smgr s0)\<lparr>io_world := (io_world (smgr s0))\<lparr>thr := th, sch := (sch (io_world (smgr s0)))\<lparr>remote_tasks := [q]\<rparr>\<rparr>\<rparr>"
  have "res_bind (create q u s0) (\<lambda>m. res_bind (addRemoteTask api q m) (\<lambda>m. Ok (with_smgr s0 m))) = Ok (with_smgr s0 ?m)"
    using s0(6) by (simp add: create_def th(1) addRemoteTask_def wakeup_def asserted_def w addRemoteExecutor_def insertFront_def io_sch_def upd_sch_def)
  then have st: "co_step S api interest usable s0 (Ok (with_smgr s0 ?m))"
    using co_step.spawn_remote [where S = S and interest = interest and usable = usable and u = u, OF s0(11) w refl] by simp
  have "sys_ok S interest usable pipe (with_smgr s0 ?m)" using co_step_ok [OF assms(1) st s0(2)] by auto
  moreover have "\<exists>e. heap th q = Some e \<and> ex_callback e = Some (UserCallback u)" using th(2) by (auto simp: created_def)
  ultimately show ?thesis
    using s0 th(3) st by (intro exI [of _ s0] exI [of _ "with_smgr s0 ?m"]) (simp add: with_smgr_def io_sch_def)
qed

theorem no_coroutine_lost_witness:
  "\<exists>s0 s1 :: (unit, fd \<Rightarrow> u32 option) sys_state. \<exists>loc. new_system demo_api 2 3 (UserCallback ()) (\<lambda>_. None) [] = Ok s0
     \<and> io_step 3 demo_api (\<lambda>k. k) UNIV (\<lambda>th. LEAST p. heap th p = None) s0 (Ok s1)
     \<and> placed 3 (sthr s1) (io_sch (smgr s1)) (events_at (smgr s1)) (timer_manager (smgr s1)) loc \<and> loc 9 = InRemote"
proof -
  let ?alloc = "\<lambda>th :: unit closure thread. LEAST p. heap th p = None"
  obtain s0 s1 :: "(unit, fd \<Rightarrow> u32 option) sys_state" where s: "new_system demo_api 2 3 (UserCallback ()) (\<lambda>_. None) [] = Ok s0"
    "co_step 3 demo_api (\<lambda>k. k) UNIV s0 (Ok s1)" "remote_tasks (io_sch (smgr s1)) = [9]"
    using first_spawned [OF demo_api_ok demo_starts, of 2 3 9 1 "UserCallback ()" "[]"] by (auto simp: demo_api_def)
  have "io_reach 3 demo_api (\<lambda>k. k) UNIV ?alloc s0 s1" by (rule io_reach.step [OF io_reach.start io_step.act [OF s(2)]])
  from no_coroutine_lost [OF demo_api_ok demo_api_drains least_alloc_ok demo_starts _ s(1) this]
  obtain loc where loc: "placed 3 (sthr s1) (io_sch (smgr s1)) (events_at (smgr s1)) (timer_manager (smgr s1)) loc" by auto
  have "loc 9 = InRemote" using placedD(3) [OF loc, of 9] s(3) by (cases "loc 9 = InRemote") auto
  then show ?thesis using s(1) io_step.act [OF s(2)] loc by blast
qed

section \<open>Coroutines that are lost\<close>

text \<open>
  The steps above keep to what the code can take: one waiter for each direction of a descriptor, no timeouts.
  Outside of these limits coroutines are lost or resumed twice.

  A second coroutine that waits for the same direction of a descriptor replaces the first, which
  is then suspended and in none of the places anything is resumed from.
\<close>

theorem second_waiter_replaces_first:
  assumes api: "epoll_ctl_ok api interest usable" and ok: "sys_ok S interest usable pipe s"
    and i: "2 \<le> i" "i \<noteq> pipe" "i \<in> usable" "ty = Read \<or> ty = Write"
    and p: "side_executor ty (events_at (smgr s) i) = Some p" "q \<noteq> p"
  shows "\<exists>m'. registerEvent api i ty (Some q) True (smgr s) = Ok (True, m') \<and> io_world m' = io_world (smgr s) \<and> suspended_task S (sthr s) p
    \<and> Some p \<notin> set (ready_executors (io_sch m')) \<and> p \<notin> set (remote_tasks (io_sch m'))
    \<and> (\<forall>j. read_executor (events_at m' j) \<noteq> Some p \<and> write_executor (events_at m' j) \<noteq> Some p)
    \<and> (\<forall>t \<in> set (timer_manager m'). callback t \<noteq> Some (SleepOver p)) \<and> (\<forall>r. \<not> wakes S (sthr s) r p)"
proof -
  note o = mgr_okD [OF sys_okD(1) [OF ok]]
  obtain loc where loc: "placed S (sthr s) (io_sch (smgr s)) (events_at (smgr s)) (timer_manager (smgr s)) loc"
    using sys_okD(3) [OF ok] by blast
  note d = placedD [OF loc]
  have l: "loc p = AtFd i ty" using d(4) [of p i ty] i(4) p(1) by simp
  from registerEvent_events [OF api o(2,3), of i ty "Some q" True] i o(9) obtain m' where
    m': "registerEvent api i ty (Some q) True (smgr s) = Ok (True, m')" "io_world m' = io_world (smgr s)" "timer_manager m' = timer_manager (smgr s)"
    and e: "events_at m' i = (set_side ty (Some q) True (events_at (smgr s) i))\<lparr>registered_events := registered_events (events_at (smgr s) i) OR ty\<rparr>"
      "\<And>j. j \<noteq> i \<Longrightarrow> events_at m' j = events_at (smgr s) j"
    by auto
  have "count_list (ready_executors (io_sch m')) (Some p) = 0" "count_list (remote_tasks (io_sch m')) p = 0" "alarms (timer_manager m') p = 0"
    using d(2,3,5) [of p] l m'(2,3) by (simp_all add: io_sch_def)
  then have n: "Some p \<notin> set (ready_executors (io_sch m'))" "p \<notin> set (remote_tasks (io_sch m'))"
    "\<forall>t \<in> set (timer_manager m'). callback t \<noteq> Some (SleepOver p)"
    by (auto simp: count_list_0_iff alarms_def)
  have sd: "side_executor t (events_at (smgr s) j) = Some p \<longleftrightarrow> j = i \<and> t = ty" if "t = Read \<or> t = Write" for t j
    using d(4) [of p j t] that l by auto
  have "read_executor (events_at m' j) \<noteq> Some p \<and> write_executor (events_at m' j) \<noteq> Some p" for j
  proof (cases "j = i")
    case True
    then show ?thesis
      using sd [of Read i] sd [of Write i] e(1) i(4) p(2) by (auto simp: set_side_def side_executor_def Read_def Write_def epoll_bits split: if_splits)
  next
    case False
    then show ?thesis using sd [of Read j] sd [of Write j] e(2) by (auto simp: side_executor_def Read_def Write_def epoll_bits)
  qed
  moreover have "suspended_task S (sthr s) p" "\<not> wakes S (sthr s) r p" for r using d(1) [of p] d(6) [of p r] l by simp_all
  ultimately show ?thesis using m' n by blast
qed

text \<open>
  When a call's time runs out, \<open>removeEvent\<close> also forgets the coroutine that waits for the other
  direction of the descriptor, and the kernel no longer watches it.
\<close>

theorem timeout_forgets_other_direction:
  assumes "epoll_ctl_ok api interest usable" and "watch_ok interest (mgr c)"
    and "0 \<le> i" and "i < int (length (fd_events (mgr c)))" and "i \<noteq> fst (wakeup_pipe_fd (mgr c))"
    and "hasEvent i Read (mgr c) = Ok True" and "flags c flag = Some False" and "write_executor (events_at (mgr c) i) = Some q"
  shows "\<exists>c'. run_closure api (IoTimeout i Read flag p) c = Ok c'
    \<and> write_executor (events_at (mgr c') i) = None \<and> interest (kern (mgr c')) i = None"
proof -
  from removeEvent_drops [OF assms(1-5) _ assms(6)] obtain m' where "removeEvent api i Read (mgr c) = Ok m'"
    "interest (kern m') i = None" "events_at m' i = (events_at (mgr c) i)\<lparr>read_executor := None, write_executor := None\<rparr>"
    by blast
  then show ?thesis using assms(7) by (simp add: run_closure_def io_addExecutor_def)
qed

text \<open>
  When the event and the time-out of a call come in the same turn of the loop, the callback
  of the timer runs with the event already handled and the coroutine already queued: it queues it
  again, and the call reports a time-out although the event came.
\<close>

theorem timeout_with_event_resumes_twice:
  assumes "flags c flag = Some False" and "hasEvent i ty (mgr c) = Ok False" and "0 \<le> i" and "i < int (length (fd_events (mgr c)))"
    and "\<not> stopping (io_sch (mgr c))" and "ready_executors (io_sch (mgr c)) = Some p # rest"
  shows "\<exists>c'. run_closure api (IoTimeout i ty flag p) c = Ok c' \<and> ready_executors (io_sch (mgr c')) = Some p # rest @ [Some p]
    \<and> (\<exists>c''. ioInner_resume api fresh now flag' flag t i ty func tmo c' = Ok (IoTimedOut, c'') \<and> mgr c'' = mgr c')"
proof -
  have "removeEvent api i ty (mgr c) = Ok (mgr c)" using assms(2-4) by (auto simp: removeEvent_def hasEvent_eq vec_get_events)
  then show ?thesis
    using assms(1,5,6) by (simp add: run_closure_def io_addExecutor_def addExecutor_def ready_push_def upd_sch_def io_sch_def ioInner_resume_def)
qed

text \<open>
  A hang-up (or an error) of a descriptor only one coroutine waits for queues a null pointer for the
  other direction. The loop takes it for an empty queue and calls the blocking function, with the
  coroutine ready behind it.
\<close>

theorem hangup_stalls_ready_coroutine:
  assumes "epoll_ctl_ok api interest usable" and "watch_ok interest m"
    and "0 \<le> i" and "i < int (length (fd_events m))" and "i \<noteq> fst (wakeup_pipe_fd m)"
    and "\<not> stopping (io_sch m)" and "read_call_once (events_at m i)" and "write_call_once (events_at m i)"
    and "read_executor (events_at m i) = None" and "write_executor (events_at m i) = Some p"
    and "ready_executors (io_sch m) = []" and "remote_tasks (io_sch m) = []"
  shows "\<exists>m' w. handle_event api i (i, EPOLLHUP) m = Ok m' \<and> ready_executors (io_sch m') = [None, Some p]
    \<and> sched_iter default_stop_pending_func (io_world m') = Ok (Blocked, w) \<and> ready_executors (sch w) = [Some p]"
proof -
  from handle_event_after [OF assms(1-8) assms(3,4,7,8), of EPOLLHUP] obtain m' where m': "handle_event api i (i, EPOLLHUP) m = Ok m'"
    "io_sch m' = (io_sch m)\<lparr>ready_executors := ready_executors (io_sch m) @ woken EPOLLHUP (events_at m i)\<rparr>" by blast
  have "io_sch m' = (io_sch m)\<lparr>ready_executors := [None, Some p]\<rparr>"
    using m'(2) assms(9-11) by (simp add: woken_def epoll_bits)
  then show ?thesis using m'(1) assms(6,12)
    by (auto simp: sched_iter_def scheduleAll_eq ready_pop_def io_sch_def stop_pending_def default_stop_pending_func_def Let_def)
qed

end
