(* ===== verification/Io_Progress.thy ===== *)
theory Io_Progress
  imports Io_System
begin

text \<open>
  Progress of the thread of an \<open>IOManager\<close>: how the ready queue moves through the turns of the loop,
  whatever steps of the system (Io\_System) lie between them, and that a coroutine whose
  event is reported, or whose sleep is over, runs again after as many turns as it has others before it.
\<close>

section \<open>The queue under the steps\<close>

abbreviation queue :: "('u, 'k) sys_state \<Rightarrow> eptr option list" where
  "queue s \<equiv> ready_executors (io_sch (smgr s))"

text \<open>Registering events and timers leaves the scheduler alone.\<close>

lemma epoll_world:
  "epollAdd api i ev m = Ok m' \<Longrightarrow> io_world m' = io_world m"
  "epollMod api i ev m = Ok m' \<Longrightarrow> io_world m' = io_world m"
  by (auto simp: epollAdd_def epollMod_def asserted_noIntr_def split: sum.splits prod.splits)

lemma upd_event_world: "upd_event i f m = Ok m' \<Longrightarrow> io_world m' = io_world m"
  by (auto simp: upd_event_def)

lemma epAdd_world: "epAdd api i t m = Ok m' \<Longrightarrow> io_world m' = io_world m"
  by (auto simp: epAdd_def Let_def dest!: upd_event_world epoll_world split: if_splits)

lemma register_world:
  "registerEvent api i t x once m = Ok (b, m') \<Longrightarrow> io_world m' = io_world m"
  "registerTimer tm m = Ok (b, m') \<Longrightarrow> io_world m' = io_world m"
  "cancelTimer tm m = Ok m' \<Longrightarrow> io_world m' = io_world m"
  by (auto simp: registerEvent_def registerTimer_def cancelTimer_def dest!: upd_event_world epAdd_world split: if_splits option.splits)

lemma yield_current_sch: "yield_current p c = Ok c' \<Longrightarrow> io_sch (mgr c') = io_sch (mgr c)"
  by (auto simp: yield_current_def with_thread_def io_sch_def)

lemma ioInner_loop_sch:
  assumes "ioInner_loop api fresh now flag i ty func tmo c = Ok (out, c')"
  shows "io_sch (mgr c') = io_sch (mgr c)"
  using assms
  by (auto simp: ioInner_loop_def Let_def with_thread_def with_mgr_def io_sch_def dest!: register_world yield_current_sch split: if_splits prod.splits)

lemma call_sch:
  "ioInner api fresh now flag i ty func c = Ok (out, c') \<Longrightarrow> io_sch (mgr c') = io_sch (mgr c)"
  "ioInner_resume api fresh now flag' flag t i ty func tmo c = Ok (out, c') \<Longrightarrow> io_sch (mgr c') = io_sch (mgr c)"
  "sleepInner fresh now ms c = Ok c' \<Longrightarrow> io_sch (mgr c') = io_sch (mgr c)"
  by (auto simp: ioInner_def ioInner_resume_def sleepInner_def call_sys_def Let_def with_mgr_def with_thread_def io_sch_def
      dest!: ioInner_loop_sch register_world yield_current_sch split: option.splits if_splits prod.splits bool.splits)

lemma finish_sch: "finish s = Ok s' \<Longrightarrow> io_sch (smgr s') = io_sch (smgr s)"
  by (auto simp: finish_def sched_back_def with_smgr_def io_sch_def getState_def deref_def split: option.splits if_splits)

lemma create_sch: "create q u s = Ok m \<Longrightarrow> io_sch m = io_sch (smgr s)"
  by (auto simp: create_def io_sch_def)

lemma added_queue:
  "\<exists>ys. ready_executors (io_sch (io_addExecutor x m)) = ready_executors (io_sch m) @ ys"
  "addRemoteTask api p m = Ok m' \<Longrightarrow> ready_executors (io_sch m') = ready_executors (io_sch m)"
  by (auto simp: io_addExecutor_def addExecutor_def ready_push_def addRemoteTask_def addRemoteExecutor_def wakeup_def asserted_def io_sch_def
      split: prod.splits sum.splits)

text \<open>Between two turns of the loop the ready queue only grows, at its end.\<close>

lemma co_step_queue: "co_step S api interest usable s r \<Longrightarrow> r = Ok s' \<Longrightarrow> \<exists>ys. queue s' = queue s @ ys"
proof (induction rule: co_step.induct)
  case (timer s now ival u rep)
  then show ?case by (auto simp: with_smgr_def io_sch_def dest!: register_world(2))
next
  case (spawn s q u)
  then obtain m where "create q u s = Ok m" "s' = with_smgr s (io_addExecutor (Some q) m)" by auto
  then show ?case using added_queue(1) [of "Some q" m] by (auto simp: with_smgr_def dest!: create_sch)
next
  case (alarm s e p)
  from alarm(4) obtain c where c: "run_closure api (SleepOver p) (st s) = Ok c" "finish (s\<lparr>st := c\<rparr>) = Ok s'" by auto
  then show ?case using finish_sch [OF c(2)] added_queue(1) [of "Some p" "smgr s"] by (auto simp: run_closure_def)
qed (auto simp: settle_def with_smgr_def io_sch_def [of "_\<lparr>kern := _\<rparr>"] io_sch_def [of "smgr _"]
    dest!: call_sch [unfolded io_sch_def] finish_sch [unfolded io_sch_def] create_sch [unfolded io_sch_def] added_queue(2) [unfolded io_sch_def])

text \<open>A coroutine keeps its callback.\<close>

definition same_callbacks :: "'cb thread \<Rightarrow> 'cb thread \<Rightarrow> bool" where
  "same_callbacks th th' \<longleftrightarrow> (\<forall>q e. heap th q = Some e \<longrightarrow> (\<exists>e'. heap th' q = Some e' \<and> ex_callback e' = ex_callback e))"

lemma same_callbacks_refl [simp]: "same_callbacks th th"
  by (simp add: same_callbacks_def)

lemma same_callbacks_trans: "same_callbacks a b \<Longrightarrow> same_callbacks b c \<Longrightarrow> same_callbacks a c"
  unfolding same_callbacks_def by metis

lemma switch_same_callbacks:
  "exec p th = Ok th' \<Longrightarrow> same_callbacks th th'"
  "yield p th = Ok th' \<Longrightarrow> same_callbacks th th'"
  "executorMainFunc_end th = Ok th' \<Longrightarrow> same_callbacks th th'"
  unfolding same_callbacks_def by (metis map_option_eq_Some switch_callbacks)+

lemma ioInner_loop_callbacks:
  fixes c :: "('u, 'k) co"
  assumes "coop_ok S (co_thread c)" and "ioInner_loop api fresh now flag i ty func tmo c = Ok (out, c')"
  shows "same_callbacks (co_thread c) (co_thread c')"
  using assms(2) getCurrent_running [OF assms(1), of fresh]
  by (auto simp: ioInner_loop_def Let_def with_thread_def with_mgr_def co_thread_def yield_current_def
      dest!: register_world switch_same_callbacks(2) split: if_splits prod.splits)

lemma call_callbacks:
  fixes c :: "('u, 'k) co"
  assumes "coop_ok S (co_thread c)"
  shows "ioInner api fresh now flag i ty func c = Ok (out, c') \<Longrightarrow> same_callbacks (co_thread c) (co_thread c')"
    and "ioInner_resume api fresh now flag' flag t i ty func tmo c = Ok (out, c') \<Longrightarrow> same_callbacks (co_thread c) (co_thread c')"
    and "sleepInner fresh now ms c = Ok c' \<Longrightarrow> same_callbacks (co_thread c) (co_thread c')"
  using assms getCurrent_running [OF assms, of fresh]
  by (auto simp: ioInner_def ioInner_resume_def sleepInner_def call_sys_def Let_def with_mgr_def with_thread_def co_thread_def yield_current_def
      dest!: register_world switch_same_callbacks(2)
      dest: ioInner_loop_callbacks [where S = S, unfolded co_thread_def, rotated] split: option.splits if_splits prod.splits bool.splits)

lemma finish_callbacks: "finish s = Ok s' \<Longrightarrow> same_callbacks (sthr s) (sthr s')"
  by (auto simp: finish_def sched_back_def with_smgr_def getState_def deref_def dest!: switch_same_callbacks(3) split: option.splits if_splits)

lemma create_callbacks:
  assumes "create q u s = Ok m" and "heap (sthr s) q = None"
  shows "same_callbacks (sthr s) (thr (io_world m))"
  using assms Executor_callback_created [OF assms(2), of "Some (UserCallback u)" DefaultStackSize]
  by (auto simp: create_def same_callbacks_def created_def)

lemma added_thread:
  "thr (io_world (io_addExecutor x m)) = thr (io_world m)"
  "addRemoteTask api p m = Ok m' \<Longrightarrow> thr (io_world m') = thr (io_world m)"
  by (auto simp: io_addExecutor_def addRemoteTask_def wakeup_def asserted_def upd_sch_def split: prod.splits sum.splits)

lemma sys_ok_coop: "sys_ok S interest usable pipe s \<Longrightarrow> coop_ok S (co_thread (st s))"
  by (drule sys_okD(1), drule mgr_okD(1)) (simp add: sched_ok_def loop_ok_def co_thread_def)

lemma co_step_callbacks:
  "co_step S api interest usable s r \<Longrightarrow> r = Ok s' \<Longrightarrow> sys_ok S interest usable pipe s \<Longrightarrow> same_callbacks (sthr s) (sthr s')"
proof (induction rule: co_step.induct)
  case (call s i type func flag fresh now)
  show ?case using call(5) call_callbacks(1) [OF sys_ok_coop [OF call(6)], of api fresh now flag i type func] by (auto simp: settle_def co_thread_def)
next
  case (resume s flag t i type func flag' fresh now)
  show ?case using resume(5) call_callbacks(2) [OF sys_ok_coop [OF resume(6)], of api fresh now flag' flag t i type func "- 1"]
    by (auto simp: settle_def co_thread_def)
next
  case (sleep s now ms fresh)
  show ?case using sleep(3) call_callbacks(3) [OF sys_ok_coop [OF sleep(4)], of fresh now ms] by (auto simp: co_thread_def)
next
  case (spawn s q u)
  then show ?case by (auto simp: with_smgr_def added_thread dest!: create_callbacks)
next
  case (spawn_remote s q n k u)
  then show ?case by (auto simp: with_smgr_def dest!: create_callbacks added_thread(2))
next
  case (alarm s e p)
  then show ?case by (auto simp: run_closure_def added_thread dest!: finish_callbacks)
qed (auto simp: with_smgr_def dest!: register_world(2) finish_callbacks)

text \<open>A turn without a task: what the kernel reports and which timers have expired.\<close>

lemma blockPending_queue:
  assumes api: "epoll_ctl_ok api interest usable" and dr: "pipe_drains api interest pipe" and al: "alloc_ok alloc"
    and m: "mgr_ok S interest pipe m"
    and k: "sys_epoll_wait api epoll_wait_max_size (epoll_timeout now_before (timer_manager m)) (kern m) = (Inr evs, k')"
      "interest k' = interest (kern m)" "reports_ok interest m evs"
    and take: "takeExpiredTimers now_after (timer_manager m) = (due, rest)"
    and b: "blockPending api alloc now_before now_after m = Ok m'"
  shows "\<exists>ps. ready_executors (io_sch m') = ready_executors (io_sch m) @ map Some ps @ concat (map (fired m) evs)
    \<and> list_all2 (\<lambda>p t. new_task (thr (io_world m')) p (callback t)) ps due \<and> same_callbacks (thr (io_world m)) (thr (io_world m'))"
proof -
  note o = mgr_okD [OF m]
  have "\<not> overruns m evs" using blockPending_overruns [OF api dr al m k] b by auto
  moreover note report_batch [OF m k(3)]
  moreover have "\<forall>t \<in> set (timer_manager m). callback t \<noteq> None" using o(8) by (fastforce simp: timer_kind_ok_def split: option.splits)
  ultimately obtain n ps where "blockPending api alloc now_before now_after m = Ok n"
    "ready_executors (io_sch n) = ready_executors (io_sch m) @ map Some ps @ concat (map (fired m) evs)"
    "list_all2 (\<lambda>p t. new_task (thr (io_world n)) p (callback t)) ps due"
    "\<forall>p e. heap (thr (io_world m)) p = Some e \<longrightarrow> heap (thr (io_world n)) p = Some e"
    using blockPending_batch [OF api _ o(2) _ al o(5) _ take k(1,2), of] dr o(4,9) by (auto simp: io_sch_def)
  then show ?thesis using b by (auto simp: same_callbacks_def)
qed

text \<open>A turn moves the remote tasks to the queue and takes its first entry; a coroutine there is switched to.\<close>

lemma loop_turn_queue:
  assumes api: "epoll_ctl_ok api interest usable" and dr: "pipe_drains api interest pipe" and al: "alloc_ok alloc"
    and ok: "sys_ok S interest usable pipe s" and run: "running (sthr s) = S"
    and k: "\<And>t. kernel_waits api interest (smgr s) t"
    and turn: "loop_turn api alloc now_before now_after (smgr s) = Ok m'" and q: "queue s @ map Some (remote_tasks (io_sch (smgr s))) = x # xs"
  shows "\<exists>ys. ready_executors (io_sch m') = xs @ ys \<and> same_callbacks (sthr s) (thr (io_world m'))
    \<and> (\<forall>p. x = Some p \<longrightarrow> running (thr (io_world m')) = p \<and> ys = [] \<and> remote_tasks (io_sch m') = []
         \<and> m' = (smgr s)\<lparr>io_world := io_world m'\<rparr>)"
proof -
  let ?m = "smgr s" and ?w = "io_world (smgr s)"
  note m = sys_okD(1) [OF ok] and o = mgr_okD [OF sys_okD(1) [OF ok]]
  obtain loc where pl: "placed S (sthr s) (io_sch ?m) (events_at ?m) (timer_manager ?m) loc" using sys_okD(3) [OF ok] by blast
  let ?s = "(sch ?w)\<lparr>ready_executors := xs, remote_tasks := []\<rparr>"
  have pick: "sched_pick (sch ?w) = (x, ?s)"
    using q o(4) by (simp add: sched_pick_def scheduleAll_eq ready_pop_def io_sch_def)
  have np: "\<not> stop_pending default_stop_pending_func (sch ?w)" by (simp add: stop_pending_def default_stop_pending_func_def)
  note it = sched_iter_pick [OF np pick]
  show ?thesis
  proof (cases x)
    case None
    let ?n = "?m\<lparr>io_world := ?w\<lparr>sch := ?s\<rparr>\<rparr>"
    have b: "blockPending api alloc now_before now_after ?n = Ok m'" using turn it None o(4) by (simp add: loop_turn_def)
    have "sched_ok S (?w\<lparr>sch := ?s\<rparr>)" using o(1) sched_pick_keeps(1,3) [OF pick] by (auto simp: sched_ok_def)
    moreover have "watch_ok interest ?n" using o(2) watch_ok_cong [of ?n ?m interest] by simp
    ultimately have n: "mgr_ok S interest pipe ?n" using o by (simp add: mgr_ok_def io_sch_def)
    obtain evs k' where w: "sys_epoll_wait api epoll_wait_max_size (epoll_timeout now_before (timer_manager ?n)) (kern ?n) = (Inr evs, k')"
      "interest k' = interest (kern ?n)" "reports_ok interest ?n evs"
      using k [of "epoll_timeout now_before (timer_manager ?m)"] by (auto simp: kernel_waits_def reports_ok_def)
    obtain due rest where "takeExpiredTimers now_after (timer_manager ?n) = (due, rest)" by fastforce
    from blockPending_queue [OF api dr al n w this b] None show ?thesis by (auto simp: io_sch_def)
  next
    case (Some p)
    have "Some p \<in> set (queue s @ map Some (remote_tasks (io_sch (smgr s))))" using q Some by simp
    then have "count_list (queue s) (Some p) \<noteq> 0 \<or> count_list (remote_tasks (io_sch (smgr s))) p \<noteq> 0" by (auto simp: count_list_0_iff)
    then have "loc p \<noteq> Nowhere" using placedD(2,3) [OF pl, of p] by (cases "loc p = Nowhere") simp_all
    then obtain e where e: "p \<noteq> S" "heap (sthr s) p = Some e" "ex_is_call_back_type e" "ex_state e = Init \<or> ex_state e = HoldUp"
      using placedD(1) [OF pl, of p] by (auto simp: suspended_task_def)
    have "task S (sthr s) p" using e by (auto simp: task_def)
    then obtain th' where th': "exec p (sthr s) = Ok th'" "running th' = p"
      using exec_task [OF _ run _ e(2)] e(4) o(1) by (auto simp: sched_ok_def)
    then have "m' = ?m\<lparr>io_world := ?w\<lparr>sch := ?s, thr := th'\<rparr>\<rparr>"
      using turn it Some e(2,4) by (auto simp: loop_turn_def getState_def deref_def)
    then show ?thesis using th'(2) Some switch_same_callbacks(1) [OF th'(1)] by (simp add: io_sch_def)
  qed
qed

section \<open>Turns of the loop\<close>

definition turn_to ::
    "eptr \<Rightarrow> 'k kernel_api \<Rightarrow> ('k \<Rightarrow> fd \<Rightarrow> u32 option) \<Rightarrow> ('u closure thread \<Rightarrow> eptr) \<Rightarrow> ('u, 'k) sys_state \<Rightarrow> ('u, 'k) sys_state \<Rightarrow> bool" where
  "turn_to S api interest alloc s s' \<longleftrightarrow> running (sthr s) = S \<and> (\<forall>t. kernel_waits api interest (smgr s) t)
     \<and> (\<exists>now_before now_after m. now_after 0 \<noteq> - 1 \<and> loop_turn api alloc now_before now_after (smgr s) = Ok m \<and> s' = with_smgr s m)"

text \<open>Any steps, with \<open>n\<close> turns of the loop among them.\<close>

inductive rounds ::
    "eptr \<Rightarrow> 'k kernel_api \<Rightarrow> ('k \<Rightarrow> fd \<Rightarrow> u32 option) \<Rightarrow> fd set \<Rightarrow> ('u closure thread \<Rightarrow> eptr)
      \<Rightarrow> ('u, 'k) sys_state \<Rightarrow> nat \<Rightarrow> ('u, 'k) sys_state \<Rightarrow> bool"
  for S api interest usable alloc s where
  stay: "rounds S api interest usable alloc s 0 s"
| act: "rounds S api interest usable alloc s n s1 \<Longrightarrow> co_step S api interest usable s1 (Ok s2) \<Longrightarrow>
    rounds S api interest usable alloc s n s2"
| turn: "rounds S api interest usable alloc s n s1 \<Longrightarrow> turn_to S api interest alloc s1 s2 \<Longrightarrow>
    rounds S api interest usable alloc s (Suc n) s2"

lemma turn_to_step: "turn_to S api interest alloc s s' \<Longrightarrow> io_step S api interest usable alloc s (Ok s')"
proof -
  assume "turn_to S api interest alloc s s'"
  then obtain now_before m and now_after :: "nat \<Rightarrow> ms" where a: "running (sthr s) = S" "\<forall>t. kernel_waits api interest (smgr s) t"
    "now_after 0 \<noteq> - 1" "loop_turn api alloc now_before now_after (smgr s) = Ok m" "s' = with_smgr s m"
    unfolding turn_to_def by blast
  from io_step.turn [where now_after = now_after and now_before = now_before and alloc = alloc and usable = usable, OF a(1) a(2) [rule_format] a(3)] a(4,5)
  show "io_step S api interest usable alloc s (Ok s')" by simp
qed

lemma rounds_ok:
  assumes "epoll_ctl_ok api interest usable" and "pipe_drains api interest pipe" and "alloc_ok alloc" and "sys_ok S interest usable pipe s"
  shows "rounds S api interest usable alloc s n s' \<Longrightarrow> sys_ok S interest usable pipe s'"
proof (induction rule: rounds.induct)
  case (act n s1 s2)
  then show ?case using co_step_ok [OF assms(1) act(2,3)] by auto
next
  case (turn n s1 s2)
  then show ?case using io_step_ok [OF assms(1-3) turn_to_step [OF turn(2)] turn(3)] by auto
qed (rule assms(4))

lemma queue_advances:
  assumes "epoll_ctl_ok api interest usable" and "pipe_drains api interest pipe" and "alloc_ok alloc" and "sys_ok S interest usable pipe s"
    and q: "queue s = xs @ x # ys"
  shows "rounds S api interest usable alloc s n s' \<Longrightarrow> n \<le> length xs \<Longrightarrow> \<exists>zs. queue s' = drop n xs @ x # zs"
proof (induction rule: rounds.induct)
  case (act n s1 s2)
  then show ?case using co_step_queue [OF act(2) refl] by auto
next
  case (turn n s1 s2)
  then obtain zs where "queue s1 = drop n xs @ x # zs" by auto
  then have zs: "queue s1 = xs ! n # drop (Suc n) xs @ x # zs" using turn(4) Cons_nth_drop_Suc [of n xs] by simp
  note ok = rounds_ok [OF assms(1-4) turn(1)]
  from turn(2) obtain now_before and now_after :: "nat \<Rightarrow> ms" and m where t: "running (sthr s1) = S"
    "\<forall>t. kernel_waits api interest (smgr s1) t" "loop_turn api alloc now_before now_after (smgr s1) = Ok m" "s2 = with_smgr s1 m"
    unfolding turn_to_def by blast
  from loop_turn_queue [OF assms(1-3) ok t(1) t(2) [rule_format] t(3), of "xs ! n"] zs show ?case using t(4) by (auto simp: with_smgr_def)
qed (simp add: q)

text \<open>A coroutine in the queue runs after exactly as many turns as there are entries before it.\<close>

lemma queued_coroutine_runs:
  assumes "epoll_ctl_ok api interest usable" and "pipe_drains api interest pipe" and "alloc_ok alloc" and "sys_ok S interest usable pipe s"
    and "k < length (queue s)" and "queue s ! k = Some p"
    and "rounds S api interest usable alloc s k s1" and "turn_to S api interest alloc s1 s2"
  shows "running (sthr s2) = p"
proof -
  have "queue s = take k (queue s) @ Some p # drop (Suc k) (queue s)" using assms(5,6) id_take_nth_drop [of k "queue s"] by simp
  from queue_advances [OF assms(1-4) this assms(7)] assms(5) obtain zs where zs: "queue s1 = Some p # zs" by auto
  note ok = rounds_ok [OF assms(1-4,7)]
  from assms(8) obtain now_before and now_after :: "nat \<Rightarrow> ms" and m where t: "running (sthr s1) = S"
    "\<forall>t. kernel_waits api interest (smgr s1) t" "loop_turn api alloc now_before now_after (smgr s1) = Ok m" "s2 = with_smgr s1 m"
    unfolding turn_to_def by blast
  from loop_turn_queue [OF assms(1-3) ok t(1) t(2) [rule_format] t(3), of "Some p"] zs show ?thesis using t(4) by (auto simp: with_smgr_def)
qed

text \<open>A turn of an idle loop.\<close>

lemma idle_turn_queue:
  assumes api: "epoll_ctl_ok api interest usable" and dr: "pipe_drains api interest pipe" and al: "alloc_ok alloc"
    and ok: "sys_ok S interest usable pipe s" and idle: "queue s = []" "remote_tasks (io_sch (smgr s)) = []"
    and k: "sys_epoll_wait api epoll_wait_max_size (epoll_timeout now_before (timer_manager (smgr s))) (kern (smgr s)) = (Inr evs, k')"
      "interest k' = interest (kern (smgr s))" "reports_ok interest (smgr s) evs"
    and take: "takeExpiredTimers now_after (timer_manager (smgr s)) = (due, rest)"
    and turn: "loop_turn api alloc now_before now_after (smgr s) = Ok m"
  shows "\<exists>ps. ready_executors (io_sch m) = map Some ps @ concat (map (fired (smgr s)) evs)
    \<and> list_all2 (\<lambda>p t. new_task (thr (io_world m)) p (callback t)) ps due \<and> same_callbacks (sthr s) (thr (io_world m))"
proof -
  note o = mgr_okD [OF sys_okD(1) [OF ok]]
  let ?w = "io_world (smgr s)" and ?s = "(sch (io_world (smgr s)))\<lparr>ready_executors := [], remote_tasks := []\<rparr>"
  have s: "?s = sch ?w" using idle by (simp add: io_sch_def)
  have "sched_iter default_stop_pending_func ?w = Ok (Blocked, ?w)"
    using idle o(4) by (simp add: sched_iter_def stop_pending_def default_stop_pending_func_def scheduleAll_eq ready_pop_def io_sch_def)
  then have "blockPending api alloc now_before now_after (smgr s) = Ok m" using turn by (simp add: loop_turn_def)
  from blockPending_queue [OF api dr al sys_okD(1) [OF ok] k take this] idle(1) show ?thesis by auto
qed

text \<open>A turn keeps the callbacks.\<close>

lemma loop_turn_callbacks:
  assumes api: "epoll_ctl_ok api interest usable" and dr: "pipe_drains api interest pipe" and al: "alloc_ok alloc"
    and ok: "sys_ok S interest usable pipe s" and t: "turn_to S api interest alloc s s'"
  shows "same_callbacks (sthr s) (sthr s')"
proof -
  obtain now_before and now_after :: "nat \<Rightarrow> ms" and m where t: "running (sthr s) = S"
    "\<forall>t. kernel_waits api interest (smgr s) t" "loop_turn api alloc now_before now_after (smgr s) = Ok m" "s' = with_smgr s m"
    using t unfolding turn_to_def by blast
  show ?thesis
  proof (cases "queue s @ map Some (remote_tasks (io_sch (smgr s)))")
    case (Cons x xs)
    from loop_turn_queue [OF api dr al ok t(1) t(2) [rule_format] t(3) this] show ?thesis using t(4) by (auto simp: with_smgr_def)
  next
    case Nil
    then have idle: "queue s = []" "remote_tasks (io_sch (smgr s)) = []" by simp_all
    obtain evs k' where k: "sys_epoll_wait api epoll_wait_max_size (epoll_timeout now_before (timer_manager (smgr s))) (kern (smgr s)) = (Inr evs, k')"
      "interest k' = interest (kern (smgr s))" "reports_ok interest (smgr s) evs"
      using t(2) unfolding kernel_waits_def by blast
    obtain due rest where "takeExpiredTimers now_after (timer_manager (smgr s)) = (due, rest)" by fastforce
    from idle_turn_queue [OF api dr al ok idle k this t(3)] show ?thesis using t(4) by (auto simp: with_smgr_def)
  qed
qed

lemma rounds_callbacks:
  assumes "epoll_ctl_ok api interest usable" and "pipe_drains api interest pipe" and "alloc_ok alloc" and "sys_ok S interest usable pipe s"
  shows "rounds S api interest usable alloc s n s' \<Longrightarrow> same_callbacks (sthr s) (sthr s')"
proof (induction rule: rounds.induct)
  case (act n s1 s2)
  then show ?case using co_step_callbacks [OF act(2) refl rounds_ok [OF assms act(1)]] same_callbacks_trans by blast
next
  case (turn n s1 s2)
  then show ?case using loop_turn_callbacks [OF assms(1-3) rounds_ok [OF assms turn(1)] turn(2)] same_callbacks_trans by blast
qed simp

section \<open>Events\<close>

lemma woken_length: "length (woken ev e) \<le> 2"
  by (simp add: woken_def)

lemma fired_length: "length (concat (map (fired m) evs)) \<le> 2 * length evs"
proof (induction evs)
  case (Cons ev evs)
  have "length (fired m ev) \<le> 2" using woken_length by (simp add: fired_def)
  then show ?case using Cons.IH by simp
qed simp

lemma fired_waiter:
  assumes "side_executor ty (events_at m i) = Some p" and "ty = Read \<or> ty = Write" and "ev AND ty \<noteq> 0" and "i \<noteq> fst (wakeup_pipe_fd m)"
  shows "Some p \<in> set (fired m (i, ev))"
proof -
  have "ev AND ty \<noteq> 0 \<Longrightarrow> ev AND (ty OR x) \<noteq> 0" for x by (auto simp: bit.conj_disj_distrib or_eq_0_iff)
  then show ?thesis
    using assms by (auto simp: fired_def woken_def side_executor_def Read_def Write_def or.assoc EPOLLIN_def EPOLLOUT_def)
qed

text \<open>An idle turn succeeds unless it reads behind the table.\<close>

lemma idle_turn:
  assumes api: "epoll_ctl_ok api interest usable" and dr: "pipe_drains api interest pipe" and al: "alloc_ok alloc"
    and ok: "sys_ok S interest usable pipe s" and run: "running (sthr s) = S" and idle: "queue s = []" "remote_tasks (io_sch (smgr s)) = []"
    and kw: "\<forall>t. kernel_waits api interest (smgr s) t"
    and k: "sys_epoll_wait api epoll_wait_max_size (epoll_timeout now_before (timer_manager (smgr s))) (kern (smgr s)) = (Inr evs, k')"
    and now: "now_after 0 \<noteq> - 1"
  shows "if overruns (smgr s) evs then loop_turn api alloc now_before now_after (smgr s) = Err OutOfBounds
    else \<exists>m. loop_turn api alloc now_before now_after (smgr s) = Ok m \<and> sys_ok S interest usable pipe (with_smgr s m)"
proof -
  note o = mgr_okD [OF sys_okD(1) [OF ok]]
  have r: "interest k' = interest (kern (smgr s))" "reports_ok interest (smgr s) evs"
    using kw [rule_format, of "epoll_timeout now_before (timer_manager (smgr s))"] k by (auto simp: kernel_waits_def)
  have "(sch (io_world (smgr s)))\<lparr>ready_executors := [], remote_tasks := []\<rparr> = sch (io_world (smgr s))" using idle by (simp add: io_sch_def)
  then have "sched_iter default_stop_pending_func (io_world (smgr s)) = Ok (Blocked, io_world (smgr s))"
    using idle o(4) by (simp add: sched_iter_def stop_pending_def default_stop_pending_func_def scheduleAll_eq ready_pop_def io_sch_def)
  then have t: "loop_turn api alloc now_before now_after (smgr s) = blockPending api alloc now_before now_after (smgr s)"
    by (simp add: loop_turn_def)
  show ?thesis
  proof (cases "overruns (smgr s) evs")
    case True
    then show ?thesis using blockPending_overruns [OF api dr al sys_okD(1) [OF ok] k r True] t by simp
  next
    case False
    obtain loc where "placed S (sthr s) (io_sch (smgr s)) (events_at (smgr s)) (timer_manager (smgr s)) loc" using sys_okD(3) [OF ok] by blast
    from blockPending_ok [where now_after = now_after, OF api dr al sys_okD(1) [OF ok] this k r False now]
    obtain m where m: "loop_turn api alloc now_before now_after (smgr s) = Ok m" using t by auto
    from io_step_ok [OF api dr al io_step.turn [where now_after = now_after and now_before = now_before, OF run kw [rule_format] now] ok] m
    have "sys_ok S interest usable pipe (with_smgr s m)" by simp
    then show ?thesis using m False by simp
  qed
qed

text \<open>
  C4. A waiting coroutine is resumed. In any reachable state of the system of Io\_System (one waiter for a direction of a
  descriptor, no timeouts, no permanent events, nobody closes, kills or stops) in which the loop is idle, when the kernel
  reports the event a coroutine waits for, the turn puts it into the ready queue, behind at most one coroutine for each timer
  and two for each reported event; and after exactly as many further turns as there are entries before it, whatever
  steps of that system lie between the turns, the loop switches to it. Only a report that begins with the wake-up pipe while
  the table does not reach the pipe's descriptor makes the turn fail, out of bounds.
\<close>

theorem reported_event_resumes_waiter:
  assumes "epoll_ctl_ok api interest usable" and "pipe_drains api interest pipe" and "alloc_ok alloc"
    and "kernel_starts api interest usable pipe k" and "b \<noteq> S" and "new_system api b S loop k f = Ok s0"
    and "io_reach S api interest usable alloc s0 s" and "running (sthr s) = S" and "queue s = []" and "remote_tasks (io_sch (smgr s)) = []"
    and "side_executor ty (events_at (smgr s) i) = Some p" and "ty = Read \<or> ty = Write"
    and "\<forall>t. kernel_waits api interest (smgr s) t"
    and "sys_epoll_wait api epoll_wait_max_size (epoll_timeout now_before (timer_manager (smgr s))) (kern (smgr s)) = (Inr evs, k')"
    and "(i, ev) \<in> set evs" and "ev AND ty \<noteq> 0" and "now_after 0 \<noteq> - 1"
  shows "if overruns (smgr s) evs then loop_turn api alloc now_before now_after (smgr s) = Err OutOfBounds
    else \<exists>m j. loop_turn api alloc now_before now_after (smgr s) = Ok m \<and> j < length (timer_manager (smgr s)) + 2 * length evs
    \<and> j < length (ready_executors (io_sch m)) \<and> ready_executors (io_sch m) ! j = Some p
    \<and> (\<forall>s1 s2. rounds S api interest usable alloc (with_smgr s m) j s1 \<longrightarrow> turn_to S api interest alloc s1 s2 \<longrightarrow> running (sthr s2) = p)"
proof (cases "overruns (smgr s) evs")
  case False
  have "sys_ok S interest usable pipe s0" using new_system_ok [OF assms(1,4,5), of loop f] assms(6) by auto
  then have ok: "sys_ok S interest usable pipe s" by (rule io_reach_ok [OF assms(1-3,7)])
  note o = mgr_okD [OF sys_okD(1) [OF ok]]
  from idle_turn [where now_after = now_after, OF assms(1-3) ok assms(8-10,13,14,17)] False
  obtain m where m: "loop_turn api alloc now_before now_after (smgr s) = Ok m" "sys_ok S interest usable pipe (with_smgr s m)" by auto
  have r: "interest k' = interest (kern (smgr s))" "reports_ok interest (smgr s) evs"
    using assms(13) [rule_format, of "epoll_timeout now_before (timer_manager (smgr s))"] assms(14) by (auto simp: kernel_waits_def)
  obtain due rest where take: "takeExpiredTimers now_after (timer_manager (smgr s)) = (due, rest)" by fastforce
  from idle_turn_queue [OF assms(1-3) ok assms(9,10,14) r take m(1)] obtain ps where
    q: "ready_executors (io_sch m) = map Some ps @ concat (map (fired (smgr s)) evs)"
      "list_all2 (\<lambda>p t. new_task (thr (io_world m)) p (callback t)) ps due" by blast
  obtain loc where loc: "placed S (sthr s) (io_sch (smgr s)) (events_at (smgr s)) (timer_manager (smgr s)) loc" "loc_ok (pend s) loc"
    using sys_okD(3) [OF ok] by blast
  have l: "loc p = AtFd i ty" using placedD(4) [OF loc(1), of p i ty] assms(11,12) by simp
  obtain flag t g where "pend s p = Some (Waiting flag t i ty g)" using loc(2) [unfolded loc_ok_def, rule_format, of p] l by auto
  then have "wait_ok interest usable pipe (flags (st s)) (Waiting flag t i ty g)" using sys_okD(2) [OF ok] unfolding pend_ok_def by blast
  then have "i \<noteq> fst (wakeup_pipe_fd (smgr s))" using o(9) by (simp add: wait_ok_def)
  from fired_waiter [OF assms(11,12,16) this] have "Some p \<in> set (ready_executors (io_sch m))" using q(1) assms(15) by auto
  then obtain j where j: "j < length (ready_executors (io_sch m))" "ready_executors (io_sch m) ! j = Some p" by (auto simp: in_set_conv_nth)
  have "length ps = length due" using q(2) by (rule list_all2_lengthD)
  moreover have "length due \<le> length (timer_manager (smgr s))" using take takeExpiredTimers_eq [OF o(7)] by auto
  ultimately have "length (ready_executors (io_sch m)) \<le> length (timer_manager (smgr s)) + 2 * length evs"
    using fired_length [of "smgr s" evs] q(1) by simp
  moreover have "running (sthr s2) = p" if "rounds S api interest usable alloc (with_smgr s m) j s1" "turn_to S api interest alloc s1 s2" for s1 s2
    using queued_coroutine_runs [OF assms(1-3) m(2) _ _ that] j by (simp add: with_smgr_def)
  ultimately have "\<exists>m j. loop_turn api alloc now_before now_after (smgr s) = Ok m \<and> j < length (timer_manager (smgr s)) + 2 * length evs
    \<and> j < length (ready_executors (io_sch m)) \<and> ready_executors (io_sch m) ! j = Some p
    \<and> (\<forall>s1 s2. rounds S api interest usable alloc (with_smgr s m) j s1 \<longrightarrow> turn_to S api interest alloc s1 s2 \<longrightarrow> running (sthr s2) = p)"
    using m(1) j by (intro exI [of _ m] exI [of _ j]) auto
  then show ?thesis using False by simp
next
  case True
  have "sys_ok S interest usable pipe s0" using new_system_ok [OF assms(1,4,5), of loop f] assms(6) by auto
  then have "sys_ok S interest usable pipe s" by (rule io_reach_ok [OF assms(1-3,7)])
  from idle_turn [where now_after = now_after, OF assms(1-3) this assms(8-10,13,14,17)] True show ?thesis by simp
qed

section \<open>Timers\<close>

lemma alarm_step:
  assumes ok: "sys_ok S interest usable pipe s" and run: "running (sthr s) \<noteq> S"
    and e: "heap (sthr s) (running (sthr s)) = Some e" "ex_callback e = Some (SleepOver p)"
  shows "\<exists>s'. res_bind (run_closure api (SleepOver p) (st s)) (\<lambda>c. finish (s\<lparr>st := c\<rparr>)) = Ok s' \<and> sys_ok S interest usable pipe s'
    \<and> running (sthr s') = S \<and> queue s' = queue s @ [Some p]"
proof -
  note o = mgr_okD [OF sys_okD(1) [OF ok]]
  obtain s' where s': "res_bind (run_closure api (SleepOver p) (st s)) (\<lambda>c. finish (s\<lparr>st := c\<rparr>)) = Ok s'" "sys_ok S interest usable pipe s'"
    using alarm_ok [OF ok run e, of api] by (elim exE conjE)
  let ?s = "s\<lparr>st := (st s)\<lparr>mgr := io_addExecutor (Some p) (smgr s)\<rparr>\<rparr>"
  have f: "finish ?s = Ok s'" using s'(1) by (simp add: run_closure_def)
  have "queue ?s = queue s @ [Some p]"
    using o(4) by (simp add: io_addExecutor_def addExecutor_def ready_push_def upd_sch_def io_sch_def)
  moreover obtain th where "executorMainFunc_end (sthr s) = Ok th" "running th = S" using coroutine_ends [OF o(1) run] by blast
  then have "running (sthr s') = S"
    using f by (auto simp: finish_def added_thread sched_back_def with_smgr_def getState_def deref_def split: option.splits if_splits)
  ultimately show ?thesis using s' finish_sch [OF f] by auto
qed

lemma queued_not_loop:
  assumes ok: "sys_ok S interest usable pipe s" and "k < length (queue s)" and "queue s ! k = Some q"
  shows "q \<noteq> S"
proof -
  obtain loc where loc: "placed S (sthr s) (io_sch (smgr s)) (events_at (smgr s)) (timer_manager (smgr s)) loc" using sys_okD(3) [OF ok] by blast
  have "Some q \<in> set (queue s)" using assms(2,3) by (metis nth_mem)
  then have "count_list (queue s) (Some q) \<noteq> 0" by (simp add: count_list_0_iff)
  then have "loc q \<noteq> Nowhere" using placedD(2) [OF loc, of q] by (cases "loc q = Nowhere") simp_all
  then show ?thesis using placedD(1) [OF loc, of q] by (simp add: suspended_task_def)
qed

text \<open>
  C5. A sleeping coroutine is resumed. In any reachable state of the system of Io\_System (one waiter for a direction of a
  descriptor, no timeouts, no permanent events, nobody closes, kills or stops) in which the loop is idle, when a turn comes after the
  deadline of a sleep, it queues a coroutine for the sleep's timer. After exactly as many further turns as there are
  entries before that one, whatever steps of that system lie between them, the loop switches to it; what it executes is the
  timer's callback, which succeeds, puts the sleeper at the end of the queue and gives control back to the loop; and
  after as many turns again as there are entries before the sleeper, the loop switches to the sleeper. Only a report that
  begins with the wake-up pipe while the table does not reach the pipe's descriptor, and goes on with a descriptor
  that is readable or writable, makes the turn fail, out of bounds; the pipe alone does not.
\<close>

theorem due_sleeper_resumes:
  assumes "epoll_ctl_ok api interest usable" and "pipe_drains api interest pipe" and "alloc_ok alloc"
    and "kernel_starts api interest usable pipe k" and "b \<noteq> S" and "new_system api b S loop k f = Ok s0"
    and "io_reach S api interest usable alloc s0 s" and "running (sthr s) = S" and "queue s = []" and "remote_tasks (io_sch (smgr s)) = []"
    and "t \<in> set (timer_manager (smgr s))" and "callback t = Some (SleepOver p)" and "target_timestamp t \<le> now_after 0"
    and "\<forall>t. kernel_waits api interest (smgr s) t" and "now_after 0 \<noteq> - 1"
    and "sys_epoll_wait api epoll_wait_max_size (epoll_timeout now_before (timer_manager (smgr s))) (kern (smgr s)) = (Inr evs, k')"
  shows "if overruns (smgr s) evs then loop_turn api alloc now_before now_after (smgr s) = Err OutOfBounds
    else \<exists>m j q. loop_turn api alloc now_before now_after (smgr s) = Ok m
    \<and> j < length (timer_manager (smgr s)) \<and> ready_executors (io_sch m) ! j = Some q
    \<and> (\<forall>s1 s2. rounds S api interest usable alloc (with_smgr s m) j s1 \<longrightarrow> turn_to S api interest alloc s1 s2 \<longrightarrow>
         running (sthr s2) = q \<and> (\<exists>e s3. heap (sthr s2) q = Some e \<and> ex_callback e = Some (SleepOver p)
           \<and> res_bind (run_closure api (SleepOver p) (st s2)) (\<lambda>c. finish (s2\<lparr>st := c\<rparr>)) = Ok s3
           \<and> running (sthr s3) = S \<and> queue s3 = queue s2 @ [Some p]
           \<and> (\<forall>s4 s5. rounds S api interest usable alloc s3 (length (queue s2)) s4 \<longrightarrow> turn_to S api interest alloc s4 s5 \<longrightarrow>
                running (sthr s5) = p)))"
proof (cases "overruns (smgr s) evs")
  case False
  have "sys_ok S interest usable pipe s0" using new_system_ok [OF assms(1,4,5), of loop f] assms(6) by auto
  then have ok: "sys_ok S interest usable pipe s" by (rule io_reach_ok [OF assms(1-3,7)])
  note o = mgr_okD [OF sys_okD(1) [OF ok]]
  from idle_turn [where now_after = now_after, OF assms(1-3) ok assms(8-10,14,16,15)] False
  obtain m where m: "loop_turn api alloc now_before now_after (smgr s) = Ok m" "sys_ok S interest usable pipe (with_smgr s m)" by auto
  have r: "interest k' = interest (kern (smgr s))" "reports_ok interest (smgr s) evs"
    using assms(14) [rule_format, of "epoll_timeout now_before (timer_manager (smgr s))"] assms(16) by (auto simp: kernel_waits_def)
  obtain due rest where take: "takeExpiredTimers now_after (timer_manager (smgr s)) = (due, rest)" by fastforce
  then have due: "due = filter (expired (now_after 0)) (timer_manager (smgr s))" using takeExpiredTimers_eq [OF o(7), of now_after] by simp
  from idle_turn_queue [OF assms(1-3) ok assms(9,10,16) r take m(1)] obtain ps where
    q: "ready_executors (io_sch m) = map Some ps @ concat (map (fired (smgr s)) evs)"
      "list_all2 (\<lambda>p t. new_task (thr (io_world m)) p (callback t)) ps due" by blast
  have "t \<in> set due" using assms(11,13) due by (simp add: expired_def)
  then obtain j where j: "j < length due" "due ! j = t" by (auto simp: in_set_conv_nth)
  have l: "length ps = length due" "length due \<le> length (timer_manager (smgr s))" using q(2) due by (simp_all add: list_all2_lengthD)
  have j': "j < length (queue (with_smgr s m))" "queue (with_smgr s m) ! j = Some (ps ! j)"
    using j(1) l(1) q(1) by (simp_all add: with_smgr_def nth_append)
  have "new_task (thr (io_world m)) (ps ! j) (Some (SleepOver p))" using list_all2_nthD2 [OF q(2) j(1)] j(2) assms(12) by simp
  then obtain e0 where e0: "heap (sthr (with_smgr s m)) (ps ! j) = Some e0" "ex_callback e0 = Some (SleepOver p)"
    by (auto simp: new_task_def with_smgr_def split: option.splits)
  note ns = queued_not_loop [OF m(2) j']
  have "running (sthr s2) = ps ! j \<and> (\<exists>e s3. heap (sthr s2) (ps ! j) = Some e \<and> ex_callback e = Some (SleepOver p)
      \<and> res_bind (run_closure api (SleepOver p) (st s2)) (\<lambda>c. finish (s2\<lparr>st := c\<rparr>)) = Ok s3
      \<and> running (sthr s3) = S \<and> queue s3 = queue s2 @ [Some p]
      \<and> (\<forall>s4 s5. rounds S api interest usable alloc s3 (length (queue s2)) s4 \<longrightarrow> turn_to S api interest alloc s4 s5 \<longrightarrow> running (sthr s5) = p))"
    if t: "rounds S api interest usable alloc (with_smgr s m) j s1" "turn_to S api interest alloc s1 s2" for s1 s2
  proof -
    have run: "running (sthr s2) = ps ! j" by (rule queued_coroutine_runs [OF assms(1-3) m(2) j' t])
    note t2 = rounds.turn [OF t]
    note ok2 = rounds_ok [OF assms(1-3) m(2) t2]
    obtain e where e: "heap (sthr s2) (ps ! j) = Some e" "ex_callback e = Some (SleepOver p)"
      using rounds_callbacks [OF assms(1-3) m(2) t2] e0 unfolding same_callbacks_def by metis
    obtain s3 where s3: "res_bind (run_closure api (SleepOver p) (st s2)) (\<lambda>c. finish (s2\<lparr>st := c\<rparr>)) = Ok s3"
      "sys_ok S interest usable pipe s3" "running (sthr s3) = S" "queue s3 = queue s2 @ [Some p]"
      using alarm_step [where api = api, OF ok2 _ _ e(2), unfolded run, OF ns e(1)] by (elim exE conjE)
    have "running (sthr s5) = p" if "rounds S api interest usable alloc s3 (length (queue s2)) s4" "turn_to S api interest alloc s4 s5" for s4 s5
      using queued_coroutine_runs [OF assms(1-3) s3(2) _ _ that, of p] s3(4) by simp
    then show ?thesis using run e s3(1,3,4) by (intro conjI exI [of _ e] exI [of _ s3] allI impI) simp_all
  qed
  moreover have "j < length (timer_manager (smgr s))" "ready_executors (io_sch m) ! j = Some (ps ! j)"
    using j(1) l j'(2) by (simp_all add: with_smgr_def)
  ultimately show ?thesis unfolding if_not_P [OF False] using m(1) by (intro exI [of _ m] exI [of _ j] exI [of _ "ps ! j"]) simp
next
  case True
  have "sys_ok S interest usable pipe s0" using new_system_ok [OF assms(1,4,5), of loop f] assms(6) by auto
  then have "sys_ok S interest usable pipe s" by (rule io_reach_ok [OF assms(1-3,7)])
  from idle_turn [where now_after = now_after, OF assms(1-3) this assms(8-10,14,16,15)] True show ?thesis by simp
qed

section \<open>A concrete run\<close>

text \<open>A kernel that reports descriptor 7 readable as long as it is watched, and a table in which 7 is a socket.\<close>

definition seven_api :: "(fd \<Rightarrow> u32 option) kernel_api" where
  "seven_api = demo_api\<lparr>sys_epoll_wait := \<lambda>_ _ k. (Inr (if k 7 = None then [] else [(7, EPOLLIN)]), k)\<rparr>"

definition seven_fds :: fd_contexts where
  "seven_fds = replicate 7 None @ [Some (FdContext_new True)]"

lemma seven_api_ok: "epoll_ctl_ok seven_api (\<lambda>k. k) UNIV"
  using demo_api_ok by (simp add: epoll_ctl_ok_def seven_api_def)

lemma seven_api_drains: "pipe_drains seven_api (\<lambda>k. k) 4"
  unfolding pipe_drains_def by (subst drain_pipe.simps) (simp add: seven_api_def demo_api_def)

lemma seven_starts: "kernel_starts seven_api (\<lambda>k. k) UNIV 4 (\<lambda>_. None)"
  by (simp add: kernel_starts_def seven_api_def)

lemma seven_context: "getContext 7 seven_fds = Ok (Some (FdContext_new True))"
  by (simp add: getContext_def seven_fds_def vec_get_def nth_append)

lemma seven_waits: "kernel_waits seven_api (\<lambda>k. k) m t"
  by (auto simp: kernel_waits_def seven_api_def reports_ok_def)

lemma seven_no_overrun:
  assumes "mgr_ok S (\<lambda>k. k) 4 m"
  shows "\<not> overruns m [(7, ev)]" and "\<not> overruns m []"
  using mgr_okD(9) [OF assms] by (simp_all add: overruns_def)

abbreviation seven_reach :: "(unit closure thread \<Rightarrow> eptr) \<Rightarrow> (unit, fd \<Rightarrow> u32 option) sys_state \<Rightarrow> (unit, fd \<Rightarrow> u32 option) sys_state \<Rightarrow> bool" where
  "seven_reach \<equiv> io_reach 3 seven_api (\<lambda>k. k) UNIV"

text \<open>The coroutine 9 is switched to.\<close>

lemma seven_running:
  assumes al: "alloc_ok alloc"
  shows "\<exists>s0 s2. new_system seven_api 2 3 (UserCallback ()) (\<lambda>_. None) seven_fds = Ok s0 \<and> seven_reach alloc s0 s2
     \<and> sys_ok 3 (\<lambda>k. k) UNIV 4 s2 \<and> acting 3 s2 \<and> running (sthr s2) = 9 \<and> queue s2 = [] \<and> remote_tasks (io_sch (smgr s2)) = []
     \<and> fds (st s2) = seven_fds \<and> flags (st s2) = (\<lambda>_. None) \<and> fd_events (smgr s2) = [] \<and> timer_manager (smgr s2) = []"
proof -
  obtain s0 s1 where s1: "new_system seven_api 2 3 (UserCallback ()) (\<lambda>_. None) seven_fds = Ok s0" "co_step 3 seven_api (\<lambda>k. k) UNIV s0 (Ok s1)"
    "sys_ok 3 (\<lambda>k. k) UNIV 4 s1" "running (sthr s1) = 3" "queue s1 = []" "remote_tasks (io_sch (smgr s1)) = [9]" "pend s1 = (\<lambda>_. None)"
    "fds (st s1) = seven_fds" "flags (st s1) = (\<lambda>_. None)" "fd_events (smgr s1) = []" "timer_manager (smgr s1) = []"
    "\<exists>e. heap (sthr s1) 9 = Some e \<and> ex_callback e = Some (UserCallback ())"
    using first_spawned [OF seven_api_ok seven_starts, of 2 3 9 1 "UserCallback ()" seven_fds "()"] by (auto simp: seven_api_def demo_api_def)
  have kw: "kernel_waits seven_api (\<lambda>k. k) (smgr s1) t" for t by (rule seven_waits)
  note st = io_step.turn [where now_after = "\<lambda>_. 0" and now_before = "\<lambda>_. 0" and alloc = alloc and usable = UNIV, OF s1(4) kw, simplified]
  have "\<not> overrun_due seven_api (smgr s1)"
    using seven_no_overrun [OF sys_okD(1) [OF s1(3)]] by (auto simp: overrun_due_def seven_api_def split: if_splits)
  with io_step_ok [OF seven_api_ok seven_api_drains al st s1(3)]
  obtain m where m: "loop_turn seven_api alloc (\<lambda>_. 0) (\<lambda>_. 0) (smgr s1) = Ok m" "sys_ok 3 (\<lambda>k. k) UNIV 4 (with_smgr s1 m)" by auto
  from loop_turn_queue [OF seven_api_ok seven_api_drains al s1(3,4) kw m(1), of "Some 9" "[]"] s1(5,6)
  have q: "ready_executors (io_sch m) = []" "same_callbacks (sthr s1) (thr (io_world m))" "running (thr (io_world m)) = 9"
    "remote_tasks (io_sch m) = []" "m = (smgr s1)\<lparr>io_world := io_world m\<rparr>" by auto
  have "fd_events m = []" "timer_manager m = []" using arg_cong [OF q(5), of fd_events] arg_cong [OF q(5), of timer_manager] s1(10,11) by simp_all
  moreover have "\<exists>e. heap (thr (io_world m)) 9 = Some e \<and> ex_callback e = Some (UserCallback ())"
    using s1(12) q(2) unfolding same_callbacks_def by metis
  then have "acting 3 (with_smgr s1 m)" using s1(7) q(3) by (auto simp: acting_def with_smgr_def)
  moreover have "seven_reach alloc s0 (with_smgr s1 m)" using io_reach.step [OF io_reach.step [OF io_reach.start io_step.act [OF s1(2)]]] st m(1) by simp
  ultimately show ?thesis using s1(1,8,9) m(2) q by (intro exI [of _ s0] exI [of _ "with_smgr s1 m"]) (simp add: with_smgr_def)
qed

text \<open>It calls \<open>read\<close> on the socket and waits, or it sleeps.\<close>

lemma seven_waiting:
  assumes al: "alloc_ok alloc"
  shows "\<exists>s0 s3. new_system seven_api 2 3 (UserCallback ()) (\<lambda>_. None) seven_fds = Ok s0 \<and> seven_reach alloc s0 s3
     \<and> sys_ok 3 (\<lambda>k. k) UNIV 4 s3 \<and> running (sthr s3) = 3 \<and> queue s3 = [] \<and> remote_tasks (io_sch (smgr s3)) = []
     \<and> side_executor Read (events_at (smgr s3) 7) = Some 9 \<and> kern (smgr s3) 7 \<noteq> None \<and> length (timer_manager (smgr s3)) = 1"
proof -
  obtain s0 s2 where s2: "new_system seven_api 2 3 (UserCallback ()) (\<lambda>_. None) seven_fds = Ok s0" "seven_reach alloc s0 s2"
    "sys_ok 3 (\<lambda>k. k) UNIV 4 s2" "acting 3 s2" "running (sthr s2) = 9" "queue s2 = []" "remote_tasks (io_sch (smgr s2)) = []"
    "fds (st s2) = seven_fds" "flags (st s2) = (\<lambda>_. None)" "fd_events (smgr s2) = []" "timer_manager (smgr s2) = []"
    using seven_running [OF al] by blast
  note o = mgr_okD [OF sys_okD(1) [OF s2(3)]]
  let ?read = "\<lambda>k :: fd \<Rightarrow> u32 option. (Inl EAGAIN, k)"
  have x: "is_socket (FdContext_new True)" "\<not> is_user_non_block (FdContext_new True)" "io_timeout_of Read (FdContext_new True) = - 1"
    by (simp_all add: FdContext_new_def FdContext_default_def io_timeout_of_def)
  have co: "in_coroutine 3 (st s2)" using sys_ok_coop [OF s2(3)] s2(5) by (simp add: in_coroutine_def co_thread_def)
  from ioInner_waits [OF seven_api_ok o(2,3) _ _ _ _ x(1,2), where i = 7 and func = ?read and k = "kern (smgr s2)" and type = Read and S = 3
      and fresh = 0 and now = 0 and flag = 0] o(9) s2(8) seven_context co
  obtain c' t where c': "ioInner seven_api 0 0 0 7 Read ?read (st s2) = Ok (IoWait 0 t, c')"
    "side_executor Read (events_at (mgr c') 7) = Some 9" "hasEvent 7 Read (mgr c') = Ok True" "suspended_in 3 9 c'" "watch_ok (\<lambda>k. k) (mgr c')"
    "timer_manager (mgr c') = ms_insert t []" "wakeup_pipe_fd (mgr c') = wakeup_pipe_fd (smgr s2)"
    using s2(5,11) by (auto simp: co_thread_def)
  have "quiet (\<lambda>k. k) ?read" by (simp add: quiet_def invoked_done)
  then have "may_wait (\<lambda>k. k) UNIV s2 7 Read ?read"
    using o(9) s2(10) by (simp add: may_wait_def side_executor_def events_at_def FdEvents_default_def)
  from co_step.call [OF s2(4) this, where flag = 0 and fresh = 0 and now = 0 and api = seven_api] s2(8,9) seven_context x(3)
  have st: "co_step 3 seven_api (\<lambda>k. k) UNIV s2 (Ok (settle s2 9 7 Read ?read (IoWait 0 t, c')))" using c'(1) s2(5) by simp
  have "sys_ok 3 (\<lambda>k. k) UNIV 4 (settle s2 9 7 Read ?read (IoWait 0 t, c'))" using co_step_ok [OF seven_api_ok st s2(3)] by auto
  moreover have "io_sch (mgr c') = io_sch (smgr s2)" by (rule call_sch(1) [OF c'(1)])
  moreover have "kern (mgr c') 7 \<noteq> None"
    using c'(3,5,7) o(9) by (auto simp: watch_ok_alt watched_def hasEvent_eq dest!: spec [of _ 7] split: if_splits)
  moreover have "length (timer_manager (mgr c')) = 1" using c'(6) by simp
  ultimately show ?thesis using s2(1,6,7) c'(2,4) io_reach.step [OF s2(2) io_step.act [OF st]]
    by (intro exI [of _ s0] exI [of _ "settle s2 9 7 Read ?read (IoWait 0 t, c')"]) (simp add: settle_def suspended_in_def co_thread_def)
qed

lemma seven_asleep:
  assumes al: "alloc_ok alloc"
  shows "\<exists>s0 s3. new_system seven_api 2 3 (UserCallback ()) (\<lambda>_. None) seven_fds = Ok s0 \<and> seven_reach alloc s0 s3
     \<and> sys_ok 3 (\<lambda>k. k) UNIV 4 s3 \<and> running (sthr s3) = 3 \<and> queue s3 = [] \<and> remote_tasks (io_sch (smgr s3)) = []
     \<and> timer_manager (smgr s3) = [new_timer 0 5000 (Some (SleepOver 9)) False]"
proof -
  obtain s0 s2 where s2: "new_system seven_api 2 3 (UserCallback ()) (\<lambda>_. None) seven_fds = Ok s0" "seven_reach alloc s0 s2"
    "sys_ok 3 (\<lambda>k. k) UNIV 4 s2" "acting 3 s2" "running (sthr s2) = 9" "queue s2 = []" "remote_tasks (io_sch (smgr s2)) = []"
    "timer_manager (smgr s2) = []"
    using seven_running [OF al] by blast
  note o = mgr_okD [OF sys_okD(1) [OF s2(3)]]
  have co: "in_coroutine 3 (st s2)" using sys_ok_coop [OF s2(3)] s2(5) by (simp add: in_coroutine_def co_thread_def)
  from co_sleep_suspends [OF co, of 0 5 0] o(3) s2(5,8)
  obtain c' where c': "sleepInner 0 0 5000 (st s2) = Ok c'" "suspended_in 3 9 c'"
    "timer_manager (mgr c') = [new_timer 0 5000 (Some (SleepOver 9)) False]"
    by (auto simp: Let_def co_sleep_def co_thread_def with_thread_def)
  let ?s = "s2\<lparr>st := c', pend := (pend s2)(9 \<mapsto> Sleeping)\<rparr>"
  from co_step.sleep [OF s2(4), where now = 0 and ms = 5000 and fresh = 0 and api = seven_api and interest = "\<lambda>k. k" and usable = UNIV] c'(1) s2(5)
  have st: "co_step 3 seven_api (\<lambda>k. k) UNIV s2 (Ok ?s)" by simp
  have "sys_ok 3 (\<lambda>k. k) UNIV 4 ?s" using co_step_ok [OF seven_api_ok st s2(3)] by auto
  moreover have "io_sch (mgr c') = io_sch (smgr s2)" by (rule call_sch(3) [OF c'(1)])
  ultimately show ?thesis using s2(1,6,7) c'(2,3) io_reach.step [OF s2(2) io_step.act [OF st]]
    by (intro exI [of _ s0] exI [of _ ?s]) (simp add: suspended_in_def co_thread_def)
qed

theorem reported_event_resumes_waiter_witness:
  "\<exists>s0 s m j. new_system seven_api 2 3 (UserCallback ()) (\<lambda>_. None) seven_fds = Ok s0
     \<and> seven_reach (\<lambda>th. LEAST p. heap th p = None) s0 s \<and> side_executor Read (events_at (smgr s) 7) = Some 9
     \<and> loop_turn seven_api (\<lambda>th. LEAST p. heap th p = None) (\<lambda>_. 0) (\<lambda>_. 0) (smgr s) = Ok m
     \<and> j < (3 :: nat) \<and> ready_executors (io_sch m) ! j = Some 9"
proof -
  let ?alloc = "\<lambda>th :: unit closure thread. LEAST p. heap th p = None"
  obtain s0 s where s: "new_system seven_api 2 3 (UserCallback ()) (\<lambda>_. None) seven_fds = Ok s0" "seven_reach ?alloc s0 s"
    "sys_ok 3 (\<lambda>k. k) UNIV 4 s" "running (sthr s) = 3" "queue s = []" "remote_tasks (io_sch (smgr s)) = []"
    "side_executor Read (events_at (smgr s) 7) = Some 9" "kern (smgr s) 7 \<noteq> None" "length (timer_manager (smgr s)) = 1"
    using seven_waiting [OF least_alloc_ok] by blast
  have kw: "\<forall>t. kernel_waits seven_api (\<lambda>k. k) (smgr s) t" using seven_waits by blast
  have ev: "EPOLLIN AND Read \<noteq> 0" by (simp add: Read_def EPOLLIN_def)
  have w: "sys_epoll_wait seven_api epoll_wait_max_size (epoll_timeout (\<lambda>_. 0) (timer_manager (smgr s))) (kern (smgr s)) = (Inr [(7, EPOLLIN)], kern (smgr s))"
    using s(8) by (simp add: seven_api_def)
  from reported_event_resumes_waiter [where now_after = "\<lambda>_. 0" and now_before = "\<lambda>_. 0" and alloc = ?alloc and ev = EPOLLIN,
      OF seven_api_ok seven_api_drains least_alloc_ok seven_starts _ s(1,2,4-7) _ kw w _ ev]
  obtain m j where "loop_turn seven_api ?alloc (\<lambda>_. 0) (\<lambda>_. 0) (smgr s) = Ok m" "j < 3" "ready_executors (io_sch m) ! j = Some 9"
    using s(9) seven_no_overrun(1) [OF sys_okD(1) [OF s(3)]] by (auto simp: numeral_3_eq_3)
  then show ?thesis using s(1,2,7) by (intro exI [of _ s0] exI [of _ s] exI [of _ m] exI [of _ j]) simp
qed

theorem due_sleeper_resumes_witness:
  "\<exists>s0 s m j q. new_system seven_api 2 3 (UserCallback ()) (\<lambda>_. None) seven_fds = Ok s0
     \<and> seven_reach (\<lambda>th. LEAST p. heap th p = None) s0 s \<and> timer_manager (smgr s) = [new_timer 0 5000 (Some (SleepOver 9)) False]
     \<and> loop_turn seven_api (\<lambda>th. LEAST p. heap th p = None) (\<lambda>_. 0) (\<lambda>_. 5000) (smgr s) = Ok m
     \<and> j < (1 :: nat) \<and> ready_executors (io_sch m) ! j = Some q"
proof -
  let ?alloc = "\<lambda>th :: unit closure thread. LEAST p. heap th p = None"
  obtain s0 s where s: "new_system seven_api 2 3 (UserCallback ()) (\<lambda>_. None) seven_fds = Ok s0" "seven_reach ?alloc s0 s"
    "sys_ok 3 (\<lambda>k. k) UNIV 4 s" "running (sthr s) = 3" "queue s = []" "remote_tasks (io_sch (smgr s)) = []"
    "timer_manager (smgr s) = [new_timer 0 5000 (Some (SleepOver 9)) False]"
    using seven_asleep [OF least_alloc_ok] by blast
  have kw: "\<forall>t. kernel_waits seven_api (\<lambda>k. k) (smgr s) t" using seven_waits by blast
  have t: "new_timer 0 5000 (Some (SleepOver 9)) False \<in> set (timer_manager (smgr s))" using s(7) by simp
  let ?evs = "if kern (smgr s) 7 = None then [] else [(7 :: fd, EPOLLIN)]"
  have w: "sys_epoll_wait seven_api epoll_wait_max_size (epoll_timeout (\<lambda>_. 0) (timer_manager (smgr s))) (kern (smgr s)) = (Inr ?evs, kern (smgr s))"
    by (simp add: seven_api_def)
  have n: "\<not> overruns (smgr s) ?evs" using seven_no_overrun [OF sys_okD(1) [OF s(3)]] by simp
  from due_sleeper_resumes [where now_after = "\<lambda>_. 5000" and now_before = "\<lambda>_. 0" and alloc = ?alloc,
      OF seven_api_ok seven_api_drains least_alloc_ok seven_starts _ s(1,2,4-6) t _ _ kw _ w]
  obtain m j q where "loop_turn seven_api ?alloc (\<lambda>_. 0) (\<lambda>_. 5000) (smgr s) = Ok m" "j < 1" "ready_executors (io_sch m) ! j = Some q"
    unfolding if_not_P [OF n] using s(7) by (auto simp: new_timer_def)
  then show ?thesis using s(1,2,7) by (intro exI [of _ s0] exI [of _ s] exI [of _ m] exI [of _ j] exI [of _ q]) simp
qed

end
