(* ===== verification/Lang_Support.thy ===== *)
theory Lang_Support
  imports Text_Util
begin

text \<open>
  The small classes beside the components: exceptions (include/base/expection.h,
  include/config/config\_exception.h), views and pointers of strings (include/base/lstring.h), the
  task queue of include/coroutine/blancer.h, and the sizes of include/base/buffer.h and include/base/typedef.h.
  A \<open>const char*\<close> is read up to its first zero byte.
\<close>

section \<open>Exceptions\<close>

definition c_str :: "string \<Rightarrow> string" where
  "c_str s = takeWhile (\<lambda>c. c \<noteq> CHR 0x00) s"

record Exception =
  what_text :: string \<comment> \<open>\<open>what_\<close>\<close>

definition Exception_new :: "string \<Rightarrow> Exception" where
  "Exception_new s = \<lparr>what_text = s\<rparr>"

definition Exception_what :: "Exception \<Rightarrow> string" where
  "Exception_what e = c_str (what_text e)"

definition ExecFailed_new :: "string \<Rightarrow> Exception" where
  "ExecFailed_new s = Exception_new s"

definition KeyNotFound_new :: "string \<Rightarrow> Exception" where
  "KeyNotFound_new s = Exception_new s"

definition ConvertFailed_new :: "string \<Rightarrow> Exception" where
  "ConvertFailed_new s = Exception_new s"

lemma c_str_plain: "CHR 0x00 \<notin> set s \<Longrightarrow> c_str s = s"
  unfolding c_str_def by (rule takeWhile_eq_all_conv [THEN iffD2]) auto

lemma c_str_cut: "c_str (s @ CHR 0x00 # t) = c_str s"
  by (induction s) (simp_all add: c_str_def)

text \<open>An exception reports its text, up to a zero byte in it.\<close>

theorem what_reports_text:
  "CHR 0x00 \<notin> set s \<Longrightarrow> Exception_what (Exception_new s) = s"
  "Exception_what (ExecFailed_new (s @ CHR 0x00 # t)) = Exception_what (ExecFailed_new s)"
  by (simp_all add: Exception_what_def Exception_new_def ExecFailed_new_def c_str_plain c_str_cut)

section \<open>Strings\<close>

text \<open>
  \<open>toStringPiece\<close> dereferences its first iterator, which the end of the string does not allow; the
  length is a \<open>size_t\<close>. A \<open>StringArg\<close> keeps a pointer to the characters.
\<close>

definition toStringPiece :: "string \<Rightarrow> nat \<Rightarrow> nat \<Rightarrow> piece res" where
  "toStringPiece s b e =
     (if b < length s then Ok (b, word_of_nat e - word_of_nat b) else Err OutOfBounds)"

definition StringArg_string :: "string \<Rightarrow> string" where
  "StringArg_string s = c_str s"

theorem toStringPiece_range:
  assumes "b < length s" and "b \<le> e" and "e \<le> length s" and "length s < 2 ^ 64"
  shows "res_bind (toStringPiece s b e) (piece_str s) = Ok (take (e - b) (drop b s))"
proof -
  have "word_of_nat e - word_of_nat b = (word_of_nat (e - b) :: u64)" using assms(2) by (simp add: of_nat_diff)
  moreover have "unat (word_of_nat (e - b) :: u64) = e - b" using assms(3,4) by (simp add: unat_of_nat_u64)
  ultimately show ?thesis using assms by (simp add: toStringPiece_def piece_str_def)
qed

theorem toStringPiece_empty_fails: "toStringPiece s (length s) (length s) = Err OutOfBounds"
  by (simp add: toStringPiece_def)

section \<open>Task queue\<close>

record 'cb Blancer =
  bl_tasks :: "'cb list" \<comment> \<open>\<open>tasks_\<close>\<close>

definition Blancer_push :: "'cb \<Rightarrow> 'cb Blancer \<Rightarrow> 'cb Blancer" where
  "Blancer_push task b = b\<lparr>bl_tasks := bl_tasks b @ [task]\<rparr>"

definition pendingTaskCount :: "'cb Blancer \<Rightarrow> nat" where
  "pendingTaskCount b = length (bl_tasks b)"

theorem pushed_tasks_pending:
  "bl_tasks (fold Blancer_push ts b) = bl_tasks b @ ts"
  "pendingTaskCount (fold Blancer_push ts b) = pendingTaskCount b + length ts"
proof -
  show 1: "bl_tasks (fold Blancer_push ts b) = bl_tasks b @ ts" by (induction ts arbitrary: b) (simp_all add: Blancer_push_def)
  show "pendingTaskCount (fold Blancer_push ts b) = pendingTaskCount b + length ts" by (simp add: pendingTaskCount_def 1)
qed

section \<open>Sizes\<close>

definition kSmallBufferSize :: u32 where "kSmallBufferSize = 4096"
definition kLargeBufferSize :: u32 where "kLargeBufferSize = kSmallBufferSize * 1024"

text \<open>The template arguments of the two buffer types.\<close>

definition SmallBuffer_size :: u32 where "SmallBuffer_size = kSmallBufferSize"
definition LargeBuffer_size :: u32 where "LargeBuffer_size = kSmallBufferSize"

definition data_K :: u32 where "data_K = 1024"
definition data_M :: u32 where "data_M = data_K * data_K"
definition data_G :: u32 where "data_G = data_M * data_K"

theorem size_constants:
  "unat data_K = 2 ^ 10" "unat data_M = 2 ^ 20" "unat data_G = 2 ^ 30"
  "unat kLargeBufferSize = 2 ^ 22" "LargeBuffer_size = SmallBuffer_size" "LargeBuffer_size \<noteq> kLargeBufferSize"
  by (simp_all add: data_K_def data_M_def data_G_def kLargeBufferSize_def kSmallBufferSize_def LargeBuffer_size_def SmallBuffer_size_def)

end
