(* ===== verification/Log_Calls.thy ===== *)
theory Log_Calls
  imports Log_Manager Log_Stream Debug_Print
begin

text \<open>
  The logging macros of include/logger.h on the loggers of the manager: one per level, and the same
  on the default logger. A logger is reached through the manager's pointer, so what a call does to it
  is seen under all its names. \<open>testLogSStream\<close> of runner/runner\_log.cpp is the use of the stream
  without a logger.
\<close>

section \<open>Macros\<close>

text \<open>What a macro reads where it stands: file, line, thread, executor and clock.\<close>

record log_site =
  site_file :: string
  site_line :: int
  site_thread :: u32
  site_executor :: u64
  site_time :: int

definition LogEvent_new :: "string \<Rightarrow> int \<Rightarrow> Level \<Rightarrow> u32 \<Rightarrow> u32 \<Rightarrow> u64 \<Rightarrow> int \<Rightarrow> LogEvent" where
  "LogEvent_new file line l tid elapsed eid time =
     \<lparr>ev_file_name = file, ev_line = line, ev_level = l, ev_thread_id = tid, ev_elapsed_ms = elapsed,
      ev_executor_id = eid, ev_logger_name = [], ev_datetime_pattern = [], ev_content = [], ev_time = time\<rparr>"

text \<open>Streaming a text into a macro: what it does to the manager's loggers and the outside.\<close>

type_synonym 'k log_call = "string \<Rightarrow> LogManager \<times> 'k outside \<Rightarrow> (LogManager \<times> 'k outside) res"
type_synonym strftime_fun = "string \<Rightarrow> int \<Rightarrow> string option"

text \<open>\<open>LON_LOG(logger, level)\<close> with a pointer the manager gave out.\<close>

definition LON_LOG_at :: "strftime_fun \<Rightarrow> 'k file_api \<Rightarrow> log_site \<Rightarrow> Level \<Rightarrow> nat option \<Rightarrow> 'k log_call" where
  "LON_LOG_at strftime api at l logger stream s =
     (case s of (m, w) \<Rightarrow>
        case logger of
          None \<Rightarrow> Err NullDeref
        | Some r \<Rightarrow>
            res_bind (LON_LOG strftime api stream
              (LogEvent_new (site_file at) (site_line at) l (site_thread at) 0 (site_executor at) (site_time at)) (objs m ! r, w))
              (\<lambda>(lg, w). Ok (m\<lparr>objs := (objs m)[r := lg]\<rparr>, w)))"

definition LON_LOG_DEBUG :: "strftime_fun \<Rightarrow> 'k file_api \<Rightarrow> log_site \<Rightarrow> nat option \<Rightarrow> 'k log_call" where
  "LON_LOG_DEBUG strftime api at logger = LON_LOG_at strftime api at DEBUG logger"

definition LON_LOG_INFO :: "strftime_fun \<Rightarrow> 'k file_api \<Rightarrow> log_site \<Rightarrow> nat option \<Rightarrow> 'k log_call" where
  "LON_LOG_INFO strftime api at logger = LON_LOG_at strftime api at INFO logger"

definition LON_LOG_WARN :: "strftime_fun \<Rightarrow> 'k file_api \<Rightarrow> log_site \<Rightarrow> nat option \<Rightarrow> 'k log_call" where
  "LON_LOG_WARN strftime api at logger = LON_LOG_at strftime api at WARN logger"

definition LON_LOG_ERROR :: "strftime_fun \<Rightarrow> 'k file_api \<Rightarrow> log_site \<Rightarrow> nat option \<Rightarrow> 'k log_call" where
  "LON_LOG_ERROR strftime api at logger = LON_LOG_at strftime api at ERROR logger"

definition LON_LOG_FATAL :: "strftime_fun \<Rightarrow> 'k file_api \<Rightarrow> log_site \<Rightarrow> nat option \<Rightarrow> 'k log_call" where
  "LON_LOG_FATAL strftime api at logger = LON_LOG_at strftime api at FATAL logger"

text \<open>The macro's first argument is evaluated twice; \<open>getDefault\<close> changes nothing, so both are the same logger.\<close>

definition LON_LOG_DEFAULT_DEBUG :: "strftime_fun \<Rightarrow> 'k file_api \<Rightarrow> log_site \<Rightarrow> 'k log_call" where
  "LON_LOG_DEFAULT_DEBUG strftime api at stream s = LON_LOG_DEBUG strftime api at (getDefault (fst s)) stream s"

definition LON_LOG_DEFAULT_INFO :: "strftime_fun \<Rightarrow> 'k file_api \<Rightarrow> log_site \<Rightarrow> 'k log_call" where
  "LON_LOG_DEFAULT_INFO strftime api at stream s = LON_LOG_INFO strftime api at (getDefault (fst s)) stream s"

definition LON_LOG_DEFAULT_WARN :: "strftime_fun \<Rightarrow> 'k file_api \<Rightarrow> log_site \<Rightarrow> 'k log_call" where
  "LON_LOG_DEFAULT_WARN strftime api at stream s = LON_LOG_WARN strftime api at (getDefault (fst s)) stream s"

definition LON_LOG_DEFAULT_ERROR :: "strftime_fun \<Rightarrow> 'k file_api \<Rightarrow> log_site \<Rightarrow> 'k log_call" where
  "LON_LOG_DEFAULT_ERROR strftime api at stream s = LON_LOG_ERROR strftime api at (getDefault (fst s)) stream s"

definition LON_LOG_DEFAULT_FATAL :: "strftime_fun \<Rightarrow> 'k file_api \<Rightarrow> log_site \<Rightarrow> 'k log_call" where
  "LON_LOG_DEFAULT_FATAL strftime api at stream s = LON_LOG_FATAL strftime api at (getDefault (fst s)) stream s"

lemmas macro_defs = LON_LOG_DEBUG_def LON_LOG_INFO_def LON_LOG_WARN_def LON_LOG_ERROR_def LON_LOG_FATAL_def
  LON_LOG_DEFAULT_DEBUG_def LON_LOG_DEFAULT_INFO_def LON_LOG_DEFAULT_WARN_def LON_LOG_DEFAULT_ERROR_def LON_LOG_DEFAULT_FATAL_def

section \<open>Lemmas\<close>

lemma DEBUG_least: "DEBUG \<le> l"
  by (simp add: less_eq_Level_def)

lemma log_ev_keeps:
  assumes "log_ev strftime api ev (lg, w) = Ok (lg', w')"
  shows "lg'\<lparr>flushers := []\<rparr> = lg\<lparr>flushers := []\<rparr>"
  using assms by (auto simp: log_ev_def Let_def)

lemma flush_all_length: "flush_all api t fs w = Ok (fs', w') \<Longrightarrow> length fs' = length fs"
  by (induction fs arbitrary: w fs' w') fastforce+

lemma wrapper_keeps:
  assumes "LogWrapper_destroy strftime api stream ev (lg, w) = Ok (lg', w')"
  shows "lg'\<lparr>flushers := []\<rparr> = lg\<lparr>flushers := []\<rparr>" and "length (flushers lg') = length (flushers lg)"
proof -
  from assms have l: "log_ev strftime api (ev\<lparr>ev_content := stream\<rparr>) (lg, w) = Ok (lg', w')"
    by (auto simp: LogWrapper_destroy_def split: if_splits)
  then show "lg'\<lparr>flushers := []\<rparr> = lg\<lparr>flushers := []\<rparr>" by (rule log_ev_keeps)
  from l show "length (flushers lg') = length (flushers lg)" by (auto simp: log_ev_def Let_def dest: flush_all_length)
qed

lemma but_flushers: "p'\<lparr>flushers := []\<rparr> = (p\<lparr>flushers := []\<rparr> :: Logger) \<Longrightarrow> name p' = name p \<and> level p' = level p"
  by (cases p; cases p') simp

lemma described_after:
  assumes "described item p" and "p'\<lparr>flushers := []\<rparr> = p\<lparr>flushers := []\<rparr>" and "length (flushers p') = length (flushers p)"
  shows "described item p'"
  using assms but_flushers [OF assms(2)] by (simp add: described_def)

lemma manages_default:
  assumes "manages items m"
  obtains r where "getDefault m = Some r" "r < length (objs m)" "level (objs m ! r) = DEBUG"
proof -
  from assms have f: "finds items m ''root''" and d: "getDefault m = getLogger ''root'' m" and o: "objs m \<noteq> []"
    and l: "list_all (\<lambda>p. level p = DEBUG) (objs m)" by (auto simp: manages_def)
  from f o obtain r where "getLogger ''root'' m = Some r" "r < length (objs m)"
    by (auto simp: finds_def split: option.splits)
  then show thesis using that [of r] d l by (simp add: list_all_length)
qed

lemma manages_after:
  assumes "manages items m" and "r < length (objs m)"
    and lg: "lg\<lparr>flushers := []\<rparr> = (objs m ! r)\<lparr>flushers := []\<rparr>" "length (flushers lg) = length (flushers (objs m ! r))"
  shows "manages items (m\<lparr>objs := (objs m)[r := lg]\<rparr>)" (is "manages items ?m")
proof -
  have g: "getLogger k ?m = getLogger k m" "getDefault ?m = getDefault m" for k by (simp_all add: getLogger_def getDefault_def)
  have f: "finds items m k" for k using assms(1) by (simp add: manages_def)
  have "finds items ?m k" for k
  proof (cases "last_named k items")
    case (Some item)
    then obtain q where q: "q < length (objs m)" "getLogger k m = Some q" "described item (objs m ! q)"
      using f [of k] by (auto simp: finds_def)
    then have "described item (objs ?m ! q)"
      using described_after [OF _ lg] assms(2) by (cases "q = r") auto
    then show ?thesis using Some q g by (auto simp: finds_def intro!: exI [of _ q])
  qed (use f [of k] g in \<open>simp add: finds_def\<close>)
  moreover have "level lg = level (objs m ! r)" using but_flushers [OF lg(1)] by simp
  then have "list_all (\<lambda>p. level p = DEBUG) (objs ?m)"
    using assms(1,2) by (auto simp: manages_def list_all_length nth_list_update)
  ultimately show ?thesis using assms(1) g by (auto simp: manages_def)
qed

section \<open>Logging to the default logger\<close>

text \<open>
  On a manager made from a configuration the default macros never meet a null pointer and never
  filter: a call of any level passes its line to the logger, and the manager stays what the
  configuration describes, so the next call finds the same.
\<close>

theorem default_macro_logs:
  assumes "manages items m"
  shows "\<exists>r < length (objs m). getDefault m = Some r
    \<and> LON_LOG_at strftime api at l (getDefault m) stream (m, w) =
        res_bind (LogWrapper_destroy strftime api stream
          (LogEvent_new (site_file at) (site_line at) l (site_thread at) 0 (site_executor at) (site_time at)) (objs m ! r, w))
          (\<lambda>(lg, w). Ok (m\<lparr>objs := (objs m)[r := lg]\<rparr>, w))
    \<and> (\<forall>m' w'. LON_LOG_at strftime api at l (getDefault m) stream (m, w) = Ok (m', w') \<longrightarrow> manages items m')"
proof -
  obtain r where r: "getDefault m = Some r" "r < length (objs m)" "level (objs m ! r) = DEBUG" by (rule manages_default [OF assms])
  let ?ev = "LogEvent_new (site_file at) (site_line at) l (site_thread at) 0 (site_executor at) (site_time at)"
  have c: "LON_LOG_at strftime api at l (getDefault m) stream (m, w) =
    res_bind (LogWrapper_destroy strftime api stream ?ev (objs m ! r, w)) (\<lambda>(lg, w). Ok (m\<lparr>objs := (objs m)[r := lg]\<rparr>, w))"
    using r by (simp add: LON_LOG_at_def LON_LOG_def LogEvent_new_def DEBUG_least)
  have "manages items m'" if o: "LON_LOG_at strftime api at l (getDefault m) stream (m, w) = Ok (m', w')" for m' w'
  proof -
    from o c obtain lg where "LogWrapper_destroy strftime api stream ?ev (objs m ! r, w) = Ok (lg, w')"
      and m': "m' = m\<lparr>objs := (objs m)[r := lg]\<rparr>" by auto
    from wrapper_keeps [OF this(1)] show ?thesis unfolding m' by (intro manages_after [OF assms r(2)])
  qed
  with r c show ?thesis by blast
qed

text \<open>A fatal line never returns.\<close>

theorem fatal_never_returns:
  assumes "manages items m"
  shows "LON_LOG_DEFAULT_FATAL strftime api at stream (m, w) \<noteq> Ok s"
proof -
  obtain r where r: "getDefault m = Some r" "level (objs m ! r) = DEBUG" using manages_default [OF assms] by blast
  then show ?thesis by (auto simp: macro_defs LON_LOG_at_def LON_LOG_def LogEvent_new_def DEBUG_least LogWrapper_destroy_def)
qed

section \<open>The stream alone\<close>

text \<open>\<open>testLogSStream\<close>; \<open>fmt_f\<close> is \<open>sprintf\<close>'s text of a double. The stream is destroyed before the marker.\<close>

definition testLogSStream :: "(nat \<Rightarrow> bool) \<Rightarrow> ('d \<Rightarrow> string) \<Rightarrow> 'd \<Rightarrow> console \<Rightarrow> (LogSStreamBuf \<times> console) res" where
  "testLogSStream alloc fmt_f d k =
     res_bind (CaseMarker_named ''testLogSStream'' k) (\<lambda>(marker, k).
     res_bind (LogSStreamBuf_new alloc) (\<lambda>ss.
     res_bind (fold_res (shift_left fmt_f) [PutInt 1, PutInt 2, PutChar (CHR ''3''), PutCStr ''456'', PutDouble d] ss) (\<lambda>ss.
     let k = put_out (sstream_text ss @ newline) k; ss = LogSStream_destroy ss
     in res_bind (CaseMarker_destroy marker k) (\<lambda>k. Ok (ss, k)))))"

theorem testLogSStream_prints:
  assumes "alloc LogBufferMaxLen" and "length (fmt_f d) < 5000"
  shows "\<exists>ss. testLogSStream alloc fmt_f d k = Ok (ss, put_out newline (printDividing_text ''end case testLogSStream''
      (put_out (''123456'' @ fmt_f d @ newline) (printDividing_text ''run case testLogSStream'' k))))
    \<and> sstream_text ss = []"
proof -
  let ?xs = "[PutInt 1, PutInt 2, PutChar (CHR ''3''), PutCStr ''456'', PutDouble d]"
  obtain s where s: "LogSStreamBuf_new alloc = Ok s" "block_ok s" "sstream_text s = []" using new_block [of alloc] assms(1) by blast
  have "dec_str 1 = ''1''" "dec_str 2 = ''2''" by (subst dec_str.simps, simp add: digit_char_def)+
  then have t: "concat (map (put_text fmt_f) ?xs) = ''123456'' @ fmt_f d" by (simp add: decimal_def)
  have "length (sstream_text s) + length (concat (map (put_text fmt_f) ?xs)) < LogBufferMaxLen"
    unfolding t s(3) using assms(2) by (simp add: LogBufferMaxLen_def)
  from block.put_all_fits [OF s(2) this] obtain s1 where "fold_res (shift_left fmt_f) ?xs s = Ok s1" "sstream_text s1 = ''123456'' @ fmt_f d"
    unfolding t s(3) by auto
  then show ?thesis using s(1)
    by (simp add: testLogSStream_def CaseMarker_named_def CaseMarker_destroy_def Let_def LogSStream_destroy_def buf_free_def
        sstream_text_def del: fold_res.simps)
qed

end
