(* ===== verification/Example_Config.thy ===== *)
theory Example_Config
  imports Configs Debug_Print
begin

text \<open>
  \<open>yamlConfig\<close> and \<open>jsonConfig\<close> of runner/runner\_config.cpp on top of the configuration readers. The
  document libraries and \<open>fmt::print\<close>'s text of a value (\<open>fmt\<close>) are parameters.
\<close>

section \<open>The functions\<close>

text \<open>The types the functions ask for, and their values.\<close>

datatype example_type = TInt | TIntVec | TStrIntMap
datatype example_value = VInt int | VIntVec "int list" | VStrIntMap "(string \<times> int) list"

definition print_value :: "(example_value \<Rightarrow> string) \<Rightarrow> example_value \<Rightarrow> console \<Rightarrow> console" where
  "print_value fmt v = put_out (fmt v @ newline)"

definition yamlConfig ::
    "('y, example_type, example_value) yaml_api \<Rightarrow> (string \<Rightarrow> 'y option) \<Rightarrow> (example_value \<Rightarrow> string) \<Rightarrow> console \<Rightarrow> console res" where
  "yamlConfig api LoadFile fmt k =
     res_bind (CaseMarker_named ''yaml-config'' k) (\<lambda>(marker, k).
     res_bind (YamlConfig_new LoadFile ''conf/test.yml'') (\<lambda>config.
     res_bind (YamlConfig_get api TInt ''system.port'' config) (\<lambda>v. let k = print_value fmt v k in
     res_bind (YamlConfig_get api TIntVec ''system.int_vec'' config) (\<lambda>v. let k = print_value fmt v k in
     res_bind (YamlConfig_getIfExists api TInt ''__not_exists_key'' (VInt 100) config) (\<lambda>(v, config). let k = print_value fmt v k in
     res_bind (YamlConfig_get api TInt ''__not_exists_key'' config) (\<lambda>v. let k = print_value fmt v k in
     CaseMarker_destroy marker k))))))"

definition jsonConfig ::
    "('j, example_type, example_value) json_api \<Rightarrow> (string \<Rightarrow> 'j option) \<Rightarrow> (example_value \<Rightarrow> string) \<Rightarrow> console \<Rightarrow> console res" where
  "jsonConfig api parse fmt k =
     res_bind (CaseMarker_named ''json-config'' k) (\<lambda>(marker, k).
     res_bind (JsonConfig_new parse ''conf/test.json'') (\<lambda>config.
     res_bind (JsonConfig_get api TInt ''system.port'' config) (\<lambda>v. let k = print_value fmt v k in
     res_bind (JsonConfig_get api TIntVec ''system.int_vec'' config) (\<lambda>v. let k = print_value fmt v k in
     res_bind (JsonConfig_get api TStrIntMap ''system.str_int_map'' config) (\<lambda>v. let k = print_value fmt v k in
     res_bind (JsonConfig_getIfExists api TInt ''__not_exists_key'' (VInt 100) config) (\<lambda>(v, config). let k = print_value fmt v k in
     res_bind (JsonConfig_get api TInt ''__not_exists_key'' config) (\<lambda>v. let k = print_value fmt v k in
     CaseMarker_destroy marker k)))))))"

section \<open>What they print\<close>

text \<open>
  With the members the functions ask for in the document and no member \<open>__not_exists_key\<close>, both print
  the values and then 100 twice: the default of the first question is the answer to the second. A
  document without one of the members ends the function with \<open>KeyNotFound\<close>.
\<close>

theorem yamlConfig_prints:
  assumes "LoadFile ''conf/test.yml'' = Some Y" and "YamlConfig_get api TInt ''system.port'' (config_new Y) = Ok p"
    and "YamlConfig_get api TIntVec ''system.int_vec'' (config_new Y) = Ok v"
    and "YamlConfig_get api TInt ''__not_exists_key'' (config_new Y) = Err KeyNotFound"
  shows "yamlConfig api LoadFile fmt k = Ok (put_out newline (printDividing_text ''end case yaml-config''
    (fold (print_value fmt) [p, v, VInt 100, VInt 100] (printDividing_text ''run case yaml-config'' k))))"
  using assms(1-3) yaml.missing [OF assms(4), of "VInt 100"]
  by (simp add: yamlConfig_def YamlConfig_new_def CaseMarker_named_def CaseMarker_destroy_def Let_def yaml.get_remembered any_cast_def)

theorem jsonConfig_prints:
  assumes "parse ''conf/test.json'' = Some J" and "JsonConfig_get api TInt ''system.port'' (config_new J) = Ok p"
    and "JsonConfig_get api TIntVec ''system.int_vec'' (config_new J) = Ok v"
    and "JsonConfig_get api TStrIntMap ''system.str_int_map'' (config_new J) = Ok m"
    and "JsonConfig_get api TInt ''__not_exists_key'' (config_new J) = Err KeyNotFound"
  shows "jsonConfig api parse fmt k = Ok (put_out newline (printDividing_text ''end case json-config''
    (fold (print_value fmt) [p, v, m, VInt 100, VInt 100] (printDividing_text ''run case json-config'' k))))"
  using assms(1-4) json.missing [OF assms(5), of "VInt 100"]
  by (simp add: jsonConfig_def JsonConfig_new_def CaseMarker_named_def CaseMarker_destroy_def Let_def json.get_remembered any_cast_def)

section \<open>The document of the repository\<close>

text \<open>The part of bin/conf/test.json the functions read, with a small document library, gives this text.\<close>

datatype jdoc = JNum int | JList "jdoc list" | JMap "(string \<times> jdoc) list"

fun jdoc_get :: "example_type \<Rightarrow> jdoc \<Rightarrow> example_value conv" where
  "jdoc_get TInt (JNum n) = Got (VInt n)"
| "jdoc_get TIntVec (JList ds) =
     (if list_all (\<lambda>d. case d of JNum _ \<Rightarrow> True | _ \<Rightarrow> False) ds then Got (VIntVec (map (\<lambda>d. case d of JNum n \<Rightarrow> n | _ \<Rightarrow> 0) ds)) else TypeError)"
| "jdoc_get TStrIntMap (JMap ds) =
     (if list_all (\<lambda>(_, d). case d of JNum _ \<Rightarrow> True | _ \<Rightarrow> False) ds
      then Got (VStrIntMap (map (\<lambda>(s, d). (s, case d of JNum n \<Rightarrow> n | _ \<Rightarrow> 0)) ds)) else TypeError)"
| "jdoc_get _ _ = TypeError"

definition jdoc_api :: "(jdoc, example_type, example_value) json_api" where
  "jdoc_api = \<lparr>jfind = \<lambda>j s. case j of JMap ds \<Rightarrow> map_of ds s | _ \<Rightarrow> None, jget = jdoc_get\<rparr>"

definition test_json :: jdoc where
  "test_json = JMap [(''system'', JMap [(''port'', JNum 9900), (''int_vec'', JList [JNum 10, JNum 30]),
     (''str_int_map'', JMap [(''k'', JNum 30), (''k2'', JNum 20), (''k3'', JNum 10)])])]"

theorem jsonConfig_prints_test_json:
  "jsonConfig jdoc_api (\<lambda>_. Some test_json) fmt k = Ok (put_out newline (printDividing_text ''end case json-config''
    (fold (print_value fmt) [VInt 9900, VIntVec [10, 30], VStrIntMap [(''k'', 30), (''k2'', 20), (''k3'', 10)], VInt 100, VInt 100]
      (printDividing_text ''run case json-config'' k))))"
  by (rule jsonConfig_prints [where J = test_json])
    (simp_all add: JsonConfig_get_path split_ref.simps jdoc_api_def test_json_def converted_def)

end
