(* ===== verification/Example_Io.thy ===== *)
theory Example_Io
  imports Lang_Support Log_Stream Debug_Print Io_Manager
begin

text \<open>
  The callbacks of runner/runner\_iomanager.cpp: the one for a readable connection, which reads what is
  there into a buffer and prints it, and the repeating timer. The program switches the hooks off, so
  \<open>read\<close> is the system call (\<open>rd\<close>, of which the count and the kernel state are arguments).
\<close>

section \<open>The callback of a connection\<close>

text \<open>
  The loop reads up to 1024 bytes to \<open>buf + _len\<close> each time and ends with a zero or an error
  (\<open>Inl\<close>). Bytes behind the array are undefined behaviour.
\<close>

function read_loop :: "(nat \<Rightarrow> 'k \<Rightarrow> string sys \<times> 'k) \<Rightarrow> string \<Rightarrow> nat \<Rightarrow> 'k \<Rightarrow> (errno option \<times> string \<times> 'k) res" where
  "read_loop rd b len k =
     (case rd 1024 k of
        (Inl e, k') \<Rightarrow> Ok (Some e, b, k')
      | (Inr s, k') \<Rightarrow>
          if s = [] then Ok (None, b, k')
          else (case memcpy_at len s b of Inl e \<Rightarrow> Err e | Inr b' \<Rightarrow> read_loop rd b' (len + length s) k'))"
  by pat_completeness auto
termination
proof (relation "measure (\<lambda>(rd, b, len, k). length b - len)")
  fix rd :: "nat \<Rightarrow> 'k \<Rightarrow> string sys \<times> 'k" and b len k x k' s b'
  assume "s \<noteq> []" "memcpy_at len s b = Ok b'"
  then have "length s > 0" "len + length s \<le> length b" "length b' = length b" by (auto simp: memcpy_at_def split: if_splits)
  then have "length b' - (len + length s) < length b - len" by linarith
  then show "((rd, b', len + length s, k'), rd, b, len, k) \<in> measure (\<lambda>(rd, b, len, k). length b - len)" by simp
qed simp

declare read_loop.simps [simp del]

text \<open>A \<open>char\<close> array as an argument of \<open>fmt::print\<close> is read up to its first NUL.\<close>

definition array_text :: "string \<Rightarrow> string res" where
  "array_text b = (if NUL \<in> set b then Ok (c_str b) else Err OutOfBounds)"

definition onMessage :: "(errno \<Rightarrow> string) \<Rightarrow> (nat \<Rightarrow> 'k \<Rightarrow> string sys \<times> 'k) \<Rightarrow> 'k \<times> console \<Rightarrow> ('k \<times> console) res" where
  "onMessage strerror rd s =
     (case s of (k, out) \<Rightarrow>
        let out = put_out (''message coming'' @ newline) out
        in res_bind (read_loop rd (replicate 1024 NUL) 0 k) (\<lambda>(r, b, k).
             case r of
               None \<Rightarrow> Ok (k, put_out (''remote closed'' @ newline) out)
             | Some e \<Rightarrow>
                 if e \<noteq> EAGAIN then Ok (k, put_out (''error: '' @ strerror e) out)
                 else res_bind (array_text b) (\<lambda>t. Ok (k, put_out (''read: '' @ t @ newline) out))))"

section \<open>What arrives and what is printed\<close>

text \<open>The kernel hands out the pieces \<open>cs\<close>, one per call, and then answers \<open>r\<close>.\<close>

fun delivers :: "(nat \<Rightarrow> 'k \<Rightarrow> string sys \<times> 'k) \<Rightarrow> string list \<Rightarrow> string sys \<Rightarrow> 'k \<Rightarrow> 'k \<Rightarrow> bool" where
  "delivers rd [] r k k' \<longleftrightarrow> rd 1024 k = (r, k')"
| "delivers rd (c # cs) r k k' \<longleftrightarrow> c \<noteq> [] \<and> fst (rd 1024 k) = Inr c \<and> delivers rd cs r (snd (rd 1024 k)) k'"

definition read_end :: "string sys \<Rightarrow> errno option" where
  "read_end r = (case r of Inl e \<Rightarrow> Some e | Inr _ \<Rightarrow> None)"

lemma read_loop_step:
  assumes "fst (rd 1024 k) = Inr c" and "c \<noteq> []"
  shows "read_loop rd b len k =
    (if len + length c \<le> length b then read_loop rd (take len b @ c @ drop (len + length c) b) (len + length c) (snd (rd 1024 k))
     else Err OutOfBounds)"
  using assms by (cases "rd 1024 k") (simp add: read_loop.simps [of rd b] memcpy_at_def)

lemma read_loop_fits:
  "delivers rd cs r k k' \<Longrightarrow> r \<in> insert (Inr []) (range Inl) \<Longrightarrow> len + length (concat cs) \<le> length b \<Longrightarrow>
     read_loop rd b len k = Ok (read_end r, take len b @ concat cs @ drop (len + length (concat cs)) b, k')"
proof (induction cs arbitrary: b len k)
  case Nil
  then show ?case by (auto simp: read_loop.simps [of rd b] read_end_def)
next
  case (Cons c cs)
  then have "read_loop rd b len k = read_loop rd (take len b @ c @ drop (len + length c) b) (len + length c) (snd (rd 1024 k))"
    using read_loop_step [of rd k c b len] by simp
  with Cons show ?case by (simp add: ac_simps)
qed

lemma read_loop_overflows:
  "delivers rd cs r k k' \<Longrightarrow> len \<le> length b \<Longrightarrow> length b < len + length (concat cs) \<Longrightarrow> read_loop rd b len k = Err OutOfBounds"
proof (induction cs arbitrary: b len k)
  case (Cons c cs)
  then show ?case using read_loop_step [of rd k c b len] by (auto simp: add.assoc)
qed simp

lemma array_text_short: "length t < 1024 \<Longrightarrow> array_text (t @ drop (length t) (replicate 1024 NUL)) = Ok (c_str t)"
proof -
  assume "length t < 1024"
  then have "drop (length t) (replicate 1024 NUL) = NUL # replicate (1023 - length t) NUL"
    by (simp add: Suc_diff_Suc flip: replicate_Suc)
  then show ?thesis by (simp add: array_text_def c_str_cut)
qed

text \<open>
  The callback prints a message of at most 1023 bytes, however it is cut into pieces. A message of 1024
  bytes without a zero byte fills the array and is read past its end, a longer one is written past it. When the peer
  has closed already, what it sent before is not printed.
\<close>

theorem onMessage_cases:
  assumes "delivers rd cs r k k'" and "t = concat cs"
  shows "length t \<le> 1023 \<Longrightarrow> r = Inl EAGAIN \<Longrightarrow> onMessage strerror rd (k, out) =
      Ok (k', put_out (''read: '' @ c_str t @ newline) (put_out (''message coming'' @ newline) out))"
    and "length t \<le> 1024 \<Longrightarrow> r = Inr [] \<Longrightarrow> onMessage strerror rd (k, out) =
      Ok (k', put_out (''remote closed'' @ newline) (put_out (''message coming'' @ newline) out))"
    and "length t \<le> 1024 \<Longrightarrow> r = Inl e \<Longrightarrow> e \<noteq> EAGAIN \<Longrightarrow> onMessage strerror rd (k, out) =
      Ok (k', put_out (''error: '' @ strerror e) (put_out (''message coming'' @ newline) out))"
    and "length t = 1024 \<Longrightarrow> NUL \<notin> set t \<Longrightarrow> r = Inl EAGAIN \<Longrightarrow> onMessage strerror rd (k, out) = Err OutOfBounds"
    and "1024 < length t \<Longrightarrow> onMessage strerror rd (k, out) = Err OutOfBounds"
proof -
  let ?b = "replicate 1024 NUL"
  have fits: "read_loop rd ?b 0 k = Ok (read_end r, t @ drop (length t) ?b, k')"
    if "length t \<le> 1024" "r = Inr [] \<or> (\<exists>e. r = Inl e)"
    using read_loop_fits [OF assms(1), of 0 ?b] that assms(2) by auto
  show "onMessage strerror rd (k, out) = Ok (k', put_out (''read: '' @ c_str t @ newline) (put_out (''message coming'' @ newline) out))"
    if "length t \<le> 1023" "r = Inl EAGAIN"
    using fits array_text_short [of t] that by (simp add: onMessage_def read_end_def)
  show "onMessage strerror rd (k, out) = Ok (k', put_out (''remote closed'' @ newline) (put_out (''message coming'' @ newline) out))"
    if "length t \<le> 1024" "r = Inr []"
    using fits that by (simp add: onMessage_def read_end_def)
  show "onMessage strerror rd (k, out) = Ok (k', put_out (''error: '' @ strerror e) (put_out (''message coming'' @ newline) out))"
    if "length t \<le> 1024" "r = Inl e" "e \<noteq> EAGAIN"
    using fits that by (simp add: onMessage_def read_end_def)
  show "onMessage strerror rd (k, out) = Err OutOfBounds" if "length t = 1024" "NUL \<notin> set t" "r = Inl EAGAIN"
    using fits that by (simp add: onMessage_def read_end_def array_text_def)
  show "onMessage strerror rd (k, out) = Err OutOfBounds" if "1024 < length t"
    using read_loop_overflows [OF assms(1), of 0 ?b] that assms(2) by (simp add: onMessage_def)
qed

section \<open>The timer\<close>

text \<open>\<open>runTimer\<close>, and the callback with the static \<open>count\<close>; \<open>name\<close> is what \<open>getThreadNameRaw\<close> gives.\<close>

definition runTimer :: "ms \<Rightarrow> ms \<Rightarrow> 'cb \<Rightarrow> ('cb, 'k) io_manager \<times> console \<Rightarrow> (('cb, 'k) io_manager \<times> console) res" where
  "runTimer cur_ms ival cb s =
     (case s of (m, out) \<Rightarrow>
        res_bind (CaseMarker_named ''run Timer'' out) (\<lambda>(marker, out).
        res_bind (registerTimer (Some (new_timer cur_ms ival (Some cb) True)) m) (\<lambda>(_, m).
        res_bind (CaseMarker_destroy marker out) (\<lambda>out. Ok (m, out)))))"

definition onTimer :: "string \<Rightarrow> int \<times> console \<Rightarrow> int \<times> console" where
  "onTimer thread_name s =
     (case s of (c, out) \<Rightarrow> let n = c + 1 in (n, put_out (decimal n @ '' at '' @ thread_name @ newline) out))"

fun timer_lines :: "string \<Rightarrow> nat \<Rightarrow> int \<Rightarrow> string" where
  "timer_lines thread_name 0 c = []"
| "timer_lines thread_name (Suc n) c = decimal (c + 1) @ '' at '' @ thread_name @ newline @ timer_lines thread_name n (c + 1)"

text \<open>A running manager gets one repeating timer, and \<open>n\<close> calls of its callback print \<open>n\<close> numbered lines.\<close>

theorem runTimer_arms:
  assumes "\<not> io_stopped m"
  shows "runTimer cur_ms ival cb (m, out) =
    Ok (m\<lparr>timer_manager := ms_insert (new_timer cur_ms ival (Some cb) True) (timer_manager m)\<rparr>,
        put_out newline (printDividing_text ''end case run Timer'' (printDividing_text ''run case run Timer'' out)))"
  using assms by (simp add: runTimer_def CaseMarker_named_def CaseMarker_destroy_def registerTimer_def addTimer_def new_timer_def)

theorem onTimer_lines: "(onTimer thread_name ^^ n) (c, out) = (c + int n, put_out (timer_lines thread_name n c) out)"
proof (induction n arbitrary: c out)
  case (Suc n)
  have "(onTimer thread_name ^^ Suc n) (c, out) = (onTimer thread_name ^^ n) (onTimer thread_name (c, out))"
    by (simp only: funpow_Suc_right comp_apply)
  then show ?case using Suc by (simp add: onTimer_def Let_def put_out_def)
qed (simp add: put_out_def)

end
