(* ===== verification/Spec2Isabelle.thy ===== *)
theory Spec2Isabelle
  imports Net_Prelude Text_Util Timer_Manager Fd_Manager Executor_Core Task_Scheduler Remote_Tasks Sys_Calls Io_Manager Co_Io
    Net_Address Balancers Balancer_Threads Sys_Info Net_Socket Tcp_Server File_Writer Log_Pattern Log_Flushers Logger_Core
    Log_Stream Configs Log_Manager Debug_Print Io_Batches Executor_Ucontext Thread_Context Scheduler_Fairness Example_Executor
    Fd_Ownership Io_System Io_Progress Lang_Support Log_Calls Example_Config Example_Io
begin

text \<open>
  A coroutine based network library in C++, modelled and verified.

  \<^bold>\<open>The program.\<close> A thread runs one \<open>IOManager\<close>, which owns one \<open>Scheduler\<close>, a set of timers, an
  epoll descriptor and a table of registered events. The scheduler's loop is itself a coroutine
  (\<open>Executor\<close>); it takes coroutines from its ready queue, and tasks other threads put into a
  lock-free list, and switches to them. A coroutine that calls a blocking function (\<open>co_read\<close>,
  \<open>co_accept\<close>, \<open>co_sleep\<close>, or \<open>read\<close>, \<open>accept\<close>, \<open>sleep\<close> through the hooks) registers an event and a timer and
  yields; when the loop finds nothing to run it waits in \<open>epoll_wait\<close> and puts the coroutines whose
  events or timers have come back into the queue. On top of it are sockets, a TCP server whose
  accepted connections are handed to worker threads by a balancer, and beside it logging and
  configuration.

  \<^bold>\<open>Theories and sources\<close> (paths below src/):
  \<^item> \<open>Net_Prelude\<close>: machine types, failures as values (\<open>lon_error\<close>, \<open>res\<close>), vectors with their range made
    explicit, decimal numbers, and two interfaces several components implement, \<open>fifo_queue\<close> and the
    descriptor table.
  \<^item> \<open>Text_Util\<close>: include/base/bytes.h, src/base/string\_piece.cpp, include/base/lstring.h.
    \<open>Lang_Support\<close>: include/base/expection.h, include/base/buffer.h and the other small classes.
  \<^item> \<open>Timer_Manager\<close>: include/base/timer.h. The multiset is a list in deadline order; the clock is a
    sequence of readings, one per call of \<open>currentMs\<close>.
  \<^item> \<open>Fd_Manager\<close>: include/io/fd\_manager.h. \<open>Fd_Ownership\<close>: the same with its owning pointers explicit.
  \<^item> \<open>Executor_Core\<close>: include/coroutine/executor.h, src/coroutine/executor.cpp in the fcontext configuration.
    A thread is a heap of executors, the stack that runs, and for every suspended stack the context
    that may be jumped to, once; a jump to any other context is the failure \<open>DeadContext\<close>.
    \<open>Executor_Ucontext\<close>: the same functions in the ucontext configuration, and the specification of
    coroutines without contexts that both configurations implement.
  \<^item> \<open>Task_Scheduler\<close>: include/coroutine/scheduler.h, src/coroutine/scheduler.cpp. The loop is cut at its switches:
    \<open>sched_iter\<close> is an iteration up to the switch, \<open>sched_back\<close> what follows when control returns.
    \<open>Scheduler_Fairness\<close>: its rounds while tasks keep arriving. \<open>Example_Executor\<close>: runner/runner\_executor.cpp, a
    whole program on top of the two.
  \<^item> \<open>Remote_Tasks\<close>: the lock-free list of the scheduler at the level of its atomic accesses.
  \<^item> \<open>Sys_Calls\<close>: src/base/epoll\_helper.h. \<open>Io_Manager\<close>: include/io/io\_manager.h, src/io/io\_manager.cpp.
    \<open>Io_Batches\<close>: its loop over batches of events, of any length.
  \<^item> \<open>Co_Io\<close>: src/io/co\_io\_function.cpp, src/io/hook.cpp. A function that waits is cut at its \<open>yield\<close>.
    \<open>Io_System\<close>: scheduler, manager and calls together as one step relation, with any number of coroutines.
    \<open>Io_Progress\<close>: how its ready queue moves through the turns of the loop.
    \<open>Thread_Context\<close>: the thread-local managers and schedulers, include/base/singleton.h, the table of replaced
    functions in src/io/hook.cpp and src/initer.cpp.
  \<^item> \<open>Net_Address\<close>: include/net/address.h, src/net/address.cpp. \<open>Net_Socket\<close>: src/net/socket.cpp, src/net/socket\_opt.cpp,
    src/net/tcp/connection.cpp. \<open>Tcp_Server\<close>: src/net/tcp/tcp\_server.cpp.
  \<^item> \<open>Balancers\<close> and \<open>Balancer_Threads\<close>: include/balancer/io, src/balancer/io, the choice of a worker and the
    life of the worker threads.
  \<^item> \<open>Sys_Info\<close>: include/base/info.h, src/base/info.cpp. \<open>File_Writer\<close>: include/base/file.h.
  \<^item> \<open>Log_Pattern\<close>: src/base/string\_parsers.h, src/logging/logger\_filename.cpp. \<open>Log_Flushers\<close>:
    include/logging/logger\_flusher.h. \<open>Logger_Core\<close>: include/logger.h, src/logger.cpp,
    src/logging/logger\_formatters.cpp, src/logging/LogSStream.cpp. \<open>Log_Stream\<close>: include/logging/LogSStream.h and
    src/logging/LogSStream.cpp byte by byte. \<open>Configs\<close>: include/config.h,
    include/config/yaml\_convert\_def.h, include/base.h. \<open>Log_Manager\<close>: include/logging/logger\_data\_convert.h
    and the log manager of src/logger.cpp. \<open>Log_Calls\<close>: the macros of include/logger.h on its loggers.
  \<^item> \<open>Debug_Print\<close>: include/base/print\_helper.h, include/base/chrono\_helper.h; a template is a function of the
    C++ type it is instantiated at. \<open>Example_Config\<close> and \<open>Example_Io\<close>: functions of runner/runner\_config.cpp and
    runner/runner\_iomanager.cpp.

  Definitions carry the names of the functions they translate. The state of an object is a record, the
  program's objects are passed explicitly, every exception, failed assertion and undefined access is an
  error value. The kernel, the JSON and YAML libraries, \<open>strftime\<close>, the resolver, the allocator and the random
  generator are parameters; what a theorem uses of them is a named predicate (\<open>epoll_ctl_ok\<close>, \<open>fcntl_ok\<close>,
  \<open>reports_ok\<close>, \<open>alloc_ok\<close>, \<open>same_shape\<close>), and its witness instantiates it by a concrete function.

  \<^bold>\<open>What is shown.\<close> Switching and scheduling: cooperative use of executors and the scheduler's loop never
  jump to a dead context, follow a null pointer or fail an assertion (invariants over step relations);
  control and state after each switch, the same for both kinds of contexts; order of service, without
  starvation while tasks arrive; the exact output of an example program; a graceful stop serves what is queued and then
  leaves the loop. The remote list, under every interleaving and with reuse of addresses, refines an atomic
  list. The descriptor table is a finite map, and its pointers are deleted once. Timers: the manager refines a multiset without order, exact
  expiry, liveness. Events: registration and one-shot delivery keep the table and
  the kernel's interest list in step, for whole turns of the loop with any number of events and timers; every
  thread has its own manager; in the whole thread no coroutine is lost or resumed twice, and no step
  fails but the turn that reads behind the table, as long as one coroutine waits for each direction of a descriptor, calls have no
  timeout, and nobody registers permanent events, closes, kills or stops; under the same limits a coroutine
  whose event is reported or whose sleep is over runs again after as many turns as it has others before it. Blocking calls and sleeping: below, from the call to its
  return; sockets are non-blocking in the kernel. Addresses: order,
  parsing and printing. Balancers and server: which tasks are dropped and that the others are handed over once, fairness, one handler per
  connection. Files: appending refines concatenation, closing writes everything. Logging: the pattern parser
  reads what is written, numbers are decimal, the bytes of the stream's block refine a text, what the asynchronous flushers write keeps the order of what was accepted, a line is the rendered
  pattern. Configuration: remembered defaults refine a specification without state, and what a
  dotted key means to the two readers. Printing: for which types the templates compile, and that they then print, numbers are printed unambiguously. A further group of theorems states defects of the code as they are: what
  \<open>removeEvent\<close>, \<open>reuse\<close>, a second \<open>run\<close>, a time-out, a second waiter, a hang-up, descriptors below 2, the asynchronous flushers, the
  worker registration and the log configuration do instead of what they mean to do.

  \<^bold>\<open>Loops.\<close> Loops over data are structural or have a measure. Loops that end only if the system lets them
  (\<open>invokeNoIntr\<close>, \<open>drain_pipe\<close>, \<open>write_loop\<close>) are partial functions whose result \<open>None\<close> is not returning, and the
  theorems about them state when they return. No fuel is used.

  \<^bold>\<open>Not modelled.\<close> Memory ordering weaker than sequential consistency; the contents of the buffers the socket
  functions fill; type names and empty classes; the example programs that are servers and clients and run until
  they are stopped from outside; the tests.
\<close>

section \<open>Calls from end to end\<close>

lemma side_delivered:
  assumes "type = Read \<or> type = Write"
  shows "(if type AND (EPOLLIN OR EPOLLERR OR EPOLLHUP) \<noteq> 0 then [read_executor e] else [])
    @ (if type AND (EPOLLOUT OR EPOLLERR OR EPOLLHUP) \<noteq> 0 then [write_executor e] else []) = [side_executor type e]"
  using assms by (auto simp: side_executor_def Read_def Write_def epoll_bits)

text \<open>An event for a waiting coroutine in an otherwise idle loop: it is queued, and the next iteration switches to it.\<close>

lemma event_switches:
  assumes api: "epoll_ctl_ok api interest usable" and ok: "watch_ok interest m"
    and i: "0 \<le> i" "i < int (length (fd_events m))" "i \<noteq> fst (wakeup_pipe_fd m)"
    and once: "read_call_once (events_at m i)" "write_call_once (events_at m i)" and ty: "type = Read \<or> type = Write"
    and p: "side_executor type (events_at m i) = Some p" "task S (thr (io_world m)) p"
      "heap (thr (io_world m)) p = Some e" "ex_state e = HoldUp"
    and loop: "sched_ok S (io_world m)" "running (thr (io_world m)) = S" "\<not> stopping (io_sch m)" "\<not> stop_pending b (io_sch m)"
    and idle: "ready_executors (io_sch m) = []" "remote_tasks (io_sch m) = []"
  shows "\<exists>m1 w2. handle_event api i (i, type) m = Ok m1 \<and> hasEvent i type m1 \<noteq> Ok True \<and> timer_manager m1 = timer_manager m
     \<and> sched_iter b (io_world m1) = Ok (Switched p, w2) \<and> running (thr w2) = p \<and> sched_ok S w2"
proof -
  obtain m1 where m1: "handle_event api i (i, type) m = Ok m1"
    "io_sch m1 = (io_sch m)\<lparr>ready_executors := [Some p]\<rparr>" "thr (io_world m1) = thr (io_world m)"
    "hasEvent i Read m1 = Ok True \<longleftrightarrow> hasEvent i Read m = Ok True \<and> type AND EPOLLIN = 0"
    "hasEvent i Write m1 = Ok True \<longleftrightarrow> hasEvent i Write m = Ok True \<and> type AND EPOLLOUT = 0" "timer_manager m1 = timer_manager m"
    using handle_event_delivers [OF api ok i loop(3) once, of type] side_delivered [OF ty, of "events_at m i"] p(1) idle(1)
    by auto
  have "hasEvent i type m1 \<noteq> Ok True" using m1(4,5) ty by (auto simp: Read_def Write_def epoll_bits)
  have "queued (sch (io_world m1)) = {p}" using m1(2) idle by (simp add: queued_def io_sch_def)
  then have ok1: "sched_ok S (io_world m1)" using loop(1) p(2) m1(2,3) by (simp add: sched_ok_def io_sch_def)
  moreover obtain w2 where "sched_iter b (io_world m1) = Ok (Switched p, w2)" "running (thr w2) = p" "sched_ok S w2"
    using sched_iter_serves [OF ok1, of b p "[]" e] m1(2,3) loop(2-4) idle p(3,4) by (auto simp: io_sch_def stop_pending_def)
  ultimately show ?thesis using m1(1,6) \<open>hasEvent i type m1 \<noteq> Ok True\<close> by blast
qed

text \<open>
  C6. A blocking call from end to end. A coroutine in a running, otherwise idle loop calls a blocking
  function on a managed socket, and the system call would block. Then: the call suspends the
  coroutine and gives control back to the loop; when the kernel reports the event, the loop's
  event handling queues exactly this coroutine and deregisters the event; the next iteration of
  the loop switches to it; and the resumed call cancels its timer and returns the outcome of the
  retried system call, leaving as many timers as there were. Between the event and the retry the
  kernel may change as it likes (\<open>k2\<close>).
\<close>

theorem blocking_call_completes:
  fixes c :: "('u, 'k) co"
  assumes api: "epoll_ctl_ok api interest usable" and ok: "watch_ok interest (mgr c)" and run: "\<not> io_stopped (mgr c)"
    and i: "2 \<le> i" "i \<noteq> fst (wakeup_pipe_fd (mgr c))" "i \<in> usable"
    and ctx: "getContext i (fds c) = Ok (Some ctx)" "is_socket ctx" "\<not> is_user_non_block ctx"
    and once: "read_call_once (events_at (mgr c) i)" "write_call_once (events_at (mgr c) i)"
    and ty: "type = Read \<or> type = Write"
    and call: "func (kern (mgr c)) = (Inl EAGAIN, k)" "interest k = interest (kern (mgr c))"
    and loop: "sched_ok S (io_world (mgr c))" "running (co_thread c) = p" "p \<noteq> S"
      "\<not> stopping (io_sch (mgr c))" "\<not> stop_pending b (io_sch (mgr c))"
      "ready_executors (io_sch (mgr c)) = []" "remote_tasks (io_sch (mgr c)) = []"
    and ts: "timers_ok (timer_manager (mgr c))"
    and retry: "func k2 = (r, k3)" "r \<noteq> Inl EAGAIN" "r \<noteq> Inl EINTR"
  shows "\<exists>t c1 m1 w2 c3.
      ioInner api fresh now flag i type func c = Ok (IoWait flag t, c1) \<and> running (co_thread c1) = S
    \<and> handle_event api i (i, type) (mgr c1) = Ok m1 \<and> hasEvent i type m1 \<noteq> Ok True
    \<and> sched_iter b (io_world m1) = Ok (Switched p, w2) \<and> running (thr w2) = p
    \<and> ioInner_resume api fresh now' flag' flag t i type func (io_timeout_of type ctx) (c1\<lparr>mgr := m1\<lparr>io_world := w2, kern := k2\<rparr>\<rparr>)
        = Ok (IoReturn r, c3)
    \<and> kern (mgr c3) = k3 \<and> length (timer_manager (mgr c3)) = length (timer_manager (mgr c))"
proof -
  let ?t = "wait_timer now type ctx i flag p :: 'u closure timer"
  have co: "in_coroutine S c" using loop(1-3) by (simp add: in_coroutine_def co_thread_def sched_ok_def loop_ok_def)
  obtain c1 th where c1: "ioInner api fresh now flag i type func c = Ok (IoWait flag ?t, c1)"
    and side: "side_executor type (events_at (mgr c1) i) = Some p"
    and tm: "timer_manager (mgr c1) = ms_insert ?t (timer_manager (mgr c))"
    and fl: "flags c1 flag = Some False" and ok1: "watch_ok interest (mgr c1)"
    and i1: "i < int (length (fd_events (mgr c1)))" "wakeup_pipe_fd (mgr c1) = wakeup_pipe_fd (mgr c)"
    and once1: "read_call_once (events_at (mgr c1) i)" "write_call_once (events_at (mgr c1) i)"
    and y: "yield p (co_thread c) = Ok th" and w1: "io_world (mgr c1) = (io_world (mgr c))\<lparr>thr := th\<rparr>"
    using ioInner_waits [where c = c and func = func and k = k and fresh = fresh and now = now and flag = flag, OF api ok run i ctx call ty co] once loop(2) by auto
  have "running (thr (io_world (mgr c))) = p" using loop(2) by (simp add: co_thread_def)
  then have s: "sched_ok S (io_world (mgr c1))" "running (thr (io_world (mgr c1))) = S" "task S (thr (io_world (mgr c1))) p"
    and "\<exists>e. heap (thr (io_world (mgr c1))) p = Some e \<and> ex_state e = HoldUp"
    using yield_keeps_loop [OF loop(1)] loop(3) y w1 by (auto simp: co_thread_def)
  then obtain e where e: "heap (thr (io_world (mgr c1))) p = Some e" "ex_state e = HoldUp" by blast
  have sch: "io_sch (mgr c1) = io_sch (mgr c)" using w1 by (simp add: io_sch_def)
  obtain m1 w2 where m1: "handle_event api i (i, type) (mgr c1) = Ok m1" "hasEvent i type m1 \<noteq> Ok True"
    "timer_manager m1 = timer_manager (mgr c1)" "sched_iter b (io_world m1) = Ok (Switched p, w2)" "running (thr w2) = p"
    using event_switches [OF api ok1 _ i1(1) _ once1 ty side s(3) e s(1,2), of b] i i1(2) sch loop(4-7) by auto
  let ?c2 = "c1\<lparr>mgr := m1\<lparr>io_world := w2, kern := k2\<rparr>\<rparr>"
  have "timers_ok (timer_manager (mgr ?c2))" using m1(3) tm ts by simp
  moreover have "target_timestamp ?t \<in> target_timestamp ` set (timer_manager (mgr ?c2))" using m1(3) tm by simp
  ultimately obtain c3 x where c3: "ioInner_resume api fresh now' flag' flag ?t i type func (io_timeout_of type ctx) ?c2 = Ok (IoReturn r, c3)"
    "kern (mgr c3) = k3" "mset (timer_manager (mgr ?c2)) = add_mset x (mset (timer_manager (mgr c3)))"
    using ioInner_resume_returns [of ?c2 flag func r k3 ?t api fresh now' flag' i type "io_timeout_of type ctx"] fl retry by auto
  have "size (mset (timer_manager (mgr ?c2))) = Suc (length (timer_manager (mgr c3)))" unfolding c3(3) by simp
  then have "length (timer_manager (mgr c3)) = length (timer_manager (mgr c))" using m1(3) tm by simp
  then show ?thesis using c1 m1 s(2) c3(1,2) by (auto simp: co_thread_def)
qed

lemma loop_in_task:
  "\<exists>w :: 'cb world. sched_ok 1 w \<and> running (thr w) = 2 \<and> ready_executors (sch w) = [] \<and> remote_tasks (sch w) = []
     \<and> \<not> stopping (sch w) \<and> \<not> stopped (sch w) \<and> finite (dom (heap (thr w)))"
proof -
  obtain w :: "'cb world" and e where w: "sched_ok 1 w" "running (thr w) = 1" "ready_executors (sch w) = [Some 2]"
    "remote_tasks (sch w) = []" "\<not> stopping (sch w)" "\<not> stopped (sch w)" "heap (thr w) 2 = Some e" "ex_state e = Init"
    "finite (dom (heap (thr w)))"
    using demo_world_ok [of undefined] by blast
  obtain w' where "running (thr w') = 2" "sched_ok 1 w'" "same_but 2 1 (thr w) (thr w')"
    "sch w' = (sch w)\<lparr>ready_executors := [], remote_tasks := []\<rparr>"
    using sched_iter_serves [OF w(1,2), of False 2 "[]" e] w(3-8) by (auto simp: stop_pending_def)
  then show ?thesis using w(5,6,9) same_but_dom [of 2 1 "thr w" "thr w'"] by (intro exI [of _ w']) auto
qed

theorem blocking_call_completes_witness:
  "\<exists>c c1 c3 :: (unit, fd \<Rightarrow> u32 option) co. \<exists>t m1 w2 func k2.
      func (kern (mgr c)) = (Inl EAGAIN, kern (mgr c)) \<and> func k2 = (Inr 3, k2)
    \<and> ioInner demo_api 9 100 0 7 Read func c = Ok (IoWait 0 t, c1)
    \<and> handle_event demo_api 7 (7, Read) (mgr c1) = Ok m1 \<and> sched_iter False (io_world m1) = Ok (Switched 2, w2)
    \<and> ioInner_resume demo_api 9 200 1 0 t 7 Read func (- 1) (c1\<lparr>mgr := m1\<lparr>io_world := w2, kern := k2\<rparr>\<rparr>)
        = Ok (IoReturn (Inr 3), c3)
    \<and> timer_manager (mgr c3) = []"
proof -
  obtain w :: "unit closure world" where w: "sched_ok 1 w" "running (thr w) = 2" "ready_executors (sch w) = []"
    "remote_tasks (sch w) = []" "\<not> stopping (sch w)" "\<not> stopped (sch w)"
    using loop_in_task by blast
  let ?f = "\<lambda>k :: fd \<Rightarrow> u32 option. (if k 0 = None then Inl EAGAIN else Inr (3 :: int), k)"
  let ?k = "[4 \<mapsto> EPOLLIN OR EPOLLOUT] :: fd \<Rightarrow> u32 option"
  let ?c = "\<lparr>mgr = \<lparr>io_stopped = False, epoll_fd = 3, wakeup_pipe_fd = (4, 5), io_world = w,
      timer_manager = [], fd_events = [], kern = ?k\<rparr>,
    fds = replicate 7 None @ [Some (FdContext_new True)], flags = (\<lambda>_. None)\<rparr> :: (unit, fd \<Rightarrow> u32 option) co"
  have g: "getContext 7 (fds ?c) = Ok (Some (FdContext_new True))" by (simp add: getContext_def vec_get_def nth_append)
  have ok: "watch_ok (\<lambda>k. k) (mgr ?c)" by (auto simp: watch_ok_def watched_def)
  have x: "is_socket (FdContext_new True)" "\<not> is_user_non_block (FdContext_new True)" "io_timeout_of Read (FdContext_new True) = - 1"
    by (simp_all add: FdContext_new_def FdContext_default_def io_timeout_of_def)
  have o: "read_call_once (events_at (mgr ?c) 7)" "write_call_once (events_at (mgr ?c) 7)"
    by (simp_all add: events_at_def FdEvents_default_def)
  have fk: "?f (kern (mgr ?c)) = (Inl EAGAIN, ?k)" by simp
  have f2: "?f [0 \<mapsto> 1] = (Inr 3, [0 \<mapsto> 1])" by simp
  have s: "sched_ok 1 (io_world (mgr ?c))" "running (co_thread ?c) = 2" "\<not> stopping (io_sch (mgr ?c))"
    "\<not> stop_pending False (io_sch (mgr ?c))" "ready_executors (io_sch (mgr ?c)) = []" "remote_tasks (io_sch (mgr ?c)) = []"
    "timers_ok (timer_manager (mgr ?c))" "\<not> io_stopped (mgr ?c)" "(7 :: int) \<noteq> fst (wakeup_pipe_fd (mgr ?c))"
    using w by (simp_all add: co_thread_def io_sch_def stop_pending_def)
  have n: "(2 :: int) \<le> 7" "(2 :: eptr) \<noteq> 1" "(Inr 3 :: int sys) \<noteq> Inl EAGAIN" "(Inr 3 :: int sys) \<noteq> Inl EINTR" "Read = Read \<or> Read = Write"
    "?k = kern (mgr ?c)" by simp_all
  obtain t c1 m1 w2 c3 where r: "ioInner demo_api 9 100 0 7 Read ?f ?c = Ok (IoWait 0 t, c1)"
    "handle_event demo_api 7 (7, Read) (mgr c1) = Ok m1" "sched_iter False (io_world m1) = Ok (Switched 2, w2)"
    "ioInner_resume demo_api 9 200 1 0 t 7 Read ?f (- 1) (c1\<lparr>mgr := m1\<lparr>io_world := w2, kern := [0 \<mapsto> 1]\<rparr>\<rparr>) = Ok (IoReturn (Inr 3), c3)"
    "length (timer_manager (mgr c3)) = length (timer_manager (mgr ?c))"
    using blocking_call_completes [where c = ?c and func = ?f and k = ?k and ctx = "FdContext_new True" and fresh = 9 and now = 100
        and flag = 0 and now' = 200 and flag' = 1,
        OF demo_api_ok ok s(8) n(1) s(9) UNIV_I g x(1,2) o n(5) fk n(6) s(1,2) n(2) s(3-7) f2 n(3,4)] unfolding x(3) by blast
  have "func (kern (mgr ?c)) = (Inl EAGAIN, kern (mgr ?c))" if "func = ?f" for func using fk that by simp
  then show ?thesis using r f2 by (intro exI [of _ ?c] exI [of _ c1] exI [of _ c3] exI [of _ t] exI [of _ m1] exI [of _ w2]
        exI [of _ ?f] exI [of _ "[0 \<mapsto> 1]"] conjI) simp_all
qed

text \<open>A queued coroutine whose callback wakes \<open>p\<close>: it runs, queues \<open>p\<close>, ends, and \<open>p\<close> is next.\<close>

lemma wake_up_task:
  fixes c :: "('u, 'k) co"
  defines "w \<equiv> io_world (mgr c)"
  assumes loop: "sched_ok S w" "running (thr w) = S" "\<not> stop_pending b (sch w)" "\<not> stopping (sch w)"
      "ready_executors (sch w) = [Some q]" "remote_tasks (sch w) = []"
    and q: "new_task (thr w) q cb" and p: "task S (thr w) p" "heap (thr w) p = Some e" "ex_state e = HoldUp"
  shows "\<exists>w2 c3 th w5. sched_iter b w = Ok (Switched q, w2) \<and> running (thr w2) = q
    \<and> run_closure api (SleepOver p) (c\<lparr>mgr := (mgr c)\<lparr>io_world := w2\<rparr>\<rparr>) = Ok c3
    \<and> executorMainFunc_end (co_thread c3) = Ok th
    \<and> sched_back q ((io_world (mgr c3))\<lparr>thr := th\<rparr>) = Ok ((io_world (mgr c3))\<lparr>thr := th\<rparr>)
    \<and> sched_iter b ((io_world (mgr c3))\<lparr>thr := th\<rparr>) = Ok (Switched p, w5) \<and> running (thr w5) = p
    \<and> ready_executors (sch w5) = [] \<and> timer_manager (mgr c3) = timer_manager (mgr c)"
proof -
  obtain eq where eq: "heap (thr w) q = Some eq" "ex_state eq = Init" using q by (auto simp: new_task_def split: option.splits)
  have pq: "p \<noteq> q" "p \<noteq> S" using eq p by (auto simp: task_def)
  obtain w2 where w2: "sched_iter b w = Ok (Switched q, w2)" "running (thr w2) = q" "sched_ok S w2" "same_but q S (thr w) (thr w2)"
    "sch w2 = (sch w)\<lparr>ready_executors := [], remote_tasks := []\<rparr>"
    using sched_iter_serves [OF loop(1-4), of q "[]" eq] loop(5,6) eq by auto
  have tq: "task S (thr w2) p" "heap (thr w2) p = Some e" using p pq w2(4) by (auto simp: task_def same_but_def)
  let ?s = "(sch w2)\<lparr>ready_executors := [Some p]\<rparr>" and ?w3 = "w2\<lparr>sch := (sch w2)\<lparr>ready_executors := [Some p]\<rparr>\<rparr>"
  let ?c3 = "c\<lparr>mgr := (mgr c)\<lparr>io_world := ?w3\<rparr>\<rparr>"
  have r: "run_closure api (SleepOver p) (c\<lparr>mgr := (mgr c)\<lparr>io_world := w2\<rparr>\<rparr>) = Ok ?c3"
    using loop(4) w2(5) by (simp add: run_closure_def io_addExecutor_def addExecutor_def ready_push_def io_sch_def upd_sch_def)
  have s3: "sched_ok S ?w3" using w2(3,5) tq(1) by (auto simp: sched_ok_def queued_def)
  have "q \<noteq> S" using loop(1,5) by (auto simp: sched_ok_def queued_def task_def)
  then have "running (thr ?w3) \<noteq> S" using w2(2) by simp
  from coroutine_ends [OF s3 this] obtain th where th: "executorMainFunc_end (thr w2) = Ok th" "sched_ok S (?w3\<lparr>thr := th\<rparr>)"
    "running th = S" "same_but q S (thr w2) th" "sched_back q (?w3\<lparr>thr := th\<rparr>) = Ok (?w3\<lparr>thr := th\<rparr>)"
    using w2(2) by auto
  have "heap th p = Some e" using tq(2) pq th(4) by (simp add: same_but_def)
  moreover have "\<not> stop_pending b (sch ?w3)" "\<not> stopping (sch ?w3)" "remote_tasks (sch ?w3) = []"
    using loop(3,4) w2(5) by (simp_all add: stop_pending_def)
  ultimately obtain w5 where w5: "sched_iter b (?w3\<lparr>thr := th\<rparr>) = Ok (Switched p, w5)" "running (thr w5) = p" "ready_executors (sch w5) = []"
    using sched_iter_serves [OF th(2), of b p "[]" e] th(3) p(3) by auto
  show ?thesis
    using w2(1,2) r th(1,5) w5 by (intro exI [of _ w2] exI [of _ ?c3] exI [of _ th] exI [of _ w5]) (simp add: co_thread_def)
qed

text \<open>\<open>co_sleep\<close> in a coroutine of the loop.\<close>

lemma sleep_parks:
  fixes c :: "('u, 'k) co"
  assumes loop: "sched_ok S (io_world (mgr c))" "running (co_thread c) = p" "p \<noteq> S" "\<not> io_stopped (mgr c)"
  shows "\<exists>c1 e. co_sleep fresh now seconds c = Ok c1 \<and> sched_ok S (io_world (mgr c1)) \<and> running (co_thread c1) = S
    \<and> timer_manager (mgr c1) = ms_insert (new_timer now (word_of_nat (unat seconds * 1000 mod 2 ^ 32)) (Some (SleepOver p)) False)
         (timer_manager (mgr c))
    \<and> io_sch (mgr c1) = io_sch (mgr c) \<and> kern (mgr c1) = kern (mgr c) \<and> dom (heap (co_thread c1)) = dom (heap (co_thread c))
    \<and> task S (co_thread c1) p \<and> heap (co_thread c1) p = Some e \<and> ex_state e = HoldUp"
proof -
  have co: "in_coroutine S c" using loop(1-3) by (simp add: in_coroutine_def co_thread_def sched_ok_def loop_ok_def)
  let ?t = "new_timer now (word_of_nat (unat seconds * 1000 mod 2 ^ 32)) (Some (SleepOver p :: 'u closure)) False"
  obtain th c1 where y: "yield p (co_thread c) = Ok th" and c1: "co_sleep fresh now seconds c = Ok c1"
    and w1: "io_world (mgr c1) = (io_world (mgr c))\<lparr>thr := th\<rparr>" "co_thread c1 = th" "kern (mgr c1) = kern (mgr c)"
      "timer_manager (mgr c1) = ms_insert ?t (timer_manager (mgr c))"
    using co_sleep_suspends [OF co, of now seconds fresh] loop(2,4) by (auto simp: Let_def with_thread_def co_thread_def)
  have "running (thr (io_world (mgr c))) = p" using loop(2) by (simp add: co_thread_def)
  then have s: "sched_ok S (io_world (mgr c1))" "running th = S" "task S th p" "\<exists>e. heap th p = Some e \<and> ex_state e = HoldUp"
    "same_but p S (co_thread c) th"
    using yield_keeps_loop [OF loop(1)] loop(3) y w1(1) by (auto simp: co_thread_def)
  then show ?thesis using c1 w1 same_but_dom [OF s(5)] by (auto simp: io_sch_def)
qed

text \<open>
  C8. Sleeping from end to end. A coroutine in a running, otherwise idle loop whose other timers are not
  due calls \<open>co_sleep\<close>: it is suspended and control is back in the loop. As long as the clock is
  before the deadline, the turn of the loop queues nothing and keeps the timer. Once the deadline is reached
  (the clock reading plus the seconds in milliseconds modulo \<open>2^32\<close>, cut off at the largest time), the
  turn takes exactly this timer, the next iteration switches to the coroutine made for its callback, the
  callback queues the sleeper, that coroutine ends and passes the loop's check, and the iteration after
  it switches back to the sleeper.
\<close>

theorem sleeping_coroutine_wakes:
  fixes c :: "('u, 'k) co"
  assumes loop: "sched_ok S (io_world (mgr c))" "running (co_thread c) = p" "p \<noteq> S" "\<not> io_stopped (mgr c)"
      "\<not> stopping (io_sch (mgr c))" "\<not> stop_pending b (io_sch (mgr c))"
      "ready_executors (io_sch (mgr c)) = []" "remote_tasks (io_sch (mgr c)) = []"
    and ts: "timers_ok (timer_manager (mgr c))" "\<forall>t \<in> set (timer_manager (mgr c)). callback t \<noteq> None \<and> now_after 0 < target_timestamp t"
    and alloc: "alloc_ok alloc" "finite (dom (heap (co_thread c)))"
    and wait: "\<forall>timeout. sys_epoll_wait api epoll_wait_max_size timeout (kern (mgr c)) = (Inr [], k)"
  shows "\<exists>c1 m1. co_sleep fresh now seconds c = Ok c1 \<and> running (co_thread c1) = S
    \<and> blockPending api alloc now_before now_after (mgr c1) = Ok m1
    \<and> (if unat (now_after 0) < min (2 ^ 64 - 1) (unat now + unat seconds * 1000 mod 2 ^ 32)
       then ready_executors (io_sch m1) = [] \<and> timer_manager m1 = timer_manager (mgr c1)
       else timer_manager m1 = timer_manager (mgr c) \<and> (\<exists>q w2 c3 th w5.
           sched_iter b (io_world m1) = Ok (Switched q, w2) \<and> new_task (thr (io_world m1)) q (Some (SleepOver p))
         \<and> run_closure api (SleepOver p) (c1\<lparr>mgr := m1\<lparr>io_world := w2\<rparr>\<rparr>) = Ok c3
         \<and> executorMainFunc_end (co_thread c3) = Ok th
         \<and> sched_back q ((io_world (mgr c3))\<lparr>thr := th\<rparr>) = Ok ((io_world (mgr c3))\<lparr>thr := th\<rparr>)
         \<and> sched_iter b ((io_world (mgr c3))\<lparr>thr := th\<rparr>) = Ok (Switched p, w5) \<and> running (thr w5) = p
         \<and> ready_executors (sch w5) = []))"
proof -
  let ?t = "new_timer now (word_of_nat (unat seconds * 1000 mod 2 ^ 32)) (Some (SleepOver p :: 'u closure)) False"
  let ?ts = "timer_manager (mgr c)"
  have "unat (word_of_nat (unat seconds * 1000 mod 2 ^ 32) :: u64) = unat seconds * 1000 mod 2 ^ 32"
    by (simp add: unat_of_nat take_bit_eq_mod)
  then have dl: "now_after 0 < target_timestamp ?t \<longleftrightarrow> unat (now_after 0) < min (2 ^ 64 - 1) (unat now + unat seconds * 1000 mod 2 ^ 32)"
    by (simp only: word_less_nat_alt new_timer_deadline)
  obtain c1 e where c1: "co_sleep fresh now seconds c = Ok c1" "sched_ok S (io_world (mgr c1))" "running (co_thread c1) = S"
    "timer_manager (mgr c1) = ms_insert ?t ?ts" "io_sch (mgr c1) = io_sch (mgr c)" "kern (mgr c1) = kern (mgr c)"
    "dom (heap (co_thread c1)) = dom (heap (co_thread c))" "task S (co_thread c1) p" "heap (co_thread c1) p = Some e" "ex_state e = HoldUp"
    using sleep_parks [OF loop(1-4), of fresh now seconds] by auto
  let ?due = "if target_timestamp ?t \<le> now_after 0 then [?t] else []"
  let ?rest = "if target_timestamp ?t \<le> now_after 0 then ?ts else ms_insert ?t ?ts"
  have fin: "finite (dom (heap (thr (io_world (mgr c1)))))" using alloc(2) c1(7) by (simp add: co_thread_def)
  have cb: "\<forall>t \<in> set (timer_manager (mgr c1)). callback t \<noteq> None" using ts(2) c1(4) by (auto simp: new_timer_def)
  have st: "\<not> stopping (io_sch (mgr c1))" using loop(5) c1(5) by simp
  have wt: "sys_epoll_wait api epoll_wait_max_size (epoll_timeout now_before (timer_manager (mgr c1))) (kern (mgr c1)) = (Inr [], k)"
    using wait c1(6) by simp
  have tk: "takeExpiredTimers now_after (timer_manager (mgr c1)) = (?due, ?rest)"
    unfolding c1(4) using ts by (intro takeExpired_first) (auto simp: new_timer_def)
  obtain w' ps where m1: "blockPending api alloc now_before now_after (mgr c1) = Ok (mgr c1\<lparr>kern := k, timer_manager := ?rest, io_world := w'\<rparr>)"
    "sch w' = (io_sch (mgr c))\<lparr>ready_executors := map Some ps\<rparr>" "sched_ok S w'" "running (thr w') = S" "heap (thr w') p = Some e"
    "list_all2 (\<lambda>q t. new_task (thr w') q (callback t)) ps ?due"
    using blockPending_idle [OF alloc(1) st cb wt tk fin] c1(2,3,5,9) loop(7) unfolding io_sch_def co_thread_def by auto
  have t: "task S (thr w') p" using m1(5) c1(8,9) by (auto simp: task_def)
  show ?thesis
  proof (cases "now_after 0 < target_timestamp ?t")
    case True
    then show ?thesis using m1(1,2,6) c1(1,3,4) dl by (auto simp: io_sch_def)
  next
    case False
    then have "?due = [?t]" by simp
    then obtain q where q: "ps = [q]" "new_task (thr w') q (callback ?t)" using m1(6) by (auto simp: list_all2_Cons2)
    then have n: "new_task (thr w') q (Some (SleepOver p))" by (simp add: new_timer_def)
    let ?m1 = "mgr c1\<lparr>kern := k, timer_manager := ?ts, io_world := w'\<rparr>"
    have "blockPending api alloc now_before now_after (mgr c1) = Ok ?m1" using m1(1) False by simp
    with wake_up_task [of S "c1\<lparr>mgr := ?m1\<rparr>" b q "Some (SleepOver p)" p e api] show ?thesis
      using m1(2-5) q(1) n t c1(1,3,10) loop(5,6,8) False dl by (intro exI [of _ c1] exI [of _ ?m1]) (auto simp: stop_pending_def)
  qed
qed

theorem sleeping_coroutine_wakes_witness:
  "\<exists>c c1 :: (unit, fd \<Rightarrow> u32 option) co. \<exists>m1 q w2 c3 th w5. co_sleep 9 100 2 c = Ok c1
    \<and> blockPending demo_api (\<lambda>th. LEAST p. heap th p = None) (\<lambda>_. 100) (\<lambda>_. 2100) (mgr c1) = Ok m1
    \<and> sched_iter False (io_world m1) = Ok (Switched q, w2)
    \<and> run_closure demo_api (SleepOver 2) (c1\<lparr>mgr := m1\<lparr>io_world := w2\<rparr>\<rparr>) = Ok c3
    \<and> executorMainFunc_end (co_thread c3) = Ok th
    \<and> sched_iter False ((io_world (mgr c3))\<lparr>thr := th\<rparr>) = Ok (Switched 2, w5) \<and> running (thr w5) = 2"
proof -
  obtain w :: "unit closure world" where w: "sched_ok 1 w" "running (thr w) = 2" "ready_executors (sch w) = []"
    "remote_tasks (sch w) = []" "\<not> stopping (sch w)" "\<not> stopped (sch w)" "finite (dom (heap (thr w)))"
    using loop_in_task by blast
  let ?c = "\<lparr>mgr = \<lparr>io_stopped = False, epoll_fd = 3, wakeup_pipe_fd = (4, 5), io_world = w,
      timer_manager = [], fd_events = [], kern = (\<lambda>_. None)\<rparr>, fds = [], flags = (\<lambda>_. None)\<rparr> :: (unit, fd \<Rightarrow> u32 option) co"
  have s: "sched_ok 1 (io_world (mgr ?c))" "running (co_thread ?c) = 2" "(2 :: eptr) \<noteq> 1" "\<not> io_stopped (mgr ?c)"
    "\<not> stopping (io_sch (mgr ?c))" "\<not> stop_pending False (io_sch (mgr ?c))" "ready_executors (io_sch (mgr ?c)) = []"
    "remote_tasks (io_sch (mgr ?c)) = []" "timers_ok (timer_manager (mgr ?c))" "finite (dom (heap (co_thread ?c)))"
    using w by (simp_all add: co_thread_def io_sch_def stop_pending_def)
  have ts: "\<forall>t \<in> set (timer_manager (mgr ?c)). callback t \<noteq> None \<and> (\<lambda>_. 2100) (0 :: nat) < target_timestamp t" by simp
  have wt: "\<forall>timeout. sys_epoll_wait demo_api epoll_wait_max_size timeout (kern (mgr ?c)) = (Inr [], kern (mgr ?c))" by simp
  have d: "\<not> unat (2100 :: u64) < min (2 ^ 64 - 1) (unat (100 :: u64) + unat (2 :: u32) * 1000 mod 2 ^ 32)" by simp
  show ?thesis
    using sleeping_coroutine_wakes [where now_after = "\<lambda>_. 2100" and now_before = "\<lambda>_. 100" and fresh = 9 and now = 100 and seconds = 2,
        OF s(1-9) ts least_alloc_ok s(10) wt] unfolding if_not_P [OF d] by blast
qed

end
